(* ===== verification/Prelude.thy ===== *)
theory Prelude
  imports Main "HOL-Library.AList" "HOL-Library.Word"
begin

text \<open>
  Shared vocabulary of the development.

  \<^item> \<open>outcome\<close>: the result of a Go operation whose loop is not known to stop on every input: a
    value, an error, or \<open>Diverge\<close> (the loop runs for ever).
  \<^item> Go maps that the code ranges over are association lists (\<open>gomap\<close>), read by \<open>map_of\<close>,
    written by \<open>AList.update\<close> and \<open>AList.delete\<close>; the list order stands for the order in which
    a range statement visits the map.
  \<^item> Named collections: \<open>outcome_simps\<close> for the outcome monad and \<open>gomap_simps\<close> for maps.
\<close>

named_theorems outcome_simps
named_theorems gomap_simps

section \<open>Outcomes\<close>

datatype ('e, 'a) outcome = Ok 'a | Fail 'e | Diverge

fun and_then :: "('e, 'a) outcome \<Rightarrow> ('a \<Rightarrow> ('e, 'b) outcome) \<Rightarrow> ('e, 'b) outcome" where
  "and_then (Ok a) f = f a"
| "and_then (Fail e) f = Fail e"
| "and_then Diverge f = Diverge"

lemma and_then_eq_Ok [outcome_simps]:
  "and_then m f = Ok b \<longleftrightarrow> (\<exists>a. m = Ok a \<and> f a = Ok b)"
  by (cases m) auto

lemma and_then_eq_Fail [outcome_simps]:
  "and_then m f = Fail e \<longleftrightarrow> m = Fail e \<or> (\<exists>a. m = Ok a \<and> f a = Fail e)"
  by (cases m) auto

lemma and_then_eq_Diverge [outcome_simps]:
  "and_then m f = Diverge \<longleftrightarrow> m = Diverge \<or> (\<exists>a. m = Ok a \<and> f a = Diverge)"
  by (cases m) auto

lemma and_then_assoc: "and_then (and_then m f) g = and_then m (\<lambda>a. and_then (f a) g)"
  by (cases m) auto

text \<open>A loop over a list whose body may fail: the values in order, or the first failure.\<close>

fun traverse :: "('a \<Rightarrow> ('e, 'b) outcome) \<Rightarrow> 'a list \<Rightarrow> ('e, 'b list) outcome" where
  "traverse f [] = Ok []"
| "traverse f (x # xs) = and_then (f x) (\<lambda>y. and_then (traverse f xs) (\<lambda>ys. Ok (y # ys)))"

lemma traverse_Ok:
  "(\<And>x. x \<in> set xs \<Longrightarrow> f x = Ok (g x)) \<Longrightarrow> traverse f xs = Ok (map g xs)"
  by (induction xs) auto

text \<open>The effect of code that may panic, or wait for ever on a channel.\<close>

datatype 'a effect = Returned 'a | Panicked | Blocked

section \<open>Go maps\<close>

type_synonym ('k, 'v) gomap = "('k \<times> 'v) list"

lemma map_of_update [simp, gomap_simps]:
  "map_of (AList.update k v m) = (map_of m)(k \<mapsto> v)"
  by (rule AList.update_conv')

lemma map_of_delete [simp, gomap_simps]:
  "map_of (AList.delete k m) = (map_of m)(k := None)"
  by (rule AList.delete_conv')

lemma update_fresh: "map_of m k = None \<Longrightarrow> AList.update k v m = m @ [(k, v)]"
  by (induction m) (auto split: if_splits)

lemma distinct_keys_update [intro]:
  "distinct (map fst m) \<Longrightarrow> distinct (map fst (AList.update k v m))"
  by (rule AList.distinct_update)

lemma distinct_keys_delete [intro]:
  "distinct (map fst m) \<Longrightarrow> distinct (map fst (AList.delete k m))"
  by (rule AList.distinct_delete)

lemma map_of_in_set: "distinct (map fst m) \<Longrightarrow> (k, v) \<in> set m \<longleftrightarrow> map_of m k = Some v"
  by (simp add: map_of_eq_Some_iff)

text \<open>Writing many keys: the later write wins.\<close>

definition put_all :: "('k, 'v) gomap \<Rightarrow> ('k \<times> 'v) list \<Rightarrow> ('k, 'v) gomap" where
  "put_all m kvs = foldl (\<lambda>acc (k, v). AList.update k v acc) m kvs"

lemma put_all_simps [simp]:
  "put_all m [] = m"
  "put_all m ((k, v) # kvs) = put_all (AList.update k v m) kvs"
  by (simp_all add: put_all_def)

lemma map_of_put_all [gomap_simps]: "map_of (put_all m kvs) = map_of m ++ map_of (rev kvs)"
  by (induction kvs arbitrary: m) (auto simp: map_add_def fun_eq_iff split: option.splits)

lemma card_dom_map_of_le: "card (dom (map_of m)) \<le> length m"
  by (metis card_length dom_map_of_conv_image_fst length_map list.set_map)

section \<open>Machine integers\<close>

text \<open>A Go \<open>int\<close> is 64 bits wide; \<open>wrap64\<close> is the value of an out-of-range sum.\<close>

definition max_int64 :: int where "max_int64 = 9223372036854775807"

definition wrap64 :: "int \<Rightarrow> int" where
  "wrap64 x = (x + 9223372036854775808) mod 18446744073709551616 - 9223372036854775808"

lemma wrap64_id: "- 9223372036854775808 \<le> x \<Longrightarrow> x \<le> max_int64 \<Longrightarrow> wrap64 x = x"
  by (simp add: wrap64_def max_int64_def)

lemma word_less_Suc: "(v :: 64 word) \<noteq> - 1 \<Longrightarrow> v < v + 1"
proof -
  assume "v \<noteq> - 1"
  then have "v < - 1" using word_n1_ge [of v] by (simp add: order_less_le)
  then have "unat v < 18446744073709551615"
    by (simp add: word_less_nat_alt unsigned_minus_1_eq_mask mask_eq_exp_minus_1)
  then have "unat (v + 1) = unat v + 1" by (simp add: unat_word_ariths)
  then show ?thesis by (simp add: word_less_nat_alt)
qed

text \<open>A list that satisfies a predicate in at most one place.\<close>

lemma single_filter:
  assumes "\<And>i j. i < length xs \<Longrightarrow> j < length xs \<Longrightarrow> P (xs ! i) \<Longrightarrow> P (xs ! j) \<Longrightarrow> i = j"
  shows "length (filter P xs) \<le> 1"
proof -
  have "card {i. i < length xs \<and> P (xs ! i)} \<le> Suc 0" using assms by (subst card_le_Suc0_iff_eq) auto
  then show ?thesis by (simp add: length_filter_conv_card)
qed

end
