(* ===== verification/Grants.thy ===== *)
theory Grants
  imports Go_Strings
begin

text \<open>
  Standing approvals, \<open>agent/types/grant.go\<close>: argument matchers, grant requests, grants and the
  approval records a conversation keeps. JSON arguments are values of \<open>json\<close>; a number is
  represented by its JSON text.
\<close>

type_synonym time = int

section \<open>JSON values\<close>

datatype json =
    JNull
  | JBool bool
  | JNum string
  | JStr string
  | JArr "json list"
  | JObj "(string \<times> json) list"

text \<open>\<open>encoding/json.Marshal\<close>: object keys in order, strings escaped as Go escapes them.\<close>

definition hex_digit :: "nat \<Rightarrow> char" where
  "hex_digit d = (if d < 10 then char_of (48 + d) else char_of (87 + d))"

definition escape_char :: "char \<Rightarrow> string" where
  "escape_char c =
     (let n = (of_char c :: nat) in
      if c = CHR 0x22 then [CHR 0x5C, CHR 0x22]
      else if c = CHR 0x5C then [CHR 0x5C, CHR 0x5C]
      else if n = 8 then [CHR 0x5C, CHR ''b'']
      else if n = 12 then [CHR 0x5C, CHR ''f'']
      else if n = 10 then [CHR 0x5C, CHR ''n'']
      else if n = 13 then [CHR 0x5C, CHR ''r'']
      else if n = 9 then [CHR 0x5C, CHR ''t'']
      else if n < 32 \<or> c \<in> set ''<>&'' then
        [CHR 0x5C, CHR ''u'', CHR ''0'', CHR ''0'', hex_digit (n div 16), hex_digit (n mod 16)]
      else [c])"

definition marshal_string :: "string \<Rightarrow> string" where
  "marshal_string s = CHR 0x22 # concat (map escape_char s) @ [CHR 0x22]"

fun marshal :: "json \<Rightarrow> string" where
  "marshal JNull = ''null''"
| "marshal (JBool b) = (if b then ''true'' else ''false'')"
| "marshal (JNum t) = t"
| "marshal (JStr s) = marshal_string s"
| "marshal (JArr xs) = ''['' @ join_with '','' (map marshal xs) @ '']''"
| "marshal (JObj kvs) =
     ''{'' @ join_with '',''
       (map (\<lambda>(k, v). marshal_string k @ '':'' @ v)
         (sort_key fst (map (\<lambda>(k, v). (k, marshal v)) kvs))) @ ''}''"

section \<open>path.Clean\<close>

text \<open>
  \<open>path.Clean\<close> works through the components of a slash-separated path: empty and \<open>.\<close> components
  disappear, \<open>..\<close> removes the component before it, and a \<open>..\<close> at the root disappears.
\<close>

definition rooted :: "string \<Rightarrow> bool" where
  "rooted s = has_prefix s ''/''"

fun clean_comp :: "bool \<Rightarrow> string list \<Rightarrow> string \<Rightarrow> string list" where
  "clean_comp ab st c =
     (if c = [] \<or> c = ''.'' then st
      else if c = ''..'' then
        (if st \<noteq> [] \<and> last st \<noteq> ''..'' then butlast st
         else if ab then st else st @ [''..''])
      else st @ [c])"

definition clean_comps :: "string \<Rightarrow> string list" where
  "clean_comps s = foldl (clean_comp (rooted s)) [] (split_on CHR ''/'' s)"

definition render_path :: "bool \<Rightarrow> string list \<Rightarrow> string" where
  "render_path ab cs =
     (if ab then CHR ''/'' # join_with ''/'' cs
      else if cs = [] then ''.'' else join_with ''/'' cs)"

definition path_clean :: "string \<Rightarrow> string" where
  "path_clean s = render_path (rooted s) (clean_comps s)"

section \<open>Matchers\<close>

datatype grant_error = ErrMatcher | ErrOnlyArgsTakesMatchers | ErrArgsNeedsMatcher | ErrUnknownScope string

record arg_match =
  am_field :: string
  am_equals :: string
  am_prefix :: string
  am_path_prefix :: string

definition arg_match_validate :: "arg_match \<Rightarrow> grant_error option" where
  "arg_match_validate m =
     (let n = length (filter (\<lambda>c. c \<noteq> []) [am_equals m, am_prefix m, am_path_prefix m])
      in if am_field m = [] \<or> n \<noteq> 1 then Some ErrMatcher else None)"

fun lookup_parts :: "json \<Rightarrow> string list \<Rightarrow> json option" where
  "lookup_parts v [] = Some v"
| "lookup_parts (JObj kvs) (p # ps) =
     (case map_of kvs p of None \<Rightarrow> None | Some v \<Rightarrow> lookup_parts v ps)"
| "lookup_parts v (p # ps) = None"

definition lookup_arg :: "(string \<times> json) list \<Rightarrow> string \<Rightarrow> json option" where
  "lookup_arg args field = lookup_parts (JObj args) (split_on CHR ''.'' field)"

definition path_under :: "string \<Rightarrow> string \<Rightarrow> bool" where
  "path_under root s =
     (let p = path_clean s; r = path_clean root
      in p = r \<or> has_prefix p (trim_suffix r ''/'' @ ''/''))"

definition arg_matches :: "arg_match \<Rightarrow> (string \<times> json) list \<Rightarrow> bool" where
  "arg_matches m args =
     (case lookup_arg args (am_field m) of
        None \<Rightarrow> False
      | Some v \<Rightarrow>
          if v = JNull then False
          else if am_equals m \<noteq> [] then
            (case v of JStr s \<Rightarrow> s = am_equals m | _ \<Rightarrow> marshal v = am_equals m)
          else if am_prefix m \<noteq> [] then
            (case v of JStr s \<Rightarrow> has_prefix s (am_prefix m) | _ \<Rightarrow> False)
          else if am_path_prefix m \<noteq> [] then
            (case v of JStr s \<Rightarrow> s \<noteq> [] \<and> path_under (am_path_prefix m) s | _ \<Rightarrow> False)
          else False)"

section \<open>Grants\<close>

text \<open>A scope is a string; the four constants name the known ones. Times are nanoseconds, 0 for
  Go's zero time.\<close>

definition "GrantOnce = ''once''"
definition "GrantTool = ''tool''"
definition "GrantArgs = ''args''"
definition "GrantSession = ''session''"

lemmas grant_scopes = GrantOnce_def GrantTool_def GrantArgs_def GrantSession_def

record grant_request =
  gr_scope :: string
  gr_match :: "arg_match list"
  gr_expires :: time

fun validate_all :: "arg_match list \<Rightarrow> grant_error option" where
  "validate_all [] = None"
| "validate_all (m # ms) =
     (case arg_match_validate m of Some e \<Rightarrow> Some e | None \<Rightarrow> validate_all ms)"

definition grant_validate :: "grant_request \<Rightarrow> grant_error option" where
  "grant_validate g =
     (if gr_scope g \<in> set [GrantOnce, GrantTool, GrantSession] then
        (if gr_match g \<noteq> [] then Some ErrOnlyArgsTakesMatchers else None)
      else if gr_scope g = GrantArgs then
        (if gr_match g = [] then Some ErrArgsNeedsMatcher else validate_all (gr_match g))
      else Some (ErrUnknownScope (gr_scope g)))"

record grant =
  g_id :: string
  g_scope :: string
  g_tool :: string
  g_match :: "arg_match list"
  g_expires :: time
  g_granted_by :: string
  g_call_id :: string

text \<open>
  \<open>digest\<close> stands for the hex text of the first eight bytes of SHA-256 (crypto/sha256), which the
  code applies to the call, the tool and the scope separated by zero bytes.
\<close>

definition new_grant :: "(string \<Rightarrow> string) \<Rightarrow> grant_request \<Rightarrow> string \<Rightarrow> string \<Rightarrow> string \<Rightarrow> grant option" where
  "new_grant digest req tool call_id approver =
     (if gr_scope req = GrantOnce \<or> gr_scope req = [] then None
      else Some \<lparr>g_id = ''grant_'' @ digest (call_id @ [CHR 0x00] @ tool @ [CHR 0x00] @ gr_scope req),
                 g_scope = gr_scope req,
                 g_tool = (if gr_scope req \<noteq> GrantSession then tool else []),
                 g_match = gr_match req, g_expires = gr_expires req,
                 g_granted_by = approver, g_call_id = call_id\<rparr>)"

definition covers :: "grant \<Rightarrow> string \<Rightarrow> (string \<times> json) list \<Rightarrow> time \<Rightarrow> bool" where
  "covers g tool args now =
     (if g_expires g \<noteq> 0 \<and> \<not> now < g_expires g then False
      else if g_scope g = GrantSession then True
      else if g_scope g = GrantTool then g_tool g = tool
      else if g_scope g = GrantArgs then
        g_tool g = tool \<and> g_match g \<noteq> [] \<and> list_all (\<lambda>m. arg_matches m args) (g_match g)
      else False)"

section \<open>Approval records\<close>

datatype approval_event =
    EvApproved
  | EvGranted
  | EvDenied
  | EvAutoApproved
  | EvAutoDenied
  | EvSnapshot

record approval_part =
  ap_event :: approval_event
  ap_tool :: string
  ap_call_id :: string
  ap_grant :: "grant option"
  ap_grant_id :: string
  ap_approver :: string
  ap_reason :: string
  ap_grants :: "grant list"
  ap_approvals :: "(string, int) gomap"
  ap_denials :: "(string, int) gomap"

datatype verdict = VerdictAsk | VerdictApprove | VerdictDeny

record approval_verdict =
  av_outcome :: verdict
  av_grant :: string
  av_reason :: string

section \<open>What cleaning guarantees\<close>

text \<open>A component that is a name: not empty, not a dot component, and without a slash.\<close>

definition is_name :: "string \<Rightarrow> bool" where
  "is_name c = (c \<noteq> [] \<and> c \<noteq> ''.'' \<and> c \<noteq> ''..'' \<and> CHR ''/'' \<notin> set c)"

text \<open>Cleaned components: some leading \<open>..\<close>, none when rooted, then names.\<close>

definition clean_form :: "bool \<Rightarrow> string list \<Rightarrow> bool" where
  "clean_form ab cs =
     (\<exists>k ns. cs = replicate k ''..'' @ ns \<and> list_all is_name ns \<and> (ab \<longrightarrow> k = 0))"

lemma clean_form_Nil [simp]: "clean_form ab []"
  unfolding clean_form_def by (rule exI [of _ 0]) auto

lemma clean_form_snoc:
  assumes "clean_form ab st" and "is_name c"
  shows "clean_form ab (st @ [c])"
proof -
  from assms(1) obtain k ns where st: "st = replicate k ''..'' @ ns" "list_all is_name ns" "ab \<longrightarrow> k = 0"
    unfolding clean_form_def by blast
  have "st @ [c] = replicate k ''..'' @ (ns @ [c])" using st by simp
  moreover have "list_all is_name (ns @ [c])" using st assms(2) by simp
  ultimately show ?thesis using st(3) unfolding clean_form_def by blast
qed

lemma clean_comp_form:
  assumes form: "clean_form ab st" and slash: "CHR ''/'' \<notin> set c"
  shows "clean_form ab (clean_comp ab st c)"
proof -
  from form obtain k ns where st: "st = replicate k ''..'' @ ns" "list_all is_name ns" "ab \<longrightarrow> k = 0"
    unfolding clean_form_def by blast
  consider "c = [] \<or> c = ''.''" | "c = ''..''" | "is_name c"
    using slash by (auto simp: is_name_def)
  then show ?thesis
  proof cases
    case 1
    then show ?thesis using form by auto
  next
    case 2
    show ?thesis
    proof (cases "ns = []")
      case True
      then have "st = [] \<or> last st = ''..''" using st(1) by (cases k) auto
      moreover have "clean_form ab (st @ [''..''])" if "\<not> ab"
      proof -
        have "st @ [''..''] = replicate (Suc k) ''..'' @ []"
          using st(1) True by (simp add: replicate_append_same)
        then show ?thesis using that unfolding clean_form_def
          by (intro exI [of _ "Suc k"] exI [of _ "[]"]) simp
      qed
      ultimately show ?thesis using 2 form by auto
    next
      case False
      then have "last st \<noteq> ''..''" using st by (auto simp: is_name_def list_all_iff)
      moreover have "clean_form ab (butlast st)"
        unfolding clean_form_def using st False
        by (intro exI [of _ k] exI [of _ "butlast ns"])
          (auto simp: butlast_append list_all_iff dest: in_set_butlastD)
      ultimately show ?thesis using 2 st False by auto
    qed
  next
    case 3
    then show ?thesis using clean_form_snoc [OF form] by (auto simp: is_name_def)
  qed
qed

lemma clean_comps_form: "clean_form (rooted s) (clean_comps s)"
proof -
  have "clean_form ab (foldl (clean_comp ab) st cs)"
    if "clean_form ab st" and "\<And>c. c \<in> set cs \<Longrightarrow> CHR ''/'' \<notin> set c" for ab st cs
    using that by (induction cs arbitrary: st) (simp_all add: clean_comp_form del: clean_comp.simps)
  moreover have "CHR ''/'' \<notin> set c" if "c \<in> set (split_on CHR ''/'' s)" for c
    using that by (rule split_on_parts_free)
  ultimately show ?thesis unfolding clean_comps_def by simp
qed

lemma clean_form_comps:
  assumes "clean_form ab cs" and "c \<in> set cs"
  shows "c \<noteq> [] \<and> c \<noteq> ''.'' \<and> CHR ''/'' \<notin> set c"
proof -
  from assms(1) obtain k ns where cs: "cs = replicate k ''..'' @ ns" "list_all is_name ns"
    unfolding clean_form_def by blast
  from assms(2) cs(1) consider "c = ''..''" | "c \<in> set ns"
    by (auto simp: set_replicate_conv_if split: if_splits)
  then show ?thesis
  proof cases
    case 1
    then show ?thesis by simp
  next
    case 2
    with cs(2) have "is_name c" by (auto simp: list_all_iff)
    then show ?thesis by (simp add: is_name_def)
  qed
qed

text \<open>After the last component that is not \<open>..\<close> no \<open>..\<close> follows.\<close>

lemma clean_form_tail:
  assumes "clean_form ab (rs @ ts)" and "rs \<noteq> []" and "last rs \<noteq> ''..''"
  shows "list_all is_name ts"
proof -
  from assms(1) obtain k ns where k: "rs @ ts = replicate k ''..'' @ ns" "list_all is_name ns"
    unfolding clean_form_def by blast
  from k(1) obtain us where
    "(rs = replicate k ''..'' @ us \<and> us @ ts = ns) \<or> (rs @ us = replicate k ''..'' \<and> ts = us @ ns)"
    unfolding append_eq_append_conv2 by blast
  then show ?thesis
  proof
    assume "rs = replicate k ''..'' @ us \<and> us @ ts = ns"
    then show ?thesis using k(2) by (auto simp: list_all_iff)
  next
    assume "rs @ us = replicate k ''..'' \<and> ts = us @ ns"
    then have "last rs \<in> set (replicate k ''..'')"
      using assms(2) by (metis UnI1 last_in_set set_append)
    with assms(3) show ?thesis by simp
  qed
qed

end
