(* ===== verification/Conversation.thy ===== *)
theory Conversation
  imports Grants
begin

text \<open>
  The data of a conversation: messages and their parts (\<open>agent/types/message.go\<close>, \<open>part.go\<close>),
  tree nodes, checkpoints and tree paths (\<open>agent/types/node.go\<close>), write-ahead-log operations
  (\<open>agent/types/wal.go\<close>) and the errors of the tree (\<open>agent/tree/errors.go\<close>). Part kinds the
  modelled code does not tell apart are one constructor, \<open>OtherPart\<close>, that carries the kind.
\<close>

section \<open>Messages\<close>

datatype part =
    TextPart string
  | ThinkingPart string string
  | ToolCallPart string string
  | ToolResultPart string string
  | ApprovalPart approval_part
  | OtherPart string

datatype message =
    SystemMessage "part list"
  | UserMessage "part list"
  | AssistantMessage "part list"

definition is_tool_result :: "part \<Rightarrow> bool" where
  "is_tool_result p = (case p of ToolResultPart _ _ \<Rightarrow> True | _ \<Rightarrow> False)"

section \<open>Nodes\<close>

type_synonym node_id = string
type_synonym branch_id = string
type_synonym checkpoint_id = string

datatype node_state = NodeActive | NodeArchived | NodeCompacted | NodeFeedback

text \<open>A version is a 64-bit unsigned integer; the root's parent is the empty string.\<close>

record node =
  n_id :: node_id
  n_parent :: node_id
  n_message :: message
  n_state :: node_state
  n_version :: "64 word"
  n_depth :: int
  n_branch :: branch_id
  n_created :: time
  n_updated :: time
  n_archived_at :: "time option"
  n_archived_by :: string
  n_summary_of :: "node_id list"

record checkpoint =
  cp_id :: checkpoint_id
  cp_branch :: branch_id
  cp_node :: node_id
  cp_name :: string
  cp_created :: time

section \<open>Write-ahead-log operations\<close>

datatype op_kind =
    TxOpAddNode
  | TxOpUpdateNode
  | TxOpSetBranch
  | TxOpAddChild
  | TxOpAddCheckpoint
  | TxOpSetActive
  | TxOpOther string

record tx_op =
  op_kind :: op_kind
  op_node_id :: node_id
  op_parent_id :: node_id
  op_node :: "node option"
  op_branch :: branch_id
  op_tip :: node_id
  op_checkpoint :: "checkpoint option"

text \<open>A Go composite literal leaves the fields it does not name at their zero values.\<close>

definition blank_op :: "op_kind \<Rightarrow> tx_op" where
  "blank_op k = \<lparr>op_kind = k, op_node_id = [], op_parent_id = [], op_node = None,
     op_branch = [], op_tip = [], op_checkpoint = None\<rparr>"

definition add_node_op :: "node \<Rightarrow> tx_op" where
  "add_node_op n = (blank_op TxOpAddNode)
     \<lparr>op_node_id := n_id n, op_parent_id := n_parent n, op_node := Some n\<rparr>"

definition update_node_op :: "node \<Rightarrow> tx_op" where
  "update_node_op n = (blank_op TxOpUpdateNode)\<lparr>op_node_id := n_id n, op_node := Some n\<rparr>"

definition set_branch_op :: "branch_id \<Rightarrow> node_id \<Rightarrow> tx_op" where
  "set_branch_op b tip = (blank_op TxOpSetBranch)\<lparr>op_branch := b, op_tip := tip\<rparr>"

definition set_active_op :: "branch_id \<Rightarrow> tx_op" where
  "set_active_op b = (blank_op TxOpSetActive)\<lparr>op_branch := b\<rparr>"

definition add_checkpoint_op :: "checkpoint \<Rightarrow> tx_op" where
  "add_checkpoint_op c = (blank_op TxOpAddCheckpoint)\<lparr>op_checkpoint := Some c\<rparr>"

lemmas op_defs = blank_op_def add_node_op_def update_node_op_def set_branch_op_def
  set_active_op_def add_checkpoint_op_def

section \<open>Errors\<close>

text \<open>
  The sentinel errors of the tree, the ones that wrap another error, and \<open>ErrOther\<close> for errors
  the code builds in place.
\<close>

datatype terr =
    ErrNodeNotFound node_id
  | ErrNodeArchived node_id
  | ErrVersionConflict node_id
  | ErrInvalidBranchPoint
  | ErrCheckpointNotFound checkpoint_id
  | ErrBranchNotFound branch_id
  | ErrRootImmutable
  | ErrNodeIsLeaf node_id
  | ErrStoreWrite terr
  | ErrWALCommit terr
  | ErrWrapped string terr
  | ErrOther string

text \<open>\<open>errors.Is\<close> for the two sentinels the code tests, through every wrapper.\<close>

fun is_wal_commit :: "terr \<Rightarrow> bool" where
  "is_wal_commit (ErrWALCommit e) = True"
| "is_wal_commit (ErrStoreWrite e) = is_wal_commit e"
| "is_wal_commit (ErrWrapped s e) = is_wal_commit e"
| "is_wal_commit _ = False"

fun is_version_conflict :: "terr \<Rightarrow> bool" where
  "is_version_conflict (ErrVersionConflict i) = True"
| "is_version_conflict (ErrStoreWrite e) = is_version_conflict e"
| "is_version_conflict (ErrWALCommit e) = is_version_conflict e"
| "is_version_conflict (ErrWrapped s e) = is_version_conflict e"
| "is_version_conflict _ = False"

section \<open>Tree paths\<close>

type_synonym tree_path = "int list"

definition path_string :: "tree_path \<Rightarrow> string" where
  "path_string p = (if p = [] then [] else join_with ''/'' (map itoa p))"

fun atoi_all :: "string list \<Rightarrow> int list option" where
  "atoi_all [] = Some []"
| "atoi_all (w # ws) =
     (case atoi w of None \<Rightarrow> None
      | Some i \<Rightarrow> (case atoi_all ws of None \<Rightarrow> None | Some is \<Rightarrow> Some (i # is)))"

definition parse_tree_path :: "string \<Rightarrow> tree_path option" where
  "parse_tree_path s = (if s = [] then Some [] else atoi_all (split_on CHR ''/'' s))"

text \<open>\<open>Parent\<close> returns nil for paths of length at most one: nil and the empty path are one list.\<close>

definition path_parent :: "tree_path \<Rightarrow> tree_path" where
  "path_parent p = (if length p \<le> 1 then [] else butlast p)"

fun is_ancestor_of :: "tree_path \<Rightarrow> tree_path \<Rightarrow> bool" where
  "is_ancestor_of [] q = (q \<noteq> [])"
| "is_ancestor_of (i # p) [] = False"
| "is_ancestor_of (i # p) (j # q) = (i = j \<and> is_ancestor_of p q)"

definition go_int :: "int \<Rightarrow> bool" where
  "go_int i = (- 9223372036854775808 \<le> i \<and> i \<le> max_int64)"

lemma itoa_no_slash: "CHR ''/'' \<notin> set (itoa i)"
proof -
  have "CHR ''/'' \<notin> set (nat_digits n)" for n
    using nat_digits_ok [of n] is_digit_not_sign by (auto simp: list_all_iff)
  then show ?thesis by (simp add: itoa_def)
qed

lemma itoa_nonempty: "itoa i \<noteq> []"
  using nat_digits_ok by (simp add: itoa_def)

lemma atoi_all_itoa: "list_all go_int p \<Longrightarrow> atoi_all (map itoa p) = Some p"
  by (induction p) (simp_all add: go_int_def atoi_itoa)

lemma parse_path_string: "list_all go_int p \<Longrightarrow> parse_tree_path (path_string p) = Some p"
proof (cases p)
  case (Cons i q)
  assume ok: "list_all go_int p"
  have "join_with ''/'' (map itoa p) \<noteq> []"
    using Cons itoa_nonempty by (cases q) auto
  moreover have "split_on CHR ''/'' (join_with ''/'' (map itoa p)) = map itoa p"
    using Cons itoa_no_slash by (intro split_join) auto
  ultimately show ?thesis
    using Cons ok atoi_all_itoa [OF ok] by (simp add: parse_tree_path_def path_string_def)
qed (simp add: parse_tree_path_def path_string_def)

lemma is_ancestor_of_iff: "is_ancestor_of p q \<longleftrightarrow> strict_prefix p q"
  by (induction p q rule: is_ancestor_of.induct) (auto simp: strict_prefix_def)

lemma path_parent_ancestor: "2 \<le> length p \<Longrightarrow> is_ancestor_of (path_parent p) p"
proof -
  assume "2 \<le> length p"
  then have "p = butlast p @ [last p]" by (cases p) auto
  with \<open>2 \<le> length p\<close> show ?thesis
    unfolding is_ancestor_of_iff path_parent_def
    by (metis not_numeral_le_zero numeral_2_eq_2 not_less_eq_eq One_nat_def strict_prefixI' )
qed

end
