(* ===== verification/Backend.thy ===== *)
theory Backend
  imports Conversation
begin

text \<open>
  The interfaces a conversation tree writes through: the write-ahead log (\<open>types.WAL\<close>) and the
  store with its transactions (\<open>types.Store\<close>, \<open>types.StoreTx\<close>), as records of functions over an
  arbitrary state, so that every implementation, a failing one included, is an instance. Then
  \<open>ApplyOps\<close> (\<open>agent/tree/persist.go\<close>), the one mapping from log operations to store writes, and
  the contracts of the two interfaces as locales:

  \<^item> \<open>durable_store\<close>: a transaction of operations either takes effect as a whole on the abstract
    \<open>view\<close> of the store, or leaves it as it was;
  \<^item> \<open>write_ahead_log\<close>: a transaction that was begun, filled and committed is appended to the
    pending ones, any other leaves them as they were.

  Neither raises the tree's own sentinel \<open>ErrWALCommit\<close>, which only \<open>walTx\<close> wraps around an error.
\<close>

section \<open>Interfaces\<close>

record 'w wal_ops =
  wal_begin :: "'w \<Rightarrow> 'w \<times> (terr + string)"
  wal_append :: "'w \<Rightarrow> string \<Rightarrow> tx_op \<Rightarrow> 'w \<times> terr option"
  wal_commit :: "'w \<Rightarrow> string \<Rightarrow> 'w \<times> terr option"
  wal_abort :: "'w \<Rightarrow> string \<Rightarrow> 'w \<times> terr option"

text \<open>
  \<open>tx_save_active\<close> is the optional interface \<open>ActiveBranchWriter\<close> of a transaction. \<open>run_tx\<close> runs
  a callback on a transaction.
\<close>

record ('s, 't) store_ops =
  tx_save_node :: "'t \<Rightarrow> node \<Rightarrow> 't \<times> terr option"
  tx_save_branch :: "'t \<Rightarrow> branch_id \<Rightarrow> node_id \<Rightarrow> 't \<times> terr option"
  tx_save_checkpoint :: "'t \<Rightarrow> checkpoint \<Rightarrow> 't \<times> terr option"
  tx_save_active :: "('t \<Rightarrow> branch_id \<Rightarrow> 't \<times> terr option) option"
  run_tx :: "'s \<Rightarrow> ('t \<Rightarrow> 't \<times> terr option) \<Rightarrow> 's \<times> terr option"

record ('w, 's, 't) backend =
  bk_wal :: "'w wal_ops"
  bk_store :: "('s, 't) store_ops"

section \<open>ApplyOps\<close>

definition apply_op :: "('s, 't) store_ops \<Rightarrow> 't \<Rightarrow> tx_op \<Rightarrow> 't \<times> terr option" where
  "apply_op so tx op =
     (case op_kind op of
        TxOpAddNode \<Rightarrow> (case op_node op of None \<Rightarrow> (tx, Some (ErrOther ''op has no node''))
                                       | Some n \<Rightarrow> tx_save_node so tx n)
      | TxOpUpdateNode \<Rightarrow> (case op_node op of None \<Rightarrow> (tx, Some (ErrOther ''op has no node''))
                                          | Some n \<Rightarrow> tx_save_node so tx n)
      | TxOpAddChild \<Rightarrow> (case op_node op of None \<Rightarrow> (tx, Some (ErrOther ''op has no node''))
                                        | Some n \<Rightarrow> tx_save_node so tx n)
      | TxOpSetBranch \<Rightarrow> tx_save_branch so tx (op_branch op) (op_tip op)
      | TxOpAddCheckpoint \<Rightarrow>
          (case op_checkpoint op of None \<Rightarrow> (tx, Some (ErrOther ''op has no checkpoint''))
                                  | Some c \<Rightarrow> tx_save_checkpoint so tx c)
      | TxOpSetActive \<Rightarrow>
          (case tx_save_active so of None \<Rightarrow> (tx, None) | Some f \<Rightarrow> f tx (op_branch op))
      | TxOpOther k \<Rightarrow> (tx, Some (ErrOther ''unknown op kind'')))"

fun apply_ops :: "('s, 't) store_ops \<Rightarrow> 't \<Rightarrow> tx_op list \<Rightarrow> 't \<times> terr option" where
  "apply_ops so tx [] = (tx, None)"
| "apply_ops so tx (op # ops) =
     (case apply_op so tx op of
        (tx', Some e) \<Rightarrow> (tx', Some e)
      | (tx', None) \<Rightarrow> apply_ops so tx' ops)"

lemma apply_ops_append:
  "apply_ops so tx (xs @ ys) =
     (case apply_ops so tx xs of (tx', Some e) \<Rightarrow> (tx', Some e) | (tx', None) \<Rightarrow> apply_ops so tx' ys)"
  by (induction xs arbitrary: tx) (auto split: prod.splits option.splits)

text \<open>\<open>Tree.persist\<close>: all operations in one store transaction.\<close>

definition persist :: "('s, 't) store_ops \<Rightarrow> 's \<Rightarrow> tx_op list \<Rightarrow> 's \<times> terr option" where
  "persist so s ops =
     (case run_tx so s (\<lambda>tx. apply_ops so tx ops) of
        (s', None) \<Rightarrow> (s', None)
      | (s', Some e) \<Rightarrow> (s', Some (ErrStoreWrite e)))"

section \<open>Opening a log transaction\<close>

fun append_all :: "'w wal_ops \<Rightarrow> 'w \<Rightarrow> string \<Rightarrow> tx_op list \<Rightarrow> 'w \<times> terr option" where
  "append_all wo w tx [] = (w, None)"
| "append_all wo w tx (op # ops) =
     (case wal_append wo w tx op of
        (w', Some e) \<Rightarrow> (fst (wal_abort wo w' tx), Some e)
      | (w', None) \<Rightarrow> append_all wo w' tx ops)"

definition open_tx :: "'w wal_ops \<Rightarrow> 'w \<Rightarrow> tx_op list \<Rightarrow> 'w \<times> (terr + string)" where
  "open_tx wo w ops =
     (case wal_begin wo w of
        (w', Inl e) \<Rightarrow> (w', Inl e)
      | (w', Inr tx) \<Rightarrow>
          (case append_all wo w' tx ops of
             (w'', Some e) \<Rightarrow> (w'', Inl e)
           | (w'', None) \<Rightarrow> (w'', Inr tx)))"

section \<open>The abstract content of a store\<close>

record view =
  v_nodes :: "node_id \<Rightarrow> node option"
  v_branches :: "branch_id \<Rightarrow> node_id option"
  v_checkpoints :: "checkpoint_id \<Rightarrow> checkpoint option"
  v_active :: branch_id

lemma view_eq_iff:
  "(v :: view) = w \<longleftrightarrow> v_nodes v = v_nodes w \<and> v_branches v = v_branches w \<and>
     v_checkpoints v = v_checkpoints w \<and> v_active v = v_active w"
  by (auto intro: view.equality)

definition empty_view :: view where
  "empty_view = \<lparr>v_nodes = Map.empty, v_branches = Map.empty, v_checkpoints = Map.empty,
     v_active = []\<rparr>"

text \<open>A node write takes effect when it is new or newer, and conflicts when it is older.\<close>

definition newer :: "view \<Rightarrow> node \<Rightarrow> bool" where
  "newer v n = (case v_nodes v (n_id n) of None \<Rightarrow> True | Some m \<Rightarrow> n_version m < n_version n)"

definition stale :: "view \<Rightarrow> node \<Rightarrow> bool" where
  "stale v n = (case v_nodes v (n_id n) of None \<Rightarrow> False | Some m \<Rightarrow> n_version n < n_version m)"

definition put_node :: "view \<Rightarrow> node \<Rightarrow> view" where
  "put_node v n = (if newer v n then v\<lparr>v_nodes := (v_nodes v)(n_id n \<mapsto> n)\<rparr> else v)"

definition view_op :: "view \<Rightarrow> tx_op \<Rightarrow> view" where
  "view_op v op =
     (case op_kind op of
        TxOpAddNode \<Rightarrow> (case op_node op of None \<Rightarrow> v | Some n \<Rightarrow> put_node v n)
      | TxOpUpdateNode \<Rightarrow> (case op_node op of None \<Rightarrow> v | Some n \<Rightarrow> put_node v n)
      | TxOpAddChild \<Rightarrow> (case op_node op of None \<Rightarrow> v | Some n \<Rightarrow> put_node v n)
      | TxOpSetBranch \<Rightarrow> v\<lparr>v_branches := (v_branches v)(op_branch op \<mapsto> op_tip op)\<rparr>
      | TxOpAddCheckpoint \<Rightarrow>
          (case op_checkpoint op of None \<Rightarrow> v
           | Some c \<Rightarrow> v\<lparr>v_checkpoints := (v_checkpoints v)(cp_id c \<mapsto> c)\<rparr>)
      | TxOpSetActive \<Rightarrow> v\<lparr>v_active := op_branch op\<rparr>
      | TxOpOther k \<Rightarrow> v)"

definition view_ops :: "view \<Rightarrow> tx_op list \<Rightarrow> view" where
  "view_ops v ops = foldl view_op v ops"

lemma view_ops_simps [simp]:
  "view_ops v [] = v"
  "view_ops v (op # ops) = view_ops (view_op v op) ops"
  "view_ops v (xs @ ys) = view_ops (view_ops v xs) ys"
  by (simp_all add: view_ops_def)

lemma view_op_literals [simp]:
  "view_op v (add_node_op n) = put_node v n"
  "view_op v (update_node_op n) = put_node v n"
  "view_op v (set_branch_op b i) = v\<lparr>v_branches := (v_branches v)(b \<mapsto> i)\<rparr>"
  "view_op v (set_active_op b) = v\<lparr>v_active := b\<rparr>"
  "view_op v (add_checkpoint_op c) = v\<lparr>v_checkpoints := (v_checkpoints v)(cp_id c \<mapsto> c)\<rparr>"
  by (simp_all add: view_op_def op_defs)

section \<open>Replaying a history twice\<close>

lemma newer_mono: "v_nodes v (n_id n) = Some m \<Longrightarrow> n_version n \<le> n_version m \<Longrightarrow>
   \<exists>k. v_nodes (view_op v op) (n_id n) = Some k \<and> n_version n \<le> n_version k"
  by (auto simp: view_op_def put_node_def newer_def
      split: op_kind.split option.splits intro: order_trans less_imp_le)

definition covered :: "view \<Rightarrow> node \<Rightarrow> bool" where
  "covered v n = (\<exists>k. v_nodes v (n_id n) = Some k \<and> n_version n \<le> n_version k)"

lemma covered_newer: "covered v n \<Longrightarrow> \<not> newer v n"
  by (auto simp: covered_def newer_def)

lemma covered_view_ops: "covered v n \<Longrightarrow> covered (view_ops v ops) n"
proof (induction ops arbitrary: v)
  case (Cons op ops)
  then have "covered (view_op v op) n" using newer_mono by (auto simp: covered_def)
  then show ?case using Cons.IH by simp
qed simp

lemma covered_put: "covered (put_node v n) n"
  by (auto simp: covered_def put_node_def newer_def split: option.splits)

definition node_write :: "tx_op \<Rightarrow> node option" where
  "node_write op =
     (if op_kind op \<in> {TxOpAddNode, TxOpUpdateNode, TxOpAddChild} then op_node op else None)"

lemma view_op_nodes:
  "v_nodes (view_op v op) = (case node_write op of None \<Rightarrow> v_nodes v | Some n \<Rightarrow> v_nodes (put_node v n))"
  by (auto simp: view_op_def node_write_def split: op_kind.split option.split)

lemma written_covered: "op \<in> set ops \<Longrightarrow> node_write op = Some n \<Longrightarrow> covered (view_ops v ops) n"
proof (induction ops arbitrary: v)
  case (Cons op' ops)
  show ?case
  proof (cases "op = op'")
    case True
    then have "covered (view_op v op') n"
      using Cons.prems(2) covered_put [of v n] by (simp add: covered_def view_op_nodes)
    then show ?thesis by (simp add: covered_view_ops)
  qed (use Cons in auto)
qed simp

lemma nodes_fixed:
  "\<forall>op\<in>set ops. \<forall>n. node_write op = Some n \<longrightarrow> covered v n \<Longrightarrow> v_nodes (view_ops v ops) = v_nodes v"
proof (induction ops arbitrary: v)
  case (Cons op ops)
  have same: "v_nodes (view_op v op) = v_nodes v"
    using Cons.prems covered_newer by (auto simp: view_op_nodes put_node_def split: option.splits)
  then have "\<forall>o'\<in>set ops. \<forall>n. node_write o' = Some n \<longrightarrow> covered (view_op v op) n"
    using Cons.prems by (simp add: covered_def)
  then show ?case using Cons.IH same by simp
qed simp

fun branch_writes :: "tx_op list \<Rightarrow> branch_id \<Rightarrow> node_id option" where
  "branch_writes [] = Map.empty"
| "branch_writes (op # ops) =
     (if op_kind op = TxOpSetBranch then [op_branch op \<mapsto> op_tip op] else Map.empty) ++ branch_writes ops"

fun checkpoint_writes :: "tx_op list \<Rightarrow> checkpoint_id \<Rightarrow> checkpoint option" where
  "checkpoint_writes [] = Map.empty"
| "checkpoint_writes (op # ops) =
     (case (op_kind op, op_checkpoint op) of
        (TxOpAddCheckpoint, Some c) \<Rightarrow> [cp_id c \<mapsto> c] | _ \<Rightarrow> Map.empty) ++ checkpoint_writes ops"

fun active_write :: "branch_id \<Rightarrow> tx_op list \<Rightarrow> branch_id" where
  "active_write b [] = b"
| "active_write b (op # ops) =
     active_write (if op_kind op = TxOpSetActive then op_branch op else b) ops"

lemma view_ops_writes:
  "v_branches (view_ops v ops) = v_branches v ++ branch_writes ops"
  "v_checkpoints (view_ops v ops) = v_checkpoints v ++ checkpoint_writes ops"
  "v_active (view_ops v ops) = active_write (v_active v) ops"
  by (induction ops arbitrary: v)
    (auto simp: view_op_def put_node_def split: op_kind.split option.split)

lemma active_write_twice: "active_write (active_write b ops) ops = active_write b ops"
proof -
  have "(\<forall>b. active_write b ops = b) \<or> (\<exists>c. \<forall>b. active_write b ops = c)"
  proof (induction ops)
    case (Cons op ops)
    then show ?case by (cases "op_kind op = TxOpSetActive") auto
  qed simp
  then show ?thesis by auto
qed

lemma map_add_twice: "(m ++ g) ++ g = m ++ g"
  by (auto simp: map_add_def fun_eq_iff split: option.split)

text \<open>The writes are idempotent as a whole, not one by one: a full history may be replayed.\<close>

lemma view_ops_twice: "view_ops (view_ops v ops) ops = view_ops v ops"
proof -
  have "v_nodes (view_ops (view_ops v ops) ops) = v_nodes (view_ops v ops)"
    using written_covered by (intro nodes_fixed) blast
  then show ?thesis by (simp add: view_eq_iff view_ops_writes active_write_twice map_add_twice)
qed

text \<open>An operation that carries the data its kind needs.\<close>

definition op_complete :: "tx_op \<Rightarrow> bool" where
  "op_complete op =
     (case op_kind op of
        TxOpAddNode \<Rightarrow> (\<exists>n. op_node op = Some n \<and> n_id n \<noteq> [])
      | TxOpUpdateNode \<Rightarrow> (\<exists>n. op_node op = Some n \<and> n_id n \<noteq> [])
      | TxOpAddChild \<Rightarrow> (\<exists>n. op_node op = Some n \<and> n_id n \<noteq> [])
      | TxOpSetBranch \<Rightarrow> True
      | TxOpAddCheckpoint \<Rightarrow> op_checkpoint op \<noteq> None
      | TxOpSetActive \<Rightarrow> True
      | TxOpOther k \<Rightarrow> False)"

lemma op_literals [simp]:
  "op_complete (add_node_op n) = (n_id n \<noteq> [])" "op_complete (update_node_op n) = (n_id n \<noteq> [])"
  "op_complete (set_branch_op b i)" "op_complete (set_active_op b)" "op_complete (add_checkpoint_op c)"
  "node_write (add_node_op n) = Some n" "node_write (update_node_op n) = Some n"
  "node_write (set_branch_op b i) = None" "node_write (set_active_op b) = None"
  "node_write (add_checkpoint_op c) = None"
  by (simp_all add: op_complete_def node_write_def op_defs)

section \<open>Contracts\<close>

locale durable_store =
  fixes so :: "('s, 't) store_ops"
    and content :: "'s \<Rightarrow> view"
    and healthy :: "'s \<Rightarrow> bool"
  assumes persist_success:
      "healthy s \<Longrightarrow> persist so s ops = (s', None) \<Longrightarrow> healthy s' \<and> content s' = view_ops (content s) ops"
    and persist_failure:
      "healthy s \<Longrightarrow> persist so s ops = (s', Some e) \<Longrightarrow>
         healthy s' \<and> content s' = content s \<and> \<not> is_wal_commit e"

text \<open>
  \<open>room\<close> holds while the log can still hand out a fresh transaction id: ids come from a 64-bit
  counter.
\<close>

locale write_ahead_log =
  fixes wo :: "'w wal_ops"
    and pending_txs :: "'w \<Rightarrow> tx_op list list"
    and sound :: "'w \<Rightarrow> bool"
    and room :: "'w \<Rightarrow> bool"
    and open_in :: "'w \<Rightarrow> string \<Rightarrow> tx_op list \<Rightarrow> bool"
  assumes open_failure:
      "sound w \<Longrightarrow> room w \<Longrightarrow> open_tx wo w ops = (w', Inl e) \<Longrightarrow>
         sound w' \<and> pending_txs w' = pending_txs w \<and> \<not> is_wal_commit e"
    and open_success:
      "sound w \<Longrightarrow> room w \<Longrightarrow> open_tx wo w ops = (w', Inr tx) \<Longrightarrow>
         sound w' \<and> pending_txs w' = pending_txs w \<and> open_in w' tx ops"
    and commit_success:
      "sound w \<Longrightarrow> open_in w tx ops \<Longrightarrow> wal_commit wo w tx = (w', None) \<Longrightarrow>
         sound w' \<and> pending_txs w' = pending_txs w @ [ops]"
    and commit_failure:
      "sound w \<Longrightarrow> open_in w tx ops \<Longrightarrow> wal_commit wo w tx = (w', Some e) \<Longrightarrow>
         sound w' \<and> pending_txs w' = pending_txs w \<and> \<not> is_wal_commit e"
    and abort_open:
      "sound w \<Longrightarrow> open_in w tx ops \<Longrightarrow> wal_abort wo w tx = (w', r) \<Longrightarrow>
         sound w' \<and> pending_txs w' = pending_txs w"

end
