(* ===== verification/Conv_Tree.thy ===== *)
theory Conv_Tree
  imports Backend
begin

text \<open>
  The branching conversation tree, \<open>agent/tree/tree.go\<close>: its state, every operation that changes
  it, and the reads the other parts build on. A mutation computes the log operations that describe
  it, writes them through (\<open>wal_tx\<close>), and changes the tree only when they are durable
  (\<open>applied\<close>). Fresh identifiers (\<open>types.NewID\<close>, a UUID) and the clock are arguments. A parent or
  child walk that never ends is the outcome \<open>Diverge\<close>.
\<close>

named_theorems tree_simps

section \<open>State\<close>

text \<open>Metadata is raw JSON; what matters is whether it is absent, an object or something else.\<close>

datatype raw_metadata = NoMetadata | MetadataObject string | MetadataInvalid string

record ('w, 's) conv_tree =
  t_nodes :: "(node_id, node) gomap"
  t_children :: "node_id \<Rightarrow> node_id list"
  t_root :: node_id
  t_branches :: "(branch_id, node_id) gomap"
  t_active :: branch_id
  t_checkpoints :: "(checkpoint_id, checkpoint) gomap"
  t_wal :: "'w option"
  t_store :: "'s option"
  t_metadata :: raw_metadata

definition blank_tree :: "'w option \<Rightarrow> 's option \<Rightarrow> raw_metadata \<Rightarrow> ('w, 's) conv_tree" where
  "blank_tree w s meta = \<lparr>t_nodes = [], t_children = (\<lambda>_. []), t_root = [], t_branches = [],
     t_active = [], t_checkpoints = [], t_wal = w, t_store = s, t_metadata = meta\<rparr>"

definition validate_metadata :: "raw_metadata \<Rightarrow> terr option" where
  "validate_metadata m =
     (case m of MetadataInvalid s \<Rightarrow> Some (ErrOther ''metadata must be a JSON object'') | _ \<Rightarrow> None)"

definition get_node :: "('w, 's) conv_tree \<Rightarrow> node_id \<Rightarrow> node option" where
  "get_node t i = map_of (t_nodes t) i"

section \<open>Writing through\<close>

definition wal_tx ::
  "('w, 's, 't) backend \<Rightarrow> ('w, 's) conv_tree \<Rightarrow> tx_op list \<Rightarrow> ('w, 's) conv_tree \<times> terr option" where
  "wal_tx bk t ops =
     (if ops = [] \<or> (t_wal t = None \<and> t_store t = None) then (t, None)
      else case t_wal t of
        None \<Rightarrow>
          (case t_store t of
             None \<Rightarrow> (t, None)
           | Some s \<Rightarrow> (case persist (bk_store bk) s ops of (s', r) \<Rightarrow> (t\<lparr>t_store := Some s'\<rparr>, r)))
      | Some w \<Rightarrow>
          (case open_tx (bk_wal bk) w ops of
             (w', Inl e) \<Rightarrow> (t\<lparr>t_wal := Some w'\<rparr>, Some e)
           | (w', Inr tx) \<Rightarrow>
               (case t_store t of
                  None \<Rightarrow>
                    (case wal_commit (bk_wal bk) w' tx of
                       (w'', r) \<Rightarrow> (t\<lparr>t_wal := Some w''\<rparr>, r))
                | Some s \<Rightarrow>
                    (case persist (bk_store bk) s ops of
                       (s', Some e) \<Rightarrow>
                         (t\<lparr>t_wal := Some (fst (wal_abort (bk_wal bk) w' tx)), t_store := Some s'\<rparr>, Some e)
                     | (s', None) \<Rightarrow>
                         (case wal_commit (bk_wal bk) w' tx of
                            (w'', None) \<Rightarrow> (t\<lparr>t_wal := Some w'', t_store := Some s'\<rparr>, None)
                          | (w'', Some e) \<Rightarrow>
                              (t\<lparr>t_wal := Some w'', t_store := Some s'\<rparr>, Some (ErrWALCommit e)))))))"

definition applied :: "terr option \<Rightarrow> bool" where
  "applied r = (case r of None \<Rightarrow> True | Some e \<Rightarrow> is_wal_commit e)"

text \<open>
  The common end of every mutation: write the operations, and when they are durable install the
  change and return the value, with the log's error if there was one.
\<close>

definition write_through ::
  "('w, 's, 't) backend \<Rightarrow> ('w, 's) conv_tree \<Rightarrow> tx_op list \<Rightarrow>
   (('w, 's) conv_tree \<Rightarrow> ('w, 's) conv_tree) \<Rightarrow> 'a \<Rightarrow> ('w, 's) conv_tree \<times> 'a option \<times> terr option" where
  "write_through bk t ops install v =
     (case wal_tx bk t ops of
        (t', r) \<Rightarrow> if applied r then (install t', Some v, r) else (t', None, r))"

text \<open>\<open>walAddNode\<close>: a node and the tip of its branch.\<close>

definition wal_add_node_ops :: "node \<Rightarrow> tx_op list" where
  "wal_add_node_ops n = [add_node_op n, set_branch_op (n_branch n) (n_id n)]"

section \<open>Creation\<close>

definition root_node :: "node_id \<Rightarrow> time \<Rightarrow> part list \<Rightarrow> node" where
  "root_node uid now ps = \<lparr>n_id = uid, n_parent = [], n_message = SystemMessage ps,
     n_state = NodeActive, n_version = 1, n_depth = 0, n_branch = ''main'', n_created = now,
     n_updated = now, n_archived_at = None, n_archived_by = [], n_summary_of = []\<rparr>"

definition install_root :: "node \<Rightarrow> ('w, 's) conv_tree \<Rightarrow> ('w, 's) conv_tree" where
  "install_root n t = t\<lparr>t_nodes := AList.update (n_id n) n (t_nodes t), t_root := n_id n,
     t_branches := AList.update ''main'' (n_id n) (t_branches t), t_active := ''main''\<rparr>"

definition new_tree ::
  "('w, 's, 't) backend \<Rightarrow> 'w option \<Rightarrow> 's option \<Rightarrow> raw_metadata \<Rightarrow> node_id \<Rightarrow> time \<Rightarrow> part list \<Rightarrow>
   ('w, 's) conv_tree \<times> node_id option \<times> terr option" where
  "new_tree bk w s meta uid now ps =
     (let t = blank_tree w s meta in
      case validate_metadata meta of
        Some e \<Rightarrow> (t, None, Some e)
      | None \<Rightarrow>
          let root = root_node uid now ps
          in write_through bk t (wal_add_node_ops root) (install_root root) uid)"

text \<open>Rebuilding the children map from parent pointers, in the order of the nodes.\<close>

definition children_of :: "node list \<Rightarrow> node_id \<Rightarrow> node_id list" where
  "children_of ns p = (if p = [] then [] else map n_id (filter (\<lambda>n. n_parent n = p) ns))"

definition from_store ::
  "node list \<Rightarrow> (branch_id, node_id) gomap \<Rightarrow> (checkpoint_id, checkpoint) gomap \<Rightarrow> node_id \<Rightarrow>
   branch_id \<Rightarrow> 'w option \<Rightarrow> 's option \<Rightarrow> raw_metadata \<Rightarrow> terr + ('w, 's) conv_tree" where
  "from_store ns brs cps root active w s meta =
     (if ns = [] then Inl (ErrNodeNotFound [])
      else case validate_metadata meta of
        Some e \<Rightarrow> Inl e
      | None \<Rightarrow> Inr \<lparr>t_nodes = put_all [] (map (\<lambda>n. (n_id n, n)) ns), t_children = children_of ns,
          t_root = root, t_branches = put_all [] brs, t_active = active,
          t_checkpoints = put_all [] cps, t_wal = w, t_store = s, t_metadata = meta\<rparr>)"

section \<open>Growing the tree\<close>

definition child_node ::
  "node \<Rightarrow> branch_id \<Rightarrow> message \<Rightarrow> node_state \<Rightarrow> node_id \<Rightarrow> time \<Rightarrow> node" where
  "child_node parent branch msg st uid now = \<lparr>n_id = uid, n_parent = n_id parent, n_message = msg,
     n_state = st, n_version = 1, n_depth = n_depth parent + 1, n_branch = branch,
     n_created = now, n_updated = now, n_archived_at = None, n_archived_by = [],
     n_summary_of = []\<rparr>"

definition install_child :: "node \<Rightarrow> ('w, 's) conv_tree \<Rightarrow> ('w, 's) conv_tree" where
  "install_child n t = t\<lparr>t_nodes := AList.update (n_id n) n (t_nodes t),
     t_children := (t_children t)(n_parent n := t_children t (n_parent n) @ [n_id n]),
     t_branches := AList.update (n_branch n) (n_id n) (t_branches t)\<rparr>"

definition leaf_check :: "node \<Rightarrow> terr option" where
  "leaf_check parent =
     (if n_state parent = NodeArchived then Some (ErrNodeArchived (n_id parent))
      else if n_state parent = NodeFeedback then Some (ErrNodeIsLeaf (n_id parent))
      else None)"

definition add_child_unlocked ::
  "('w, 's, 't) backend \<Rightarrow> ('w, 's) conv_tree \<Rightarrow> node \<Rightarrow> branch_id \<Rightarrow> message \<Rightarrow> node_id \<Rightarrow> time \<Rightarrow>
   ('w, 's) conv_tree \<times> node option \<times> terr option" where
  "add_child_unlocked bk t parent branch msg uid now =
     (case leaf_check parent of
        Some e \<Rightarrow> (t, None, Some e)
      | None \<Rightarrow>
          let child = child_node parent branch msg NodeActive uid now
          in write_through bk t (wal_add_node_ops child) (install_child child) child)"

definition tip_or_zero :: "('w, 's) conv_tree \<Rightarrow> branch_id \<Rightarrow> node_id" where
  "tip_or_zero t b = (case map_of (t_branches t) b of None \<Rightarrow> [] | Some tip \<Rightarrow> tip)"

definition best_branch :: "(branch_id, node_id) gomap \<Rightarrow> node_id \<Rightarrow> branch_id" where
  "best_branch brs i =
     foldl (\<lambda>best (b, tip). if tip = i \<and> (best = [] \<or> b < best) then b else best) [] brs"

definition branch_ending_at :: "('w, 's) conv_tree \<Rightarrow> node \<Rightarrow> branch_id" where
  "branch_ending_at t parent =
     (if tip_or_zero t (t_active t) = n_id parent then t_active t
      else if tip_or_zero t (n_branch parent) = n_id parent then n_branch parent
      else let best = best_branch (t_branches t) (n_id parent)
           in if best \<noteq> [] then best else n_branch parent)"

definition add_child ::
  "('w, 's, 't) backend \<Rightarrow> ('w, 's) conv_tree \<Rightarrow> node_id \<Rightarrow> message \<Rightarrow> node_id \<Rightarrow> time \<Rightarrow>
   ('w, 's) conv_tree \<times> node option \<times> terr option" where
  "add_child bk t parent_id msg uid now =
     (case get_node t parent_id of
        None \<Rightarrow> (t, None, Some (ErrNodeNotFound parent_id))
      | Some parent \<Rightarrow> add_child_unlocked bk t parent (branch_ending_at t parent) msg uid now)"

definition add_child_on_branch ::
  "('w, 's, 't) backend \<Rightarrow> ('w, 's) conv_tree \<Rightarrow> branch_id \<Rightarrow> message \<Rightarrow> node_id \<Rightarrow> time \<Rightarrow>
   ('w, 's) conv_tree \<times> node option \<times> terr option" where
  "add_child_on_branch bk t branch msg uid now =
     (case map_of (t_branches t) branch of
        None \<Rightarrow> (t, None, Some (ErrBranchNotFound branch))
      | Some tip \<Rightarrow>
          (case get_node t tip of
             None \<Rightarrow> (t, None, Some (ErrNodeNotFound tip))
           | Some parent \<Rightarrow> add_child_unlocked bk t parent branch msg uid now))"

definition add_feedback ::
  "('w, 's, 't) backend \<Rightarrow> ('w, 's) conv_tree \<Rightarrow> node_id \<Rightarrow> message \<Rightarrow> string \<Rightarrow> node_id \<Rightarrow> time \<Rightarrow>
   ('w, 's) conv_tree \<times> node option \<times> terr option" where
  "add_feedback bk t parent_id msg buid uid now =
     (case get_node t parent_id of
        None \<Rightarrow> (t, None, Some (ErrNodeNotFound parent_id))
      | Some parent \<Rightarrow>
          (case leaf_check parent of
             Some e \<Rightarrow> (t, None, Some e)
           | None \<Rightarrow>
               let child = child_node parent (''feedback-'' @ take 8 buid) msg NodeFeedback uid now
               in write_through bk t (wal_add_node_ops child) (install_child child) child))"

definition feedback :: "('w, 's) conv_tree \<Rightarrow> node list" where
  "feedback t = filter (\<lambda>n. n_state n = NodeFeedback) (map snd (t_nodes t))"

definition fork_branch ::
  "('w, 's, 't) backend \<Rightarrow> ('w, 's) conv_tree \<Rightarrow> node_id \<Rightarrow> string \<Rightarrow> message \<Rightarrow> string \<Rightarrow> node_id \<Rightarrow> time \<Rightarrow>
   ('w, 's) conv_tree \<times> (branch_id \<times> node) option \<times> terr option" where
  "fork_branch bk t from_id name msg buid uid now =
     (case get_node t from_id of
        None \<Rightarrow> (t, None, Some (ErrNodeNotFound from_id))
      | Some from_node \<Rightarrow>
          (case leaf_check from_node of
             Some e \<Rightarrow> (t, None, Some e)
           | None \<Rightarrow>
               let branch = (if map_of (t_branches t) name \<noteq> None
                             then name @ ''-'' @ take 8 buid else name);
                   child = child_node from_node branch msg NodeActive uid now
               in write_through bk t (wal_add_node_ops child) (install_child child) (branch, child)))"

definition update_user_message ::
  "('w, 's, 't) backend \<Rightarrow> ('w, 's) conv_tree \<Rightarrow> node_id \<Rightarrow> part list \<Rightarrow> string \<Rightarrow> node_id \<Rightarrow> time \<Rightarrow>
   ('w, 's) conv_tree \<times> (branch_id \<times> node) option \<times> terr option" where
  "update_user_message bk t node_id ps buid uid now =
     (case get_node t node_id of
        None \<Rightarrow> (t, None, Some (ErrNodeNotFound node_id))
      | Some n \<Rightarrow>
          if n_parent n = [] then (t, None, Some ErrRootImmutable)
          else if (case n_message n of UserMessage _ \<Rightarrow> False | _ \<Rightarrow> True)
          then (t, None, Some ErrInvalidBranchPoint)
          else (case get_node t (n_parent n) of
             None \<Rightarrow> (t, None, Some (ErrNodeNotFound (n_parent n)))
           | Some parent \<Rightarrow>
               let branch = ''edit-'' @ take 8 buid;
                   child = (child_node parent branch (UserMessage ps) NodeActive uid now)
                             \<lparr>n_parent := n_parent n\<rparr>
               in write_through bk t (wal_add_node_ops child) (install_child child) (branch, child)))"

section \<open>Reading the tree\<close>

definition tip_node :: "('w, 's) conv_tree \<Rightarrow> branch_id \<Rightarrow> terr + node" where
  "tip_node t b =
     (case map_of (t_branches t) b of
        None \<Rightarrow> Inl (ErrBranchNotFound b)
      | Some i \<Rightarrow> (case get_node t i of None \<Rightarrow> Inl (ErrNodeNotFound i) | Some n \<Rightarrow> Inr n))"

text \<open>
  The parent walk. A walk over distinct nodes visits at most \<open>length (t_nodes t)\<close> of them, so one
  more unit of fuel tells a walk that ends from one that does not.
\<close>

fun walk_up :: "nat \<Rightarrow> ('w, 's) conv_tree \<Rightarrow> node_id \<Rightarrow> (terr, node_id list) outcome" where
  "walk_up fuel t cur =
     (if cur = [] then Ok []
      else case fuel of
        0 \<Rightarrow> Diverge
      | Suc k \<Rightarrow>
          (case get_node t cur of
             None \<Rightarrow> Fail (ErrNodeNotFound cur)
           | Some n \<Rightarrow> and_then (walk_up k t (n_parent n)) (\<lambda>p. Ok (cur # p))))"

declare walk_up.simps [simp del]

definition path :: "('w, 's) conv_tree \<Rightarrow> node_id \<Rightarrow> (terr, node_id list) outcome" where
  "path t i = and_then (walk_up (length (t_nodes t) + 1) t i) (\<lambda>p. Ok (rev p))"

definition child_nodes :: "('w, 's) conv_tree \<Rightarrow> node_id \<Rightarrow> terr + node list" where
  "child_nodes t i =
     (case get_node t i of
        None \<Rightarrow> Inl (ErrNodeNotFound i)
      | Some _ \<Rightarrow> Inr (List.map_filter (get_node t) (t_children t i)))"

fun index_of :: "'a \<Rightarrow> 'a list \<Rightarrow> int option" where
  "index_of x [] = None"
| "index_of x (y # ys) = (if y = x then Some 0 else map_option (\<lambda>i. i + 1) (index_of x ys))"

text \<open>The child index of every step of a path.\<close>

fun sibling_indices :: "('w, 's) conv_tree \<Rightarrow> node_id list \<Rightarrow> (terr, tree_path) outcome" where
  "sibling_indices t (p # c # rest) =
     (case index_of c (t_children t p) of
        None \<Rightarrow> Fail (ErrOther ''child not found in parent children'')
      | Some i \<Rightarrow> and_then (sibling_indices t (c # rest)) (\<lambda>is. Ok (i # is)))"
| "sibling_indices t _ = Ok []"

definition node_path :: "('w, 's) conv_tree \<Rightarrow> node_id \<Rightarrow> (terr, tree_path) outcome" where
  "node_path t i = and_then (path t i) (sibling_indices t)"

section \<open>Archiving and restoring\<close>

fun collect_nodes :: "nat \<Rightarrow> ('w, 's) conv_tree \<Rightarrow> node \<Rightarrow> (terr, node list) outcome" where
  "collect_nodes 0 t n = Diverge"
| "collect_nodes (Suc k) t n =
     and_then
       (traverse (\<lambda>c. case get_node t c of None \<Rightarrow> Ok [] | Some m \<Rightarrow> collect_nodes k t m)
          (t_children t (n_id n)))
       (\<lambda>xss. Ok (n # concat xss))"

definition collect_subtree :: "('w, 's) conv_tree \<Rightarrow> node \<Rightarrow> bool \<Rightarrow> (terr, node list) outcome" where
  "collect_subtree t n recursive =
     (if recursive then collect_nodes (length (t_nodes t) + 1) t n else Ok [n])"

definition install_updates :: "node list \<Rightarrow> ('w, 's) conv_tree \<Rightarrow> ('w, 's) conv_tree" where
  "install_updates clones t = t\<lparr>t_nodes := put_all (t_nodes t) (map (\<lambda>c. (n_id c, c)) clones)\<rparr>"

definition mutate_subtree ::
  "('w, 's, 't) backend \<Rightarrow> ('w, 's) conv_tree \<Rightarrow> node \<Rightarrow> bool \<Rightarrow> (node \<Rightarrow> node) \<Rightarrow>
   ('w, 's) conv_tree \<times> (terr, unit) outcome" where
  "mutate_subtree bk t n recursive f =
     (case collect_subtree t n recursive of
        Diverge \<Rightarrow> (t, Diverge)
      | Fail e \<Rightarrow> (t, Fail e)
      | Ok targets \<Rightarrow>
          let clones = map f targets in
          (case write_through bk t (map update_node_op clones) (install_updates clones) () of
             (t', _, None) \<Rightarrow> (t', Ok ())
           | (t', _, Some e) \<Rightarrow> (t', Fail e)))"

definition archived_node :: "time \<Rightarrow> string \<Rightarrow> node \<Rightarrow> node" where
  "archived_node now who n = n\<lparr>n_state := NodeArchived, n_archived_at := Some now,
     n_archived_by := who, n_version := n_version n + 1, n_updated := now\<rparr>"

definition restored_node :: "time \<Rightarrow> node \<Rightarrow> node" where
  "restored_node now n = n\<lparr>n_state := NodeActive, n_archived_at := None,
     n_archived_by := [], n_version := n_version n + 1, n_updated := now\<rparr>"

definition archive ::
  "('w, 's, 't) backend \<Rightarrow> ('w, 's) conv_tree \<Rightarrow> node_id \<Rightarrow> string \<Rightarrow> bool \<Rightarrow> time \<Rightarrow>
   ('w, 's) conv_tree \<times> (terr, unit) outcome" where
  "archive bk t i who recursive now =
     (case get_node t i of
        None \<Rightarrow> (t, Fail (ErrNodeNotFound i))
      | Some n \<Rightarrow>
          if n_parent n = [] then (t, Fail ErrRootImmutable)
          else mutate_subtree bk t n recursive (archived_node now who))"

definition restore ::
  "('w, 's, 't) backend \<Rightarrow> ('w, 's) conv_tree \<Rightarrow> node_id \<Rightarrow> bool \<Rightarrow> time \<Rightarrow>
   ('w, 's) conv_tree \<times> (terr, unit) outcome" where
  "restore bk t i recursive now =
     (case get_node t i of
        None \<Rightarrow> (t, Fail (ErrNodeNotFound i))
      | Some n \<Rightarrow> mutate_subtree bk t n recursive (restored_node now))"

section \<open>Branches and checkpoints\<close>

definition set_active ::
  "('w, 's, 't) backend \<Rightarrow> ('w, 's) conv_tree \<Rightarrow> branch_id \<Rightarrow>
   ('w, 's) conv_tree \<times> unit option \<times> terr option" where
  "set_active bk t b =
     (case map_of (t_branches t) b of
        None \<Rightarrow> (t, None, Some (ErrBranchNotFound b))
      | Some tip \<Rightarrow>
          write_through bk t [set_branch_op b tip, set_active_op b] (\<lambda>t'. t'\<lparr>t_active := b\<rparr>) ())"

definition create_checkpoint ::
  "('w, 's, 't) backend \<Rightarrow> ('w, 's) conv_tree \<Rightarrow> branch_id \<Rightarrow> string \<Rightarrow> checkpoint_id \<Rightarrow> time \<Rightarrow>
   ('w, 's) conv_tree \<times> checkpoint_id option \<times> terr option" where
  "create_checkpoint bk t b name uid now =
     (case map_of (t_branches t) b of
        None \<Rightarrow> (t, None, Some (ErrBranchNotFound b))
      | Some tip \<Rightarrow>
          let cp = \<lparr>cp_id = uid, cp_branch = b, cp_node = tip, cp_name = name, cp_created = now\<rparr>
          in write_through bk t [add_checkpoint_op cp]
               (\<lambda>t'. t'\<lparr>t_checkpoints := AList.update uid cp (t_checkpoints t')\<rparr>) uid)"

definition rewind ::
  "('w, 's, 't) backend \<Rightarrow> ('w, 's) conv_tree \<Rightarrow> checkpoint_id \<Rightarrow> string \<Rightarrow>
   ('w, 's) conv_tree \<times> branch_id option \<times> terr option" where
  "rewind bk t cpid buid =
     (case map_of (t_checkpoints t) cpid of
        None \<Rightarrow> (t, None, Some (ErrCheckpointNotFound cpid))
      | Some cp \<Rightarrow>
          (case get_node t (cp_node cp) of
             None \<Rightarrow> (t, None, Some (ErrNodeNotFound (cp_node cp)))
           | Some _ \<Rightarrow>
               let b = ''rewind-'' @ cp_name cp @ ''-'' @ take 8 buid
               in write_through bk t [set_branch_op b (cp_node cp)]
                    (\<lambda>t'. t'\<lparr>t_branches := AList.update b (cp_node cp) (t_branches t')\<rparr>) b))"

end
