(* ===== verification/Tree_Invariant.thy ===== *)
theory Tree_Invariant
  imports Conv_Tree
begin

text \<open>
  The well-formedness of a conversation tree and its preservation: every node is stored under its
  own id and has its parent in the tree, parents form no cycle, the children lists are exactly the
  inverse of the parent pointers, and branches, checkpoints and the active branch point into the
  tree. The parent walk of a well-formed tree ends within the fuel of \<open>path\<close>.
\<close>

section \<open>The frame of a write-through\<close>

lemma wal_tx_frame [tree_simps]:
  assumes "wal_tx bk t ops = (t', r)"
  shows "t_nodes t' = t_nodes t" "t_children t' = t_children t" "t_root t' = t_root t"
    "t_branches t' = t_branches t" "t_active t' = t_active t" "t_checkpoints t' = t_checkpoints t"
    "t_metadata t' = t_metadata t"
  using assms
  by (auto simp: wal_tx_def split: if_splits option.splits prod.splits sum.splits)

lemma write_through_cases:
  assumes "write_through bk t ops install v = (t', res, e)"
  obtains (durable) t1 where "wal_tx bk t ops = (t1, e)" "applied e" "t' = install t1" "res = Some v"
  | (refused) "wal_tx bk t ops = (t', e)" "\<not> applied e" "res = None"
  using assms by (auto simp: write_through_def split: prod.splits if_splits)

lemma applied_None [simp]: "applied None"
  by (simp add: applied_def)

lemma not_applied_error: "\<not> applied e \<Longrightarrow> \<exists>x. e = Some x"
  by (cases e) auto

text \<open>Two trees with the same conversation; only the log and the store may differ.\<close>

definition same_core :: "('w, 's) conv_tree \<Rightarrow> ('w, 's) conv_tree \<Rightarrow> bool" where
  "same_core t u = (t_nodes t = t_nodes u \<and> t_children t = t_children u \<and> t_root t = t_root u \<and>
     t_branches t = t_branches u \<and> t_active t = t_active u \<and> t_checkpoints t = t_checkpoints u \<and>
     t_metadata t = t_metadata u)"

lemma same_core_refl [simp]: "same_core t t"
  by (simp add: same_core_def)

lemma wal_tx_same_core: "wal_tx bk t ops = (t', r) \<Longrightarrow> same_core t' t"
  unfolding same_core_def using wal_tx_frame [of bk t ops t' r] by blast

lemma same_core_get [tree_simps]: "same_core t u \<Longrightarrow> get_node t i = get_node u i"
  by (simp add: same_core_def get_node_def)

lemma same_core_checkpoints [tree_simps]: "same_core t u \<Longrightarrow> t_checkpoints t = t_checkpoints u"
  by (simp add: same_core_def)

section \<open>Well-formedness\<close>

definition nodes_ok :: "('w, 's) conv_tree \<Rightarrow> bool" where
  "nodes_ok t =
     (distinct (map fst (t_nodes t)) \<and>
      (\<forall>i n. get_node t i = Some n \<longrightarrow>
         n_id n = i \<and> i \<noteq> [] \<and> (n_parent n = [] \<longleftrightarrow> i = t_root t) \<and>
         (n_parent n \<noteq> [] \<longrightarrow> get_node t (n_parent n) \<noteq> None)))"

definition ranked :: "('w, 's) conv_tree \<Rightarrow> bool" where
  "ranked t = (\<exists>rank :: node_id \<Rightarrow> nat. \<forall>i n. get_node t i = Some n \<longrightarrow> n_parent n \<noteq> [] \<longrightarrow>
     rank (n_parent n) < rank i)"

definition children_ok :: "('w, 's) conv_tree \<Rightarrow> bool" where
  "children_ok t = (\<forall>p. distinct (t_children t p) \<and>
     (\<forall>c. c \<in> set (t_children t p) \<longleftrightarrow> p \<noteq> [] \<and> (\<exists>n. get_node t c = Some n \<and> n_parent n = p)))"

definition refs_ok :: "('w, 's) conv_tree \<Rightarrow> bool" where
  "refs_ok t =
     (get_node t (t_root t) \<noteq> None \<and>
      (\<forall>b i. map_of (t_branches t) b = Some i \<longrightarrow> get_node t i \<noteq> None) \<and>
      map_of (t_branches t) (t_active t) \<noteq> None \<and>
      (\<forall>c cp. map_of (t_checkpoints t) c = Some cp \<longrightarrow>
         cp_id cp = c \<and> get_node t (cp_node cp) \<noteq> None))"

definition wf_tree :: "('w, 's) conv_tree \<Rightarrow> bool" where
  "wf_tree t = (nodes_ok t \<and> ranked t \<and> children_ok t \<and> refs_ok t)"

definition fresh_id :: "('w, 's) conv_tree \<Rightarrow> node_id \<Rightarrow> bool" where
  "fresh_id t i = (i \<noteq> [] \<and> get_node t i = None)"

lemma wf_same_core: "same_core t u \<Longrightarrow> wf_tree t = wf_tree u"
  unfolding wf_tree_def nodes_ok_def ranked_def children_ok_def refs_ok_def
  by (simp add: same_core_def get_node_def)

lemma wf_node: "wf_tree t \<Longrightarrow> get_node t i = Some n \<Longrightarrow> n_id n = i \<and> i \<noteq> []"
  by (simp add: wf_tree_def nodes_ok_def)

lemma wf_parent: "wf_tree t \<Longrightarrow> get_node t i = Some n \<Longrightarrow> n_parent n \<noteq> [] \<Longrightarrow>
   \<exists>p. get_node t (n_parent n) = Some p"
  by (auto simp: wf_tree_def nodes_ok_def)

lemma wf_root_parent: "wf_tree t \<Longrightarrow> get_node t i = Some n \<Longrightarrow> n_parent n = [] \<longleftrightarrow> i = t_root t"
  by (simp add: wf_tree_def nodes_ok_def)

lemma wf_tip: "wf_tree t \<Longrightarrow> map_of (t_branches t) b = Some i \<Longrightarrow> \<exists>n. get_node t i = Some n"
  by (auto simp: wf_tree_def refs_ok_def)

lemma wf_checkpoint:
  "wf_tree t \<Longrightarrow> map_of (t_checkpoints t) c = Some cp \<Longrightarrow> \<exists>n. get_node t (cp_node cp) = Some n"
  by (auto simp: wf_tree_def refs_ok_def)

section \<open>Preservation\<close>

lemma get_node_install_child [tree_simps]:
  "get_node (install_child n t) i = (if i = n_id n then Some n else get_node t i)"
  by (simp add: install_child_def get_node_def)

lemma install_child_fields [simp]:
  "t_children (install_child n t) =
     (t_children t)(n_parent n := t_children t (n_parent n) @ [n_id n])"
  "t_root (install_child n t) = t_root t"
  "t_branches (install_child n t) = AList.update (n_branch n) (n_id n) (t_branches t)"
  "t_active (install_child n t) = t_active t"
  "t_checkpoints (install_child n t) = t_checkpoints t"
  by (simp_all add: install_child_def)

lemma wf_install_child:
  assumes wf: "wf_tree t" and fresh: "fresh_id t (n_id n)" and parent: "get_node t (n_parent n) = Some p"
  shows "wf_tree (install_child n t)"
proof -
  let ?t = "install_child n t"
  have new: "get_node t (n_id n) = None" "n_id n \<noteq> []" using fresh by (auto simp: fresh_id_def)
  have pne: "n_parent n \<noteq> []" using wf_node [OF wf parent] by simp
  have neq: "n_parent n \<noteq> n_id n" using new parent by auto
  have noparent: "n_parent m \<noteq> n_id n" if "get_node t i = Some m" for i m
    using wf_parent [OF wf that] new by auto
  have "distinct (map fst (t_nodes ?t))"
    using wf by (simp add: wf_tree_def nodes_ok_def install_child_def distinct_keys_update)
  moreover have "n_id m = i \<and> i \<noteq> [] \<and> (n_parent m = [] \<longleftrightarrow> i = t_root ?t) \<and>
      (n_parent m \<noteq> [] \<longrightarrow> get_node ?t (n_parent m) \<noteq> None)" if "get_node ?t i = Some m" for i m
  proof (cases "i = n_id n")
    case True
    have "t_root t \<noteq> n_id n" using wf new by (auto simp: wf_tree_def refs_ok_def)
    with True that new pne parent show ?thesis
      by (simp add: get_node_install_child)
  next
    case False
    then have m: "get_node t i = Some m" using that by (simp add: get_node_install_child)
    from wf_node [OF wf m] wf_root_parent [OF wf m] wf_parent [OF wf m] show ?thesis
      by (auto simp: get_node_install_child)
  qed
  ultimately have "nodes_ok ?t" unfolding nodes_ok_def by blast
  moreover have "ranked ?t"
  proof -
    obtain rank :: "node_id \<Rightarrow> nat" where
      rank: "\<And>i m. get_node t i = Some m \<Longrightarrow> n_parent m \<noteq> [] \<Longrightarrow> rank (n_parent m) < rank i"
      using wf unfolding wf_tree_def ranked_def by blast
    let ?rank = "rank(n_id n := Suc (rank (n_parent n)))"
    have "?rank (n_parent m) < ?rank i" if "get_node ?t i = Some m" "n_parent m \<noteq> []" for i m
      using that rank noparent neq by (auto simp: get_node_install_child split: if_splits)
    then show ?thesis unfolding ranked_def by blast
  qed
  moreover have "children_ok ?t"
  proof -
    have old: "\<And>q c. c \<in> set (t_children t q) \<longleftrightarrow> q \<noteq> [] \<and> (\<exists>m. get_node t c = Some m \<and> n_parent m = q)"
      and dist: "\<And>q. distinct (t_children t q)"
      using wf by (auto simp: wf_tree_def children_ok_def)
    have "n_id n \<notin> set (t_children t q)" for q using old new by auto
    then show ?thesis
      unfolding children_ok_def using old dist new pne
      by (auto simp: get_node_install_child)
  qed
  moreover have "refs_ok ?t"
    using wf new parent unfolding wf_tree_def refs_ok_def
    by (auto simp: get_node_install_child split: if_splits)
  ultimately show ?thesis by (simp add: wf_tree_def)
qed

text \<open>Rewriting nodes in place keeps ids and parents.\<close>

definition keeps_shape :: "(node \<Rightarrow> node) \<Rightarrow> bool" where
  "keeps_shape f = (\<forall>n. n_id (f n) = n_id n \<and> n_parent (f n) = n_parent n)"

lemma keeps_shape_ops [simp]:
  "keeps_shape (archived_node now who)" "keeps_shape (restored_node now)"
  by (simp_all add: keeps_shape_def archived_node_def restored_node_def)

lemma map_of_put_nodes:
  assumes "\<And>n. n \<in> set ns \<Longrightarrow> n_id (f n) = n_id n \<and> m (n_id n) = Some n"
  shows "map_of (rev (map (\<lambda>c. (n_id c, c)) (map f ns))) i =
     (if i \<in> n_id ` set ns then map_option f (m i) else None)"
  using assms by (induction ns rule: rev_induct) (auto simp: map_of_append)

lemma get_node_install_updates:
  assumes "keeps_shape f" and "\<And>n. n \<in> set ns \<Longrightarrow> get_node t (n_id n) = Some n"
  shows "get_node (install_updates (map f ns) t) i =
     (if i \<in> n_id ` set ns then map_option f (get_node t i) else get_node t i)"
proof -
  have "map_of (rev (map (\<lambda>c. (n_id c, c)) (map f ns))) i =
     (if i \<in> n_id ` set ns then map_option f (get_node t i) else None)"
    using assms by (intro map_of_put_nodes) (auto simp: keeps_shape_def)
  then show ?thesis
    using assms(2)
    by (auto simp: get_node_def install_updates_def map_of_put_all map_add_def split: option.splits)
qed

lemma distinct_put_all: "distinct (map fst m) \<Longrightarrow> distinct (map fst (put_all m kvs))"
proof (induction kvs arbitrary: m)
  case (Cons kv kvs)
  then show ?case by (cases kv) (simp add: distinct_keys_update)
qed simp

lemma wf_install_updates:
  assumes wf: "wf_tree t" and shape: "keeps_shape f"
    and ns: "\<And>n. n \<in> set ns \<Longrightarrow> get_node t (n_id n) = Some n"
  shows "wf_tree (install_updates (map f ns) t)"
proof -
  let ?t = "install_updates (map f ns) t"
  have get: "get_node ?t i = (if i \<in> n_id ` set ns then map_option f (get_node t i) else get_node t i)" for i
    by (rule get_node_install_updates [OF shape ns])
  have dom: "get_node ?t i = None \<longleftrightarrow> get_node t i = None" for i by (simp add: get)
  have parent: "\<exists>m. get_node t i = Some m \<and> n_parent n = n_parent m \<and> n_id n = n_id m"
    if "get_node ?t i = Some n" for i n
    using that shape by (auto simp: get keeps_shape_def split: if_splits)
  have kept: "\<exists>n. get_node ?t i = Some n \<and> n_parent n = n_parent m" if "get_node t i = Some m" for i m
    using that shape by (auto simp: get keeps_shape_def)
  have fields: "t_children ?t = t_children t" "t_root ?t = t_root t" "t_branches ?t = t_branches t"
    "t_active ?t = t_active t" "t_checkpoints ?t = t_checkpoints t"
    by (simp_all add: install_updates_def)
  have dist: "distinct (map fst (t_nodes ?t))"
    using wf by (simp add: wf_tree_def nodes_ok_def install_updates_def distinct_put_all)
  have "nodes_ok ?t"
    unfolding nodes_ok_def fields
  proof (intro conjI allI impI)
    fix i n
    assume "get_node ?t i = Some n"
    then obtain m where m: "get_node t i = Some m" "n_parent n = n_parent m" "n_id n = n_id m"
      using parent by blast
    show "n_id n = i" and "i \<noteq> []" using wf_node [OF wf m(1)] m by auto
    show "(n_parent n = []) = (i = t_root t)" using wf_root_parent [OF wf m(1)] m by simp
    show "get_node ?t (n_parent n) \<noteq> None" if "n_parent n \<noteq> []"
      using that wf_parent [OF wf m(1)] m by (simp add: dom)
  qed (rule dist)
  moreover have "ranked ?t"
  proof -
    obtain rank :: "node_id \<Rightarrow> nat" where
      rank: "\<And>i m. get_node t i = Some m \<Longrightarrow> n_parent m \<noteq> [] \<Longrightarrow> rank (n_parent m) < rank i"
      using wf unfolding wf_tree_def ranked_def by blast
    have "rank (n_parent n) < rank i" if "get_node ?t i = Some n" "n_parent n \<noteq> []" for i n
      using parent [OF that(1)] rank that(2) by force
    then show ?thesis unfolding ranked_def by blast
  qed
  moreover have "children_ok ?t"
  proof -
    have "(\<exists>n. get_node ?t c = Some n \<and> n_parent n = p) \<longleftrightarrow> (\<exists>n. get_node t c = Some n \<and> n_parent n = p)"
      for c p using parent [of c] kept [of c] by force
    then show ?thesis using wf unfolding wf_tree_def children_ok_def fields by simp
  qed
  moreover have "refs_ok ?t"
    using wf unfolding wf_tree_def refs_ok_def fields by (simp add: dom)
  ultimately show ?thesis by (simp add: wf_tree_def)
qed

lemma get_node_frame [simp]:
  "get_node (t\<lparr>t_active := b\<rparr>) = get_node t"
  "get_node (t\<lparr>t_branches := bs\<rparr>) = get_node t"
  "get_node (t\<lparr>t_checkpoints := cs\<rparr>) = get_node t"
  by (auto simp: get_node_def fun_eq_iff)

lemma shape_frame [simp]:
  "nodes_ok (t\<lparr>t_active := b\<rparr>) = nodes_ok t" "nodes_ok (t\<lparr>t_branches := bs\<rparr>) = nodes_ok t"
  "nodes_ok (t\<lparr>t_checkpoints := cs\<rparr>) = nodes_ok t"
  "ranked (t\<lparr>t_active := b\<rparr>) = ranked t" "ranked (t\<lparr>t_branches := bs\<rparr>) = ranked t"
  "ranked (t\<lparr>t_checkpoints := cs\<rparr>) = ranked t"
  "children_ok (t\<lparr>t_active := b\<rparr>) = children_ok t"
  "children_ok (t\<lparr>t_branches := bs\<rparr>) = children_ok t"
  "children_ok (t\<lparr>t_checkpoints := cs\<rparr>) = children_ok t"
  by (simp_all add: nodes_ok_def ranked_def children_ok_def)

lemma wf_set_active_field:
  "wf_tree t \<Longrightarrow> map_of (t_branches t) b \<noteq> None \<Longrightarrow> wf_tree (t\<lparr>t_active := b\<rparr>)"
  by (simp add: wf_tree_def refs_ok_def)

lemma wf_set_branch:
  "wf_tree t \<Longrightarrow> get_node t i \<noteq> None \<Longrightarrow> wf_tree (t\<lparr>t_branches := AList.update b i (t_branches t)\<rparr>)"
  by (auto simp: wf_tree_def refs_ok_def)

lemma wf_add_checkpoint:
  "wf_tree t \<Longrightarrow> get_node t (cp_node cp) \<noteq> None \<Longrightarrow> cp_id cp = c \<Longrightarrow>
   wf_tree (t\<lparr>t_checkpoints := AList.update c cp (t_checkpoints t)\<rparr>)"
  by (auto simp: wf_tree_def refs_ok_def)

text \<open>A write-through keeps well-formedness when its installation does.\<close>

lemma wf_write_through:
  assumes "write_through bk t ops install v = (t', res, e)" and "wf_tree t"
    and "\<And>t1. wf_tree t1 \<Longrightarrow> same_core t1 t \<Longrightarrow> wf_tree (install t1)"
  shows "wf_tree t'"
  using assms(1)
proof (cases rule: write_through_cases)
  case (durable t1)
  have "same_core t1 t" using durable(1) by (rule wal_tx_same_core)
  with assms(2,3) durable(3) show ?thesis using wf_same_core by blast
next
  case refused
  have "same_core t' t" using refused(1) by (rule wal_tx_same_core)
  with assms(2) show ?thesis using wf_same_core by blast
qed

lemma wf_write_child:
  assumes "write_through bk t ops (install_child n) v = (t', res, e)"
    and "wf_tree t" and "fresh_id t (n_id n)" and "get_node t (n_parent n) = Some p"
  shows "wf_tree t'"
  using assms(1,2)
proof (rule wf_write_through)
  fix t1 :: "('a, 'b) conv_tree"
  assume "wf_tree t1" and core: "same_core t1 t"
  moreover have "fresh_id t1 (n_id n)" "get_node t1 (n_parent n) = Some p"
    using assms(3,4) core by (auto simp: fresh_id_def tree_simps)
  ultimately show "wf_tree (install_child n t1)" using wf_install_child by blast
qed

section \<open>The parent walk\<close>

definition below :: "('w, 's) conv_tree \<Rightarrow> (node_id \<Rightarrow> nat) \<Rightarrow> node_id \<Rightarrow> node_id set" where
  "below t rank i = {j. get_node t j \<noteq> None \<and> rank j \<le> rank i}"

lemma finite_nodes: "finite {j. get_node t j \<noteq> None}"
proof -
  have "{j. get_node t j \<noteq> None} = dom (map_of (t_nodes t))" by (auto simp: get_node_def)
  then show ?thesis by (simp add: finite_dom_map_of)
qed

lemma finite_below [simp]: "finite (below t rank i)"
  by (rule finite_subset [OF _ finite_nodes]) (auto simp: below_def)

lemma card_below: "card (below t rank i) \<le> length (t_nodes t)"
proof -
  have "below t rank i \<subseteq> dom (map_of (t_nodes t))" by (auto simp: below_def get_node_def)
  then have "card (below t rank i) \<le> card (dom (map_of (t_nodes t)))"
    by (rule card_mono [OF finite_dom_map_of])
  then show ?thesis using card_dom_map_of_le by (rule le_trans)
qed

lemma walk_up_ends:
  assumes wf: "wf_tree t"
    and rank: "\<And>i n. get_node t i = Some n \<Longrightarrow> n_parent n \<noteq> [] \<Longrightarrow> rank (n_parent n) < (rank i :: nat)"
  shows "get_node t i = Some n \<Longrightarrow> card (below t rank i) \<le> fuel \<Longrightarrow> \<exists>p. walk_up fuel t i = Ok (i # p)"
proof (induction fuel arbitrary: i n)
  case 0
  have "i \<in> below t rank i" using 0 by (simp add: below_def)
  with 0 show ?case by (metis card_gt_0_iff empty_iff finite_below le_zero_eq less_numeral_extra(3))
next
  case (Suc k)
  have ine: "i \<noteq> []" using wf_node [OF wf Suc.prems(1)] by simp
  show ?case
  proof (cases "n_parent n = []")
    case True
    then show ?thesis using Suc.prems(1) ine by (simp add: walk_up.simps)
  next
    case False
    then obtain p where p: "get_node t (n_parent n) = Some p" using wf_parent [OF wf Suc.prems(1)] by blast
    have "below t rank (n_parent n) \<subset> below t rank i"
      using rank [OF Suc.prems(1) False] Suc.prems(1) by (force simp: below_def)
    then have "card (below t rank (n_parent n)) < card (below t rank i)"
      by (rule psubset_card_mono [OF finite_below])
    with Suc.prems(2) obtain q where "walk_up k t (n_parent n) = Ok (n_parent n # q)"
      using Suc.IH [OF p] by fastforce
    then show ?thesis using Suc.prems(1) ine by (simp add: walk_up.simps [of "Suc k"])
  qed
qed

lemma walk_up_step: "i \<noteq> [] \<Longrightarrow> get_node t i = Some n \<Longrightarrow>
   walk_up (Suc k) t i = and_then (walk_up k t (n_parent n)) (\<lambda>p. Ok (i # p))"
  by (simp add: walk_up.simps [of "Suc k"])

text \<open>More fuel never changes a walk that ended.\<close>

lemma walk_up_Suc: "walk_up k t i = r \<Longrightarrow> r \<noteq> Diverge \<Longrightarrow> walk_up (Suc k) t i = r"
proof (induction k arbitrary: i r)
  case 0
  then show ?case by (simp add: walk_up.simps split: if_splits)
next
  case (Suc k)
  show ?case
  proof (cases "i = []")
    case True
    with Suc.prems show ?thesis by (simp add: walk_up.simps)
  next
    case ine: False
    show ?thesis
    proof (cases "get_node t i")
      case None
      with ine Suc.prems show ?thesis by (simp add: walk_up.simps)
    next
      case (Some n)
      with ine Suc.prems have "walk_up k t (n_parent n) \<noteq> Diverge"
        by (auto simp: walk_up.simps [of "Suc k"])
      then have "walk_up (Suc k) t (n_parent n) = walk_up k t (n_parent n)" using Suc.IH by blast
      with ine Some Suc.prems show ?thesis
        by (simp add: walk_up.simps [of "Suc (Suc k)"] walk_up.simps [of "Suc k" t i])
    qed
  qed
qed

lemma walk_up_more: "walk_up k t i \<noteq> Diverge \<Longrightarrow> k \<le> l \<Longrightarrow> walk_up l t i = walk_up k t i"
  by (induction l) (metis le_zero_eq, metis le_Suc_eq walk_up_Suc)

lemma path_eq_Ok: "path t i = Ok p \<longleftrightarrow> walk_up (length (t_nodes t) + 1) t i = Ok (rev p)"
  by (auto simp: path_def and_then_eq_Ok)

lemma path_ends:
  assumes "wf_tree t" and "get_node t i = Some n"
  shows "\<exists>p. path t i = Ok (p @ [i])"
proof -
  obtain rank :: "node_id \<Rightarrow> nat" where
    rank: "\<And>i n. get_node t i = Some n \<Longrightarrow> n_parent n \<noteq> [] \<Longrightarrow> rank (n_parent n) < rank i"
    using assms(1) unfolding wf_tree_def ranked_def by blast
  have "card (below t rank i) \<le> length (t_nodes t) + 1" using card_below [of t rank i] by linarith
  then have "\<exists>p. walk_up (length (t_nodes t) + 1) t i = Ok (i # p)"
    by (rule walk_up_ends [where rank = rank, OF assms(1) _ assms(2), rotated]) (use rank in blast)
  then obtain p where "walk_up (length (t_nodes t) + 1) t i = Ok (i # p)" by blast
  then show ?thesis by (simp add: path_def)
qed

text \<open>The path to a node is its parent's path and the node.\<close>

lemma path_step:
  assumes wf: "wf_tree t" and n: "get_node t i = Some n" and p: "n_parent n \<noteq> []"
  shows "\<exists>q. path t (n_parent n) = Ok q \<and> path t i = Ok (q @ [i])"
proof -
  obtain m where m: "get_node t (n_parent n) = Some m" using wf_parent [OF wf n p] by blast
  obtain q where q: "path t (n_parent n) = Ok (q @ [n_parent n])" using path_ends [OF wf m] by blast
  obtain r where r: "path t i = Ok (r @ [i])" using path_ends [OF wf n] by blast
  from q have "walk_up (length (t_nodes t) + 1) t (n_parent n) = Ok (n_parent n # rev q)"
    by (simp add: path_eq_Ok)
  then have wq: "walk_up (Suc (length (t_nodes t) + 1)) t (n_parent n) = Ok (n_parent n # rev q)"
    by (rule walk_up_Suc) simp
  from r have "walk_up (length (t_nodes t) + 1) t i = Ok (i # rev r)"
    by (simp add: path_eq_Ok)
  then have "walk_up (Suc (Suc (length (t_nodes t) + 1))) t i = Ok (i # rev r)"
    by (metis outcome.distinct(3) walk_up_Suc)
  with wq n wf_node [OF wf n] have "rev r = n_parent n # rev q"
    by (simp add: walk_up_step)
  then have "r = q @ [n_parent n]" by (metis rev.simps(2) rev_rev_ident)
  with q r show ?thesis by simp
qed

lemma path_root:
  assumes "get_node t i = Some n" "n_parent n = []" "i \<noteq> []"
  shows "path t i = Ok [i]"
  using assms by (simp add: path_def walk_up.simps)

text \<open>Induction on a well-formed tree, from parents to children.\<close>

lemma tree_induct [consumes 2, case_names Root Child]:
  assumes wf: "wf_tree t" and "get_node t i = Some n"
    and root: "\<And>i n. get_node t i = Some n \<Longrightarrow> n_parent n = [] \<Longrightarrow> P i"
    and child: "\<And>i n. get_node t i = Some n \<Longrightarrow> n_parent n \<noteq> [] \<Longrightarrow> P (n_parent n) \<Longrightarrow> P i"
  shows "P i"
proof -
  obtain rank :: "node_id \<Rightarrow> nat" where
    rank: "\<And>i n. get_node t i = Some n \<Longrightarrow> n_parent n \<noteq> [] \<Longrightarrow> rank (n_parent n) < rank i"
    using wf unfolding wf_tree_def ranked_def by blast
  have "get_node t j = Some m \<Longrightarrow> P j" for j m
  proof (induction "rank j" arbitrary: j m rule: less_induct)
    case less
    show ?case
    proof (cases "n_parent m = []")
      case True
      then show ?thesis using root less.prems by blast
    next
      case False
      then obtain p where p: "get_node t (n_parent m) = Some p" using wf_parent [OF wf less.prems] by blast
      have "P (n_parent m)" using less.hyps [OF rank [OF less.prems False] p] .
      then show ?thesis using child less.prems False by blast
    qed
  qed
  then show ?thesis using assms(2) by blast
qed

text \<open>Adding a node leaves every existing path as it was.\<close>

lemma path_agree:
  assumes wf: "wf_tree t" and wf': "wf_tree u" and i: "get_node t i = Some n"
    and agree: "\<And>j m. get_node t j = Some m \<Longrightarrow> \<exists>m'. get_node u j = Some m' \<and> n_parent m' = n_parent m"
  shows "path u i = path t i"
  using wf i
proof (induction rule: tree_induct)
  case (Root i n)
  then show ?case using agree [OF Root(1)] path_root wf_node [OF wf Root(1)] by metis
next
  case (Child i n)
  obtain m where m: "get_node u i = Some m" "n_parent m = n_parent n" using agree [OF Child(1)] by blast
  show ?case
    using path_step [OF wf Child(1,2)] path_step [OF wf' m(1)] Child(2,3) m(2) by auto
qed

lemma path_nodes:
  assumes wf: "wf_tree t" and i: "get_node t i = Some n"
  shows "\<exists>p. path t i = Ok p \<and> set p \<subseteq> {j. get_node t j \<noteq> None} \<and> hd p = t_root t \<and> p \<noteq> []"
  using wf i
proof (induction rule: tree_induct)
  case (Root i n)
  then show ?case using path_root wf_node [OF wf Root(1)] wf_root_parent [OF wf Root(1)] by fastforce
next
  case (Child i n)
  then show ?case using path_step [OF wf Child(1,2)] by auto
qed

end
