(* ===== verification/Tree_Views.thy ===== *)
theory Tree_Views
  imports Tree_Invariant
begin

text \<open>
  Reading a conversation: flattening a path into messages (\<open>agent/tree/flatten.go\<close>), tree paths, and
  the difference of two nodes (\<open>agent/tree/diff.go\<close>). On a well-formed tree these reads are total,
  the flattening of a node extends that of its parent, a tree path leads back to its node, and a
  difference splits both paths at their last common node.
\<close>

section \<open>Flattening\<close>

record annotated =
  an_message :: message
  an_node :: node_id
  an_path :: tree_path
  an_depth :: int
  an_branch :: branch_id
  an_state :: node_state

definition visible_message :: "('w, 's) conv_tree \<Rightarrow> node_id \<Rightarrow> message list" where
  "visible_message t i =
     (case get_node t i of
        None \<Rightarrow> []
      | Some n \<Rightarrow> if n_state n \<noteq> NodeArchived then [n_message n] else [])"

definition flatten :: "('w, 's) conv_tree \<Rightarrow> node_id \<Rightarrow> (terr, message list) outcome" where
  "flatten t i = and_then (path t i) (\<lambda>p. Ok (concat (map (visible_message t) p)))"

definition flatten_branch :: "('w, 's) conv_tree \<Rightarrow> branch_id \<Rightarrow> (terr, message list) outcome" where
  "flatten_branch t b =
     (case map_of (t_branches t) b of
        None \<Rightarrow> Fail (ErrBranchNotFound b)
      | Some i \<Rightarrow> flatten t i)"

definition annotate :: "('w, 's) conv_tree \<Rightarrow> node_id \<Rightarrow> (terr, annotated list) outcome" where
  "annotate t i =
     (case get_node t i of
        None \<Rightarrow> Ok []
      | Some n \<Rightarrow>
          if n_state n = NodeArchived then Ok []
          else and_then (node_path t i) (\<lambda>tp. Ok [\<lparr>an_message = n_message n, an_node = n_id n,
                 an_path = tp, an_depth = n_depth n, an_branch = n_branch n, an_state = n_state n\<rparr>]))"

definition flatten_annotated :: "('w, 's) conv_tree \<Rightarrow> node_id \<Rightarrow> (terr, annotated list) outcome" where
  "flatten_annotated t i =
     and_then (path t i) (\<lambda>p. and_then (traverse (annotate t) p) (\<lambda>xss. Ok (concat xss)))"

definition flatten_branch_annotated ::
  "('w, 's) conv_tree \<Rightarrow> branch_id \<Rightarrow> (terr, annotated list) outcome" where
  "flatten_branch_annotated t b =
     (case map_of (t_branches t) b of
        None \<Rightarrow> Fail (ErrBranchNotFound b)
      | Some i \<Rightarrow> flatten_annotated t i)"

section \<open>Differences\<close>

datatype diff_op = DiffAdded | DiffRemoved

record node_diff =
  nd_op :: diff_op
  nd_node :: node_id
  nd_path :: tree_path
  nd_message :: message
  nd_depth :: int

record tree_diff =
  td_ancestor :: node_id
  td_common :: "node_id list"
  td_added :: "node_diff list"
  td_removed :: "node_diff list"

fun common_prefix :: "'a list \<Rightarrow> 'a list \<Rightarrow> 'a list" where
  "common_prefix (x # xs) (y # ys) = (if x = y then x # common_prefix xs ys else [])"
| "common_prefix _ _ = []"

definition node_diffs :: "('w, 's) conv_tree \<Rightarrow> diff_op \<Rightarrow> node_id \<Rightarrow> node_diff list" where
  "node_diffs t op i =
     (case get_node t i of
        None \<Rightarrow> []
      | Some n \<Rightarrow> [\<lparr>nd_op = op, nd_node = i,
          nd_path = (case node_path t i of Ok tp \<Rightarrow> tp | _ \<Rightarrow> []),
          nd_message = n_message n, nd_depth = n_depth n\<rparr>])"

definition diff :: "('w, 's) conv_tree \<Rightarrow> node_id \<Rightarrow> node_id \<Rightarrow> (terr, tree_diff) outcome" where
  "diff t from_id to_id =
     and_then (path t from_id) (\<lambda>fp. and_then (path t to_id) (\<lambda>tp.
       let common = common_prefix fp tp; k = length common in
       if k = 0 then Fail (ErrOther ''nodes share no common ancestor'')
       else Ok \<lparr>td_ancestor = last common, td_common = common,
                td_added = concat (map (node_diffs t DiffAdded) (drop k tp)),
                td_removed = concat (map (node_diffs t DiffRemoved) (drop k fp))\<rparr>))"

definition diff_branches :: "('w, 's) conv_tree \<Rightarrow> branch_id \<Rightarrow> branch_id \<Rightarrow> (terr, tree_diff) outcome" where
  "diff_branches t a b =
     (case map_of (t_branches t) a of
        None \<Rightarrow> Fail (ErrBranchNotFound a)
      | Some i \<Rightarrow>
          (case map_of (t_branches t) b of
             None \<Rightarrow> Fail (ErrBranchNotFound b)
           | Some j \<Rightarrow> diff t i j))"

section \<open>Flattening lemmas\<close>

lemma flatten_root:
  "wf_tree t \<Longrightarrow> get_node t i = Some n \<Longrightarrow> n_parent n = [] \<Longrightarrow> flatten t i = Ok (visible_message t i)"
  using path_root [of t i n] wf_node [of t i n] by (simp add: flatten_def)

lemma flatten_step:
  assumes "wf_tree t" "get_node t i = Some n" "n_parent n \<noteq> []"
  shows "\<exists>ms. flatten t (n_parent n) = Ok ms \<and> flatten t i = Ok (ms @ visible_message t i)"
  using path_step [OF assms] by (auto simp: flatten_def)

lemma flatten_ends: "wf_tree t \<Longrightarrow> get_node t i = Some n \<Longrightarrow> \<exists>ms. flatten t i = Ok ms"
  using path_ends [of t i n] by (auto simp: flatten_def)

lemma flatten_branch_ends:
  "wf_tree t \<Longrightarrow> map_of (t_branches t) b \<noteq> None \<Longrightarrow> \<exists>ms. flatten_branch t b = Ok ms"
  using flatten_ends wf_tip by (fastforce simp: flatten_branch_def)

text \<open>A tree that agrees on the nodes of a path flattens it alike.\<close>

lemma flatten_agree:
  assumes wf: "wf_tree t" and wf': "wf_tree u" and i: "get_node t i = Some n"
    and agree: "\<And>j m. get_node t j = Some m \<Longrightarrow> get_node u j = Some m"
  shows "flatten u i = flatten t i"
proof -
  obtain p where p: "path t i = Ok p" "set p \<subseteq> {j. get_node t j \<noteq> None}"
    using path_nodes [OF wf i] by blast
  have "path u i = path t i" using agree by (intro path_agree [OF wf wf' i]) blast
  moreover have "map (visible_message u) p = map (visible_message t) p"
    using p(2) agree by (auto simp: visible_message_def)
  ultimately show ?thesis using p(1) by (simp add: flatten_def del: map_eq_conv)
qed

lemma flatten_same_core: "same_core t u \<Longrightarrow> flatten t i = flatten u i"
proof -
  assume core: "same_core t u"
  then have gets: "get_node t = get_node u" by (auto simp: same_core_get)
  then have vis: "visible_message t = visible_message u"
    by (simp add: visible_message_def fun_eq_iff)
  have walks: "walk_up k t j = walk_up k u j" for k j
  proof (induction k arbitrary: j)
    case 0
    then show ?case by (simp add: walk_up.simps)
  next
    case (Suc k)
    then show ?case by (simp add: walk_up.simps [of "Suc k"] gets split: option.split)
  qed
  then show ?thesis
    using core by (simp add: flatten_def path_def vis walks same_core_def)
qed

section \<open>Tree paths lead back to their node\<close>

fun follow :: "('w, 's) conv_tree \<Rightarrow> node_id \<Rightarrow> tree_path \<Rightarrow> node_id option" where
  "follow t i [] = Some i"
| "follow t i (k # ks) =
     (if 0 \<le> k \<and> nat k < length (t_children t i) then follow t (t_children t i ! nat k) ks else None)"

lemma follow_append:
  "follow t i (ks @ ls) = (case follow t i ks of None \<Rightarrow> None | Some j \<Rightarrow> follow t j ls)"
  by (induction ks arbitrary: i) auto

lemma index_of_nth:
  "index_of x xs = Some k \<Longrightarrow> 0 \<le> k \<and> nat k < length xs \<and> xs ! nat k = x"
  by (induction xs arbitrary: k) (auto simp: nat_add_distrib split: if_splits)

lemma index_of_mem: "x \<in> set xs \<Longrightarrow> \<exists>k. index_of x xs = Some k"
  by (induction xs) auto

lemma sibling_indices_snoc:
  "sibling_indices t (xs @ [p, c]) =
     and_then (sibling_indices t (xs @ [p])) (\<lambda>is.
       case index_of c (t_children t p) of
         None \<Rightarrow> Fail (ErrOther ''child not found in parent children'')
       | Some i \<Rightarrow> Ok (is @ [i]))"
  by (cases "index_of c (t_children t p)"; induction xs rule: induct_list012)
    (auto simp: and_then_assoc split: option.splits)

lemma node_path_follows:
  assumes wf: "wf_tree t" and i: "get_node t i = Some n"
  shows "\<exists>tp. node_path t i = Ok tp \<and> follow t (t_root t) tp = Some i"
  using wf i
proof (induction rule: tree_induct)
  case (Root i n)
  have "i = t_root t" using wf_root_parent [OF wf Root(1)] Root(2) by simp
  moreover have "path t i = Ok [i]" using path_root Root wf_node [OF wf Root(1)] by blast
  ultimately show ?case by (simp add: node_path_def)
next
  case (Child i n)
  then obtain tp where tp: "node_path t (n_parent n) = Ok tp" "follow t (t_root t) tp = Some (n_parent n)"
    by blast
  obtain q where q: "path t (n_parent n) = Ok q" "path t i = Ok (q @ [i])"
    using path_step [OF wf Child(1,2)] by blast
  obtain m where "get_node t (n_parent n) = Some m" using wf_parent [OF wf Child(1,2)] by blast
  then obtain r where r: "q = r @ [n_parent n]" using path_ends [OF wf] q(1) by fastforce
  have "i \<in> set (t_children t (n_parent n))"
    using wf Child(1,2) by (auto simp: wf_tree_def children_ok_def)
  then obtain k where k: "index_of i (t_children t (n_parent n)) = Some k" using index_of_mem by fast
  have "node_path t i = Ok (tp @ [k])"
    using tp(1) q r k sibling_indices_snoc [of t r "n_parent n" i] by (simp add: node_path_def)
  moreover have "follow t (t_root t) (tp @ [k]) = Some i"
    using tp(2) index_of_nth [OF k] by (simp add: follow_append)
  ultimately show ?case by blast
qed

section \<open>Differences\<close>

lemma common_prefix_split:
  "\<exists>a b. xs = common_prefix xs ys @ a \<and> ys = common_prefix xs ys @ b \<and>
     (a = [] \<or> b = [] \<or> hd a \<noteq> hd b)"
  by (induction xs ys rule: common_prefix.induct) auto

lemma common_prefix_sym: "common_prefix xs ys = common_prefix ys xs"
  by (induction xs ys rule: common_prefix.induct) auto

lemma node_diffs_nodes:
  "set p \<subseteq> {j. get_node t j \<noteq> None} \<Longrightarrow> map nd_node (concat (map (node_diffs t op) p)) = p"
  by (induction p) (auto simp: node_diffs_def)

lemma diff_total:
  assumes wf: "wf_tree t" and i: "get_node t i = Some n" and j: "get_node t j = Some m"
  shows "\<exists>d. diff t i j = Ok d \<and>
     path t i = Ok (td_common d @ map nd_node (td_removed d)) \<and>
     path t j = Ok (td_common d @ map nd_node (td_added d)) \<and>
     td_common d \<noteq> [] \<and> td_ancestor d = last (td_common d) \<and>
     (td_removed d = [] \<or> td_added d = [] \<or> nd_node (hd (td_removed d)) \<noteq> nd_node (hd (td_added d)))"
proof -
  obtain p where p: "path t i = Ok p" "set p \<subseteq> {j. get_node t j \<noteq> None}" "hd p = t_root t" "p \<noteq> []"
    using path_nodes [OF wf i] by blast
  obtain q where q: "path t j = Ok q" "set q \<subseteq> {j. get_node t j \<noteq> None}" "hd q = t_root t" "q \<noteq> []"
    using path_nodes [OF wf j] by blast
  let ?c = "common_prefix p q"
  have ne: "?c \<noteq> []" using p(3,4) q(3,4) by (cases p; cases q) auto
  obtain a b where ab: "p = ?c @ a" "q = ?c @ b" "a = [] \<or> b = [] \<or> hd a \<noteq> hd b"
    using common_prefix_split by blast
  have da: "drop (length ?c) p = a" and db: "drop (length ?c) q = b"
    by (subst ab, simp)+
  let ?d = "\<lparr>td_ancestor = last ?c, td_common = ?c,
     td_added = concat (map (node_diffs t DiffAdded) b),
     td_removed = concat (map (node_diffs t DiffRemoved) a)\<rparr>"
  have "diff t i j = Ok ?d" using p(1) q(1) ne by (simp add: diff_def Let_def da db)
  moreover have na: "map nd_node (concat (map (node_diffs t DiffRemoved) a)) = a"
    and nb: "map nd_node (concat (map (node_diffs t DiffAdded) b)) = b"
    using p(2) q(2) ab(1,2) by (metis Un_subset_iff node_diffs_nodes set_append)+
  moreover have "concat (map (node_diffs t DiffRemoved) a) = [] \<or>
     concat (map (node_diffs t DiffAdded) b) = [] \<or>
     nd_node (hd (concat (map (node_diffs t DiffRemoved) a))) \<noteq> nd_node (hd (concat (map (node_diffs t DiffAdded) b)))"
    using ab(3) na nb by (metis hd_map list.map_disc_iff)
  ultimately show ?thesis using p(1) q(1) ab ne by (intro exI [of _ ?d]) simp
qed

end
