(* ===== verification/Tree_Subtree.thy ===== *)
theory Tree_Subtree
  imports Tree_Views
begin

text \<open>
  Which nodes a recursive archive or restore touches: on a well-formed tree \<open>collectSubtree\<close> ends and
  gives exactly the nodes whose path runs through the given one.
\<close>

section \<open>Traversals\<close>

lemma traverse_eq_Ok:
  "traverse f xs = Ok ys \<Longrightarrow> length ys = length xs \<and> (\<forall>k<length xs. f (xs ! k) = Ok (ys ! k))"
proof (induction xs arbitrary: ys)
  case (Cons x xs)
  then obtain z zs where z: "f x = Ok z" "traverse f xs = Ok zs" "ys = z # zs"
    by (auto simp: and_then_eq_Ok)
  then show ?case using Cons.IH [OF z(2)] by (auto simp: nth_Cons split: nat.split)
qed simp

lemma traverse_mem:
  "traverse f xs = Ok ys \<Longrightarrow> y \<in> set ys \<Longrightarrow> \<exists>x\<in>set xs. f x = Ok y"
  by (induction xs arbitrary: ys) (auto simp: and_then_eq_Ok)

lemma traverse_mem_of:
  "traverse f xs = Ok ys \<Longrightarrow> x \<in> set xs \<Longrightarrow> \<exists>y\<in>set ys. f x = Ok y"
  by (induction xs arbitrary: ys) (auto simp: and_then_eq_Ok)

lemma traverse_total:
  "(\<And>x. x \<in> set xs \<Longrightarrow> \<exists>y. f x = Ok y) \<Longrightarrow> \<exists>ys. traverse f xs = Ok ys"
proof (induction xs)
  case (Cons x xs)
  obtain y where y: "f x = Ok y" using Cons.prems [of x] by auto
  obtain ys where "traverse f xs = Ok ys" using Cons.IH Cons.prems by fastforce
  with y show ?case by simp
qed simp

section \<open>Children\<close>

lemma wf_children:
  "wf_tree t \<Longrightarrow> c \<in> set (t_children t p) \<longleftrightarrow> p \<noteq> [] \<and> (\<exists>n. get_node t c = Some n \<and> n_parent n = p)"
  by (simp add: wf_tree_def children_ok_def)

definition collect_child :: "nat \<Rightarrow> ('w, 's) conv_tree \<Rightarrow> node_id \<Rightarrow> (terr, node list) outcome" where
  "collect_child k t c = (case get_node t c of None \<Rightarrow> Ok [] | Some m \<Rightarrow> collect_nodes k t m)"

lemma collect_Suc:
  "collect_nodes (Suc k) t n =
     and_then (traverse (collect_child k t) (t_children t (n_id n))) (\<lambda>xss. Ok (n # concat xss))"
  by (simp add: collect_child_def [abs_def])

lemma collect_Suc_Ok:
  assumes "collect_nodes k t n = Ok ns"
  obtains k' xss where "k = Suc k'" "traverse (collect_child k' t) (t_children t (n_id n)) = Ok xss"
    "ns = n # concat xss"
  using assms
proof (cases k)
  case (Suc k')
  then show ?thesis using assms that by (auto simp del: collect_nodes.simps simp: collect_Suc and_then_eq_Ok)
qed simp

definition in_subtree :: "('w, 's) conv_tree \<Rightarrow> node_id \<Rightarrow> node_id \<Rightarrow> bool" where
  "in_subtree t i j = (\<exists>p. path t j = Ok p \<and> i \<in> set p)"

lemma in_subtree_self: "wf_tree t \<Longrightarrow> get_node t i = Some n \<Longrightarrow> in_subtree t i i"
  using path_ends by (fastforce simp: in_subtree_def)

lemma in_subtree_child:
  "wf_tree t \<Longrightarrow> get_node t c = Some m \<Longrightarrow> n_parent m \<noteq> [] \<Longrightarrow>
   in_subtree t i c \<longleftrightarrow> c = i \<or> in_subtree t i (n_parent m)"
  using path_step [of t c m] by (auto simp: in_subtree_def)

lemma collect_sound:
  assumes wf: "wf_tree t"
  shows "collect_nodes k t n = Ok ns \<Longrightarrow> get_node t (n_id n) = Some n \<Longrightarrow> in_subtree t i (n_id n) \<Longrightarrow>
     \<forall>m\<in>set ns. get_node t (n_id m) = Some m \<and> in_subtree t i (n_id m)"
proof (induction k arbitrary: n ns)
  case (Suc k)
  from Suc.prems(1) obtain xss where
    xss: "traverse (collect_child k t) (t_children t (n_id n)) = Ok xss" "ns = n # concat xss"
    by (elim collect_Suc_Ok) simp
  have "get_node t (n_id m) = Some m \<and> in_subtree t i (n_id m)" if m: "xs \<in> set xss" "m \<in> set xs" for xs m
  proof -
    obtain c where c: "c \<in> set (t_children t (n_id n))" "collect_child k t c = Ok xs"
      using traverse_mem [OF xss(1) m(1)] by blast
    then obtain q where q: "get_node t c = Some q" "n_parent q = n_id n" "n_id n \<noteq> []"
      using wf_children [OF wf] by blast
    have "n_id q = c" using wf_node [OF wf q(1)] by simp
    moreover have "in_subtree t i c" using in_subtree_child [OF wf q(1)] q(2,3) Suc.prems(3) by simp
    moreover have "collect_nodes k t q = Ok xs" using c(2) q(1) by (simp add: collect_child_def)
    ultimately show ?thesis using Suc.IH [of q xs] q(1) m(2) by auto
  qed
  then show ?case using xss(2) Suc.prems(2,3) by auto
qed simp

lemma collect_closed:
  assumes wf: "wf_tree t" and c: "get_node t c = Some m"
  shows "collect_nodes k t n = Ok ns \<Longrightarrow> q \<in> set ns \<Longrightarrow> n_parent m = n_id q \<Longrightarrow> n_id q \<noteq> [] \<Longrightarrow> m \<in> set ns"
proof (induction k arbitrary: n ns)
  case (Suc k)
  from Suc.prems(1) obtain xss where
    xss: "traverse (collect_child k t) (t_children t (n_id n)) = Ok xss" "ns = n # concat xss"
    by (elim collect_Suc_Ok) simp
  show ?case
  proof (cases "q = n")
    case True
    then have "c \<in> set (t_children t (n_id n))" using wf_children [OF wf] c Suc.prems(3,4) by auto
    then obtain xs where xs: "xs \<in> set xss" "collect_child k t c = Ok xs"
      using traverse_mem_of [OF xss(1)] by blast
    then have "collect_nodes k t m = Ok xs" using c by (simp add: collect_child_def)
    then have "m \<in> set xs" by (elim collect_Suc_Ok) simp
    then show ?thesis using xs(1) xss(2) by auto
  next
    case False
    then obtain xs where xs: "xs \<in> set xss" "q \<in> set xs" using Suc.prems(2) xss(2) by auto
    then obtain d where d: "collect_child k t d = Ok xs" using traverse_mem [OF xss(1)] by blast
    show ?thesis
    proof (cases "get_node t d")
      case None
      then show ?thesis using d xs(2) by (simp add: collect_child_def)
    next
      case (Some r)
      then have "m \<in> set xs" using d xs(2) Suc.prems(3,4) Suc.IH [of r xs] by (simp add: collect_child_def)
      then show ?thesis using xs(1) xss(2) by auto
    qed
  qed
qed simp

text \<open>Fuel: the nodes ranked at least as high as the start.\<close>

definition above :: "('w, 's) conv_tree \<Rightarrow> (node_id \<Rightarrow> nat) \<Rightarrow> node_id \<Rightarrow> node_id set" where
  "above t rank i = {j. get_node t j \<noteq> None \<and> rank i \<le> rank j}"

lemma finite_above [simp]: "finite (above t rank i)"
  by (rule finite_subset [OF _ finite_nodes]) (auto simp: above_def)

lemma card_above: "card (above t rank i) \<le> length (t_nodes t)"
proof -
  have "above t rank i \<subseteq> dom (map_of (t_nodes t))" by (auto simp: above_def get_node_def)
  then have "card (above t rank i) \<le> card (dom (map_of (t_nodes t)))"
    by (rule card_mono [OF finite_dom_map_of])
  then show ?thesis using card_dom_map_of_le by (rule le_trans)
qed

lemma collect_ends:
  assumes wf: "wf_tree t"
    and rank: "\<And>i n. get_node t i = Some n \<Longrightarrow> n_parent n \<noteq> [] \<Longrightarrow> rank (n_parent n) < (rank i :: nat)"
  shows "get_node t (n_id n) = Some n \<Longrightarrow> card (above t rank (n_id n)) \<le> k \<Longrightarrow>
     \<exists>ns. collect_nodes k t n = Ok ns"
proof (induction k arbitrary: n)
  case 0
  have "n_id n \<in> above t rank (n_id n)" using 0 by (simp add: above_def)
  with 0 show ?case by (metis card_gt_0_iff empty_iff finite_above le_zero_eq less_numeral_extra(3))
next
  case (Suc k)
  have "\<exists>xs. collect_child k t c = Ok xs" if "c \<in> set (t_children t (n_id n))" for c
  proof -
    from that obtain q where q: "get_node t c = Some q" "n_parent q = n_id n" "n_id n \<noteq> []"
      using wf_children [OF wf] by blast
    have c: "n_id q = c" using wf_node [OF wf q(1)] by simp
    have lt: "rank (n_id n) < rank c" using rank [OF q(1)] q(2,3) by simp
    then have "n_id n \<notin> above t rank c" by (simp add: above_def)
    moreover have "n_id n \<in> above t rank (n_id n)" using Suc.prems(1) by (simp add: above_def)
    moreover have "above t rank c \<subseteq> above t rank (n_id n)" using lt by (auto simp: above_def)
    ultimately have "card (above t rank c) < card (above t rank (n_id n))"
      by (metis finite_above psubsetI psubset_card_mono)
    then have "\<exists>ns. collect_nodes k t q = Ok ns" using Suc.IH [of q] Suc.prems(2) q(1) c by simp
    then show ?thesis using q(1) by (simp add: collect_child_def)
  qed
  then obtain xss where "traverse (collect_child k t) (t_children t (n_id n)) = Ok xss"
    using traverse_total by blast
  then show ?case by (simp del: collect_nodes.simps add: collect_Suc)
qed

lemma collect_subtree_exact:
  assumes wf: "wf_tree t" and i: "get_node t i = Some n"
  shows "\<exists>ns. collect_subtree t n recursive = Ok ns \<and> (\<forall>m\<in>set ns. get_node t (n_id m) = Some m) \<and>
     n_id ` set ns = (if recursive then {j. get_node t j \<noteq> None \<and> in_subtree t i j} else {i})"
proof (cases recursive)
  case False
  then show ?thesis using wf_node [OF wf i] i by (simp add: collect_subtree_def)
next
  case True
  have id: "n_id n = i" using wf_node [OF wf i] by simp
  obtain rank :: "node_id \<Rightarrow> nat" where
    rank: "\<And>i n. get_node t i = Some n \<Longrightarrow> n_parent n \<noteq> [] \<Longrightarrow> rank (n_parent n) < rank i"
    using wf unfolding wf_tree_def ranked_def by blast
  have "card (above t rank (n_id n)) \<le> length (t_nodes t) + 1"
    using card_above [of t rank "n_id n"] by linarith
  then obtain ns where ns: "collect_nodes (length (t_nodes t) + 1) t n = Ok ns"
    using collect_ends [where rank = rank, OF wf] rank i id by blast
  have sound: "\<forall>m\<in>set ns. get_node t (n_id m) = Some m \<and> in_subtree t i (n_id m)"
    using collect_sound [OF wf ns] i id in_subtree_self [OF wf i] by simp
  have self: "n \<in> set ns" using ns by (elim collect_Suc_Ok) simp
  have all: "in_subtree t i j \<longrightarrow> j \<in> n_id ` set ns" if "get_node t j = Some m" for j m
    using wf that
  proof (induction rule: tree_induct)
    case (Root j m)
    then have "path t j = Ok [j]" using path_root wf_node [OF wf Root(1)] by blast
    then show ?case using self id by (auto simp: in_subtree_def)
  next
    case (Child j m)
    show ?case
    proof
      assume "in_subtree t i j"
      then consider "j = i" | "in_subtree t i (n_parent m)"
        using in_subtree_child [OF wf Child(1,2)] by blast
      then show "j \<in> n_id ` set ns"
      proof cases
        case 1
        then show ?thesis using self id by blast
      next
        case 2
        then obtain q where q: "q \<in> set ns" "n_parent m = n_id q" using Child(3) by blast
        then have "m \<in> set ns" using collect_closed [OF wf Child(1) ns] Child(2) by simp
        then show ?thesis using wf_node [OF wf Child(1)] by force
      qed
    qed
  qed
  have "n_id ` set ns = {j. get_node t j \<noteq> None \<and> in_subtree t i j}"
  proof (intro equalityI subsetI)
    fix j
    assume "j \<in> n_id ` set ns"
    then show "j \<in> {j. get_node t j \<noteq> None \<and> in_subtree t i j}" using sound by auto
  next
    fix j
    assume "j \<in> {j. get_node t j \<noteq> None \<and> in_subtree t i j}"
    then show "j \<in> n_id ` set ns" using all by blast
  qed
  with ns sound True show ?thesis by (auto simp: collect_subtree_def)
qed

end
