(* ===== verification/Compaction.thy ===== *)
theory Compaction
  imports Tree_Subtree
begin

text \<open>
  Compaction of a branch (\<open>agent/tree/compact.go\<close>): an eligible prefix of the branch is summarised and
  the rest is copied onto a new branch that becomes active. The tokenizer, the provider's stream and
  the rendering of messages as text (\<open>types.MessagesToText\<close>) are arguments, and so are the fresh ids.
\<close>

section \<open>How many messages to summarise\<close>

definition has_tool_result :: "message \<Rightarrow> bool" where
  "has_tool_result m =
     (case m of
        SystemMessage ps \<Rightarrow> list_ex is_tool_result ps
      | UserMessage ps \<Rightarrow> list_ex is_tool_result ps
      | AssistantMessage ps \<Rightarrow> False)"

text \<open>The forward loop over the messages from \<open>count\<close> on.\<close>

fun compact_forward :: "message list \<Rightarrow> nat \<Rightarrow> nat" where
  "compact_forward [] k = k"
| "compact_forward (m # ms) k = (if has_tool_result m then compact_forward ms (k + 1) else k)"

fun compact_back :: "message list \<Rightarrow> nat \<Rightarrow> nat option" where
  "compact_back ms 0 = None"
| "compact_back ms (Suc b) =
     (if \<not> has_tool_result (ms ! Suc b) then Some (Suc b) else compact_back ms b)"

definition compact_count :: "message list \<Rightarrow> nat" where
  "compact_count ms =
     (let n = length ms in
      if n = 0 then 0
      else let count = max 1 (n div 2); forward = compact_forward (drop count ms) count in
      if forward < n \<or> n = 1 then forward
      else case compact_back ms count of Some b \<Rightarrow> b | None \<Rightarrow> forward)"

section \<open>The summary\<close>

datatype stream_delta = PartDelta string | ErrorDelta terr | OtherDelta

definition stream_text :: "stream_delta list \<Rightarrow> string" where
  "stream_text ds = concat (map (\<lambda>d. case d of PartDelta s \<Rightarrow> s | _ \<Rightarrow> []) ds)"

definition stream_error :: "stream_delta list \<Rightarrow> terr option" where
  "stream_error ds =
     foldl (\<lambda>e d. case d of ErrorDelta x \<Rightarrow> Some x | _ \<Rightarrow> e) None ds"

definition summarize_messages ::
  "(message list \<Rightarrow> terr + stream_delta list) \<Rightarrow> (message list \<Rightarrow> string) \<Rightarrow> message list \<Rightarrow> terr + string" where
  "summarize_messages provider to_text ms =
     (let request = [SystemMessage [TextPart ''Summarize the following conversation concisely, preserving key facts and decisions.''],
                     UserMessage [TextPart (to_text ms)]] in
      case provider request of
        Inl e \<Rightarrow> Inl (ErrWrapped ''summarization'' e)
      | Inr ds \<Rightarrow>
          (case stream_error ds of
             Some e \<Rightarrow> Inl (ErrWrapped ''summarization'' e)
           | None \<Rightarrow>
               if trim_space (stream_text ds) = []
               then Inl (ErrOther ''summarization produced an empty summary'')
               else Inr (stream_text ds)))"

section \<open>Names\<close>

definition compact_prefix :: string where "compact_prefix = ''compact-''"

text \<open>\<open>strings.LastIndex\<close> of a byte, as an index; -1 when it does not occur.\<close>

definition last_index :: "char \<Rightarrow> string \<Rightarrow> int" where
  "last_index c s = int (length s) - 1 - int (length (takeWhile (\<lambda>d. d \<noteq> c) (rev s)))"

function base_branch_name :: "string \<Rightarrow> string" where
  "base_branch_name name =
     (if has_prefix name compact_prefix then
        let rest = trim_prefix name compact_prefix; i = last_index CHR ''-'' rest in
        if i \<le> 0 \<or> int (length rest) - i - 1 \<noteq> 8 then name
        else base_branch_name (take (nat i) rest)
      else name)"
  by pat_completeness auto
termination
  by (relation "measure length") (auto simp: trim_prefix_def compact_prefix_def has_prefix_def prefix_def)

declare base_branch_name.simps [simp del]

section \<open>Compact\<close>

record compact_opts =
  co_max_tokens :: int
  co_preserve_shared :: bool

text \<open>Nodes on the path of another branch; a branch whose path fails counts for nothing.\<close>

definition shared_nodes :: "('w, 's) conv_tree \<Rightarrow> branch_id \<Rightarrow> (terr, node_id list) outcome" where
  "shared_nodes t branch =
     and_then
       (traverse (\<lambda>(b, tip). if b = branch then Ok []
                             else case path t tip of Ok p \<Rightarrow> Ok p | Fail e \<Rightarrow> Ok [] | Diverge \<Rightarrow> Diverge)
          (t_branches t))
       (\<lambda>ps. Ok (concat ps))"

definition compact_candidates :: "('w, 's) conv_tree \<Rightarrow> node_id list \<Rightarrow> node_id list \<Rightarrow> node list" where
  "compact_candidates t shared p =
     filter (\<lambda>n. n_parent n \<noteq> [] \<and> n_state n = NodeActive \<and> n_id n \<notin> set shared)
       (List.map_filter (get_node t) p)"

definition summary_request :: string where
  "summary_request = ''Summarize the conversation so far, preserving key facts and decisions.''"

definition request_node :: "node \<Rightarrow> branch_id \<Rightarrow> node_id \<Rightarrow> time \<Rightarrow> node" where
  "request_node first b rid now = \<lparr>n_id = rid, n_parent = n_parent first,
     n_message = UserMessage [TextPart summary_request], n_state = NodeCompacted, n_version = 1,
     n_depth = n_depth first, n_branch = b, n_created = now, n_updated = now,
     n_archived_at = None, n_archived_by = [], n_summary_of = []\<rparr>"

definition summary_node :: "node \<Rightarrow> branch_id \<Rightarrow> node_id \<Rightarrow> node_id \<Rightarrow> string \<Rightarrow> node_id list \<Rightarrow> time \<Rightarrow> node" where
  "summary_node first b rid sid summary ids now = \<lparr>n_id = sid, n_parent = rid,
     n_message = AssistantMessage [TextPart summary], n_state = NodeCompacted, n_version = 1,
     n_depth = n_depth first + 1, n_branch = b, n_created = now, n_updated = now,
     n_archived_at = None, n_archived_by = [], n_summary_of = ids\<rparr>"

definition copied_node :: "node \<Rightarrow> branch_id \<Rightarrow> node_id \<Rightarrow> node_id \<Rightarrow> time \<Rightarrow> node" where
  "copied_node orig b prev i now = \<lparr>n_id = i, n_parent = prev, n_message = n_message orig,
     n_state = NodeActive, n_version = 1, n_depth = n_depth orig, n_branch = b,
     n_created = n_created orig, n_updated = now,
     n_archived_at = None, n_archived_by = [], n_summary_of = []\<rparr>"

text \<open>The copies of the remaining nodes, each below the one before it; one fresh id per copy.\<close>

fun copy_chain :: "branch_id \<Rightarrow> time \<Rightarrow> node_id \<Rightarrow> node list \<Rightarrow> node_id list \<Rightarrow> node list" where
  "copy_chain b now prev (n # ns) (i # is) = copied_node n b prev i now # copy_chain b now i ns is"
| "copy_chain b now prev _ _ = []"

definition remaining_after :: "node_id list \<Rightarrow> node_id \<Rightarrow> node_id list" where
  "remaining_after p last_id = filter (\<lambda>i. i \<noteq> last_id) (dropWhile (\<lambda>i. i \<noteq> last_id) p)"

definition add_tree_node :: "node \<Rightarrow> ('w, 's) conv_tree \<Rightarrow> ('w, 's) conv_tree" where
  "add_tree_node n t = t\<lparr>t_nodes := AList.update (n_id n) n (t_nodes t),
     t_children := (t_children t)(n_parent n := t_children t (n_parent n) @ [n_id n])\<rparr>"

definition install_compact ::
  "node list \<Rightarrow> branch_id \<Rightarrow> node_id \<Rightarrow> ('w, 's) conv_tree \<Rightarrow> ('w, 's) conv_tree" where
  "install_compact ns b tip t =
     (let t' = foldl (\<lambda>u n. add_tree_node n u) t ns
      in t'\<lparr>t_branches := AList.update b tip (t_branches t'), t_active := b\<rparr>)"

definition compact_ops :: "node list \<Rightarrow> branch_id \<Rightarrow> node_id \<Rightarrow> tx_op list" where
  "compact_ops ns b tip = map add_node_op ns @ [set_branch_op b tip, set_active_op b]"

text \<open>
  What the compaction of a branch writes: the summary pair and the copies, on the new branch. \<open>rid\<close>,
  \<open>sid\<close> and \<open>ids\<close> are the fresh node ids, \<open>buid\<close> the fresh id the branch name takes its suffix from.
\<close>

definition compacted_nodes ::
  "('w, 's) conv_tree \<Rightarrow> node_id list \<Rightarrow> node list \<Rightarrow> string \<Rightarrow> branch_id \<Rightarrow> node_id \<Rightarrow> node_id \<Rightarrow>
   node_id list \<Rightarrow> time \<Rightarrow> node list" where
  "compacted_nodes t p chosen summary b rid sid ids now =
     request_node (hd chosen) b rid now #
     summary_node (hd chosen) b rid sid summary (map n_id chosen) now #
     copy_chain b now sid (List.map_filter (get_node t) (remaining_after p (n_id (last chosen)))) ids"

definition compact ::
  "('w, 's, 't) backend \<Rightarrow> ('w, 's) conv_tree \<Rightarrow> branch_id \<Rightarrow> (message list \<Rightarrow> terr + int) \<Rightarrow>
   (message list \<Rightarrow> terr + stream_delta list) \<Rightarrow> (message list \<Rightarrow> string) \<Rightarrow> compact_opts \<Rightarrow>
   string \<Rightarrow> node_id \<Rightarrow> node_id \<Rightarrow> node_id list \<Rightarrow> time \<Rightarrow>
   ('w, 's) conv_tree \<times> (terr, branch_id \<times> terr option) outcome" where
  "compact bk t branch tokenizer provider to_text opts buid rid sid ids now =
     (case map_of (t_branches t) branch of
        None \<Rightarrow> (t, Fail (ErrBranchNotFound branch))
      | Some tip \<Rightarrow>
     (case path t tip of
        Fail e \<Rightarrow> (t, Fail e)
      | Diverge \<Rightarrow> (t, Diverge)
      | Ok p \<Rightarrow>
     (case tokenizer (concat (map (visible_message t) p)) of
        Inl e \<Rightarrow> (t, Fail (ErrWrapped ''counting tokens'' e))
      | Inr count \<Rightarrow>
          if count \<le> co_max_tokens opts then (t, Ok (branch, None))
          else
     (case (if co_preserve_shared opts then shared_nodes t branch else Ok []) of
        Fail e \<Rightarrow> (t, Fail e)
      | Diverge \<Rightarrow> (t, Diverge)
      | Ok shared \<Rightarrow>
          let cands = compact_candidates t shared p in
          if cands = [] then (t, Ok (branch, None))
          else
            let chosen = take (compact_count (map n_message cands)) cands in
     (case summarize_messages provider to_text (map n_message chosen) of
        Inl e \<Rightarrow> (t, Fail e)
      | Inr summary \<Rightarrow>
          let b = compact_prefix @ base_branch_name branch @ ''-'' @ take 8 buid;
              ns = compacted_nodes t p chosen summary b rid sid ids now;
              new_tip = n_id (last ns)
          in (case write_through bk t (compact_ops ns b new_tip) (install_compact ns b new_tip) () of
                (t', Some _, e) \<Rightarrow> (t', Ok (b, e))
              | (t', None, Some e) \<Rightarrow> (t', Fail e)
              | (t', None, None) \<Rightarrow> (t', Fail (ErrOther [])))))))) "

section \<open>The boundary\<close>

lemma compact_forward_spec:
  "k \<le> compact_forward ms k \<and> compact_forward ms k \<le> k + length ms \<and>
   (\<forall>i. k \<le> i \<longrightarrow> i < compact_forward ms k \<longrightarrow> has_tool_result (ms ! (i - k))) \<and>
   (compact_forward ms k < k + length ms \<longrightarrow> \<not> has_tool_result (ms ! (compact_forward ms k - k)))"
proof (induction ms k rule: compact_forward.induct)
  case (2 m ms k)
  show ?case
  proof (cases "has_tool_result m")
    case True
    note IH = 2 [OF True]
    have "has_tool_result ((m # ms) ! (i - k))" if "k \<le> i" "i < compact_forward ms (k + 1)" for i
    proof (cases "i = k")
      case False
      then have "i - k = Suc (i - (k + 1))" "k + 1 \<le> i" using that by simp_all
      then show ?thesis using IH that by simp
    qed (use True in simp)
    moreover have "\<not> has_tool_result ((m # ms) ! (compact_forward ms (k + 1) - k))"
      if "compact_forward ms (k + 1) < k + length (m # ms)"
    proof -
      have "k + 1 \<le> compact_forward ms (k + 1)" using IH by blast
      then have "compact_forward ms (k + 1) - k = Suc (compact_forward ms (k + 1) - (k + 1))" by arith
      then show ?thesis using IH that by simp
    qed
    ultimately show ?thesis using IH True by simp
  qed simp
qed simp

lemma compact_back_spec:
  "(case compact_back ms b of
      Some k \<Rightarrow> 1 \<le> k \<and> k \<le> b \<and> \<not> has_tool_result (ms ! k)
    | None \<Rightarrow> \<forall>k. 1 \<le> k \<longrightarrow> k \<le> b \<longrightarrow> has_tool_result (ms ! k))"
  by (induction ms b rule: compact_back.induct) (auto split: option.splits simp: le_Suc_eq)

lemma compact_count_boundary:
  assumes "ms \<noteq> []"
  shows "1 \<le> compact_count ms \<and> compact_count ms \<le> length ms \<and>
     (compact_count ms < length ms \<longrightarrow> \<not> has_tool_result (ms ! compact_count ms)) \<and>
     (compact_count ms = length ms \<longrightarrow> (\<forall>i. 1 \<le> i \<longrightarrow> i < length ms \<longrightarrow> has_tool_result (ms ! i)))"
proof -
  let ?n = "length ms" and ?c = "max 1 (length ms div 2)"
  let ?f = "compact_forward (drop ?c ms) ?c"
  have c: "1 \<le> ?c" "?c \<le> ?n" using assms by (auto simp: max_def Suc_le_eq)
  note f = compact_forward_spec [of ?c "drop ?c ms"]
  have up: "has_tool_result (ms ! i)" if "?c \<le> i" "i < ?f" for i
  proof -
    have "has_tool_result (drop ?c ms ! (i - ?c))" using f that by blast
    then show ?thesis using c(2) that(1) by simp
  qed
  have stop: "\<not> has_tool_result (ms ! ?f)" if "?f < ?n"
  proof -
    have "?f < ?c + length (drop ?c ms)" using that c(2) by simp
    then have "\<not> has_tool_result (drop ?c ms ! (?f - ?c))" using f by blast
    then show ?thesis using c(2) f by simp
  qed
  have "?f \<le> ?c + (?n - ?c)" using f by simp
  then have fb: "?c \<le> ?f" "?f \<le> ?n" using f c(2) by (blast, simp)
  show ?thesis
  proof (cases "?f < ?n \<or> ?n = 1")
    case True
    then have v: "compact_count ms = ?f" using assms by (simp add: compact_count_def Let_def)
    have "?f = ?n \<Longrightarrow> ?n = 1" using True by simp
    then have full: "?f = ?n \<Longrightarrow> 1 \<le> i \<Longrightarrow> i < ?n \<Longrightarrow> False" for i by simp
    show ?thesis
      unfolding v using order_trans [OF c(1) fb(1)] fb(2) stop full by blast
  next
    case False
    then have full: "?f = ?n" using fb by simp
    show ?thesis
    proof (cases "compact_back ms ?c")
      case None
      then have v: "compact_count ms = ?n" using assms False full by (simp add: compact_count_def Let_def)
      have low: "has_tool_result (ms ! i)" if "1 \<le> i" "i \<le> ?c" for i
        using compact_back_spec [where ms = ms and b = ?c] None that by simp
      have "has_tool_result (ms ! i)" if "1 \<le> i" "i < ?n" for i
        using low [of i] up [of i] full that by (cases "i \<le> ?c") auto
      then show ?thesis using v assms by (simp add: Suc_le_eq)
    next
      case (Some b)
      then have v: "compact_count ms = b" using assms False by (simp add: compact_count_def Let_def)
      have b: "1 \<le> b" "b \<le> ?c" "\<not> has_tool_result (ms ! b)"
        using compact_back_spec [where ms = ms and b = ?c] Some by simp_all
      have "?c < ?n" using False assms by (cases ms) (auto simp: max_def)
      then have "b < ?n" using b(2) by (rule le_less_trans [rotated])
      then show ?thesis using v b(1,3) by simp
    qed
  qed
qed

section \<open>A chain of new nodes\<close>

text \<open>Each node is fresh and hangs below a node the tree then has.\<close>

fun linked :: "('w, 's) conv_tree \<Rightarrow> node list \<Rightarrow> bool" where
  "linked t [] = True"
| "linked t (n # ns) =
     (fresh_id t (n_id n) \<and> get_node t (n_parent n) \<noteq> None \<and> linked (install_child n t) ns)"

definition install_all :: "node list \<Rightarrow> ('w, 's) conv_tree \<Rightarrow> ('w, 's) conv_tree" where
  "install_all ns t = foldl (\<lambda>u n. install_child n u) t ns"

lemma install_all_simps [simp]:
  "install_all [] t = t" "install_all (n # ns) t = install_all ns (install_child n t)"
  by (simp_all add: install_all_def)

lemma update_update: "AList.update k v (AList.update k w m) = AList.update k v m"
  by (induction m) auto

lemma wf_install_all: "wf_tree t \<Longrightarrow> linked t ns \<Longrightarrow> wf_tree (install_all ns t)"
  by (induction ns arbitrary: t) (auto intro: wf_install_child)

lemma install_all_keeps: "linked t ns \<Longrightarrow> get_node t i = Some n \<Longrightarrow> get_node (install_all ns t) i = Some n"
proof (induction ns arbitrary: t)
  case (Cons m ns)
  then have "get_node (install_child m t) i = Some n" by (auto simp: get_node_install_child fresh_id_def)
  then show ?case using Cons by simp
qed simp

lemma install_all_new: "linked t ns \<Longrightarrow> n \<in> set ns \<Longrightarrow> get_node (install_all ns t) (n_id n) = Some n \<and> n_id n \<noteq> []"
proof (induction ns arbitrary: t)
  case (Cons m ns)
  show ?case
  proof (cases "n = m")
    case True
    then show ?thesis
      using Cons.prems install_all_keeps [of "install_child m t" ns "n_id m" m]
      by (simp add: get_node_install_child fresh_id_def)
  qed (use Cons in auto)
qed simp

lemma linked_same_core:
  "same_core t u \<Longrightarrow> linked t ns = linked u ns"
proof (induction ns arbitrary: t u)
  case (Cons n ns)
  have "same_core (install_child n t) (install_child n u)" using Cons.prems by (simp add: same_core_def install_child_def)
  then show ?case using Cons.IH Cons.prems by (simp add: fresh_id_def same_core_get)
qed simp

lemma add_node_branches: "add_tree_node n (u\<lparr>t_branches := bs\<rparr>) = (add_tree_node n u)\<lparr>t_branches := bs\<rparr>"
  by (simp add: add_tree_node_def)

lemma add_nodes_branches:
  "foldl (\<lambda>u n. add_tree_node n u) (u\<lparr>t_branches := bs\<rparr>) ns =
   (foldl (\<lambda>u n. add_tree_node n u) u ns)\<lparr>t_branches := bs\<rparr>"
  by (induction ns arbitrary: u) (simp_all add: add_node_branches)

lemma install_compact_all:
  assumes "ns \<noteq> []" "\<forall>n\<in>set ns. n_branch n = b"
  shows "install_compact ns b (n_id (last ns)) t = (install_all ns t)\<lparr>t_active := b\<rparr>"
proof -
  have frame: "t_branches (foldl (\<lambda>u n. add_tree_node n u) t ns) = t_branches t" for t :: "('w, 's) conv_tree"
    by (induction ns arbitrary: t) (simp_all add: add_tree_node_def)
  have "(foldl (\<lambda>u n. add_tree_node n u) t ns)\<lparr>t_branches := AList.update b (n_id (last ns)) (t_branches t)\<rparr> =
      install_all ns t"
    using assms
  proof (induction ns arbitrary: t)
    case (Cons n ns)
    show ?case
    proof (cases "ns = []")
      case True
      then show ?thesis using Cons.prems by (simp add: add_tree_node_def install_child_def)
    next
      case False
      have step: "install_child n t = (add_tree_node n t)\<lparr>t_branches := AList.update b (n_id n) (t_branches t)\<rparr>"
        using Cons.prems by (simp add: add_tree_node_def install_child_def)
      have "install_all ns (install_child n t) =
          (foldl (\<lambda>u n. add_tree_node n u) (install_child n t) ns)
             \<lparr>t_branches := AList.update b (n_id (last ns)) (t_branches (install_child n t))\<rparr>"
        using Cons.IH [of "install_child n t"] Cons.prems False by simp
      also have "\<dots> = (foldl (\<lambda>u n. add_tree_node n u) (add_tree_node n t) ns)
             \<lparr>t_branches := AList.update b (n_id (last ns)) (t_branches t)\<rparr>"
        unfolding step add_nodes_branches by (simp add: update_update)
      finally show ?thesis using False by simp
    qed
  qed simp
  then show ?thesis by (simp add: install_compact_def Let_def frame)
qed

text \<open>The chain of a compaction is linked.\<close>

lemma linked_chain:
  assumes "get_node t prev \<noteq> None" "distinct is" "\<forall>i\<in>set is. fresh_id t i"
  shows "linked t (copy_chain b now prev ns is)"
  using assms
proof (induction b now prev ns "is" arbitrary: t rule: copy_chain.induct)
  case (1 b now prev n ns i "is")
  let ?n = "copied_node n b prev i now"
  have f: "n_id ?n = i" "n_parent ?n = prev" by (simp_all add: copied_node_def)
  have "linked (install_child ?n t) (copy_chain b now i ns is)"
    using 1(2-4) f by (intro 1(1)) (auto simp: get_node_install_child fresh_id_def)
  then show ?case using 1(2-4) f by simp
qed simp_all

lemma copy_chain_branch: "n \<in> set (copy_chain b now prev ns is) \<Longrightarrow> n_branch n = b \<and> n_state n = NodeActive"
  by (induction b now prev ns "is" rule: copy_chain.induct) (auto simp: copied_node_def)

lemma copy_chain_messages:
  "length ns \<le> length is \<Longrightarrow> map n_message (copy_chain b now prev ns is) = map n_message ns"
  by (induction b now prev ns "is" rule: copy_chain.induct) (auto simp: copied_node_def)

definition fresh_ids :: "('w, 's) conv_tree \<Rightarrow> node_id list \<Rightarrow> bool" where
  "fresh_ids t is = (distinct is \<and> (\<forall>i\<in>set is. fresh_id t i))"

lemma compacted_linked:
  assumes p: "get_node t (n_parent (hd chosen)) \<noteq> None" and fresh: "fresh_ids t (rid # sid # ids)"
  shows "linked t (compacted_nodes t pth chosen summary b rid sid ids now)"
proof -
  let ?r = "request_node (hd chosen) b rid now"
  let ?s = "summary_node (hd chosen) b rid sid summary (map n_id chosen) now"
  have f: "n_id ?r = rid" "n_parent ?r = n_parent (hd chosen)" "n_id ?s = sid" "n_parent ?s = rid"
    by (simp_all add: request_node_def summary_node_def)
  have g: "get_node (install_child ?s (install_child ?r t)) i =
     (if i = sid then Some ?s else if i = rid then Some ?r else get_node t i)" for i
    by (simp add: get_node_install_child f)
  have "linked (install_child ?s (install_child ?r t))
     (copy_chain b now sid (List.map_filter (get_node t) (remaining_after pth (n_id (last chosen)))) ids)"
    using fresh by (intro linked_chain) (auto simp: g fresh_ids_def fresh_id_def)
  then show ?thesis
    using p fresh f by (auto simp: compacted_nodes_def get_node_install_child fresh_ids_def fresh_id_def)
qed

lemma compacted_branch:
  "n \<in> set (compacted_nodes t pth chosen summary b rid sid ids now) \<Longrightarrow> n_branch n = b \<and> n_state n \<noteq> NodeArchived"
  using copy_chain_branch by (fastforce simp: compacted_nodes_def request_node_def summary_node_def)

end
