(* ===== verification/Compact_Branch.thy ===== *)
theory Compact_Branch
  imports Compaction
begin

text \<open>
  The branch a compaction opens (\<open>agent/tree/compact.go\<close>): which stretch of the path it summarises, that
  its nodes hang below each other and below the tree, and that the operations it logs add exactly them.
\<close>

section \<open>The messages taken out of a list\<close>

lemma filter_take_split:
  assumes "0 < k" "k \<le> length (filter P xs)"
  shows "\<exists>a m r. xs = a @ m @ r \<and> m \<noteq> [] \<and> P (hd m) \<and> P (last m) \<and> filter P a = [] \<and>
     filter P m = take k (filter P xs)"
  using assms
proof (induction xs arbitrary: k)
  case (Cons x xs)
  show ?case
  proof (cases "P x")
    case False
    then have "k \<le> length (filter P xs)" using Cons.prems(2) by simp
    then obtain a m r where "xs = a @ m @ r" "m \<noteq> []" "P (hd m)" "P (last m)" "filter P a = []"
      "filter P m = take k (filter P xs)"
      using Cons.IH [OF Cons.prems(1)] by blast
    then show ?thesis using False by (intro exI [of _ "x # a"] exI [of _ m] exI [of _ r]) simp
  next
    case True
    show ?thesis
    proof (cases "k = 1")
      case one: True
      then show ?thesis using True by (intro exI [of _ "[]"] exI [of _ "[x]"] exI [of _ xs]) simp
    next
      case False
      then obtain j where j: "k = Suc j" "0 < j" using Cons.prems(1) by (cases k) auto
      then have "j \<le> length (filter P xs)" using Cons.prems(2) True by simp
      then obtain a m r where "xs = a @ m @ r" "m \<noteq> []" "P (hd m)" "P (last m)" "filter P a = []"
        "filter P m = take j (filter P xs)"
        using Cons.IH [OF j(2)] by blast
      then show ?thesis using True j by (intro exI [of _ "[]"] exI [of _ "x # a @ m"] exI [of _ r]) simp
    qed
  qed
qed simp

lemma filter_hd: "m \<noteq> [] \<Longrightarrow> P (hd m) \<Longrightarrow> hd (filter P m) = hd m"
  by (cases m) auto

lemma filter_last: "m \<noteq> [] \<Longrightarrow> P (last m) \<Longrightarrow> last (filter P m) = last m"
  by (cases m rule: rev_cases) auto

section \<open>Paths\<close>

lemma path_of_ancestor:
  assumes wf: "wf_tree t" and i: "get_node t i = Some n" and p: "path t i = Ok (xs @ j # ys)"
  shows "path t j = Ok (xs @ [j])"
proof -
  have "\<forall>xs j ys. path t i = Ok (xs @ j # ys) \<longrightarrow> path t j = Ok (xs @ [j])"
    using wf i
  proof (induction rule: tree_induct)
    case (Root i n)
    have "path t i = Ok [i]" using path_root Root wf_node [OF wf Root(1)] by blast
    then show ?case by (auto simp: Cons_eq_append_conv)
  next
    case (Child i n)
    obtain q where q: "path t (n_parent n) = Ok q" "path t i = Ok (q @ [i])"
      using path_step [OF wf Child(1,2)] by blast
    show ?case
    proof (intro allI impI)
      fix xs j ys
      assume e: "path t i = Ok (xs @ j # ys)"
      show "path t j = Ok (xs @ [j])"
      proof (cases ys rule: rev_cases)
        case Nil
        then show ?thesis using e q by simp
      next
        case (snoc zs z)
        then have "path t (n_parent n) = Ok (xs @ j # zs)" using e q by simp
        then show ?thesis using Child(3) by blast
      qed
    qed
  qed
  then show ?thesis using p by blast
qed

lemma path_distinct:
  assumes wf: "wf_tree t" and i: "get_node t i = Some n" and p: "path t i = Ok p"
  shows "distinct p"
proof (rule ccontr)
  assume "\<not> distinct p"
  then obtain xs ys zs y where d: "p = xs @ [y] @ ys @ [y] @ zs" using not_distinct_decomp by blast
  have "path t y = Ok (xs @ [y])" using path_of_ancestor [OF wf i, of xs y] p d by simp
  moreover have "path t y = Ok ((xs @ [y] @ ys) @ [y])"
    using path_of_ancestor [OF wf i, of "xs @ [y] @ ys" y] p d by simp
  ultimately show False by simp
qed

section \<open>A chain below a node\<close>

fun chained :: "node_id \<Rightarrow> node list \<Rightarrow> bool" where
  "chained prev [] = True"
| "chained prev (n # ns) = (n_parent n = prev \<and> chained (n_id n) ns)"

lemma copy_chain_chained: "chained prev (copy_chain b now prev ns is)"
  by (induction b now prev ns "is" rule: copy_chain.induct) (auto simp: copied_node_def)

lemma compacted_chained:
  "chained (n_parent (hd chosen)) (compacted_nodes t p chosen summary b rid sid ids now)"
  by (simp add: compacted_nodes_def request_node_def summary_node_def copy_chain_chained)

section \<open>The nodes that are summarised\<close>

lemma map_filter_known:
  "\<forall>n\<in>set ns. get_node t (n_id n) = Some n \<Longrightarrow> List.map_filter (get_node t) (map n_id ns) = ns"
  by (induction ns) (simp_all add: List.map_filter_simps)

lemma known_nodes:
  "set p \<subseteq> {j. get_node t j \<noteq> None} \<Longrightarrow> wf_tree t \<Longrightarrow>
   \<exists>ns. p = map n_id ns \<and> (\<forall>n\<in>set ns. get_node t (n_id n) = Some n)"
proof (induction p)
  case (Cons i p)
  then obtain ns n where "p = map n_id ns" "\<forall>n\<in>set ns. get_node t (n_id n) = Some n" "get_node t i = Some n"
    by auto
  moreover have "n_id n = i" using wf_node [OF Cons.prems(2)] calculation(3) by simp
  ultimately show ?case by (intro exI [of _ "n # ns"]) simp
qed simp

lemma remaining_after_split:
  "distinct (a @ i # r) \<Longrightarrow> remaining_after (a @ i # r) i = r"
proof -
  assume d: "distinct (a @ i # r)"
  have "dropWhile (\<lambda>j. j \<noteq> i) (a @ i # r) = i # r" using d by (induction a) auto
  moreover have "filter (\<lambda>j. j \<noteq> i) r = r" using d by (auto simp: filter_id_conv)
  ultimately show ?thesis by (simp add: remaining_after_def)
qed

lemma path_length: "wf_tree t \<Longrightarrow> get_node t i = Some n \<Longrightarrow> path t i = Ok p \<Longrightarrow> length p \<le> length (t_nodes t)"
proof -
  assume wf: "wf_tree t" and i: "get_node t i = Some n" and p: "path t i = Ok p"
  have "set p \<subseteq> set (map fst (t_nodes t))"
    using path_nodes [OF wf i] p by (auto simp: get_node_def dom_map_of_conv_image_fst [symmetric])
  then have "card (set p) \<le> card (set (map fst (t_nodes t)))" by (intro card_mono) auto
  also have "\<dots> \<le> length (t_nodes t)" using card_length [of "map fst (t_nodes t)"] by simp
  finally show ?thesis using path_distinct [OF wf i p] by (simp add: distinct_card)
qed

definition compactable :: "node_id list \<Rightarrow> node \<Rightarrow> bool" where
  "compactable shared n = (n_parent n \<noteq> [] \<and> n_state n = NodeActive \<and> n_id n \<notin> set shared)"

lemma chosen_split:
  assumes known: "\<forall>n\<in>set ns. get_node t (n_id n) = Some n"
    and ne: "compact_candidates t shared (map n_id ns) \<noteq> []"
    and ch: "chosen = take (compact_count (map n_message (compact_candidates t shared (map n_id ns))))
       (compact_candidates t shared (map n_id ns))"
  shows "\<exists>a m r. ns = a @ m @ r \<and> m \<noteq> [] \<and> chosen = filter (compactable shared) m \<and>
     hd chosen = hd m \<and> last chosen = last m \<and> n_parent (hd m) \<noteq> []"
proof -
  let ?P = "compactable shared"
  have c: "compact_candidates t shared (map n_id ns) = filter ?P ns"
    by (simp add: compact_candidates_def map_filter_known [OF known] compactable_def [abs_def])
  have "filter ?P ns \<noteq> []" using ne c by simp
  then have k: "0 < compact_count (map n_message (filter ?P ns))"
    "compact_count (map n_message (filter ?P ns)) \<le> length (filter ?P ns)"
    using compact_count_boundary [of "map n_message (filter ?P ns)"] by (simp_all add: Suc_le_eq)
  obtain a m r where "ns = a @ m @ r" "m \<noteq> []" "?P (hd m)" "?P (last m)"
    "filter ?P m = take (compact_count (map n_message (filter ?P ns))) (filter ?P ns)"
    using filter_take_split [OF k] by blast
  then show ?thesis
    using filter_hd [of m ?P] filter_last [of m ?P] ch c
    by (intro exI [of _ a] exI [of _ m] exI [of _ r]) (auto simp: compactable_def)
qed

section \<open>The nodes in the log and in the tree\<close>

lemma view_add_nodes:
  assumes "linked t ns" "v_nodes v = get_node t"
  shows "v_nodes (view_ops v (map add_node_op ns)) = get_node (install_all ns t)"
  using assms
proof (induction ns arbitrary: t v)
  case (Cons n ns)
  have "newer v n" using Cons.prems by (simp add: newer_def fresh_id_def)
  then have "v_nodes (put_node v n) = get_node (install_child n t)"
    using Cons.prems by (simp add: put_node_def get_node_install_child fun_eq_iff)
  then show ?case using Cons by simp
qed simp

lemma view_add_nodes_frame:
  "v_branches (view_ops v (map add_node_op ns)) = v_branches v"
  "v_checkpoints (view_ops v (map add_node_op ns)) = v_checkpoints v"
  "v_active (view_ops v (map add_node_op ns)) = v_active v"
  by (induction ns arbitrary: v) (simp_all add: put_node_def)

lemma install_compact_frame:
  "t_branches (install_compact ns b tip t) = AList.update b tip (t_branches t)"
  "t_checkpoints (install_compact ns b tip t) = t_checkpoints t"
  "t_wal (install_compact ns b tip t) = t_wal t" "t_store (install_compact ns b tip t) = t_store t"
  "t_active (install_compact ns b tip t) = b"
proof -
  have "t_branches (foldl (\<lambda>u n. add_tree_node n u) t ns) = t_branches t \<and>
      t_checkpoints (foldl (\<lambda>u n. add_tree_node n u) t ns) = t_checkpoints t \<and>
      t_wal (foldl (\<lambda>u n. add_tree_node n u) t ns) = t_wal t \<and>
      t_store (foldl (\<lambda>u n. add_tree_node n u) t ns) = t_store t"
    by (induction ns arbitrary: t) (simp_all add: add_tree_node_def)
  then show "t_branches (install_compact ns b tip t) = AList.update b tip (t_branches t)"
    "t_checkpoints (install_compact ns b tip t) = t_checkpoints t"
    "t_wal (install_compact ns b tip t) = t_wal t" "t_store (install_compact ns b tip t) = t_store t"
    "t_active (install_compact ns b tip t) = b"
    by (simp_all add: install_compact_def Let_def)
qed

lemma get_node_install_compact:
  "ns \<noteq> [] \<Longrightarrow> \<forall>n\<in>set ns. n_branch n = b \<Longrightarrow>
   get_node (install_compact ns b (n_id (last ns)) t) = get_node (install_all ns t)"
  by (simp add: install_compact_all get_node_def fun_eq_iff)

section \<open>The cases of a compaction\<close>

text \<open>A compaction leaves the tree as it is, or writes a new branch.\<close>

lemma compact_cases:
  assumes r: "compact bk t branch tokenizer provider to_text opts buid rid sid ids now = (t', res)"
  obtains (unchanged) "t' = t" "\<And>b e. res = Ok (b, e) \<Longrightarrow> b = branch"
  | (written) tip p shared chosen summary b ns u e where
    "map_of (t_branches t) branch = Some tip" "path t tip = Ok p"
    "(if co_preserve_shared opts then shared_nodes t branch else Ok []) = Ok shared"
    "compact_candidates t shared p \<noteq> []"
    "chosen = take (compact_count (map n_message (compact_candidates t shared p))) (compact_candidates t shared p)"
    "summarize_messages provider to_text (map n_message chosen) = Inr summary"
    "ns = compacted_nodes t p chosen summary b rid sid ids now"
    "write_through bk t (compact_ops ns b (n_id (last ns))) (install_compact ns b (n_id (last ns))) () = (t', u, e)"
    "\<And>b' e'. res = Ok (b', e') \<Longrightarrow> b' = b \<and> u = Some ()"
proof -
  note defs = compact_def Let_def
  note splits = option.splits sum.splits if_splits outcome.splits
  consider (no_branch) "map_of (t_branches t) branch = None"
    | (no_path) tip where "map_of (t_branches t) branch = Some tip" "\<forall>p. path t tip \<noteq> Ok p"
    | (found) tip p where "map_of (t_branches t) branch = Some tip" "path t tip = Ok p"
    by (cases "map_of (t_branches t) branch") auto
  then show thesis
  proof cases
    case (found tip p)
    note fd = found
    consider (early) "t' = t" "\<And>b e. res = Ok (b, e) \<Longrightarrow> b = branch"
      | (over) shared where "(if co_preserve_shared opts then shared_nodes t branch else Ok []) = Ok shared"
         "compact_candidates t shared p \<noteq> []"
         "(let chosen = take (compact_count (map n_message (compact_candidates t shared p))) (compact_candidates t shared p)
           in case summarize_messages provider to_text (map n_message chosen) of
             Inl e \<Rightarrow> (t, Fail e)
           | Inr summary \<Rightarrow>
               let b = compact_prefix @ base_branch_name branch @ ''-'' @ take 8 buid;
                   ns = compacted_nodes t p chosen summary b rid sid ids now; new_tip = n_id (last ns)
               in (case write_through bk t (compact_ops ns b new_tip) (install_compact ns b new_tip) () of
                     (t', Some _, e) \<Rightarrow> (t', Ok (b, e)) | (t', None, Some e) \<Rightarrow> (t', Fail e)
                   | (t', None, None) \<Rightarrow> (t', Fail (ErrOther [])))) = (t', res)"
      using r unfolding defs fd option.case outcome.case by (auto simp: fd split: sum.splits if_splits outcome.splits)
    then show thesis
    proof cases
      case (over shared)
      define cands where "cands = compact_candidates t shared p"
      define chosen where "chosen = take (compact_count (map n_message cands)) cands"
      define b where "b = compact_prefix @ base_branch_name branch @ ''-'' @ take 8 buid"
      show thesis
      proof (cases "summarize_messages provider to_text (map n_message chosen)")
        case (Inl e)
        then have "t' = t" "res = Fail e" using over(3) by (simp_all add: cands_def chosen_def Let_def)
        then show thesis by (intro unchanged) simp_all
      next
        case (Inr summary)
        define ns where "ns = compacted_nodes t p chosen summary b rid sid ids now"
        obtain t1 u e where w: "write_through bk t (compact_ops ns b (n_id (last ns)))
            (install_compact ns b (n_id (last ns))) () = (t1, u, e)"
          by (cases "write_through bk t (compact_ops ns b (n_id (last ns))) (install_compact ns b (n_id (last ns))) ()")
        have "(case (t1, u, e) of (t', Some _, e) \<Rightarrow> (t', Ok (b, e)) | (t', None, Some e) \<Rightarrow> (t', Fail e)
             | (t', None, None) \<Rightarrow> (t', Fail (ErrOther []))) = (t', res)"
          using over(3)
          unfolding cands_def [symmetric] Let_def chosen_def [symmetric] b_def [symmetric] Inr sum.case
            ns_def [symmetric] w .
        then have t1: "t1 = t'" and ok: "\<And>b' e'. res = Ok (b', e') \<Longrightarrow> b' = b \<and> u = Some ()"
          by (auto split: option.splits)
        show thesis
          by (rule written [OF fd over(1,2) chosen_def [unfolded cands_def] Inr ns_def w [unfolded t1] ok])
      qed
    qed (rule unchanged)
  qed (use r unchanged in \<open>auto simp: compact_def split: outcome.splits\<close>)
qed

lemma written_linked:
  assumes wf: "wf_tree t" and br: "map_of (t_branches t) branch = Some tip" and p: "path t tip = Ok p"
    and sh: "(if co_preserve_shared opts then shared_nodes t branch else Ok []) = Ok shared"
    and ne: "compact_candidates t shared p \<noteq> []"
    and ch: "chosen = take (compact_count (map n_message (compact_candidates t shared p))) (compact_candidates t shared p)"
    and fresh: "fresh_ids t (rid # sid # ids)"
  shows "linked t (compacted_nodes t p chosen summary b rid sid ids now)"
proof -
  obtain n where n: "get_node t tip = Some n" using wf_tip [OF wf br] by blast
  have "set p \<subseteq> {j. get_node t j \<noteq> None}" using path_nodes [OF wf n] p by (elim exE conjE) simp
  then obtain ns where ns: "p = map n_id ns" "\<forall>n\<in>set ns. get_node t (n_id n) = Some n"
    using known_nodes [OF _ wf] by blast
  obtain a m r where s: "ns = a @ m @ r" "m \<noteq> []" "hd chosen = hd m" "n_parent (hd m) \<noteq> []"
    using chosen_split [OF ns(2)] ne ch unfolding ns(1) by blast
  have "get_node t (n_id (hd m)) = Some (hd m)" using ns(2) s(1,2) by simp
  then have "get_node t (n_parent (hd m)) \<noteq> None" using wf_parent [OF wf _ s(4)] by fastforce
  then show ?thesis using compacted_linked [OF _ fresh] s(3) by simp
qed

end
