(* ===== verification/Tree_Sync.thy ===== *)
theory Tree_Sync
  imports Compact_Branch
begin

text \<open>
  The durability contract of a conversation tree. Every mutation writes operations whose effect on
  the abstract content of a store is exactly the change the mutation makes to the tree
  (\<open>faithful\<close>). From the contracts of the store and the log it follows that the store mirrors the
  tree after every mutation, the ones that fail included, and that replaying the log gives the
  tree. The step relation \<open>tree_step\<close> collects the mutations of \<open>agent/tree/tree.go\<close>
  and \<open>compact.go\<close>.
\<close>

section \<open>A store that mirrors a tree\<close>

text \<open>A new tree is on branch main before the store has recorded an active branch.\<close>

definition mirrors :: "view \<Rightarrow> ('w, 's) conv_tree \<Rightarrow> bool" where
  "mirrors v t =
     (v_nodes v = get_node t \<and> v_branches v = map_of (t_branches t) \<and>
      v_checkpoints v = map_of (t_checkpoints t) \<and>
      (v_active v = t_active t \<or> v_active v = [] \<and> t_active t = ''main''))"

lemma mirrors_same_core: "same_core t u \<Longrightarrow> mirrors v t = mirrors v u"
  by (simp add: mirrors_def same_core_def get_node_def fun_eq_iff)

text \<open>
  A later tree keeps every checkpoint and every node, and everything of a node but its state and
  its version.
\<close>

definition rewritten :: "node \<Rightarrow> node \<Rightarrow> bool" where
  "rewritten n m = (n_id m = n_id n \<and> n_parent m = n_parent n \<and> n_message m = n_message n \<and>
     n_depth m = n_depth n \<and> n_branch m = n_branch n \<and> n_created m = n_created n)"

lemma rewritten_refl [simp]: "rewritten n n"
  by (simp add: rewritten_def)

lemma rewritten_trans: "rewritten n m \<Longrightarrow> rewritten m k \<Longrightarrow> rewritten n k"
  by (simp add: rewritten_def)

lemma rewritten_ops [simp]: "rewritten n (archived_node now who n)" "rewritten n (restored_node now n)"
  by (simp_all add: rewritten_def archived_node_def restored_node_def)

definition extends :: "('w, 's) conv_tree \<Rightarrow> ('w, 's) conv_tree \<Rightarrow> bool" where
  "extends t u =
     ((\<forall>i n. get_node t i = Some n \<longrightarrow> (\<exists>m. get_node u i = Some m \<and> rewritten n m)) \<and>
      map_of (t_checkpoints t) \<subseteq>\<^sub>m map_of (t_checkpoints u))"

lemma extends_refl [simp]: "extends t t"
  by (simp add: extends_def)

lemma extends_trans: "extends t u \<Longrightarrow> extends u v \<Longrightarrow> extends t v"
  unfolding extends_def using rewritten_trans map_le_trans by blast

lemma extends_same_core: "same_core u t \<Longrightarrow> extends t u"
  by (simp add: extends_def tree_simps)

text \<open>Operations that are complete, and whose nodes are nodes of the tree.\<close>

definition ops_fit :: "('w, 's) conv_tree \<Rightarrow> tx_op list \<Rightarrow> bool" where
  "ops_fit t ops = (\<forall>op\<in>set ops. op_complete op \<and>
     (\<forall>n. node_write op = Some n \<longrightarrow> (\<exists>m. get_node t (n_id n) = Some m \<and> rewritten n m)))"

lemma ops_fit_append [simp]: "ops_fit t (xs @ ys) = (ops_fit t xs \<and> ops_fit t ys)"
  by (auto simp: ops_fit_def)

lemma ops_fit_Nil [simp]: "ops_fit t []"
  by (simp add: ops_fit_def)

lemma ops_fit_extends: "ops_fit t ops \<Longrightarrow> extends t u \<Longrightarrow> ops_fit u ops"
  unfolding ops_fit_def extends_def using rewritten_trans by blast

definition faithful :: "('w, 's) conv_tree \<Rightarrow> tx_op list \<Rightarrow>
    (('w, 's) conv_tree \<Rightarrow> ('w, 's) conv_tree) \<Rightarrow> bool" where
  "faithful t ops install =
     (\<forall>v t1. same_core t1 t \<longrightarrow>
        (mirrors v t \<longrightarrow> mirrors (view_ops v ops) (install t1)) \<and> ops_fit (install t1) ops \<and>
        t_wal (install t1) = t_wal t1 \<and> t_store (install t1) = t_store t1)"

lemma faithfulI:
  assumes "\<And>v t1. same_core t1 t \<Longrightarrow> mirrors v t1 \<Longrightarrow> mirrors (view_ops v ops) (install t1)"
    and "\<And>t1. same_core t1 t \<Longrightarrow> ops_fit (install t1) ops"
    and "\<And>t1. t_wal (install t1) = t_wal t1" "\<And>t1. t_store (install t1) = t_store t1"
  shows "faithful t ops install"
  using assms mirrors_same_core unfolding faithful_def by metis

section \<open>The operations describe the change\<close>

lemma faithful_child:
  assumes "fresh_id t (n_id n)"
  shows "faithful t (wal_add_node_ops n) (install_child n)"
proof (rule faithfulI)
  fix v and t1 :: "('a, 'b) conv_tree"
  assume core: "same_core t1 t" and m: "mirrors v t1"
  then have "get_node t1 (n_id n) = None" using assms by (simp add: fresh_id_def tree_simps)
  with m have "newer v n" by (simp add: mirrors_def newer_def)
  with m show "mirrors (view_ops v (wal_add_node_ops n)) (install_child n t1)"
    by (simp add: wal_add_node_ops_def mirrors_def put_node_def get_node_install_child fun_eq_iff)
next
  show "ops_fit (install_child n t1) (wal_add_node_ops n)" for t1 :: "('a, 'b) conv_tree"
    using assms by (auto simp: ops_fit_def wal_add_node_ops_def get_node_install_child fresh_id_def)
qed (simp_all add: install_child_def)

lemma faithful_root:
  "uid \<noteq> [] \<Longrightarrow> faithful (blank_tree w s meta) (wal_add_node_ops (root_node uid now ps)) (install_root (root_node uid now ps))"
  by (rule faithfulI)
    (auto simp: wal_add_node_ops_def mirrors_def put_node_def newer_def get_node_def fun_eq_iff
      install_root_def root_node_def same_core_def blank_tree_def ops_fit_def)

lemma view_updates:
  assumes "\<forall>n\<in>set ns. n_id (f n) = n_id n \<and> n_version n < n_version (f n) \<and> base (n_id n) = Some n"
    and "v_nodes v = base"
  shows "v_nodes (view_ops v (map update_node_op (map f ns))) =
     (\<lambda>i. if i \<in> n_id ` set ns then map_option f (base i) else base i)"
  using assms(1)
proof (induction ns rule: rev_induct)
  case (snoc n ns)
  let ?v = "view_ops v (map update_node_op (map f ns))"
  have IH: "v_nodes ?v = (\<lambda>i. if i \<in> n_id ` set ns then map_option f (base i) else base i)"
    using snoc by simp
  have n: "n_id (f n) = n_id n" "n_version n < n_version (f n)" "base (n_id n) = Some n"
    using snoc.prems by auto
  have "newer ?v (f n) \<longleftrightarrow> n_id n \<notin> n_id ` set ns"
    using n IH by (auto simp: newer_def)
  then show ?case using n IH by (auto simp: put_node_def fun_eq_iff)
qed (simp add: assms(2))

lemma view_updates_frame:
  "v_branches (view_ops v (map update_node_op ns)) = v_branches v"
  "v_checkpoints (view_ops v (map update_node_op ns)) = v_checkpoints v"
  "v_active (view_ops v (map update_node_op ns)) = v_active v"
  by (induction ns arbitrary: v) (simp_all add: put_node_def)

lemma install_updates_fields [simp]:
  "t_branches (install_updates cs t) = t_branches t" "t_active (install_updates cs t) = t_active t"
  "t_checkpoints (install_updates cs t) = t_checkpoints t" "t_wal (install_updates cs t) = t_wal t"
  "t_store (install_updates cs t) = t_store t"
  by (simp_all add: install_updates_def)

lemma faithful_updates:
  assumes shape: "keeps_shape f"
    and ns: "\<forall>n\<in>set ns. get_node t (n_id n) = Some n \<and> n_version n < n_version (f n) \<and> n_id n \<noteq> []"
  shows "faithful t (map update_node_op (map f ns)) (install_updates (map f ns))"
proof (rule faithfulI)
  fix v and t1 :: "('a, 'b) conv_tree"
  assume core: "same_core t1 t" and m: "mirrors v t1"
  have ns1: "\<forall>n\<in>set ns. get_node t1 (n_id n) = Some n" using ns core by (simp add: tree_simps)
  have "v_nodes (view_ops v (map update_node_op (map f ns))) =
     (\<lambda>i. if i \<in> n_id ` set ns then map_option f (get_node t1 i) else get_node t1 i)"
    using ns ns1 shape m by (intro view_updates) (auto simp: keeps_shape_def mirrors_def)
  also have "\<dots> = get_node (install_updates (map f ns) t1)"
    using get_node_install_updates [OF shape, of ns t1] ns1 by (simp add: fun_eq_iff)
  finally show "mirrors (view_ops v (map update_node_op (map f ns))) (install_updates (map f ns) t1)"
    using m by (simp add: mirrors_def view_updates_frame del: map_map)
next
  fix t1 :: "('a, 'b) conv_tree"
  assume core: "same_core t1 t"
  have ns1: "get_node t1 (n_id n) = Some n" if "n \<in> set ns" for n
    using ns core that by (simp add: tree_simps)
  have "op_complete (update_node_op (f n)) \<and> get_node (install_updates (map f ns) t1) (n_id (f n)) = Some (f n)"
    if "n \<in> set ns" for n
    using get_node_install_updates [OF shape ns1] ns ns1 [OF that] shape that by (simp add: keeps_shape_def)
  then show "ops_fit (install_updates (map f ns) t1) (map update_node_op (map f ns))"
    by (auto simp: ops_fit_def)
qed simp_all

lemma faithful_set_active:
  "map_of (t_branches t) b = Some tip \<Longrightarrow>
   faithful t [set_branch_op b tip, set_active_op b] (\<lambda>t1. t1\<lparr>t_active := b\<rparr>)"
  by (rule faithfulI) (auto simp: mirrors_def same_core_def fun_eq_iff ops_fit_def)

lemma faithful_checkpoint:
  "faithful t [add_checkpoint_op cp]
     (\<lambda>t1. t1\<lparr>t_checkpoints := AList.update (cp_id cp) cp (t_checkpoints t1)\<rparr>)"
  by (rule faithfulI) (auto simp: mirrors_def fun_eq_iff ops_fit_def)

lemma faithful_branch:
  "faithful t [set_branch_op b i] (\<lambda>t1. t1\<lparr>t_branches := AList.update b i (t_branches t1)\<rparr>)"
  by (rule faithfulI) (auto simp: mirrors_def fun_eq_iff ops_fit_def)

lemma faithful_compact:
  assumes lk: "linked t ns" and br: "ns \<noteq> []" "\<forall>n\<in>set ns. n_branch n = b"
  shows "faithful t (compact_ops ns b (n_id (last ns))) (install_compact ns b (n_id (last ns)))"
proof (rule faithfulI)
  fix v and t1 :: "('a, 'b) conv_tree"
  assume core: "same_core t1 t" and m: "mirrors v t1"
  have "v_nodes (view_ops v (map add_node_op ns)) = get_node (install_all ns t1)"
    using lk linked_same_core [OF core] m by (intro view_add_nodes) (simp_all add: mirrors_def)
  then show "mirrors (view_ops v (compact_ops ns b (n_id (last ns)))) (install_compact ns b (n_id (last ns)) t1)"
    using m get_node_install_compact [OF br, of t1]
    by (simp add: mirrors_def compact_ops_def view_add_nodes_frame install_compact_frame update_conv')
next
  fix t1 :: "('a, 'b) conv_tree"
  assume core: "same_core t1 t"
  have "get_node (install_compact ns b (n_id (last ns)) t1) (n_id n) = Some n \<and> n_id n \<noteq> []" if "n \<in> set ns" for n
    using install_all_new [of t1 ns n] lk linked_same_core [OF core] that get_node_install_compact [OF br, of t1] by simp
  then show "ops_fit (install_compact ns b (n_id (last ns)) t1) (compact_ops ns b (n_id (last ns)))"
    by (auto simp: ops_fit_def compact_ops_def)
qed (simp_all add: install_compact_frame)

section \<open>Steps\<close>

definition versions_ok :: "('w, 's) conv_tree \<Rightarrow> bool" where
  "versions_ok t = (\<forall>i n. get_node t i = Some n \<longrightarrow> n_version n \<noteq> - 1)"

text \<open>
  One call of a mutation, successful or not. Fresh node and checkpoint ids are new to the tree, and no node that is
  archived or restored is at the last 64-bit version.
\<close>

inductive tree_step :: "('w, 's, 't) backend \<Rightarrow> ('w, 's) conv_tree \<Rightarrow> ('w, 's) conv_tree \<Rightarrow> bool"
  for bk where
  step_add_child: "fresh_id t uid \<Longrightarrow> add_child bk t p msg uid now = (t', r, e) \<Longrightarrow> tree_step bk t t'"
| step_add_on_branch: "fresh_id t uid \<Longrightarrow> add_child_on_branch bk t b msg uid now = (t', r, e) \<Longrightarrow>
    tree_step bk t t'"
| step_feedback: "fresh_id t uid \<Longrightarrow> add_feedback bk t p msg buid uid now = (t', r, e) \<Longrightarrow> tree_step bk t t'"
| step_fork: "fresh_id t uid \<Longrightarrow> fork_branch bk t p name msg buid uid now = (t', r', e) \<Longrightarrow> tree_step bk t t'"
| step_edit: "fresh_id t uid \<Longrightarrow> update_user_message bk t i ps buid uid now = (t', r', e) \<Longrightarrow> tree_step bk t t'"
| step_archive: "versions_ok t \<Longrightarrow> archive bk t i who recursive now = (t', q) \<Longrightarrow> tree_step bk t t'"
| step_restore: "versions_ok t \<Longrightarrow> restore bk t i recursive now = (t', q) \<Longrightarrow> tree_step bk t t'"
| step_set_active: "set_active bk t b = (t', u, e) \<Longrightarrow> tree_step bk t t'"
| step_checkpoint: "map_of (t_checkpoints t) cid = None \<Longrightarrow>
    create_checkpoint bk t b name cid now = (t', c, e) \<Longrightarrow> tree_step bk t t'"
| step_rewind: "rewind bk t cid buid = (t', b', e) \<Longrightarrow> tree_step bk t t'"
| step_compact: "fresh_ids t (rid # sid # ids) \<Longrightarrow>
    compact bk t b tokenizer provider to_text opts buid rid sid ids now = (t', r'') \<Longrightarrow> tree_step bk t t'"

text \<open>
  Every step is a refusal that leaves the tree as it was, or a write-through whose operations
  describe the change it installs.
\<close>

definition good_write ::
  "('w, 's, 't) backend \<Rightarrow> ('w, 's) conv_tree \<Rightarrow> ('w, 's) conv_tree \<Rightarrow> terr option \<Rightarrow> bool" where
  "good_write bk t t' e =
     (\<exists>ops install (v :: unit) res. write_through bk t ops install v = (t', res, e) \<and> faithful t ops install \<and>
        (\<forall>t1. same_core t1 t \<longrightarrow> wf_tree (install t1) \<and> extends t (install t1)))"

lemma write_through_value:
  "write_through bk t ops install v = (t', res, e) \<Longrightarrow>
   \<exists>res'. write_through bk t ops install w = (t', res', e)"
  by (auto simp: write_through_def split: prod.splits if_splits)

lemma good_writeI:
  assumes "write_through bk t ops install v = (t', res, e)" "faithful t ops install"
    "\<And>t1. same_core t1 t \<Longrightarrow> wf_tree (install t1)" "\<And>t1. same_core t1 t \<Longrightarrow> extends t (install t1)"
  shows "good_write bk t t' e"
proof -
  obtain res' where "write_through bk t ops install () = (t', res', e)"
    using write_through_value [OF assms(1), of "()"] by (elim exE)
  moreover have "\<forall>t1. same_core t1 t \<longrightarrow> wf_tree (install t1) \<and> extends t (install t1)"
    by (intro allI impI conjI) (rule assms(3), assumption, rule assms(4), assumption)
  ultimately show ?thesis
    using assms(2) unfolding good_write_def by (intro exI conjI)
qed

lemma good_child:
  assumes "write_through bk t (wal_add_node_ops n) (install_child n) v = (t', res, e)"
    and wf: "wf_tree t" and fresh: "fresh_id t (n_id n)" and p: "get_node t (n_parent n) = Some p"
  shows "good_write bk t t' e"
proof (rule good_writeI [OF assms(1) faithful_child [OF fresh]])
  fix t1
  assume core: "same_core t1 t"
  have "wf_tree t1" using wf wf_same_core [OF core] by simp
  moreover have "fresh_id t1 (n_id n)" "get_node t1 (n_parent n) = Some p"
    using fresh p core by (auto simp: fresh_id_def tree_simps)
  ultimately show "wf_tree (install_child n t1)" by (rule wf_install_child)
  show "extends t (install_child n t1)"
    using fresh core by (auto simp: extends_def tree_simps fresh_id_def)
qed

lemma good_updates:
  assumes r: "mutate_subtree bk t n recursive f = (t', q)" and wf: "wf_tree t" and i: "get_node t i = Some n"
    and f: "keeps_shape f" "\<And>n. rewritten n (f n)"
    and up: "\<And>n. n_version n \<noteq> - 1 \<Longrightarrow> n_version n < n_version (f n)" and v: "versions_ok t"
  shows "\<exists>e. good_write bk t t' e"
proof -
  obtain ns where ns: "collect_subtree t n recursive = Ok ns" "\<forall>m\<in>set ns. get_node t (n_id m) = Some m"
    using collect_subtree_exact [OF wf i] by blast
  obtain u e where w: "write_through bk t (map update_node_op (map f ns)) (install_updates (map f ns)) ()
      = (t', u, e)"
    using r ns(1) by (cases "write_through bk t (map update_node_op (map f ns)) (install_updates (map f ns)) ()")
      (auto simp: mutate_subtree_def split: option.splits)
  have "good_write bk t t' e"
  proof (rule good_writeI [OF w])
    show "faithful t (map update_node_op (map f ns)) (install_updates (map f ns))"
      using ns(2) up v wf_node [OF wf] unfolding versions_ok_def by (intro faithful_updates [OF f(1)]) blast
  next
    fix t1
    assume core: "same_core t1 t"
    have "wf_tree t1" using wf wf_same_core [OF core] by simp
    moreover have ns1: "get_node t1 (n_id m) = Some m" if "m \<in> set ns" for m
      using ns(2) core that by (simp add: tree_simps)
    ultimately show "wf_tree (install_updates (map f ns) t1)" by (rule wf_install_updates [OF _ f(1)])
    show "extends t (install_updates (map f ns) t1)"
      using get_node_install_updates [OF f(1) ns1] core f(2) by (auto simp: extends_def tree_simps)
  qed
  then show ?thesis ..
qed

lemma node_bumps:
  "n_version n \<noteq> - 1 \<Longrightarrow> n_version n < n_version (archived_node now who n)"
  "n_version n \<noteq> - 1 \<Longrightarrow> n_version n < n_version (restored_node now n)"
  by (simp_all add: archived_node_def restored_node_def word_less_Suc)

lemma child_node_fields [simp]:
  "n_id (child_node parent b msg st uid now) = uid"
  "n_parent (child_node parent b msg st uid now) = n_id parent"
  "n_branch (child_node parent b msg st uid now) = b"
  "n_version (child_node parent b msg st uid now) = 1"
  "n_message (child_node parent b msg st uid now) = msg"
  "n_state (child_node parent b msg st uid now) = st"
  by (simp_all add: child_node_def)

definition good_result ::
  "('w, 's, 't) backend \<Rightarrow> ('w, 's) conv_tree \<Rightarrow> ('w, 's) conv_tree \<Rightarrow> bool" where
  "good_result bk t t' = (t' = t \<or> (\<exists>e. good_write bk t t' e))"

lemma good_new_child:
  assumes wf: "wf_tree t" and fresh: "fresh_id t uid" and p: "get_node t i = Some parent"
    and r: "write_through bk t (wal_add_node_ops n) (install_child n) v = (t', res, e)"
    and n: "n_id n = uid" "n_parent n = i"
  shows "good_result bk t t'"
  unfolding good_result_def
  using good_child [OF r wf] fresh p n by blast

lemma good_add_child_unlocked:
  assumes wf: "wf_tree t" and fresh: "fresh_id t uid" and p: "get_node t i = Some parent"
    and r: "add_child_unlocked bk t parent b msg uid now = (t', res, e)"
  shows "good_result bk t t'"
proof (cases "leaf_check parent")
  case None
  let ?n = "child_node parent b msg NodeActive uid now"
  have "write_through bk t (wal_add_node_ops ?n) (install_child ?n) ?n = (t', res, e)"
    using None r by (simp add: add_child_unlocked_def Let_def)
  then show ?thesis
    by (rule good_new_child [OF wf fresh p]) (use wf_node [OF wf p] in simp_all)
qed (use r in \<open>simp add: add_child_unlocked_def good_result_def\<close>)

lemma good_compact:
  assumes wf: "wf_tree t" and fresh: "fresh_ids t (rid # sid # ids)"
    and r: "compact bk t b tokenizer provider to_text opts buid rid sid ids now = (t', res)"
  shows "good_result bk t t'"
  using r
proof (cases rule: compact_cases)
  case (written tip p shared chosen summary nb ns u e)
  have lk: "linked t ns" using written_linked [OF wf written(1-5) fresh] written(7) by simp
  have br: "ns \<noteq> []" "\<forall>n\<in>set ns. n_branch n = nb"
    using written(7) compacted_branch by (simp add: compacted_nodes_def, blast)
  have "good_write bk t t' e"
  proof (rule good_writeI [OF written(8) faithful_compact [OF lk br]])
    fix t1
    assume core: "same_core t1 t"
    have lk1: "linked t1 ns" using lk linked_same_core [OF core] by simp
    then have "wf_tree (install_all ns t1)" using wf wf_same_core [OF core] by (intro wf_install_all) simp_all
    moreover have "map_of (t_branches (install_all ns t1)) nb \<noteq> None"
      using install_compact_all [OF br, of t1] install_compact_frame(1) [of ns nb "n_id (last ns)" t1]
      by (simp add: update_conv')
    ultimately show "wf_tree (install_compact ns nb (n_id (last ns)) t1)"
      using install_compact_all [OF br] wf_set_active_field by metis
    show "extends t (install_compact ns nb (n_id (last ns)) t1)"
      using install_all_keeps [OF lk1] core get_node_install_compact [OF br, of t1]
      by (simp add: extends_def tree_simps install_compact_frame)
  qed
  then show ?thesis by (auto simp: good_result_def)
qed (simp add: good_result_def)

lemma tree_step_good:
  assumes "tree_step bk t t'" and wf: "wf_tree t"
  shows "good_result bk t t'"
  using assms(1)
proof cases
  case (step_add_child uid p msg now r e)
  then show ?thesis
  proof (cases "get_node t p")
    case (Some parent)
    then show ?thesis
      using good_add_child_unlocked [OF wf step_add_child(1) Some] step_add_child(2)
      by (simp add: add_child_def)
  qed (simp add: add_child_def good_result_def)
next
  case (step_add_on_branch uid b msg now r e)
  show ?thesis
  proof (cases "\<exists>tip parent. map_of (t_branches t) b = Some tip \<and> get_node t tip = Some parent")
    case True
    then obtain tip parent where tip: "map_of (t_branches t) b = Some tip" "get_node t tip = Some parent"
      by blast
    then show ?thesis
      using good_add_child_unlocked [OF wf step_add_on_branch(1) tip(2)] step_add_on_branch(2)
      by (simp add: add_child_on_branch_def)
  next
    case False
    then show ?thesis
      using step_add_on_branch(2) by (auto simp: add_child_on_branch_def good_result_def split: option.splits)
  qed
next
  case (step_feedback uid p msg buid now r e)
  show ?thesis
  proof (cases "get_node t p")
    case (Some parent)
    note id = wf_node [OF wf Some]
    show ?thesis
    proof (cases "leaf_check parent")
      case None
      let ?n = "child_node parent (''feedback-'' @ take 8 buid) msg NodeFeedback uid now"
      have "write_through bk t (wal_add_node_ops ?n) (install_child ?n) ?n = (t', r, e)"
        using step_feedback(2) Some None by (simp add: add_feedback_def Let_def)
      then show ?thesis by (rule good_new_child [OF wf step_feedback(1) Some]) (use id in simp_all)
    qed (use step_feedback(2) Some in \<open>simp add: add_feedback_def good_result_def\<close>)
  qed (use step_feedback(2) in \<open>simp add: add_feedback_def good_result_def\<close>)
next
  case (step_fork uid p name msg buid now r' e)
  show ?thesis
  proof (cases "get_node t p")
    case (Some parent)
    note id = wf_node [OF wf Some]
    show ?thesis
    proof (cases "leaf_check parent")
      case None
      let ?b = "if map_of (t_branches t) name \<noteq> None then name @ ''-'' @ take 8 buid else name"
      let ?n = "child_node parent ?b msg NodeActive uid now"
      have "write_through bk t (wal_add_node_ops ?n) (install_child ?n) (?b, ?n) = (t', r', e)"
        using step_fork(2) Some None by (simp add: fork_branch_def Let_def)
      then show ?thesis by (rule good_new_child [OF wf step_fork(1) Some]) (use id in simp_all)
    qed (use step_fork(2) Some in \<open>simp add: fork_branch_def good_result_def\<close>)
  qed (use step_fork(2) in \<open>simp add: fork_branch_def good_result_def\<close>)
next
  case (step_edit uid i ps buid now r' e)
  show ?thesis
  proof (cases "\<exists>n parent. get_node t i = Some n \<and> n_parent n \<noteq> [] \<and> (\<exists>qs. n_message n = UserMessage qs) \<and>
      get_node t (n_parent n) = Some parent")
    case True
    then obtain n parent qs where n: "get_node t i = Some n" "n_parent n \<noteq> []" "n_message n = UserMessage qs"
      "get_node t (n_parent n) = Some parent" by blast
    let ?b = "''edit-'' @ take 8 buid"
    let ?n = "(child_node parent ?b (UserMessage ps) NodeActive uid now)\<lparr>n_parent := n_parent n\<rparr>"
    have "write_through bk t (wal_add_node_ops ?n) (install_child ?n) (?b, ?n) = (t', r', e)"
      using step_edit(2) n by (simp add: update_user_message_def Let_def)
    then show ?thesis by (rule good_new_child [OF wf step_edit(1) n(4)]) simp_all
  next
    case False
    then show ?thesis
      using step_edit(2)
      by (auto simp: update_user_message_def good_result_def split: option.splits if_splits message.splits)
  qed
next
  case (step_archive i who recursive now q)
  show ?thesis
  proof (cases "get_node t i")
    case (Some n)
    show ?thesis
    proof (cases "n_parent n = []")
      case False
      then have r: "mutate_subtree bk t n recursive (archived_node now who) = (t', q)"
        using step_archive(2) Some by (simp add: archive_def)
      show ?thesis
        unfolding good_result_def
        by (rule disjI2, rule good_updates [OF r wf Some _ _ _ step_archive(1)])
          (simp_all add: node_bumps)
    qed (use step_archive(2) Some in \<open>simp add: archive_def good_result_def\<close>)
  qed (use step_archive(2) in \<open>simp add: archive_def good_result_def\<close>)
next
  case (step_restore i recursive now q)
  show ?thesis
  proof (cases "get_node t i")
    case (Some n)
    then have r: "mutate_subtree bk t n recursive (restored_node now) = (t', q)"
      using step_restore(2) by (simp add: restore_def)
    show ?thesis
      unfolding good_result_def
      by (rule disjI2, rule good_updates [OF r wf Some _ _ _ step_restore(1)])
        (simp_all add: node_bumps)
  qed (use step_restore(2) in \<open>simp add: restore_def good_result_def\<close>)
next
  case (step_set_active b u e)
  show ?thesis
  proof (cases "map_of (t_branches t) b")
    case (Some tip)
    then have r: "write_through bk t [set_branch_op b tip, set_active_op b] (\<lambda>t1. t1\<lparr>t_active := b\<rparr>) () = (t', u, e)"
      using step_set_active by (simp add: set_active_def)
    have "good_write bk t t' e"
    proof (rule good_writeI [OF r faithful_set_active [OF Some]])
      fix t1
      assume core: "same_core t1 t"
      then show "wf_tree (t1\<lparr>t_active := b\<rparr>)"
        using Some wf wf_same_core [OF core] by (intro wf_set_active_field) (auto simp: same_core_def)
      show "extends t (t1\<lparr>t_active := b\<rparr>)" using core by (simp add: extends_def tree_simps)
    qed
    then show ?thesis by (auto simp: good_result_def)
  qed (use step_set_active in \<open>simp add: set_active_def good_result_def\<close>)
next
  case (step_checkpoint cid b name now c e)
  show ?thesis
  proof (cases "map_of (t_branches t) b")
    case (Some tip)
    define cp where "cp = \<lparr>cp_id = cid, cp_branch = b, cp_node = tip, cp_name = name, cp_created = now\<rparr>"
    have r: "write_through bk t [add_checkpoint_op cp]
        (\<lambda>t1. t1\<lparr>t_checkpoints := AList.update (cp_id cp) cp (t_checkpoints t1)\<rparr>) cid = (t', c, e)"
      using step_checkpoint(2) Some by (simp add: create_checkpoint_def cp_def Let_def)
    have "good_write bk t t' e"
    proof (rule good_writeI [OF r faithful_checkpoint])
      fix t1
      assume core: "same_core t1 t"
      then show "wf_tree (t1\<lparr>t_checkpoints := AList.update (cp_id cp) cp (t_checkpoints t1)\<rparr>)"
        using Some wf wf_same_core [OF core] wf_tip [OF wf Some]
        by (intro wf_add_checkpoint) (auto simp: cp_def tree_simps)
      have "cp_id cp = cid" by (simp add: cp_def)
      then show "extends t (t1\<lparr>t_checkpoints := AList.update (cp_id cp) cp (t_checkpoints t1)\<rparr>)"
        using core step_checkpoint(1) by (auto simp: extends_def tree_simps map_le_def)
    qed
    then show ?thesis by (auto simp: good_result_def)
  qed (use step_checkpoint(2) in \<open>simp add: create_checkpoint_def good_result_def\<close>)
next
  case (step_rewind cid buid b' e)
  show ?thesis
  proof (cases "\<exists>cp n. map_of (t_checkpoints t) cid = Some cp \<and> get_node t (cp_node cp) = Some n")
    case True
    then obtain cp n where cp: "map_of (t_checkpoints t) cid = Some cp" "get_node t (cp_node cp) = Some n"
      by blast
    define b where "b = ''rewind-'' @ cp_name cp @ ''-'' @ take 8 buid"
    have r: "write_through bk t [set_branch_op b (cp_node cp)]
        (\<lambda>t1. t1\<lparr>t_branches := AList.update b (cp_node cp) (t_branches t1)\<rparr>) b = (t', b', e)"
      using step_rewind cp by (simp add: rewind_def b_def Let_def)
    have "good_write bk t t' e"
    proof (rule good_writeI [OF r faithful_branch])
      fix t1
      assume core: "same_core t1 t"
      then show "wf_tree (t1\<lparr>t_branches := AList.update b (cp_node cp) (t_branches t1)\<rparr>)"
        using cp wf wf_same_core [OF core] by (intro wf_set_branch) (auto simp: tree_simps)
      show "extends t (t1\<lparr>t_branches := AList.update b (cp_node cp) (t_branches t1)\<rparr>)"
        using core by (simp add: extends_def tree_simps)
    qed
    then show ?thesis by (auto simp: good_result_def)
  next
    case False
    then show ?thesis
      using step_rewind by (auto simp: rewind_def good_result_def split: option.splits)
  qed
next
  case (step_compact rid sid ids b tokenizer provider to_text opts buid now r)
  then show ?thesis using good_compact [OF wf] by blast
qed

text \<open>Consequences of one step, whatever the backend.\<close>

lemma good_result_cases:
  assumes "good_result bk t t'"
  obtains (unchanged) "t' = t"
  | (refused) ops e where "wal_tx bk t ops = (t', e)" "\<not> applied e" "same_core t' t"
  | (written) ops install t1 e where
    "wal_tx bk t ops = (t1, e)" "applied e" "t' = install t1" "same_core t1 t" "faithful t ops install"
    "wf_tree (install t1)" "extends t (install t1)"
proof (cases "t' = t")
  case True
  then show thesis using unchanged by simp
next
  case False
  then obtain ops install and v :: unit and res e where
    w: "write_through bk t ops install v = (t', res, e)" "faithful t ops install"
      "\<And>t1. same_core t1 t \<Longrightarrow> wf_tree (install t1) \<and> extends t (install t1)"
    using assms unfolding good_result_def good_write_def by blast
  from w(1) show thesis
  proof (cases rule: write_through_cases)
    case (durable t1)
    have core: "same_core t1 t" using durable(1) by (rule wal_tx_same_core)
    show thesis
      by (rule written [OF durable(1,2,3) core w(2)]) (use w(3) [OF core] in blast)+
  next
    case r: refused
    show thesis using refused [OF r(1,2) wal_tx_same_core [OF r(1)]] .
  qed
qed

lemma tree_step_wf:
  assumes "tree_step bk t t'" "wf_tree t" shows "wf_tree t' \<and> extends t t'"
  using tree_step_good [OF assms]
proof (cases rule: good_result_cases)
  case (refused ops e)
  then show ?thesis using wf_same_core extends_same_core assms(2) by blast
qed (use assms(2) in simp_all)

section \<open>Trees on a backend that keeps its contracts\<close>

definition log_room :: "('w \<Rightarrow> bool) \<Rightarrow> ('w, 's) conv_tree \<Rightarrow> bool" where
  "log_room room t = (case t_wal t of None \<Rightarrow> True | Some w \<Rightarrow> room w)"

definition durable ::
  "('s \<Rightarrow> view) \<Rightarrow> ('s \<Rightarrow> bool) \<Rightarrow> ('w \<Rightarrow> bool) \<Rightarrow> ('w, 's) conv_tree \<Rightarrow> bool" where
  "durable content healthy sound t =
     ((case t_store t of None \<Rightarrow> True | Some s \<Rightarrow> healthy s \<and> mirrors (content s) t) \<and>
      (case t_wal t of None \<Rightarrow> True | Some w \<Rightarrow> sound w))"

text \<open>
  Replaying the log gives the tree: from nothing when the log is the only record, and from the
  store, which it leaves as it is, when there is one.
\<close>

definition replayable ::
  "('s \<Rightarrow> view) \<Rightarrow> ('w \<Rightarrow> tx_op list list) \<Rightarrow> ('w, 's) conv_tree \<Rightarrow> bool" where
  "replayable content pending t =
     (case t_wal t of
        None \<Rightarrow> True
      | Some w \<Rightarrow>
          (case t_store t of
             None \<Rightarrow> mirrors (view_ops empty_view (concat (pending w))) t
           | Some s \<Rightarrow> view_ops (content s) (concat (pending w)) = content s))"

definition log_fits :: "('w \<Rightarrow> tx_op list list) \<Rightarrow> ('w, 's) conv_tree \<Rightarrow> bool" where
  "log_fits pending t =
     (case t_wal t of None \<Rightarrow> True | Some w \<Rightarrow> ops_fit t (concat (pending w)))"

locale tree_backend =
  store: durable_store "bk_store bk" content healthy +
  log: write_ahead_log "bk_wal bk" pending_txs sound room open_in
  for bk :: "('w, 's, 't) backend"
    and content :: "'s \<Rightarrow> view" and healthy :: "'s \<Rightarrow> bool"
    and pending_txs :: "'w \<Rightarrow> tx_op list list" and sound :: "'w \<Rightarrow> bool" and room :: "'w \<Rightarrow> bool"
    and open_in :: "'w \<Rightarrow> string \<Rightarrow> tx_op list \<Rightarrow> bool"
begin

text \<open>What \<open>walTx\<close> does to the store and to the log, on every path.\<close>

lemma wal_tx_store:
  assumes d: "durable content healthy sound t" and r: "log_room room t" and tx: "wal_tx bk t ops = (t1, e)"
  shows "(t_store t1 = None \<longleftrightarrow> t_store t = None) \<and>
     (\<forall>s s'. t_store t = Some s \<longrightarrow> t_store t1 = Some s' \<longrightarrow>
        healthy s' \<and> content s' = (if applied e then view_ops (content s) ops else content s))"
proof (cases "t_store t")
  case None
  then show ?thesis using tx
    by (auto simp: wal_tx_def split: if_splits option.splits prod.splits sum.splits)
next
  case (Some s)
  have h: "healthy s" using d Some by (simp add: durable_def)
  show ?thesis
  proof (cases "ops = []")
    case True
    then show ?thesis using tx Some h by (simp add: wal_tx_def)
  next
    case False
    obtain s1 r1 where p: "persist (bk_store bk) s ops = (s1, r1)" by fastforce
    have post: "healthy s1 \<and> content s1 = (if r1 = None then view_ops (content s) ops else content s)"
      using store.persist_success [OF h] store.persist_failure [OF h] p by (cases r1) auto
    have err: "r1 = Some x \<Longrightarrow> \<not> is_wal_commit x" for x using store.persist_failure [OF h] p by simp
    show ?thesis
    proof (cases "t_wal t")
      case None
      then have "t1 = t\<lparr>t_store := Some s1\<rparr>" "e = r1"
        using tx Some False p by (simp_all add: wal_tx_def)
      then show ?thesis using Some post err by (auto simp: applied_def split: option.splits)
    next
      case wal: (Some w)
      obtain w1 x where o: "open_tx (bk_wal bk) w ops = (w1, x)" by fastforce
      show ?thesis
      proof (cases x)
        case (Inl y)
        have "\<not> is_wal_commit y"
          using log.open_failure [of w ops w1 y] d r wal o Inl by (simp add: durable_def log_room_def)
        then show ?thesis using tx Some wal False o Inl h by (auto simp: wal_tx_def applied_def)
      next
        case (Inr i)
        then show ?thesis
          using tx Some wal False o p post err
          by (cases r1) (auto simp: wal_tx_def applied_def split: prod.splits option.splits)
      qed
    qed
  qed
qed

lemma wal_tx_log:
  assumes d: "durable content healthy sound t" and r: "log_room room t" and tx: "wal_tx bk t ops = (t1, e)"
  shows "(t_wal t1 = None \<longleftrightarrow> t_wal t = None) \<and>
     (\<forall>w w'. t_wal t = Some w \<longrightarrow> t_wal t1 = Some w' \<longrightarrow>
        sound w' \<and> concat (pending_txs w') = concat (pending_txs w) @ (if e = None then ops else []) \<and>
        (t_store t = None \<longrightarrow> applied e \<longrightarrow> e = None))"
proof (cases "t_wal t")
  case None
  then show ?thesis using tx by (auto simp: wal_tx_def split: if_splits option.splits prod.splits)
next
  case (Some w)
  have s: "sound w" and rm: "room w" using d r Some by (simp_all add: durable_def log_room_def)
  show ?thesis
  proof (cases "ops = []")
    case True
    then show ?thesis using tx Some s by (simp add: wal_tx_def)
  next
    case False
    obtain w1 x where o: "open_tx (bk_wal bk) w ops = (w1, x)" by fastforce
    show ?thesis
    proof (cases x)
      case (Inl y)
      then show ?thesis
        using log.open_failure [OF s rm, of ops w1 y] tx Some False o by (auto simp: wal_tx_def applied_def)
    next
      case (Inr i)
      note op = log.open_success [OF s rm o [unfolded Inr]]
      obtain w2 c where c: "wal_commit (bk_wal bk) w1 i = (w2, c)" by fastforce
      obtain w3 a where a: "wal_abort (bk_wal bk) w1 i = (w3, a)" by fastforce
      have ci: "sound w2 \<and> pending_txs w2 = (if c = None then pending_txs w @ [ops] else pending_txs w)"
        using op log.commit_success [of w1 i ops w2] log.commit_failure [of w1 i ops w2] c by (cases c) auto
      have ce: "c = Some z \<Longrightarrow> \<not> is_wal_commit z" for z
        using op log.commit_failure [of w1 i ops w2] c by auto
      have ai: "sound w3 \<and> pending_txs w3 = pending_txs w" using op log.abort_open [of w1 i ops w3] a by auto
      show ?thesis
        using tx Some False o Inr c a ci ce ai
        by (auto simp: wal_tx_def applied_def split: option.splits prod.splits if_splits)
    qed
  qed
qed

text \<open>
  After any mutation the store mirrors the tree again. Replaying the log still gives the tree
  unless the store took a write whose log commit failed (the one error a mutation survives).
\<close>

lemma step_durable:
  assumes step: "good_result bk t t'" and d: "durable content healthy sound t" and r: "log_room room t"
  shows "durable content healthy sound t'"
  using step
proof (cases rule: good_result_cases)
  case (refused ops e)
  note st = wal_tx_store [OF d r refused(1)] and lg = wal_tx_log [OF d r refused(1)]
  show ?thesis
    using d st lg refused(2) mirrors_same_core [OF refused(3)]
    by (auto simp: durable_def split: option.split)
next
  case (written ops install t1 e)
  note st = wal_tx_store [OF d r written(1)] and lg = wal_tx_log [OF d r written(1)]
  have keep: "mirrors v t \<Longrightarrow> mirrors (view_ops v ops) t'" "t_wal t' = t_wal t1" "t_store t' = t_store t1" for v
    using written(3-5) unfolding faithful_def by blast+
  show ?thesis
    using d st lg keep written(2) by (auto simp: durable_def split: option.split)
qed (use d in simp)

lemma step_replayable:
  assumes step: "good_result bk t t'" and d: "durable content healthy sound t" and r: "log_room room t"
    and p: "replayable content pending_txs t"
    and ok: "\<And>ops t1 e. wal_tx bk t ops = (t1, e) \<Longrightarrow> applied e \<Longrightarrow> e = None"
  shows "replayable content pending_txs t'"
  using step
proof (cases rule: good_result_cases)
  case (refused ops e)
  note st = wal_tx_store [OF d r refused(1)] and lg = wal_tx_log [OF d r refused(1)]
  have "e \<noteq> None" using refused(2) by (cases e) simp_all
  then show ?thesis
    using p st lg refused(2) mirrors_same_core [OF refused(3)]
    by (auto simp: replayable_def split: option.splits)
next
  case (written ops install t1 e)
  note st = wal_tx_store [OF d r written(1)] and lg = wal_tx_log [OF d r written(1)]
  have keep: "mirrors v t \<Longrightarrow> mirrors (view_ops v ops) t'" "t_wal t' = t_wal t1" "t_store t' = t_store t1" for v
    using written(3-5) unfolding faithful_def by blast+
  have e: "e = None" using ok written(1,2) by blast
  have twice: "view_ops (view_ops v ops) (P @ ops) = view_ops v ops" if "view_ops v P = v" for v P
    using view_ops_twice [of v "P @ ops"] that by simp
  show ?thesis
    using p st lg keep e written(2) twice by (auto simp: replayable_def split: option.splits)
qed (use p in simp)

lemma step_fit:
  assumes step: "good_result bk t t'" and d: "durable content healthy sound t" and r: "log_room room t"
    and fit: "log_fits pending_txs t"
  shows "log_fits pending_txs t'"
  using step
proof (cases rule: good_result_cases)
  case (refused ops e)
  have "e \<noteq> None" using refused(2) by (cases e) simp_all
  then show ?thesis
    using fit wal_tx_log [OF d r refused(1)] ops_fit_extends extends_same_core [OF refused(3)]
    by (auto simp: log_fits_def split: option.splits)
next
  case (written ops install t1 e)
  have new: "ops_fit t' ops" "t_wal t' = t_wal t1" using written(3-5) unfolding faithful_def by blast+
  have old: "ops_fit t xs \<Longrightarrow> ops_fit t' xs" for xs using ops_fit_extends written(3,7) by blast
  show ?thesis
    using fit wal_tx_log [OF d r written(1)] new old
    by (auto simp: log_fits_def split: option.splits)
qed (use fit in simp)

text \<open>A new tree, on a store and a log that are still empty.\<close>

lemma new_tree_state:
  assumes n: "new_tree bk w s meta uid now ps = (t, Some i, e)" and uid: "uid \<noteq> []"
    and s: "\<And>x. s = Some x \<Longrightarrow> healthy x \<and> content x = empty_view"
    and w: "\<And>x. w = Some x \<Longrightarrow> sound x \<and> room x \<and> pending_txs x = []"
  shows "wf_tree t \<and> durable content healthy sound t \<and> log_fits pending_txs t \<and>
     good_result bk (blank_tree w s meta) t \<and>
     (\<exists>ops t1. wal_tx bk (blank_tree w s meta) ops = (t1, e) \<and> applied e \<and>
        (e = None \<longrightarrow> replayable content pending_txs t))"
proof -
  let ?b = "blank_tree w s meta" and ?n = "root_node uid now ps"
  have blank: "mirrors empty_view ?b" by (simp add: mirrors_def empty_view_def blank_tree_def get_node_def fun_eq_iff)
  have d: "durable content healthy sound ?b"
    using s w blank by (auto simp: durable_def mirrors_def blank_tree_def get_node_def split: option.split)
  have r: "log_room room ?b" using w by (simp add: log_room_def blank_tree_def split: option.split)
  have fits: "log_fits pending_txs ?b" using w by (simp add: log_fits_def blank_tree_def split: option.split)
  have p: "replayable content pending_txs ?b"
    using w s blank by (simp add: replayable_def mirrors_def blank_tree_def get_node_def split: option.split)
  have wt: "write_through bk ?b (wal_add_node_ops ?n) (install_root ?n) uid = (t, Some i, e)"
    using n by (auto simp: new_tree_def Let_def split: option.splits)
  then obtain t1 where t1: "wal_tx bk ?b (wal_add_node_ops ?n) = (t1, e)" "applied e" "t = install_root ?n t1"
    by (cases rule: write_through_cases) auto
  have wf1: "wf_tree (install_root ?n t2)" if "same_core t2 ?b" for t2
  proof -
    have g: "get_node (install_root ?n t2) = [uid \<mapsto> ?n]"
      using that by (auto simp: get_node_def install_root_def same_core_def blank_tree_def root_node_def)
    have f: "t_root (install_root ?n t2) = uid" "t_branches (install_root ?n t2) = [(''main'', uid)]"
      "t_active (install_root ?n t2) = ''main''" "t_checkpoints (install_root ?n t2) = []"
      "t_children (install_root ?n t2) = (\<lambda>_. [])" "distinct (map fst (t_nodes (install_root ?n t2)))"
      "n_parent ?n = []" "n_id ?n = uid"
      using that by (simp_all add: install_root_def same_core_def blank_tree_def root_node_def)
    show ?thesis
      unfolding wf_tree_def nodes_ok_def ranked_def children_ok_def refs_ok_def g f
      using uid f by auto
  qed
  have good: "good_result bk ?b t"
  proof -
    have "good_write bk ?b t e"
      by (rule good_writeI [OF wt faithful_root [OF uid] wf1])
        (simp_all add: extends_def blank_tree_def get_node_def)
    then show ?thesis by (auto simp: good_result_def)
  qed
  have wf: "wf_tree t" using t1 wf1 wal_tx_same_core by blast
  have rep: "replayable content pending_txs t" if "e = None"
  proof -
    note lg = wal_tx_log [OF d r t1(1)] and st = wal_tx_store [OF d r t1(1)]
    have f: "t_wal t = t_wal t1" "t_store t = t_store t1" "mirrors (view_ops empty_view (wal_add_node_ops ?n)) t"
      using faithful_root [OF uid, of w s meta now ps] wal_tx_same_core [OF t1(1)] t1(3) blank
      unfolding faithful_def by blast+
    show ?thesis
      using that lg st f w s view_ops_twice [of empty_view "wal_add_node_ops ?n"]
      by (auto simp: replayable_def blank_tree_def split: option.splits)
  qed
  show ?thesis
    using wf step_durable [OF good d r] step_fit [OF good d r fits] t1 rep good by blast
qed

end

end
