(* ===== verification/Mem_Store.thy ===== *)
theory Mem_Store
  imports Tree_Views "HOL-Library.Product_Lexorder"
begin

text \<open>
  The in-memory store (\<open>agent/store/memstore/memstore.go\<close>): the store, its reads, and the buffered
  transaction whose commit is all or nothing. The store is an interpretation of \<open>durable_store\<close>,
  so every property proved from that contract holds of a tree that writes through to it.
\<close>

section \<open>State\<close>

record mem_store =
  ms_nodes :: "(node_id, node) gomap"
  ms_order :: "node_id \<Rightarrow> node_id list"
  ms_branches :: "(branch_id, node_id) gomap"
  ms_checkpoints :: "(checkpoint_id, checkpoint) gomap"
  ms_active :: branch_id

definition mem_new :: mem_store where
  "mem_new = \<lparr>ms_nodes = [], ms_order = (\<lambda>_. []), ms_branches = [], ms_checkpoints = [],
     ms_active = []\<rparr>"

section \<open>Writes\<close>

text \<open>\<open>checkVersion\<close>: whether to write, or the conflict.\<close>

definition check_version :: "mem_store \<Rightarrow> node \<Rightarrow> terr + bool" where
  "check_version s n =
     (if n_id n = [] then Inl (ErrOther ''memstore: node ID is empty'')
      else case map_of (ms_nodes s) (n_id n) of
        None \<Rightarrow> Inr True
      | Some m \<Rightarrow>
          if n_version m < n_version n then Inr True
          else if n_version n = n_version m then Inr False
          else Inl (ErrVersionConflict (n_id n)))"

definition mem_save_node :: "mem_store \<Rightarrow> node \<Rightarrow> mem_store \<times> terr option" where
  "mem_save_node s n =
     (case check_version s n of
        Inl e \<Rightarrow> (s, Some e)
      | Inr False \<Rightarrow> (s, None)
      | Inr True \<Rightarrow>
          let existed = map_of (ms_nodes s) (n_id n) \<noteq> None;
              s' = s\<lparr>ms_nodes := AList.update (n_id n) n (ms_nodes s)\<rparr>
          in (if \<not> existed \<and> n_parent n \<noteq> []
              then s'\<lparr>ms_order := (ms_order s')(n_parent n := ms_order s' (n_parent n) @ [n_id n])\<rparr>
              else s', None))"

definition mem_save_branch :: "mem_store \<Rightarrow> branch_id \<Rightarrow> node_id \<Rightarrow> mem_store" where
  "mem_save_branch s b i = s\<lparr>ms_branches := AList.update b i (ms_branches s)\<rparr>"

definition mem_save_checkpoint :: "mem_store \<Rightarrow> checkpoint \<Rightarrow> mem_store" where
  "mem_save_checkpoint s c = s\<lparr>ms_checkpoints := AList.update (cp_id c) c (ms_checkpoints s)\<rparr>"

definition mem_save_active :: "mem_store \<Rightarrow> branch_id \<Rightarrow> mem_store" where
  "mem_save_active s b = s\<lparr>ms_active := b\<rparr>"

definition mem_delete_conversation :: "mem_store \<Rightarrow> mem_store" where
  "mem_delete_conversation s = s\<lparr>ms_nodes := [], ms_order := (\<lambda>_. []), ms_branches := [],
     ms_checkpoints := [], ms_active := []\<rparr>"

section \<open>Reads\<close>

definition mem_load_node :: "mem_store \<Rightarrow> node_id \<Rightarrow> terr + node" where
  "mem_load_node s i =
     (case map_of (ms_nodes s) i of None \<Rightarrow> Inl (ErrOther ''node not found'') | Some n \<Rightarrow> Inr n)"

definition mem_load_children :: "mem_store \<Rightarrow> node_id \<Rightarrow> node list" where
  "mem_load_children s p = List.map_filter (map_of (ms_nodes s)) (ms_order s p)"

fun mem_walk_up :: "nat \<Rightarrow> mem_store \<Rightarrow> node_id \<Rightarrow> (terr, node list) outcome" where
  "mem_walk_up fuel s cur =
     (if cur = [] then Ok []
      else case fuel of
        0 \<Rightarrow> Diverge
      | Suc k \<Rightarrow>
          (case map_of (ms_nodes s) cur of
             None \<Rightarrow> Fail (ErrOther ''node not found'')
           | Some n \<Rightarrow> and_then (mem_walk_up k s (n_parent n)) (\<lambda>p. Ok (n # p))))"

declare mem_walk_up.simps [simp del]

definition mem_load_path :: "mem_store \<Rightarrow> node_id \<Rightarrow> (terr, node list) outcome" where
  "mem_load_path s i = and_then (mem_walk_up (length (ms_nodes s) + 1) s i) (\<lambda>p. Ok (rev p))"

definition mem_load_branch :: "mem_store \<Rightarrow> branch_id \<Rightarrow> terr + node_id" where
  "mem_load_branch s b =
     (case map_of (ms_branches s) b of None \<Rightarrow> Inl (ErrOther ''branch not found'') | Some i \<Rightarrow> Inr i)"

definition mem_list_branches :: "mem_store \<Rightarrow> (branch_id, node_id) gomap" where
  "mem_list_branches s = put_all [] (ms_branches s)"

definition mem_load_checkpoint :: "mem_store \<Rightarrow> checkpoint_id \<Rightarrow> terr + checkpoint" where
  "mem_load_checkpoint s c =
     (case map_of (ms_checkpoints s) c of
        None \<Rightarrow> Inl (ErrOther ''checkpoint not found'') | Some cp \<Rightarrow> Inr cp)"

definition mem_list_checkpoints :: "mem_store \<Rightarrow> checkpoint list" where
  "mem_list_checkpoints s =
     sort_key (\<lambda>c. (cp_created c, cp_id c)) (map snd (ms_checkpoints s))"

text \<open>
  The breadth-first loop of \<open>LoadTree\<close>. Every id is in at most one child list, so a queue that
  starts at a node outside every list empties after at most one visit per stored node.
\<close>

fun bfs :: "nat \<Rightarrow> mem_store \<Rightarrow> node_id list \<Rightarrow> (terr, node list) outcome" where
  "bfs fuel s [] = Ok []"
| "bfs 0 s (i # q) = Diverge"
| "bfs (Suc k) s (i # q) =
     (case map_of (ms_nodes s) i of
        None \<Rightarrow> bfs k s q
      | Some n \<Rightarrow> and_then (bfs k s (q @ ms_order s i)) (\<lambda>ns. Ok (n # ns)))"

definition mem_load_tree ::
  "mem_store \<Rightarrow> node_id \<Rightarrow> (terr, node list \<times> (branch_id, node_id) gomap) outcome" where
  "mem_load_tree s root =
     (if map_of (ms_nodes s) root = None then Fail (ErrOther ''root not found'')
      else and_then (bfs (length (ms_nodes s) + 1) s [root]) (\<lambda>ns.
        Ok (sort_key (\<lambda>n. (n_depth n, n_created n)) ns, put_all [] (ms_branches s))))"

section \<open>Transactions\<close>

record mem_tx =
  mx_store :: mem_store
  mx_nodes :: "node list"
  mx_versions :: "(node_id, 64 word) gomap"
  mx_branches :: "(branch_id, node_id) gomap"
  mx_checkpoints :: "checkpoint list"
  mx_active :: "branch_id option"

definition mem_begin :: "mem_store \<Rightarrow> mem_tx" where
  "mem_begin s = \<lparr>mx_store = s, mx_nodes = [], mx_versions = [], mx_branches = [],
     mx_checkpoints = [], mx_active = None\<rparr>"

definition buffer_node :: "mem_tx \<Rightarrow> node \<Rightarrow> mem_tx" where
  "buffer_node tx n = tx\<lparr>mx_versions := AList.update (n_id n) (n_version n) (mx_versions tx),
     mx_nodes := mx_nodes tx @ [n]\<rparr>"

definition mem_tx_save_node :: "mem_tx \<Rightarrow> node \<Rightarrow> mem_tx \<times> terr option" where
  "mem_tx_save_node tx n =
     (if n_id n = [] then (tx, Some (ErrOther ''memstore: node ID is empty''))
      else case map_of (mx_versions tx) (n_id n) of
        Some v \<Rightarrow>
          if n_version n < v then (tx, Some (ErrVersionConflict (n_id n)))
          else if n_version n = v then (tx, None)
          else (buffer_node tx n, None)
      | None \<Rightarrow>
          (case check_version (mx_store tx) n of
             Inl e \<Rightarrow> (tx, Some e)
           | Inr False \<Rightarrow> (tx, None)
           | Inr True \<Rightarrow> (buffer_node tx n, None)))"

definition mem_tx_save_branch :: "mem_tx \<Rightarrow> branch_id \<Rightarrow> node_id \<Rightarrow> mem_tx \<times> terr option" where
  "mem_tx_save_branch tx b i = (tx\<lparr>mx_branches := AList.update b i (mx_branches tx)\<rparr>, None)"

definition mem_tx_save_checkpoint :: "mem_tx \<Rightarrow> checkpoint \<Rightarrow> mem_tx \<times> terr option" where
  "mem_tx_save_checkpoint tx c = (tx\<lparr>mx_checkpoints := mx_checkpoints tx @ [c]\<rparr>, None)"

definition mem_tx_save_active :: "mem_tx \<Rightarrow> branch_id \<Rightarrow> mem_tx \<times> terr option" where
  "mem_tx_save_active tx b = (tx\<lparr>mx_active := Some b\<rparr>, None)"

fun mem_save_nodes :: "mem_store \<Rightarrow> node list \<Rightarrow> mem_store \<times> terr option" where
  "mem_save_nodes s [] = (s, None)"
| "mem_save_nodes s (n # ns) =
     (case mem_save_node s n of (s', Some e) \<Rightarrow> (s', Some e) | (s', None) \<Rightarrow> mem_save_nodes s' ns)"

text \<open>The first buffered node that a writer has overtaken since it was buffered.\<close>

fun first_stale :: "mem_store \<Rightarrow> node list \<Rightarrow> node option" where
  "first_stale s [] = None"
| "first_stale s (n # ns) =
     (case map_of (ms_nodes s) (n_id n) of
        None \<Rightarrow> first_stale s ns
      | Some m \<Rightarrow> if n_version n < n_version m then Some n else first_stale s ns)"

text \<open>
  The commit reads the store as it is then: \<open>s\<close> may differ from the store the writes were
  buffered against when another writer ran in between.
\<close>

definition mem_commit :: "mem_store \<Rightarrow> mem_tx \<Rightarrow> mem_store \<times> terr option" where
  "mem_commit s tx =
     (case first_stale s (mx_nodes tx) of
        Some n \<Rightarrow> (s, Some (ErrVersionConflict (n_id n)))
      | None \<Rightarrow>
          (case mem_save_nodes s (mx_nodes tx) of
             (s', Some e) \<Rightarrow> (s', Some e)
           | (s', None) \<Rightarrow>
               (s'\<lparr>ms_active := (case mx_active tx of None \<Rightarrow> ms_active s' | Some b \<Rightarrow> b),
                   ms_branches := put_all (ms_branches s') (mx_branches tx),
                   ms_checkpoints := put_all (ms_checkpoints s')
                     (map (\<lambda>c. (cp_id c, c)) (mx_checkpoints tx))\<rparr>, None)))"

definition mem_run_tx ::
  "mem_store \<Rightarrow> (mem_tx \<Rightarrow> mem_tx \<times> terr option) \<Rightarrow> mem_store \<times> terr option" where
  "mem_run_tx s fn =
     (case fn (mem_begin s) of (tx, Some e) \<Rightarrow> (s, Some e) | (tx, None) \<Rightarrow> mem_commit s tx)"

definition mem_store_ops :: "(mem_store, mem_tx) store_ops" where
  "mem_store_ops = \<lparr>tx_save_node = mem_tx_save_node, tx_save_branch = mem_tx_save_branch,
     tx_save_checkpoint = mem_tx_save_checkpoint, tx_save_active = Some mem_tx_save_active,
     run_tx = mem_run_tx\<rparr>"

section \<open>The store as a view\<close>

definition mem_content :: "mem_store \<Rightarrow> view" where
  "mem_content s = \<lparr>v_nodes = map_of (ms_nodes s), v_branches = map_of (ms_branches s),
     v_checkpoints = map_of (ms_checkpoints s), v_active = ms_active s\<rparr>"

lemma mem_content_fields [simp]:
  "v_nodes (mem_content s) = map_of (ms_nodes s)"
  "v_branches (mem_content s) = map_of (ms_branches s)"
  "v_checkpoints (mem_content s) = map_of (ms_checkpoints s)"
  "v_active (mem_content s) = ms_active s"
  by (simp_all add: mem_content_def)

text \<open>A node write that does not conflict is the write of the view.\<close>

lemma put_node_fields [simp]:
  "v_branches (put_node v n) = v_branches v" "v_checkpoints (put_node v n) = v_checkpoints v"
  "v_active (put_node v n) = v_active v"
  by (simp_all add: put_node_def)

lemma v_nodes_put_node:
  "v_nodes (put_node v n) i = (if i = n_id n \<and> newer v n then Some n else v_nodes v i)"
  by (simp add: put_node_def)

lemma mem_save_node_fresh:
  assumes "n_id n \<noteq> []" "\<not> stale (mem_content s) n"
  shows "\<exists>s'. mem_save_node s n = (s', None) \<and> mem_content s' = put_node (mem_content s) n"
proof (cases "map_of (ms_nodes s) (n_id n)")
  case None
  then show ?thesis using assms
    by (simp add: mem_save_node_def check_version_def put_node_def newer_def mem_content_def Let_def)
next
  case (Some m)
  have "n_version m \<le> n_version n" using assms(2) Some by (simp add: stale_def)
  then show ?thesis using assms(1) Some
    by (auto simp: mem_save_node_def check_version_def put_node_def newer_def mem_content_def Let_def)
qed

text \<open>Buffered writes of one node carry increasing versions.\<close>

definition rising :: "node list \<Rightarrow> bool" where
  "rising ns = sorted_wrt (\<lambda>m n. n_id m = n_id n \<longrightarrow> n_version m < n_version n) ns"

definition put_nodes :: "view \<Rightarrow> node list \<Rightarrow> view" where
  "put_nodes v ns = foldl put_node v ns"

lemma put_nodes_simps [simp]:
  "put_nodes v [] = v" "put_nodes v (n # ns) = put_nodes (put_node v n) ns"
  "put_nodes v (ms @ ns) = put_nodes (put_nodes v ms) ns"
  by (simp_all add: put_nodes_def)

lemma stale_put_node:
  "stale (put_node v m) n \<Longrightarrow> \<not> stale v n \<Longrightarrow> n_id m = n_id n \<and> n_version n < n_version m"
  by (auto simp: stale_def put_node_def newer_def split: if_splits option.splits)

lemma mem_save_nodes_rising:
  assumes "rising ns" "\<forall>n\<in>set ns. n_id n \<noteq> [] \<and> \<not> stale (mem_content s) n"
  shows "\<exists>s'. mem_save_nodes s ns = (s', None) \<and> mem_content s' = put_nodes (mem_content s) ns"
  using assms
proof (induction ns arbitrary: s)
  case (Cons n ns)
  obtain s' where s': "mem_save_node s n = (s', None)" "mem_content s' = put_node (mem_content s) n"
    using mem_save_node_fresh [of n s] Cons.prems(2) by auto
  have "\<not> stale (mem_content s') m" if "m \<in> set ns" for m
    using that Cons.prems stale_put_node [of "mem_content s" n m] s'(2)
    by (auto simp: rising_def dest: less_asym)
  then show ?case using Cons.IH [of s'] Cons.prems s' by (auto simp: rising_def)
qed simp

lemma first_stale_None:
  "first_stale s ns = None \<longleftrightarrow> (\<forall>n\<in>set ns. \<not> stale (mem_content s) n)"
  by (induction ns) (auto simp: stale_def split: option.splits)

section \<open>The transaction's buffer\<close>

definition tx_content :: "mem_store \<Rightarrow> mem_tx \<Rightarrow> view" where
  "tx_content s tx = (put_nodes (mem_content s) (mx_nodes tx))
     \<lparr>v_branches := map_of (put_all (ms_branches s) (mx_branches tx)),
      v_checkpoints := map_of (put_all (ms_checkpoints s) (map (\<lambda>c. (cp_id c, c)) (mx_checkpoints tx))),
      v_active := (case mx_active tx of None \<Rightarrow> ms_active s | Some b \<Rightarrow> b)\<rparr>"

definition tx_ok :: "mem_tx \<Rightarrow> bool" where
  "tx_ok tx = (rising (mx_nodes tx) \<and> distinct (map fst (mx_branches tx)) \<and>
     (\<forall>n\<in>set (mx_nodes tx). n_id n \<noteq> [] \<and> newer (mem_content (mx_store tx)) n \<and>
        (\<exists>v. map_of (mx_versions tx) (n_id n) = Some v \<and> n_version n \<le> v)) \<and>
     (\<forall>i v. map_of (mx_versions tx) i = Some v \<longrightarrow>
        (\<exists>m. v_nodes (put_nodes (mem_content (mx_store tx)) (mx_nodes tx)) i = Some m \<and>
             n_version m = v)))"

lemma mem_begin_ok [simp]: "tx_ok (mem_begin s)" "tx_content s (mem_begin s) = mem_content s"
  by (simp_all add: tx_ok_def tx_content_def mem_begin_def rising_def mem_content_def)

lemma put_nodes_other: "\<forall>n\<in>set ns. n_id n \<noteq> i \<Longrightarrow> v_nodes (put_nodes v ns) i = v_nodes v i"
  by (induction ns arbitrary: v) (auto simp: v_nodes_put_node)

lemma buffer_node_ok:
  assumes ok: "tx_ok tx" and id: "n_id n \<noteq> []"
    and new: "newer (put_nodes (mem_content (mx_store tx)) (mx_nodes tx)) n"
    and base: "newer (mem_content (mx_store tx)) n"
    and up: "\<And>v. map_of (mx_versions tx) (n_id n) = Some v \<Longrightarrow> v < n_version n"
  shows "tx_ok (buffer_node tx n)"
proof -
  let ?v = "put_nodes (mem_content (mx_store tx)) (mx_nodes tx)"
  have old: "\<exists>v. map_of (mx_versions tx) (n_id m) = Some v \<and> n_version m \<le> v"
    "n_id m \<noteq> []" "newer (mem_content (mx_store tx)) m" if "m \<in> set (mx_nodes tx)" for m
    using ok that by (auto simp: tx_ok_def)
  have "n_version m < n_version n" if "m \<in> set (mx_nodes tx)" "n_id m = n_id n" for m
    using old [OF that(1)] up that(2) by (metis le_less_trans)
  then have "rising (mx_nodes tx @ [n])"
    using ok by (auto simp: tx_ok_def rising_def sorted_wrt_append)
  moreover have "\<exists>v. ((map_of (mx_versions tx))(n_id n \<mapsto> n_version n)) (n_id m) = Some v \<and> n_version m \<le> v"
    if m: "m \<in> set (mx_nodes tx)" for m
  proof (cases "n_id m = n_id n")
    case True
    obtain v where v: "map_of (mx_versions tx) (n_id m) = Some v" "n_version m \<le> v"
      using old(1) [OF m] by blast
    then have "n_version m \<le> n_version n" using up True by (metis le_less_trans less_imp_le)
    then show ?thesis using True by simp
  next
    case False
    then show ?thesis using old(1) [OF m] by simp
  qed
  moreover have "\<exists>m. v_nodes (put_node ?v n) i = Some m \<and> n_version m = v"
    if "((map_of (mx_versions tx))(n_id n \<mapsto> n_version n)) i = Some v" for i v
    using that new ok by (cases "i = n_id n") (auto simp: v_nodes_put_node tx_ok_def)
  ultimately show ?thesis
    using ok old id base unfolding tx_ok_def buffer_node_def by simp
qed

lemma mem_tx_save_node_ok:
  assumes ok: "tx_ok tx" and r: "mem_tx_save_node tx n = (tx', None)"
  shows "tx_ok tx' \<and> mx_store tx' = mx_store tx \<and>
     tx_content (mx_store tx) tx' = put_node (tx_content (mx_store tx) tx) n"
proof -
  let ?s = "mx_store tx" and ?v = "put_nodes (mem_content (mx_store tx)) (mx_nodes tx)"
  have id: "n_id n \<noteq> []" using r by (auto simp: mem_tx_save_node_def)
  have newer_eq: "newer (tx_content ?s tx) n = newer ?v n" by (simp add: newer_def tx_content_def)
  have buffered: "tx_content ?s (buffer_node tx n) = put_node (tx_content ?s tx) n"
    by (simp add: tx_content_def buffer_node_def put_node_def newer_def split: option.split)
  show ?thesis
  proof (cases "map_of (mx_versions tx) (n_id n)")
    case (Some v)
    then obtain m where m: "v_nodes ?v (n_id n) = Some m" "n_version m = v"
      using ok unfolding tx_ok_def by blast
    have base: "newer (mem_content ?s) n" if "v < n_version n"
    proof (cases "\<exists>k\<in>set (mx_nodes tx). n_id k = n_id n")
      case True
      then obtain k where k: "k \<in> set (mx_nodes tx)" "n_id k = n_id n" by blast
      with ok Some have "newer (mem_content ?s) k" "n_version k \<le> v" by (auto simp: tx_ok_def)
      with that k(2) show ?thesis by (auto simp: newer_def split: option.splits)
    next
      case False
      then have "v_nodes ?v (n_id n) = map_of (ms_nodes ?s) (n_id n)" by (simp add: put_nodes_other)
      with that m show ?thesis by (simp add: newer_def)
    qed
    show ?thesis
    proof (cases "n_version n = v")
      case True
      then have "tx' = tx" using r id Some by (simp add: mem_tx_save_node_def)
      moreover have "\<not> newer ?v n" using m True by (simp add: newer_def)
      ultimately show ?thesis using ok newer_eq by (simp add: put_node_def)
    next
      case False
      then have up: "v < n_version n" and tx': "tx' = buffer_node tx n"
        using r id Some by (auto simp: mem_tx_save_node_def split: if_splits)
      have "newer ?v n" using m up by (simp add: newer_def)
      then have "tx_ok tx'"
        unfolding tx' using buffer_node_ok [OF ok id _ base [OF up]] Some up by simp
      then show ?thesis using tx' buffered by (simp add: buffer_node_def)
    qed
  next
    case None
    have other: "\<forall>k\<in>set (mx_nodes tx). n_id k \<noteq> n_id n"
      using ok None by (auto simp: tx_ok_def)
    then have same: "v_nodes ?v (n_id n) = map_of (ms_nodes ?s) (n_id n)" by (simp add: put_nodes_other)
    show ?thesis
    proof (cases "newer (mem_content ?s) n")
      case True
      then have "tx' = buffer_node tx n"
        using r id None
        by (auto simp: mem_tx_save_node_def check_version_def newer_def split: option.splits if_splits)
      moreover have "newer ?v n" using True same by (simp add: newer_def)
      ultimately show ?thesis
        using buffer_node_ok [OF ok id _ True] None buffered by (simp add: buffer_node_def)
    next
      case False
      then have "tx' = tx"
        using r id None
        by (auto simp: mem_tx_save_node_def check_version_def newer_def split: option.splits if_splits)
      moreover have "\<not> newer ?v n" using False same by (simp add: newer_def)
      ultimately show ?thesis using ok newer_eq by (simp add: put_node_def)
    qed
  qed
qed

lemma mem_tx_other_ok:
  assumes "tx_ok tx"
  shows "tx_ok (tx\<lparr>mx_branches := AList.update b i (mx_branches tx)\<rparr>)"
    and "tx_ok (tx\<lparr>mx_checkpoints := cs\<rparr>)" and "tx_ok (tx\<lparr>mx_active := a\<rparr>)"
  using assms by (simp_all add: tx_ok_def distinct_keys_update)

lemma map_of_rev_distinct: "distinct (map fst xs) \<Longrightarrow> map_of (rev xs) = map_of xs"
  by (rule map_of_eqI) (auto simp: map_of_eq_Some_iff rev_map [symmetric])

lemma apply_op_mem:
  assumes ok: "tx_ok tx" and r: "apply_op mem_store_ops tx op = (tx', None)"
  shows "tx_ok tx' \<and> mx_store tx' = mx_store tx \<and>
     tx_content (mx_store tx) tx' = view_op (tx_content (mx_store tx) tx) op"
proof -
  have node: "op_node op = Some n \<Longrightarrow> mem_tx_save_node tx n = (tx', None) \<Longrightarrow> ?thesis"
    if "op_kind op \<in> {TxOpAddNode, TxOpUpdateNode, TxOpAddChild}" for n
    using mem_tx_save_node_ok [OF ok] that by (auto simp: view_op_def)
  show ?thesis
  proof (cases "op_kind op \<in> {TxOpAddNode, TxOpUpdateNode, TxOpAddChild}")
    case True
    then show ?thesis using r node by (auto simp: apply_op_def mem_store_ops_def split: option.splits)
  next
    case False
    then show ?thesis
      using ok r mem_tx_other_ok [OF ok]
      by (auto simp: apply_op_def mem_store_ops_def mem_tx_save_branch_def mem_tx_save_checkpoint_def
            mem_tx_save_active_def view_op_def tx_content_def map_of_put_all map_of_rev_distinct tx_ok_def
            distinct_keys_update
          split: op_kind.splits option.splits)
  qed
qed

lemma apply_ops_mem:
  assumes "tx_ok tx" and "apply_ops mem_store_ops tx ops = (tx', None)"
  shows "tx_ok tx' \<and> mx_store tx' = mx_store tx \<and>
     tx_content (mx_store tx) tx' = view_ops (tx_content (mx_store tx) tx) ops"
  using assms
proof (induction ops arbitrary: tx)
  case (Cons op ops)
  obtain tx1 r where r: "apply_op mem_store_ops tx op = (tx1, r)" by fastforce
  then have "r = None" "apply_ops mem_store_ops tx1 ops = (tx', None)"
    using Cons.prems(2) by (auto split: option.splits)
  then show ?case using apply_op_mem [OF Cons.prems(1)] Cons.IH [of tx1] r by auto
qed simp

section \<open>Commits\<close>

text \<open>A commit applies the whole buffer or changes nothing, whatever another writer did.\<close>

lemma mem_commit_atomic:
  assumes ok: "tx_ok tx" and r: "mem_commit s tx = (s', e)"
  shows "case e of Some x \<Rightarrow> s' = s \<and> (\<exists>i. x = ErrVersionConflict i) | None \<Rightarrow> mem_content s' = tx_content s tx"
proof (cases "first_stale s (mx_nodes tx)")
  case None
  then have "\<forall>n\<in>set (mx_nodes tx). n_id n \<noteq> [] \<and> \<not> stale (mem_content s) n"
    using ok by (auto simp: first_stale_None tx_ok_def)
  then obtain s1 where s1: "mem_save_nodes s (mx_nodes tx) = (s1, None)"
      "mem_content s1 = put_nodes (mem_content s) (mx_nodes tx)"
    using mem_save_nodes_rising ok unfolding tx_ok_def by blast
  have f: "v_branches (put_nodes v ns) = v_branches v" "v_checkpoints (put_nodes v ns) = v_checkpoints v"
    "v_active (put_nodes v ns) = v_active v" for v ns
    by (induction ns arbitrary: v) auto
  have "map_of (ms_branches s1) = map_of (ms_branches s)" "map_of (ms_checkpoints s1) = map_of (ms_checkpoints s)"
    "ms_active s1 = ms_active s" "map_of (ms_nodes s1) = v_nodes (put_nodes (mem_content s) (mx_nodes tx))"
    using s1(2) f [of "mem_content s" "mx_nodes tx"] by (metis mem_content_fields)+
  then show ?thesis
    using r None s1(1)
    by (auto simp: mem_commit_def tx_content_def view_eq_iff map_of_put_all split: option.split)
qed (use r in \<open>auto simp: mem_commit_def\<close>)

lemma not_stale_base:
  assumes "tx_ok tx" shows "first_stale (mx_store tx) (mx_nodes tx) = None"
  using assms
  by (fastforce simp: first_stale_None tx_ok_def newer_def stale_def split: option.splits dest: less_asym)

lemma mem_commit_live:
  assumes ok: "tx_ok tx" shows "\<exists>s'. mem_commit (mx_store tx) tx = (s', None)"
proof -
  let ?s = "mx_store tx"
  have stale: "first_stale ?s (mx_nodes tx) = None" using not_stale_base [OF ok] .
  then obtain s1 where "mem_save_nodes ?s (mx_nodes tx) = (s1, None)"
    using mem_save_nodes_rising [of "mx_nodes tx" ?s] ok by (auto simp: tx_ok_def first_stale_None)
  then show ?thesis using stale by (simp add: mem_commit_def)
qed

section \<open>The contract\<close>

lemma mem_persist_success:
  assumes "persist mem_store_ops s ops = (s', None)"
  shows "mem_content s' = view_ops (mem_content s) ops"
proof -
  obtain tx r where tx: "apply_ops mem_store_ops (mem_begin s) ops = (tx, r)" by fastforce
  have base: "mx_store (mem_begin s) = s" by (simp add: mem_begin_def)
  from assms tx have "r = None" "mem_commit s tx = (s', None)"
    by (auto simp: persist_def mem_store_ops_def mem_run_tx_def split: option.splits prod.splits)
  with tx apply_ops_mem [OF mem_begin_ok(1), of s ops tx] have
    "tx_ok tx" "tx_content s tx = view_ops (mem_content s) ops"
    by (simp_all add: base)
  with mem_commit_atomic \<open>mem_commit s tx = (s', None)\<close> show ?thesis by fastforce
qed

lemma apply_ops_mem_error:
  "apply_ops mem_store_ops tx ops = (tx', Some e) \<Longrightarrow> \<not> is_wal_commit e"
proof (induction ops arbitrary: tx)
  case (Cons op ops)
  obtain tx1 r where r: "apply_op mem_store_ops tx op = (tx1, r)" by fastforce
  have "r = Some x \<Longrightarrow> \<not> is_wal_commit x" for x
    using r by (auto simp: apply_op_def mem_store_ops_def mem_tx_save_node_def check_version_def
        mem_tx_save_branch_def mem_tx_save_checkpoint_def mem_tx_save_active_def
        split: op_kind.splits option.splits if_splits sum.splits bool.splits)
  then show ?case using Cons r by (auto split: option.splits)
qed simp

lemma mem_persist_failure:
  assumes "persist mem_store_ops s ops = (s', Some e)"
  shows "s' = s \<and> \<not> is_wal_commit e"
proof -
  obtain tx r where tx: "apply_ops mem_store_ops (mem_begin s) ops = (tx, r)" by fastforce
  show ?thesis
  proof (cases r)
    case None
    with assms tx obtain e' where "mem_commit s tx = (s', Some e')" "e = ErrStoreWrite e'"
      by (auto simp: persist_def mem_store_ops_def mem_run_tx_def split: option.splits prod.splits)
    moreover have "tx_ok tx" using tx None apply_ops_mem [OF mem_begin_ok(1)] by blast
    ultimately show ?thesis using mem_commit_atomic by fastforce
  next
    case (Some x)
    with assms tx have "s' = s" "e = ErrStoreWrite x"
      by (auto simp: persist_def mem_store_ops_def mem_run_tx_def split: option.splits prod.splits)
    then show ?thesis using apply_ops_mem_error tx Some by simp
  qed
qed

interpretation ms: durable_store mem_store_ops mem_content "\<lambda>_. True"
  by unfold_locales (auto dest: mem_persist_success mem_persist_failure)

text \<open>Complete operations, none of them with a node older than the store's copy, are always written.\<close>

fun none_stale :: "view \<Rightarrow> tx_op list \<Rightarrow> bool" where
  "none_stale v [] = True"
| "none_stale v (op # ops) =
     ((op_kind op \<in> {TxOpAddNode, TxOpUpdateNode, TxOpAddChild} \<longrightarrow> \<not> stale v (the (op_node op))) \<and>
      none_stale (view_op v op) ops)"

lemma mem_tx_save_node_live:
  assumes ok: "tx_ok tx" and id: "n_id n \<noteq> []" and fresh: "\<not> stale (tx_content (mx_store tx) tx) n"
  shows "\<exists>tx'. mem_tx_save_node tx n = (tx', None)"
proof (cases "map_of (mx_versions tx) (n_id n)")
  case (Some v)
  then have "\<exists>m. v_nodes (tx_content (mx_store tx) tx) (n_id n) = Some m \<and> n_version m = v"
    using ok by (simp add: tx_ok_def tx_content_def)
  then obtain m where "v_nodes (tx_content (mx_store tx) tx) (n_id n) = Some m" "n_version m = v"
    by blast
  with fresh have "\<not> n_version n < v" by (simp add: stale_def)
  with Some id show ?thesis by (simp add: mem_tx_save_node_def)
next
  case None
  then have "\<forall>k\<in>set (mx_nodes tx). n_id k \<noteq> n_id n" using ok by (auto simp: tx_ok_def)
  then have "v_nodes (tx_content (mx_store tx) tx) (n_id n) = map_of (ms_nodes (mx_store tx)) (n_id n)"
    by (simp add: tx_content_def put_nodes_other)
  with fresh have "check_version (mx_store tx) n \<noteq> Inl e" for e
    using id by (auto simp: check_version_def stale_def split: option.splits)
  with None id show ?thesis
    by (cases "check_version (mx_store tx) n") (auto simp: mem_tx_save_node_def split: bool.split)
qed

lemma apply_ops_mem_live:
  assumes "tx_ok tx" "list_all op_complete ops" "none_stale (tx_content (mx_store tx) tx) ops"
  shows "\<exists>tx'. apply_ops mem_store_ops tx ops = (tx', None)"
  using assms
proof (induction ops arbitrary: tx)
  case (Cons op ops)
  have "\<exists>tx1. apply_op mem_store_ops tx op = (tx1, None)"
  proof (cases "op_kind op \<in> {TxOpAddNode, TxOpUpdateNode, TxOpAddChild}")
    case True
    then obtain n where "op_node op = Some n" "n_id n \<noteq> []" "\<not> stale (tx_content (mx_store tx) tx) n"
      using Cons.prems(2,3) by (auto simp: op_complete_def)
    with True mem_tx_save_node_live [OF Cons.prems(1), of n] show ?thesis
      by (auto simp: apply_op_def mem_store_ops_def)
  next
    case False
    then show ?thesis using Cons.prems(2)
      by (auto simp: apply_op_def mem_store_ops_def mem_tx_save_branch_def mem_tx_save_checkpoint_def
            mem_tx_save_active_def op_complete_def split: op_kind.splits)
  qed
  then obtain tx1 where tx1: "apply_op mem_store_ops tx op = (tx1, None)" by blast
  note step = apply_op_mem [OF Cons.prems(1) tx1]
  then have "\<exists>tx'. apply_ops mem_store_ops tx1 ops = (tx', None)"
    using Cons.prems by (intro Cons.IH) simp_all
  then show ?case using tx1 by simp
qed simp

lemma mem_persist_live:
  assumes "list_all op_complete ops" "none_stale (mem_content s) ops"
  shows "\<exists>s'. persist mem_store_ops s ops = (s', None)"
proof -
  have base: "mx_store (mem_begin s) = s" by (simp add: mem_begin_def)
  obtain tx where tx: "apply_ops mem_store_ops (mem_begin s) ops = (tx, None)"
    using apply_ops_mem_live [OF mem_begin_ok(1)] assms by (fastforce simp: base)
  then have ok: "tx_ok tx" "mx_store tx = s" using apply_ops_mem [OF mem_begin_ok(1) tx] base by auto
  obtain s' where "mem_commit s tx = (s', None)" using mem_commit_live [OF ok(1)] ok(2) by blast
  then show ?thesis using tx by (simp add: persist_def mem_store_ops_def mem_run_tx_def)
qed

end
