(* ===== verification/Tree_Load.thy ===== *)
theory Tree_Load
  imports Tree_Sync Mem_Store
begin

text \<open>
  Loading a conversation back: \<open>LoadFromStore\<close> (\<open>agent/tree/persist.go\<close>) over any store, and the
  in-memory store's \<open>LoadTree\<close>. From a store that mirrors a well-formed tree and keeps the children
  of every node in order, the loaded tree has the same nodes, branches, checkpoints and messages.
\<close>

section \<open>LoadFromStore\<close>

record 's store_reads =
  sr_load_tree :: "'s \<Rightarrow> node_id \<Rightarrow> (terr, node list \<times> (branch_id, node_id) gomap) outcome"
  sr_list_checkpoints :: "'s \<Rightarrow> terr + checkpoint list"
  sr_load_active :: "('s \<Rightarrow> terr + branch_id) option"

definition checkpoints_in :: "node list \<Rightarrow> checkpoint list \<Rightarrow> (checkpoint_id, checkpoint) gomap" where
  "checkpoints_in ns cps =
     put_all [] (map (\<lambda>c. (cp_id c, c)) (filter (\<lambda>c. cp_node c \<in> n_id ` set ns) cps))"

text \<open>The branch to make active when the caller names none: the saved one, else main.\<close>

definition saved_active ::
  "node list \<Rightarrow> (branch_id, node_id) gomap \<Rightarrow> branch_id \<Rightarrow> branch_id" where
  "saved_active ns brs saved =
     (case map_of brs saved of
        Some tip \<Rightarrow> if tip \<in> n_id ` set ns then saved else []
      | None \<Rightarrow> [])"

definition choose_active ::
  "'s store_reads \<Rightarrow> 's \<Rightarrow> node list \<Rightarrow> (branch_id, node_id) gomap \<Rightarrow> branch_id \<Rightarrow> terr + branch_id" where
  "choose_active sr st ns brs active =
     (case (if active = [] then sr_load_active sr else None) of
        None \<Rightarrow> Inr (if active = [] then ''main'' else active)
      | Some f \<Rightarrow>
          (case f st of
             Inl e \<Rightarrow> Inl (ErrWrapped ''load active branch'' e)
           | Inr saved \<Rightarrow>
               let a = saved_active ns brs saved in Inr (if a = [] then ''main'' else a)))"

definition load_from_store ::
  "'s store_reads \<Rightarrow> 's option \<Rightarrow> node_id \<Rightarrow> branch_id \<Rightarrow> 'w option \<Rightarrow> 's option \<Rightarrow> raw_metadata \<Rightarrow>
   (terr, ('w, 's) conv_tree) outcome" where
  "load_from_store sr store root active w s meta =
     (case store of
        None \<Rightarrow> Fail (ErrOther ''tree: nil store'')
      | Some st \<Rightarrow>
          (case sr_load_tree sr st root of
             Diverge \<Rightarrow> Diverge
           | Fail e \<Rightarrow> Fail (ErrWrapped ''load tree'' e)
           | Ok (ns, brs) \<Rightarrow>
               (case sr_list_checkpoints sr st of
                  Inl e \<Rightarrow> Fail (ErrWrapped ''load checkpoints'' e)
                | Inr cps \<Rightarrow>
                    (case choose_active sr st ns brs active of
                       Inl e \<Rightarrow> Fail e
                     | Inr a \<Rightarrow>
                         (case from_store ns brs (checkpoints_in ns cps) root a w s meta of
                            Inl e \<Rightarrow> Fail e
                          | Inr t \<Rightarrow> Ok t)))))"

definition mem_reads :: "mem_store store_reads" where
  "mem_reads = \<lparr>sr_load_tree = mem_load_tree, sr_list_checkpoints = (\<lambda>s. Inr (mem_list_checkpoints s)),
     sr_load_active = Some (\<lambda>s. Inr (ms_active s))\<rparr>"

lemma mem_reads_fields [simp]:
  "sr_load_tree mem_reads = mem_load_tree"
  "sr_list_checkpoints mem_reads s = Inr (mem_list_checkpoints s)"
  "sr_load_active mem_reads = Some (\<lambda>s. Inr (ms_active s))"
  by (simp_all add: mem_reads_def)

section \<open>Children in order\<close>

text \<open>
  The store lists a node under the parent it was first written with; \<open>ordered\<close> says what that
  gives when the parent of a node never changes.
\<close>

definition ordered :: "(node_id \<Rightarrow> node_id) \<Rightarrow> mem_store \<Rightarrow> bool" where
  "ordered par s =
     ((\<forall>i n. map_of (ms_nodes s) i = Some n \<longrightarrow> n_id n = i \<and> n_parent n = par i) \<and>
      distinct (map fst (ms_nodes s)) \<and> distinct (map fst (ms_branches s)) \<and>
      distinct (map fst (ms_checkpoints s)) \<and>
      (\<forall>p. distinct (ms_order s p) \<and>
         (\<forall>c. c \<in> set (ms_order s p) \<longleftrightarrow> p \<noteq> [] \<and> map_of (ms_nodes s) c \<noteq> None \<and> par c = p)))"

lemma ordered_new [simp]: "ordered par mem_new"
  by (simp add: ordered_def mem_new_def)

lemma ordered_save_node:
  assumes o: "ordered par s" and p: "n_parent n = par (n_id n)" and r: "mem_save_node s n = (s', e)"
  shows "ordered par s'"
proof -
  have same: "s' = s \<Longrightarrow> ?thesis" using o by simp
  show ?thesis
  proof (cases "check_version s n")
    case (Inl x)
    then show ?thesis using r same by (simp add: mem_save_node_def)
  next
    case (Inr b)
    show ?thesis
    proof (cases b)
      case False
      then show ?thesis using r same Inr by (simp add: mem_save_node_def)
    next
      case True
      then show ?thesis
        using r Inr o p by (auto simp: mem_save_node_def Let_def ordered_def distinct_keys_update split: if_splits)
    qed
  qed
qed

lemma ordered_save_nodes:
  "ordered par s \<Longrightarrow> \<forall>n\<in>set ns. n_parent n = par (n_id n) \<Longrightarrow> mem_save_nodes s ns = (s', e) \<Longrightarrow> ordered par s'"
proof (induction ns arbitrary: s)
  case (Cons n ns)
  obtain s1 e1 where r: "mem_save_node s n = (s1, e1)" by fastforce
  have "ordered par s1" using Cons.prems by (intro ordered_save_node [OF _ _ r]) auto
  then show ?case using Cons.IH [of s1] Cons.prems r by (auto split: option.splits)
qed simp

lemma distinct_keys_put_all: "distinct (map fst m) \<Longrightarrow> distinct (map fst (put_all m kvs))"
  by (rule distinct_put_all)

lemma ordered_commit:
  assumes "ordered par s" "\<forall>n\<in>set (mx_nodes tx). n_parent n = par (n_id n)" "mem_commit s tx = (s', e)"
  shows "ordered par s'"
proof (cases "first_stale s (mx_nodes tx)")
  case None
  obtain s1 e1 where r: "mem_save_nodes s (mx_nodes tx) = (s1, e1)" by fastforce
  have "ordered par s1" using ordered_save_nodes [OF assms(1,2) r] .
  then show ?thesis
    using assms(3) None r
    by (cases e1) (auto simp: mem_commit_def ordered_def distinct_keys_put_all)
qed (use assms in \<open>auto simp: mem_commit_def\<close>)

text \<open>A transaction buffers only nodes of its operations.\<close>

definition par_ok :: "(node_id \<Rightarrow> node_id) \<Rightarrow> tx_op list \<Rightarrow> bool" where
  "par_ok par ops = (\<forall>op\<in>set ops. \<forall>n. node_write op = Some n \<longrightarrow> n_parent n = par (n_id n))"

lemma mem_tx_save_node_buffer:
  "mem_tx_save_node tx n = (tx', e) \<Longrightarrow> set (mx_nodes tx') \<subseteq> set (mx_nodes tx) \<union> {n}"
  by (auto simp: mem_tx_save_node_def buffer_node_def
      split: if_splits option.splits sum.splits bool.splits)

definition buffers_only :: "(mem_store, mem_tx) store_ops \<Rightarrow> bool" where
  "buffers_only so =
     ((\<forall>tx n. set (mx_nodes (fst (tx_save_node so tx n))) \<subseteq> set (mx_nodes tx) \<union> {n}) \<and>
      (\<forall>tx b i. mx_nodes (fst (tx_save_branch so tx b i)) = mx_nodes tx) \<and>
      (\<forall>tx c. mx_nodes (fst (tx_save_checkpoint so tx c)) = mx_nodes tx) \<and>
      (\<forall>f tx b. tx_save_active so = Some f \<longrightarrow> mx_nodes (fst (f tx b)) = mx_nodes tx))"

lemma buffers_only_mem: "buffers_only mem_store_ops"
  using mem_tx_save_node_buffer
  by (auto simp: buffers_only_def mem_store_ops_def mem_tx_save_branch_def mem_tx_save_checkpoint_def
      mem_tx_save_active_def prod_eq_iff)

lemma apply_op_buffer:
  assumes so: "buffers_only so" and r: "apply_op so tx op = (tx', e)"
  shows "set (mx_nodes tx') \<subseteq> set (mx_nodes tx) \<union> set_option (node_write op)"
proof -
  have node: "set (mx_nodes tx1) \<subseteq> set (mx_nodes tx) \<union> {n}" if "tx_save_node so tx n = (tx1, e1)" for n tx1 e1
    using so that unfolding buffers_only_def by (metis fst_conv)
  have "mx_nodes tx1 = mx_nodes tx" if "tx_save_branch so tx b i = (tx1, e1)" for b i tx1 e1
    using so that unfolding buffers_only_def by (metis fst_conv)
  moreover have "mx_nodes tx1 = mx_nodes tx" if "tx_save_checkpoint so tx c = (tx1, e1)" for c tx1 e1
    using so that unfolding buffers_only_def by (metis fst_conv)
  moreover have "mx_nodes tx1 = mx_nodes tx" if "tx_save_active so = Some f" "f tx b = (tx1, e1)" for f b tx1 e1
    using so that unfolding buffers_only_def by (metis fst_conv)
  ultimately show ?thesis
    using r by (cases "op_kind op")
      (auto simp: apply_op_def node_write_def split: option.splits dest!: node)
qed

lemma apply_ops_buffer:
  "buffers_only so \<Longrightarrow> apply_ops so tx ops = (tx', e) \<Longrightarrow> par_ok par ops \<Longrightarrow>
   \<forall>n\<in>set (mx_nodes tx). n_parent n = par (n_id n) \<Longrightarrow>
   \<forall>n\<in>set (mx_nodes tx'). n_parent n = par (n_id n)"
proof (induction ops arbitrary: tx)
  case (Cons op ops)
  obtain tx1 e1 where r: "apply_op so tx op = (tx1, e1)" by fastforce
  have one: "\<forall>n\<in>set (mx_nodes tx1). n_parent n = par (n_id n)"
    using apply_op_buffer [OF Cons.prems(1) r] Cons.prems(3,4) by (auto simp: par_ok_def)
  show ?case
  proof (cases e1)
    case None
    then show ?thesis
      using Cons.IH [OF Cons.prems(1) _ _ one] Cons.prems(2,3) r by (simp add: par_ok_def)
  next
    case (Some x)
    then show ?thesis using Cons.prems(2) r one by simp
  qed
qed simp

lemma ordered_persist:
  assumes o: "ordered par s" and ops: "par_ok par ops" and r: "persist mem_store_ops s ops = (s', e)"
  shows "ordered par s'"
proof -
  obtain tx e1 where tx: "apply_ops mem_store_ops (mem_begin s) ops = (tx, e1)" by fastforce
  have buf: "\<forall>n\<in>set (mx_nodes tx). n_parent n = par (n_id n)"
    using apply_ops_buffer [OF buffers_only_mem tx ops] by (simp add: mem_begin_def)
  have "s' = s \<or> (\<exists>e2. mem_commit s tx = (s', e2))"
    using r tx by (cases e1) (auto simp: persist_def mem_store_ops_def mem_run_tx_def split: prod.splits option.splits)
  then show ?thesis using ordered_commit [OF o buf] o by blast
qed

lemma ordered_cong:
  "ordered par s \<Longrightarrow> \<forall>i. map_of (ms_nodes s) i \<noteq> None \<longrightarrow> par i = par' i \<Longrightarrow> ordered par' s"
  unfolding ordered_def by fastforce

section \<open>Breadth first\<close>

text \<open>
  The loop with its visited nodes: every visited node's children are visited or queued, every node
  met so far but the root has its parent visited, and nothing is met twice.
\<close>

definition bfs_inv :: "mem_store \<Rightarrow> (node_id \<Rightarrow> node_id) \<Rightarrow> node_id \<Rightarrow> node_id list \<Rightarrow> node_id list \<Rightarrow> bool" where
  "bfs_inv s par root seen todo =
     (distinct (seen @ todo) \<and> root \<in> set (seen @ todo) \<and>
      (\<forall>i\<in>set (seen @ todo). map_of (ms_nodes s) i \<noteq> None \<and> (i = root \<or> par i \<in> set seen \<and> i \<in> set (ms_order s (par i)))) \<and>
      (\<forall>i\<in>set seen. set (ms_order s i) \<subseteq> set (seen @ todo)))"

lemma bfs_step:
  assumes o: "ordered par s" and root: "par root = []" and inv: "bfs_inv s par root seen (i # q)"
  shows "bfs_inv s par root (seen @ [i]) (q @ ms_order s i)"
proof -
  have kid: "c \<noteq> root \<and> par c = i \<and> map_of (ms_nodes s) c \<noteq> None \<and> i \<noteq> []" if "c \<in> set (ms_order s i)" for c
    using o that root unfolding ordered_def by metis
  have "c \<notin> set (seen @ i # q)" if c: "c \<in> set (ms_order s i)" for c
  proof
    assume "c \<in> set (seen @ i # q)"
    then have "par c \<in> set seen" using inv kid [OF c] unfolding bfs_inv_def by blast
    then have "i \<in> set seen" using kid [OF c] by simp
    then show False using inv by (auto simp: bfs_inv_def)
  qed
  moreover have "distinct (ms_order s i)" using o by (simp add: ordered_def)
  ultimately show ?thesis
    using inv kid unfolding bfs_inv_def by auto
qed

lemma bfs_ends:
  assumes o: "ordered par s" and root: "par root = []"
  shows "bfs_inv s par root seen todo \<Longrightarrow> card (dom (map_of (ms_nodes s))) \<le> k + length seen \<Longrightarrow>
     \<exists>ns. bfs k s todo = Ok ns \<and> bfs_inv s par root (seen @ map n_id ns) [] \<and>
       (\<forall>n\<in>set ns. map_of (ms_nodes s) (n_id n) = Some n)"
proof (induction k arbitrary: seen todo)
  case 0
  have "set (seen @ todo) \<subseteq> dom (map_of (ms_nodes s))" "distinct (seen @ todo)"
    using 0(1) unfolding bfs_inv_def by blast+
  then have "length (seen @ todo) \<le> card (dom (map_of (ms_nodes s)))"
    by (metis card_mono distinct_card finite_dom_map_of)
  with 0(2) have "length todo = 0" unfolding length_append by linarith
  then have "todo = []" by simp
  with 0 show ?case by simp
next
  case (Suc k)
  show ?case
  proof (cases todo)
    case Nil
    with Suc.prems(1) show ?thesis by simp
  next
    case (Cons i q)
    then have "map_of (ms_nodes s) i \<noteq> None" using Suc.prems(1) by (simp add: bfs_inv_def)
    then obtain n where n: "map_of (ms_nodes s) i = Some n" by blast
    then have id: "n_id n = i" using o by (simp add: ordered_def)
    have "card (dom (map_of (ms_nodes s))) \<le> k + length (seen @ [i])" using Suc.prems(2) by simp
    from Suc.IH [OF bfs_step [OF o root Suc.prems(1) [unfolded Cons]] this] obtain ns where
      "bfs k s (q @ ms_order s i) = Ok ns" "bfs_inv s par root ((seen @ [i]) @ map n_id ns) []"
      "\<forall>m\<in>set ns. map_of (ms_nodes s) (n_id m) = Some m" by blast
    then show ?thesis using Cons n id by (intro exI [of _ "n # ns"]) simp
  qed
qed

definition parent_of :: "('w, 's) conv_tree \<Rightarrow> node_id \<Rightarrow> node_id" where
  "parent_of t i = (case get_node t i of None \<Rightarrow> [] | Some n \<Rightarrow> n_parent n)"

text \<open>The in-memory store loads exactly the nodes of the tree it mirrors.\<close>

lemma mem_load_tree_exact:
  assumes wf: "wf_tree t" and m: "mirrors (mem_content s) t" and o: "ordered (parent_of t) s"
  shows "\<exists>ns brs. mem_load_tree s (t_root t) = Ok (ns, brs) \<and> distinct (map n_id ns) \<and>
     (\<forall>n. n \<in> set ns \<longleftrightarrow> get_node t (n_id n) = Some n) \<and> map_of brs = map_of (t_branches t) \<and>
     distinct (map fst brs)"
proof -
  have nodes: "map_of (ms_nodes s) = get_node t" and brs: "map_of (ms_branches s) = map_of (t_branches t)"
    using m by (simp_all add: mirrors_def)
  obtain r where r: "get_node t (t_root t) = Some r" "n_parent r = []"
    using wf wf_root_parent [OF wf] by (auto simp: wf_tree_def refs_ok_def)
  then have root: "parent_of t (t_root t) = []" by (simp add: parent_of_def)
  have "bfs_inv s (parent_of t) (t_root t) [] [t_root t]" using r by (simp add: bfs_inv_def nodes)
  moreover have "card (dom (map_of (ms_nodes s))) \<le> length (ms_nodes s) + 1 + length ([] :: node_id list)"
    using card_dom_map_of_le [of "ms_nodes s"] by simp
  ultimately obtain ns where ns: "bfs (length (ms_nodes s) + 1) s [t_root t] = Ok ns"
    "bfs_inv s (parent_of t) (t_root t) (map n_id ns) []" "\<forall>n\<in>set ns. get_node t (n_id n) = Some n"
    using bfs_ends [OF o root] nodes by (metis append_Nil)
  have all: "i \<in> n_id ` set ns" if "get_node t i = Some n" for i n
    using wf that
  proof (induction rule: tree_induct)
    case (Root i n)
    then have "i = t_root t" using wf_root_parent [OF wf Root(1)] by simp
    then show ?case using ns(2) by (simp add: bfs_inv_def)
  next
    case (Child i n)
    have "i \<in> set (ms_order s (n_parent n))"
      using o Child(1,2) nodes unfolding ordered_def by (simp add: parent_of_def)
    moreover have "\<forall>i\<in>n_id ` set ns. set (ms_order s i) \<subseteq> n_id ` set ns"
      using ns(2) by (simp add: bfs_inv_def)
    then have "set (ms_order s (n_parent n)) \<subseteq> n_id ` set ns" using Child(3) by blast
    ultimately show ?case by blast
  qed
  let ?ns = "sort_key (\<lambda>n. (n_depth n, n_created n)) ns"
  have "mem_load_tree s (t_root t) = Ok (?ns, put_all [] (ms_branches s))"
    using r ns(1) nodes by (simp add: mem_load_tree_def)
  moreover have "distinct (map n_id ns)" using ns(2) by (simp add: bfs_inv_def)
  then have "distinct (map n_id ?ns)" by (simp add: distinct_map)
  moreover have "n \<in> set ?ns \<longleftrightarrow> get_node t (n_id n) = Some n" for n
  proof
    assume g: "get_node t (n_id n) = Some n"
    then obtain m where "m \<in> set ns" "n_id m = n_id n" using all by fastforce
    then show "n \<in> set ?ns" using ns(3) g by (metis option.inject set_sort)
  qed (use ns(3) in simp)
  moreover have "map_of (put_all [] (ms_branches s)) = map_of (t_branches t)"
    using brs o by (simp add: map_of_put_all map_of_rev_distinct ordered_def)
  moreover have "distinct (map fst (put_all [] (ms_branches s)))" by (rule distinct_put_all) simp
  ultimately show ?thesis by blast
qed

lemma checkpoints_in_all:
  assumes "ordered par s" "\<And>c cp. map_of (ms_checkpoints s) c = Some cp \<Longrightarrow> cp_id cp = c \<and> cp_node cp \<in> n_id ` set ns"
  shows "map_of (checkpoints_in ns (mem_list_checkpoints s)) = map_of (ms_checkpoints s)"
proof -
  let ?xs = "map (\<lambda>c. (cp_id c, c)) (mem_list_checkpoints s)"
  have d: "distinct (map fst (ms_checkpoints s))" using assms(1) by (simp add: ordered_def)
  have mem: "c \<in> set (mem_list_checkpoints s) \<longleftrightarrow> map_of (ms_checkpoints s) (cp_id c) = Some c" for c
  proof
    assume "c \<in> set (mem_list_checkpoints s)"
    then obtain k where "(k, c) \<in> set (ms_checkpoints s)" by (auto simp: mem_list_checkpoints_def)
    then have "map_of (ms_checkpoints s) k = Some c" using d by simp
    then show "map_of (ms_checkpoints s) (cp_id c) = Some c" using assms(2) [of k c] by simp
  next
    assume "map_of (ms_checkpoints s) (cp_id c) = Some c"
    then have "(cp_id c, c) \<in> set (ms_checkpoints s)" by (rule map_of_SomeD)
    then show "c \<in> set (mem_list_checkpoints s)" by (force simp: mem_list_checkpoints_def)
  qed
  have all: "filter (\<lambda>c. cp_node c \<in> n_id ` set ns) (mem_list_checkpoints s) = mem_list_checkpoints s"
    using mem assms(2) by (intro filter_True) blast
  have "map_of (rev ?xs) k = map_of (ms_checkpoints s) k" for k
  proof (cases "map_of (rev ?xs) k")
    case (Some c)
    then have "(k, c) \<in> set ?xs" using map_of_SomeD [OF Some] by simp
    then have "cp_id c = k" "c \<in> set (mem_list_checkpoints s)" by auto
    then show ?thesis using Some mem by simp
  next
    case None
    then have none: "k \<notin> cp_id ` set (mem_list_checkpoints s)" by (simp add: map_of_eq_None_iff image_image)
    have "map_of (ms_checkpoints s) k = None"
    proof (rule ccontr)
      assume "map_of (ms_checkpoints s) k \<noteq> None"
      then obtain c where c: "map_of (ms_checkpoints s) k = Some c" by blast
      then have "cp_id c = k" using assms(2) by blast
      then show False using none mem c by blast
    qed
    then show ?thesis using None by simp
  qed
  then show ?thesis by (simp add: checkpoints_in_def all map_of_put_all fun_eq_iff)
qed

section \<open>The loaded tree\<close>

lemma from_store_nodes:
  assumes "distinct (map n_id ns)" "\<And>n. n \<in> set ns \<longleftrightarrow> get_node t (n_id n) = Some n"
    "\<And>i n. get_node t i = Some n \<Longrightarrow> n_id n = i"
  shows "map_of (put_all [] (map (\<lambda>n. (n_id n, n)) ns)) i = get_node t i"
proof -
  have d: "distinct (map fst (map (\<lambda>n. (n_id n, n)) ns))" using assms(1) by (simp add: comp_def)
  have "map_of (map (\<lambda>n. (n_id n, n)) ns) i = Some n \<longleftrightarrow> get_node t i = Some n" for n
    using map_of_in_set [OF d, of i n] assms(2) [of n] assms(3) [of i n] by auto
  then have "map_of (map (\<lambda>n. (n_id n, n)) ns) i = get_node t i" by (metis not_None_eq)
  then show ?thesis by (simp add: map_of_put_all map_of_rev_distinct [OF d])
qed

lemma children_of_set:
  assumes wf: "wf_tree t" and ns: "distinct (map n_id ns)" "\<And>n. n \<in> set ns \<longleftrightarrow> get_node t (n_id n) = Some n"
  shows "distinct (children_of ns p) \<and> set (children_of ns p) = set (t_children t p)"
proof -
  have "c \<in> set (children_of ns p) \<longleftrightarrow> c \<in> set (t_children t p)" for c
  proof -
    have "c \<in> set (children_of ns p) \<longleftrightarrow> p \<noteq> [] \<and> (\<exists>n\<in>set ns. n_id n = c \<and> n_parent n = p)"
      by (auto simp: children_of_def)
    also have "\<dots> \<longleftrightarrow> p \<noteq> [] \<and> (\<exists>n. get_node t c = Some n \<and> n_parent n = p)"
      unfolding Bex_def ns(2) by (metis wf_node [OF wf])
    finally have "c \<in> set (children_of ns p) \<longleftrightarrow> p \<noteq> [] \<and> (\<exists>n. get_node t c = Some n \<and> n_parent n = p)" .
    then show ?thesis using wf_children [OF wf] by simp
  qed
  then have "set (children_of ns p) = set (t_children t p)" by (rule set_eqI)
  moreover have "distinct (children_of ns p)"
    using ns(1) by (simp add: children_of_def distinct_map_filter)
  ultimately show ?thesis by simp
qed

text \<open>
  The same conversation: nodes, parents and children, branches, checkpoints and root. Only the order
  of siblings, which the store sorts by depth and creation time, and the active branch may differ.
\<close>

definition same_conversation :: "('w, 's) conv_tree \<Rightarrow> ('v, 'r) conv_tree \<Rightarrow> bool" where
  "same_conversation t u =
     (get_node t = get_node u \<and> (\<forall>p. set (t_children t p) = set (t_children u p)) \<and>
      t_root t = t_root u \<and> map_of (t_branches t) = map_of (t_branches u) \<and>
      map_of (t_checkpoints t) = map_of (t_checkpoints u))"

lemma wf_same_conversation:
  assumes "same_conversation t u" "wf_tree t" "distinct (map fst (t_nodes u))"
    "\<And>p. distinct (t_children u p)" "map_of (t_branches u) (t_active u) \<noteq> None"
  shows "wf_tree u"
proof -
  have same: "get_node u = get_node t" "\<And>p. set (t_children u p) = set (t_children t p)" "t_root u = t_root t"
    "map_of (t_branches u) = map_of (t_branches t)" "map_of (t_checkpoints u) = map_of (t_checkpoints t)"
    using assms(1) by (simp_all add: same_conversation_def)
  have "nodes_ok u" using assms(2,3) unfolding wf_tree_def nodes_ok_def same by blast
  moreover have "ranked u" using assms(2) unfolding wf_tree_def ranked_def same by blast
  moreover have "children_ok u" using assms(2,4) unfolding wf_tree_def children_ok_def same by blast
  moreover have "refs_ok u" using assms(2,5) unfolding wf_tree_def refs_ok_def same by blast
  ultimately show ?thesis by (simp add: wf_tree_def)
qed

lemma mem_load_same:
  assumes wf: "wf_tree t" and m: "mirrors (mem_content s) t" and o: "ordered (parent_of t) s"
    and meta: "validate_metadata meta = None"
  shows "\<exists>u. load_from_store mem_reads (Some s) (t_root t) [] w st meta = Ok u \<and>
     same_conversation t u \<and> distinct (map fst (t_nodes u)) \<and> (\<forall>p. distinct (t_children u p)) \<and>
     t_wal u = w \<and> t_store u = st \<and>
     t_active u = (if t_active t = [] then ''main'' else t_active t)"
proof -
  obtain ns brs where l: "mem_load_tree s (t_root t) = Ok (ns, brs)" "distinct (map n_id ns)"
    "\<And>n. n \<in> set ns \<longleftrightarrow> get_node t (n_id n) = Some n" "map_of brs = map_of (t_branches t)" "distinct (map fst brs)"
    using mem_load_tree_exact [OF wf m o] by blast
  have ids: "get_node t i = Some n \<Longrightarrow> i \<in> n_id ` set ns" for i n
    using l(3) wf_node [OF wf] by (metis image_eqI)
  have cps: "\<And>c cp. map_of (t_checkpoints t) c = Some cp \<Longrightarrow> cp_id cp = c"
    using wf by (simp add: wf_tree_def refs_ok_def)
  have root: "ns \<noteq> []" using wf ids by (fastforce simp: wf_tree_def refs_ok_def)
  have cp: "map_of (checkpoints_in ns (mem_list_checkpoints s)) = map_of (t_checkpoints t)"
    using checkpoints_in_all [OF o, of ns] m cps ids wf_checkpoint [OF wf]
    by (metis mem_content_fields(3) mirrors_def)
  obtain tip where tip: "map_of (t_branches t) (t_active t) = Some tip" "tip \<in> n_id ` set ns"
    using wf ids wf_tip [OF wf] by (fastforce simp: wf_tree_def refs_ok_def)
  have act: "choose_active mem_reads s ns brs [] =
      Inr (if t_active t = [] then ''main'' else t_active t)"
  proof -
    have "ms_active s = t_active t \<or> ms_active s = [] \<and> t_active t = ''main''" using m by (simp add: mirrors_def)
    then show ?thesis
      using tip by (auto simp: choose_active_def saved_active_def l(4) Let_def split: option.split)
  qed
  let ?u = "\<lparr>t_nodes = put_all [] (map (\<lambda>n. (n_id n, n)) ns), t_children = children_of ns,
     t_root = t_root t, t_branches = put_all [] brs,
     t_active = (if t_active t = [] then ''main'' else t_active t),
     t_checkpoints = put_all [] (checkpoints_in ns (mem_list_checkpoints s)),
     t_wal = w, t_store = st, t_metadata = meta\<rparr>"
  have "load_from_store mem_reads (Some s) (t_root t) [] w st meta = Ok ?u"
    using l(1) act root meta by (simp add: load_from_store_def from_store_def)
  moreover have "same_conversation t ?u"
  proof -
    have "get_node ?u = get_node t"
      using from_store_nodes [OF l(2,3)] wf_node [OF wf] by (simp add: get_node_def [of ?u] fun_eq_iff)
    moreover have "map_of (put_all [] brs) = map_of (t_branches t)"
      using l(4,5) by (simp add: map_of_put_all map_of_rev_distinct)
    moreover have "distinct (map fst (checkpoints_in ns (mem_list_checkpoints s)))"
      unfolding checkpoints_in_def by (rule distinct_put_all) simp
    then have "map_of (put_all [] (checkpoints_in ns (mem_list_checkpoints s))) = map_of (t_checkpoints t)"
      using cp by (simp add: map_of_put_all map_of_rev_distinct)
    ultimately show ?thesis
      using children_of_set [OF wf l(2,3)] by (simp add: same_conversation_def)
  qed
  ultimately show ?thesis
    using children_of_set [OF wf l(2,3)] by (auto simp: distinct_put_all)
qed

end
