(* ===== verification/Mem_Wal.thy ===== *)
theory Mem_Wal
  imports Tree_Views "HOL-Library.Multiset"
begin

text \<open>
  The in-memory write-ahead log (\<open>agent/store/memwal/memwal.go\<close>): its state and operations, and its
  interpretation of the contract \<open>write_ahead_log\<close>. The log recovers transactions in the order
  they began; that is the order they committed in as long as one transaction is open at a time,
  which the tree's lock ensures and \<open>wal_open_in\<close> states.
\<close>

section \<open>State and operations\<close>

record tx_state =
  tx_ops :: "tx_op list"
  tx_committed :: bool
  tx_aborted :: bool
  tx_applied :: bool

record mem_wal =
  mw_txns :: "(string, tx_state) gomap"
  mw_next :: "64 word"

definition wal_new :: mem_wal where
  "wal_new = \<lparr>mw_txns = [], mw_next = 0\<rparr>"

definition tx_name :: "nat \<Rightarrow> string" where
  "tx_name n = ''tx-'' @ nat_digits n"

definition put_tx :: "mem_wal \<Rightarrow> string \<Rightarrow> tx_state \<Rightarrow> mem_wal" where
  "put_tx w i st = w\<lparr>mw_txns := AList.update i st (mw_txns w)\<rparr>"

definition mem_wal_begin :: "mem_wal \<Rightarrow> mem_wal \<times> (terr + string)" where
  "mem_wal_begin w =
     (let w' = w\<lparr>mw_next := mw_next w + 1\<rparr>;
          i = tx_name (unat (mw_next w'))
      in (put_tx w' i \<lparr>tx_ops = [], tx_committed = False, tx_aborted = False, tx_applied = False\<rparr>, Inr i))"

definition mem_wal_append :: "mem_wal \<Rightarrow> string \<Rightarrow> tx_op \<Rightarrow> mem_wal \<times> terr option" where
  "mem_wal_append w i op =
     (case map_of (mw_txns w) i of
        None \<Rightarrow> (w, Some (ErrOther ''unknown transaction''))
      | Some st \<Rightarrow>
          if tx_committed st \<or> tx_aborted st
          then (w, Some (ErrOther ''transaction is already finalized''))
          else (put_tx w i (st\<lparr>tx_ops := tx_ops st @ [op]\<rparr>), None))"

definition mem_wal_commit :: "mem_wal \<Rightarrow> string \<Rightarrow> mem_wal \<times> terr option" where
  "mem_wal_commit w i =
     (case map_of (mw_txns w) i of
        None \<Rightarrow> (w, Some (ErrOther ''unknown transaction''))
      | Some st \<Rightarrow>
          if tx_aborted st then (w, Some (ErrOther ''transaction was aborted''))
          else (put_tx w i (st\<lparr>tx_committed := True\<rparr>), None))"

definition mem_wal_abort :: "mem_wal \<Rightarrow> string \<Rightarrow> mem_wal \<times> terr option" where
  "mem_wal_abort w i =
     (case map_of (mw_txns w) i of
        None \<Rightarrow> (w, Some (ErrOther ''unknown transaction''))
      | Some st \<Rightarrow> (put_tx w i (st\<lparr>tx_aborted := True\<rparr>), None))"

text \<open>\<open>strconv.ParseUint(s, 10, 64)\<close>, its error dropped: 0 on a bad digit, the largest value on overflow.\<close>

fun parse_uint :: "nat \<Rightarrow> string \<Rightarrow> nat" where
  "parse_uint n [] = n"
| "parse_uint n (c # cs) =
     (if \<not> is_digit c then 0
      else let m = 10 * n + nat (digit_val c)
           in if 18446744073709551616 \<le> m then 18446744073709551615 else parse_uint m cs)"

definition tx_seq :: "string \<Rightarrow> nat" where
  "tx_seq i = parse_uint 0 (trim_prefix i ''tx-'')"

definition mem_wal_recover :: "mem_wal \<Rightarrow> string list" where
  "mem_wal_recover w =
     sort_key tx_seq (map fst (filter (\<lambda>(i, st). tx_committed st \<and> \<not> tx_applied st) (mw_txns w)))"

definition mem_wal_mark_applied :: "mem_wal \<Rightarrow> string \<Rightarrow> mem_wal \<times> terr option" where
  "mem_wal_mark_applied w i =
     (case map_of (mw_txns w) i of
        None \<Rightarrow> (w, Some (ErrOther ''unknown transaction''))
      | Some st \<Rightarrow>
          if \<not> tx_committed st then (w, Some (ErrOther ''transaction is not committed''))
          else (put_tx w i (st\<lparr>tx_applied := True\<rparr>), None))"

definition mem_wal_replay :: "mem_wal \<Rightarrow> string \<Rightarrow> terr + tx_op list" where
  "mem_wal_replay w i =
     (case map_of (mw_txns w) i of
        None \<Rightarrow> Inl (ErrOther ''unknown transaction'')
      | Some st \<Rightarrow> Inr (tx_ops st))"

definition mem_wal_ops :: "mem_wal wal_ops" where
  "mem_wal_ops = \<lparr>wal_begin = mem_wal_begin, wal_append = mem_wal_append,
     wal_commit = mem_wal_commit, wal_abort = mem_wal_abort\<rparr>"

section \<open>Transaction names\<close>

lemma digits_val_ge: "0 \<le> a \<Longrightarrow> list_all is_digit xs \<Longrightarrow> a \<le> digits_val a xs"
proof (induction xs arbitrary: a)
  case (Cons c cs)
  have "0 \<le> digit_val c" using Cons.prems by (simp add: digit_val_nonneg)
  then have "10 * a + digit_val c \<le> digits_val (10 * a + digit_val c) cs"
    using Cons.prems by (intro Cons.IH) simp_all
  with \<open>0 \<le> digit_val c\<close> Cons.prems show ?case by simp
qed simp

lemma parse_uint_digits:
  "list_all is_digit xs \<Longrightarrow> digits_val (int n) xs < 18446744073709551616 \<Longrightarrow>
     int (parse_uint n xs) = digits_val (int n) xs"
proof (induction xs arbitrary: n)
  case (Cons c cs)
  have d: "0 \<le> digit_val c" using Cons.prems by (simp add: digit_val_nonneg)
  let ?m = "10 * n + nat (digit_val c)"
  have m: "int ?m = 10 * int n + digit_val c" using d by simp
  have "int ?m \<le> digits_val (int ?m) cs" using Cons.prems by (intro digits_val_ge) simp_all
  also have "\<dots> < 18446744073709551616" using Cons.prems(2) m by simp
  finally have "\<not> 18446744073709551616 \<le> ?m" by linarith
  moreover have "int (parse_uint ?m cs) = digits_val (int ?m) cs"
    using Cons.prems m by (intro Cons.IH) simp_all
  ultimately show ?case using Cons.prems m by (simp add: Let_def)
qed simp

lemma tx_seq_name: "n < 18446744073709551616 \<Longrightarrow> tx_seq (tx_name n) = n"
  using parse_uint_digits [of "nat_digits n" 0] nat_digits_ok [of n] nat_digits_val [of n]
  by (simp add: tx_seq_def tx_name_def trim_prefix_def has_prefix_def)

lemma tx_seq_word: "tx_seq (tx_name (unat (v :: 64 word))) = unat v"
  using unsigned_less [of v] by (intro tx_seq_name) simp

section \<open>The contract\<close>

definition wal_sound :: "mem_wal \<Rightarrow> bool" where
  "wal_sound w = (distinct (map fst (mw_txns w)) \<and>
     (\<forall>i\<in>set (map fst (mw_txns w)). \<exists>v. v \<le> mw_next w \<and> i = tx_name (unat v)))"

definition wal_room :: "mem_wal \<Rightarrow> bool" where
  "wal_room w = (mw_next w \<noteq> - 1)"

definition wal_pending :: "mem_wal \<Rightarrow> tx_op list list" where
  "wal_pending w = map (\<lambda>i. case map_of (mw_txns w) i of None \<Rightarrow> [] | Some st \<Rightarrow> tx_ops st)
     (mem_wal_recover w)"

definition wal_open_in :: "mem_wal \<Rightarrow> string \<Rightarrow> tx_op list \<Rightarrow> bool" where
  "wal_open_in w i ops = (i = tx_name (unat (mw_next w)) \<and>
     map_of (mw_txns w) i =
       Some \<lparr>tx_ops = ops, tx_committed = False, tx_aborted = False, tx_applied = False\<rparr>)"

lemma wal_sound_new [simp]: "wal_sound wal_new" "wal_pending wal_new = []"
  by (simp_all add: wal_sound_def wal_new_def wal_pending_def mem_wal_recover_def)

text \<open>Which transactions are recovered depends on the committed ones alone.\<close>

definition awaiting :: "mem_wal \<Rightarrow> string \<Rightarrow> bool" where
  "awaiting w i = (\<exists>st. map_of (mw_txns w) i = Some st \<and> tx_committed st \<and> \<not> tx_applied st)"

lemma recover_set:
  "wal_sound w \<Longrightarrow> set (mem_wal_recover w) = {i. awaiting w i} \<and> distinct (mem_wal_recover w)"
proof -
  assume "wal_sound w"
  then have d: "distinct (map fst (mw_txns w))" by (simp add: wal_sound_def)
  have "i \<in> set (mem_wal_recover w) \<longleftrightarrow> awaiting w i" for i
    using map_of_in_set [OF d, of i] by (auto simp: mem_wal_recover_def awaiting_def image_iff)
  then show ?thesis using d by (auto simp: mem_wal_recover_def distinct_map_filter)
qed

lemma awaiting_name:
  "wal_sound w \<Longrightarrow> awaiting w i \<Longrightarrow> \<exists>v. v \<le> mw_next w \<and> i = tx_name (unat v)"
  unfolding wal_sound_def awaiting_def by (metis domI dom_map_of_conv_image_fst list.set_map)

lemma tx_seq_inj: "wal_sound w \<Longrightarrow> inj_on tx_seq {i. awaiting w i}"
proof (rule inj_onI)
  fix i j
  assume s: "wal_sound w" and "i \<in> {i. awaiting w i}" "j \<in> {i. awaiting w i}"
    and eq: "tx_seq i = tx_seq j"
  then have ai: "awaiting w i" and aj: "awaiting w j" by simp_all
  obtain u :: "64 word" where "i = tx_name (unat u)" using awaiting_name [OF s ai] by blast
  moreover obtain v :: "64 word" where "j = tx_name (unat v)" using awaiting_name [OF s aj] by blast
  ultimately show "i = j" using eq by (simp add: tx_seq_word)
qed

lemma recover_unique:
  assumes s: "wal_sound w" and "set xs = {i. awaiting w i}" "distinct xs" "sorted (map tx_seq xs)"
  shows "mem_wal_recover w = xs"
proof -
  let ?L = "map fst (filter (\<lambda>(i, st). tx_committed st \<and> \<not> tx_applied st) (mw_txns w))"
  have L: "mset ?L = mset (mem_wal_recover w)" "set ?L = set (mem_wal_recover w)"
    by (simp_all add: mem_wal_recover_def)
  have "mset xs = mset (mem_wal_recover w)"
    using recover_set [OF s] assms(2,3) by (metis set_eq_iff_mset_eq_distinct)
  moreover have "inj_on tx_seq (set ?L)"
    using tx_seq_inj [OF s] recover_set [OF s] L(2) by simp
  ultimately have "sort_key tx_seq ?L = xs"
    using sort_key_inj_key_eq [of ?L xs tx_seq] assms(4) L(1) by simp
  then show ?thesis by (simp add: mem_wal_recover_def)
qed

lemma recover_sorted: "sorted (map tx_seq (mem_wal_recover w))"
  by (simp add: mem_wal_recover_def)

text \<open>A step that changes neither the awaiting transactions nor their operations keeps the pending ones.\<close>

lemma pending_same:
  assumes s: "wal_sound w" and s': "wal_sound w'" and same: "\<And>i. awaiting w' i = awaiting w i"
    and ops: "\<And>i. awaiting w i \<Longrightarrow> map_of (mw_txns w') i = map_of (mw_txns w) i"
  shows "wal_pending w' = wal_pending w"
proof -
  have r: "mem_wal_recover w' = mem_wal_recover w"
    using recover_set [OF s] recover_sorted [of w] same by (intro recover_unique [OF s']) auto
  show ?thesis
    unfolding wal_pending_def r using recover_set [OF s] ops by (intro map_cong) auto
qed

lemma wal_sound_put:
  "wal_sound w \<Longrightarrow> i = tx_name (unat v) \<Longrightarrow> v \<le> mw_next w \<Longrightarrow> wal_sound (put_tx w i st)"
  by (auto simp: wal_sound_def put_tx_def dom_update simp flip: dom_map_of_conv_image_fst)

lemma put_tx_fields [simp]:
  "mw_next (put_tx w i st) = mw_next w"
  "map_of (mw_txns (put_tx w i st)) = (map_of (mw_txns w))(i \<mapsto> st)"
  by (simp_all add: put_tx_def)

lemma awaiting_put [simp]:
  "awaiting (put_tx w i st) j = (if j = i then tx_committed st \<and> \<not> tx_applied st else awaiting w j)"
  by (simp add: awaiting_def)

lemma not_awaiting_next:
  assumes "wal_sound w" "wal_room w" shows "map_of (mw_txns w) (tx_name (unat (mw_next w + 1))) = None"
proof (rule ccontr)
  assume "map_of (mw_txns w) (tx_name (unat (mw_next w + 1))) \<noteq> None"
  then obtain v where "v \<le> mw_next w" "tx_name (unat (mw_next w + 1)) = tx_name (unat v)"
    using assms(1) unfolding wal_sound_def
    by (metis dom_map_of_conv_image_fst domIff list.set_map)
  then have "unat (mw_next w + 1) = unat v" by (metis tx_seq_word)
  then have "mw_next w + 1 = v" by (rule word_unat_eq_iff [THEN iffD2])
  then have "mw_next w + 1 \<le> mw_next w" using \<open>v \<le> mw_next w\<close> by (rule subst [OF sym])
  with word_less_Suc [of "mw_next w"] assms(2) show False by (simp add: wal_room_def)
qed

lemma wal_begin_law:
  assumes s: "wal_sound w" and room: "wal_room w" and r: "mem_wal_begin w = (w', x)"
  shows "\<exists>i. x = Inr i \<and> wal_sound w' \<and> wal_pending w' = wal_pending w \<and> wal_open_in w' i []"
proof -
  let ?w = "w\<lparr>mw_next := mw_next w + 1\<rparr>" and ?i = "tx_name (unat (mw_next w + 1))"
  have up: "mw_next w \<le> mw_next w + 1"
    using word_less_Suc [of "mw_next w"] room by (simp add: wal_room_def order_less_imp_le)
  have s1: "wal_sound ?w" 
  proof -
    have "\<exists>u. u \<le> mw_next w + 1 \<and> i = tx_name (unat u)" if "i \<in> set (map fst (mw_txns w))" for i
      using that s up order_trans unfolding wal_sound_def by blast
    then show ?thesis using s by (simp add: wal_sound_def)
  qed
  have w': "w' = put_tx ?w ?i \<lparr>tx_ops = [], tx_committed = False, tx_aborted = False, tx_applied = False\<rparr>"
    and x: "x = Inr ?i"
    using r by (auto simp: mem_wal_begin_def Let_def)
  have s2: "wal_sound w'" unfolding w' by (rule wal_sound_put [OF s1 refl]) simp
  have aw: "awaiting ?w i = awaiting w i" for i by (simp add: awaiting_def)
  have new: "\<not> awaiting w ?i" using not_awaiting_next [OF s room] by (simp add: awaiting_def)
  have "wal_pending w' = wal_pending w"
    using new aw by (intro pending_same [OF s s2]) (auto simp: w' awaiting_def)
  then show ?thesis using s2 x by (simp add: w' wal_open_in_def)
qed

lemma wal_append_law:
  assumes s: "wal_sound w" and o: "wal_open_in w i ops" and r: "mem_wal_append w i op = (w', e)"
  shows "e = None \<and> wal_sound w' \<and> wal_pending w' = wal_pending w \<and> wal_open_in w' i (ops @ [op])"
proof -
  let ?st = "\<lparr>tx_ops = ops @ [op], tx_committed = False, tx_aborted = False, tx_applied = False\<rparr>"
  have w': "w' = put_tx w i ?st" and e: "e = None"
    using r o by (auto simp: mem_wal_append_def wal_open_in_def)
  have s': "wal_sound w'" unfolding w' using s o by (auto simp: wal_open_in_def intro: wal_sound_put)
  have "wal_pending w' = wal_pending w"
    using o by (intro pending_same [OF s s']) (auto simp: w' awaiting_def wal_open_in_def)
  then show ?thesis using s' e o by (simp add: w' wal_open_in_def)
qed

lemma wal_append_all_law:
  "wal_sound w \<Longrightarrow> wal_open_in w i ops \<Longrightarrow> append_all mem_wal_ops w i rest = (w', e) \<Longrightarrow>
   e = None \<and> wal_sound w' \<and> wal_pending w' = wal_pending w \<and> wal_open_in w' i (ops @ rest)"
proof (induction rest arbitrary: w ops)
  case (Cons op rest)
  obtain w1 e1 where r: "mem_wal_append w i op = (w1, e1)" by fastforce
  note step = wal_append_law [OF Cons.prems(1,2) r]
  then have "append_all mem_wal_ops w1 i rest = (w', e)"
    using Cons.prems(3) r by (simp add: mem_wal_ops_def)
  with Cons.IH [of w1 "ops @ [op]"] step show ?case by simp
qed simp

lemma wal_finish_law:
  assumes s: "wal_sound w" and o: "wal_open_in w i ops" and r: "mem_wal_commit w i = (w', e)"
  shows "e = None \<and> wal_sound w' \<and> wal_pending w' = wal_pending w @ [ops]"
proof -
  let ?st = "\<lparr>tx_ops = ops, tx_committed = True, tx_aborted = False, tx_applied = False\<rparr>"
  have w': "w' = put_tx w i ?st" and e: "e = None"
    using r o by (auto simp: mem_wal_commit_def wal_open_in_def)
  have i: "i = tx_name (unat (mw_next w))" and no: "\<not> awaiting w i"
    using o by (auto simp: wal_open_in_def awaiting_def)
  have s': "wal_sound w'" unfolding w' using s i by (auto intro: wal_sound_put)
  have last: "tx_seq j \<le> tx_seq i" if "awaiting w j" for j
    using awaiting_name [OF s that] i by (auto simp: tx_seq_word word_le_nat_alt)
  have "mem_wal_recover w' = mem_wal_recover w @ [i]"
    using recover_set [OF s] recover_sorted [of w] no last
    by (intro recover_unique [OF s']) (auto simp: w' sorted_append)
  moreover have "map (\<lambda>j. case map_of (mw_txns w') j of None \<Rightarrow> [] | Some st \<Rightarrow> tx_ops st)
      (mem_wal_recover w) = wal_pending w"
    unfolding wal_pending_def using recover_set [OF s] no by (intro map_cong) (auto simp: w')
  ultimately show ?thesis using s' e by (simp add: wal_pending_def w')
qed

lemma wal_abort_law:
  assumes s: "wal_sound w" and o: "wal_open_in w i ops" and r: "mem_wal_abort w i = (w', e)"
  shows "wal_sound w' \<and> wal_pending w' = wal_pending w"
proof -
  let ?st = "\<lparr>tx_ops = ops, tx_committed = False, tx_aborted = True, tx_applied = False\<rparr>"
  have w': "w' = put_tx w i ?st" using r o by (auto simp: mem_wal_abort_def wal_open_in_def)
  have s': "wal_sound w'" unfolding w' using s o by (auto simp: wal_open_in_def intro: wal_sound_put)
  moreover have "wal_pending w' = wal_pending w"
    using o by (intro pending_same [OF s s']) (auto simp: w' awaiting_def wal_open_in_def)
  ultimately show ?thesis by simp
qed

lemma wal_open_law:
  assumes "wal_sound w" "wal_room w" "open_tx mem_wal_ops w ops = (w', x)"
  shows "\<exists>i. x = Inr i \<and> wal_sound w' \<and> wal_pending w' = wal_pending w \<and> wal_open_in w' i ops"
proof -
  obtain w1 y where b: "mem_wal_begin w = (w1, y)" by fastforce
  then obtain i where i: "y = Inr i" "wal_sound w1" "wal_pending w1 = wal_pending w" "wal_open_in w1 i []"
    using wal_begin_law [OF assms(1,2)] by blast
  obtain w2 e where a: "append_all mem_wal_ops w1 i ops = (w2, e)" by fastforce
  note appended = wal_append_all_law [OF i(2,4) a]
  show ?thesis
    using assms(3) b i a appended by (auto simp: open_tx_def mem_wal_ops_def)
qed

interpretation mw: write_ahead_log mem_wal_ops wal_pending wal_sound wal_room wal_open_in
proof unfold_locales
  show "wal_sound w' \<and> wal_pending w' = wal_pending w \<and> \<not> is_wal_commit e"
    if "wal_sound w" "wal_room w" "open_tx mem_wal_ops w ops = (w', Inl e)" for w ops w' e
    using wal_open_law [OF that] by simp
  show "wal_sound w' \<and> wal_pending w' = wal_pending w \<and> wal_open_in w' tx ops"
    if "wal_sound w" "wal_room w" "open_tx mem_wal_ops w ops = (w', Inr tx)" for w ops w' tx
    using wal_open_law [OF that] by simp
  show "wal_sound w' \<and> wal_pending w' = wal_pending w @ [ops]"
    if "wal_sound w" "wal_open_in w tx ops" "wal_commit mem_wal_ops w tx = (w', None)" for w tx ops w'
    using that wal_finish_law [of w tx ops w' None] by (simp add: mem_wal_ops_def)
  show "wal_sound w' \<and> wal_pending w' = wal_pending w \<and> \<not> is_wal_commit e"
    if "wal_sound w" "wal_open_in w tx ops" "wal_commit mem_wal_ops w tx = (w', Some e)" for w tx ops w' e
    using that wal_finish_law [of w tx ops w' "Some e"] by (simp add: mem_wal_ops_def)
  show "wal_sound w' \<and> wal_pending w' = wal_pending w"
    if "wal_sound w" "wal_open_in w tx ops" "wal_abort mem_wal_ops w tx = (w', r)" for w tx ops w' r
    using that wal_abort_law [of w tx ops w' r] by (simp add: mem_wal_ops_def)
qed

end
