(* ===== verification/Recovery.thy ===== *)
theory Recovery
  imports Mem_Store Mem_Wal
begin

text \<open>
  Crash recovery (\<open>agent/store/walrecover/walrecover.go\<close>): the committed transactions of a log are
  applied to a store in batches, each batch in one store transaction, and marked applied. The
  optional interfaces of a log are optional fields. With the in-memory log and store, a recovery
  applies a prefix of the pending transactions, all of them unless it reports an error, and a
  second recovery changes nothing.
\<close>

section \<open>The log as recovery sees it\<close>

type_synonym transaction = "string \<times> tx_op list"

record 'w recovery_wal =
  rw_recover :: "'w \<Rightarrow> 'w \<times> (terr + string list)"
  rw_replay :: "'w \<Rightarrow> string \<Rightarrow> 'w \<times> (terr + tx_op list)"
  rw_recover_ops :: "('w \<Rightarrow> 'w \<times> (terr + transaction list)) option"
  rw_mark_applied :: "('w \<Rightarrow> string \<Rightarrow> 'w \<times> terr option) option"
  rw_mark_batch :: "('w \<Rightarrow> string list \<Rightarrow> 'w \<times> terr option) option"
  rw_compact :: "('w \<Rightarrow> 'w \<times> terr option) option"

fun replay_all :: "'w recovery_wal \<Rightarrow> 'w \<Rightarrow> string list \<Rightarrow> 'w \<times> (terr + transaction list)" where
  "replay_all rw w [] = (w, Inr [])"
| "replay_all rw w (i # is) =
     (case rw_replay rw w i of
        (w', Inl e) \<Rightarrow> (w', Inl (ErrWrapped (''walrecover: replay '' @ i) e))
      | (w', Inr ops) \<Rightarrow>
          (case replay_all rw w' is of
             (w'', Inl e) \<Rightarrow> (w'', Inl e)
           | (w'', Inr txs) \<Rightarrow> (w'', Inr ((i, ops) # txs))))"

definition pending_of :: "'w recovery_wal \<Rightarrow> 'w \<Rightarrow> 'w \<times> (terr + transaction list)" where
  "pending_of rw w =
     (case rw_recover_ops rw of
        Some f \<Rightarrow>
          (case f w of
             (w', Inl e) \<Rightarrow> (w', Inl (ErrWrapped ''walrecover: recover'' e))
           | (w', Inr txs) \<Rightarrow> (w', Inr txs))
      | None \<Rightarrow>
          (case rw_recover rw w of
             (w', Inl e) \<Rightarrow> (w', Inl (ErrWrapped ''walrecover: recover'' e))
           | (w', Inr ids) \<Rightarrow> replay_all rw w' ids))"

fun mark_each :: "('w \<Rightarrow> string \<Rightarrow> 'w \<times> terr option) \<Rightarrow> 'w \<Rightarrow> transaction list \<Rightarrow> 'w \<times> terr option" where
  "mark_each f w [] = (w, None)"
| "mark_each f w ((i, ops) # txs) =
     (case f w i of
        (w', Some e) \<Rightarrow> (w', Some (ErrWrapped (''walrecover: mark applied '' @ i) e))
      | (w', None) \<Rightarrow> mark_each f w' txs)"

definition mark_applied :: "'w recovery_wal \<Rightarrow> 'w \<Rightarrow> transaction list \<Rightarrow> 'w \<times> terr option" where
  "mark_applied rw w batch =
     (case rw_mark_batch rw of
        Some f \<Rightarrow>
          (case f w (map fst batch) of
             (w', Some e) \<Rightarrow> (w', Some (ErrWrapped ''walrecover: mark applied'' e))
           | (w', None) \<Rightarrow> (w', None))
      | None \<Rightarrow>
          (case rw_mark_applied rw of
             None \<Rightarrow> (w, None)
           | Some f \<Rightarrow> mark_each f w batch))"

section \<open>Applying transactions\<close>

text \<open>\<open>recoveryTx\<close>: a stale node write counts as done.\<close>

definition recovery_save_node ::
  "('s, 't) store_ops \<Rightarrow> 't \<Rightarrow> node \<Rightarrow> 't \<times> terr option" where
  "recovery_save_node so tx n =
     (case tx_save_node so tx n of
        (tx', None) \<Rightarrow> (tx', None)
      | (tx', Some e) \<Rightarrow> (tx', if is_version_conflict e then None else Some e))"

definition recovery_save_active ::
  "('s, 't) store_ops \<Rightarrow> 't \<Rightarrow> branch_id \<Rightarrow> 't \<times> terr option" where
  "recovery_save_active so tx b =
     (case tx_save_active so of None \<Rightarrow> (tx, None) | Some f \<Rightarrow> f tx b)"

definition recovery_ops :: "('s, 't) store_ops \<Rightarrow> ('s, 't) store_ops" where
  "recovery_ops so = so\<lparr>tx_save_node := recovery_save_node so,
     tx_save_active := Some (recovery_save_active so)\<rparr>"

fun apply_txs :: "('s, 't) store_ops \<Rightarrow> 't \<Rightarrow> transaction list \<Rightarrow> 't \<times> terr option" where
  "apply_txs so tx [] = (tx, None)"
| "apply_txs so tx ((i, ops) # txs) =
     (case apply_ops so tx ops of
        (tx', Some e) \<Rightarrow> (tx', Some (ErrWrapped i e))
      | (tx', None) \<Rightarrow> apply_txs so tx' txs)"

definition batch_size :: nat where "batch_size = 256"

function apply_batches ::
  "'w recovery_wal \<Rightarrow> ('s, 't) store_ops \<Rightarrow> 'w \<Rightarrow> 's \<Rightarrow> nat \<Rightarrow> transaction list \<Rightarrow>
   'w \<times> 's \<times> nat \<times> terr option" where
  "apply_batches rw so w s k txs =
     (if txs = [] then (w, s, k, None)
      else let batch = take batch_size txs in
      case run_tx so s (\<lambda>tx. apply_txs (recovery_ops so) tx batch) of
        (s', Some e) \<Rightarrow> (w, s', k, Some (ErrWrapped ''walrecover: apply'' e))
      | (s', None) \<Rightarrow>
          (case mark_applied rw w batch of
             (w', Some e) \<Rightarrow> (w', s', k, Some e)
           | (w', None) \<Rightarrow>
               apply_batches rw so w' s' (k + length batch) (drop batch_size txs)))"
  by pat_completeness auto
termination
  by (relation "measure (\<lambda>(rw, so, w, s, k, txs). length txs)") (auto simp: batch_size_def)

declare apply_batches.simps [simp del]

definition recover_wal ::
  "'w recovery_wal \<Rightarrow> ('s, 't) store_ops \<Rightarrow> 'w \<Rightarrow> 's \<Rightarrow> 'w \<times> 's \<times> nat \<times> terr option" where
  "recover_wal rw so w s =
     (case pending_of rw w of
        (w', Inl e) \<Rightarrow> (w', s, 0, Some e)
      | (w', Inr txs) \<Rightarrow>
          (case apply_batches rw so w' s 0 txs of
             (w'', s', k, Some e) \<Rightarrow> (w'', s', k, Some e)
           | (w'', s', k, None) \<Rightarrow>
               (case rw_compact rw of
                  None \<Rightarrow> (w'', s', k, None)
                | Some f \<Rightarrow>
                    (case f w'' of
                       (w3, Some e) \<Rightarrow> (w3, s', k, Some (ErrWrapped ''walrecover: compact'' e))
                     | (w3, None) \<Rightarrow> (w3, s', k, None)))))"

text \<open>The in-memory log implements \<open>Recover\<close>, \<open>Replay\<close> and \<open>MarkApplied\<close>.\<close>

definition mem_recovery :: "mem_wal recovery_wal" where
  "mem_recovery = \<lparr>rw_recover = (\<lambda>w. (w, Inr (mem_wal_recover w))),
     rw_replay = (\<lambda>w i. (w, mem_wal_replay w i)), rw_recover_ops = None,
     rw_mark_applied = Some mem_wal_mark_applied, rw_mark_batch = None, rw_compact = None\<rparr>"

section \<open>Reading the pending transactions\<close>

definition mem_pending :: "mem_wal \<Rightarrow> transaction list" where
  "mem_pending w = zip (mem_wal_recover w) (wal_pending w)"

lemma mem_pending_parts [simp]:
  "map fst (mem_pending w) = mem_wal_recover w" "map snd (mem_pending w) = wal_pending w"
  by (simp_all add: mem_pending_def wal_pending_def)

lemma replay_all_mem:
  "\<forall>i\<in>set is. map_of (mw_txns w) i \<noteq> None \<Longrightarrow>
   replay_all mem_recovery w is =
     (w, Inr (zip is (map (\<lambda>i. case map_of (mw_txns w) i of None \<Rightarrow> [] | Some st \<Rightarrow> tx_ops st) is)))"
  by (induction "is") (auto simp: mem_recovery_def mem_wal_replay_def)

lemma pending_of_mem: "wal_sound w \<Longrightarrow> pending_of mem_recovery w = (w, Inr (mem_pending w))"
proof -
  assume "wal_sound w"
  then have "\<forall>i\<in>set (mem_wal_recover w). map_of (mw_txns w) i \<noteq> None"
    using recover_set [of w] by (auto simp: awaiting_def)
  from replay_all_mem [OF this] show ?thesis
    by (simp add: pending_of_def mem_pending_def wal_pending_def) (simp add: mem_recovery_def)
qed

section \<open>Marking\<close>

lemma mark_one:
  assumes s: "wal_sound w" and p: "mem_wal_recover w = i # is"
  shows "\<exists>w'. mem_wal_mark_applied w i = (w', None) \<and> wal_sound w' \<and> mem_wal_recover w' = is \<and>
    wal_pending w' = tl (wal_pending w) \<and> mw_next w' = mw_next w"
proof -
  have set: "set (i # is) = {j. awaiting w j}" "distinct (i # is)" using recover_set [OF s] p by auto
  then obtain st where st: "map_of (mw_txns w) i = Some st" "tx_committed st" "\<not> tx_applied st"
    by (auto simp: awaiting_def)
  let ?w = "put_tx w i (st\<lparr>tx_applied := True\<rparr>)"
  obtain v :: "64 word" where v: "v \<le> mw_next w" "i = tx_name (unat v)"
    using awaiting_name [OF s, of i] set by auto
  have s': "wal_sound ?w" using wal_sound_put [OF s v(2,1)] .
  have "{j. awaiting ?w j} = set is" using set by auto
  moreover have "sorted (map tx_seq is)" using recover_sorted [of w] p by simp
  ultimately have r: "mem_wal_recover ?w = is" using set(2) by (intro recover_unique [OF s']) auto
  have "wal_pending ?w = tl (wal_pending w)"
    unfolding wal_pending_def p r list.map list.sel using set(2) by (intro map_cong) auto
  then show ?thesis using st s' r by (simp add: mem_wal_mark_applied_def)
qed

lemma mark_each_mem:
  assumes "wal_sound w" "map fst txs @ rest = mem_wal_recover w"
  shows "\<exists>w'. mark_each mem_wal_mark_applied w txs = (w', None) \<and> wal_sound w' \<and>
    mem_wal_recover w' = rest \<and> wal_pending w' = drop (length txs) (wal_pending w) \<and> mw_next w' = mw_next w"
  using assms
proof (induction txs arbitrary: w)
  case (Cons tx txs)
  obtain i ops where tx: "tx = (i, ops)" by (cases tx)
  then have "mem_wal_recover w = i # map fst txs @ rest" using Cons.prems(2) by simp
  from mark_one [OF Cons.prems(1) this] obtain w1 where w1: "mem_wal_mark_applied w i = (w1, None)"
    "wal_sound w1" "mem_wal_recover w1 = map fst txs @ rest" "wal_pending w1 = tl (wal_pending w)"
    "mw_next w1 = mw_next w" by blast
  from Cons.IH [OF w1(2) w1(3) [symmetric]] w1 tx show ?case by (auto simp: drop_Suc)
qed simp

section \<open>Applying to the in-memory store\<close>

lemma mem_tx_save_node_conflict:
  assumes ok: "tx_ok tx" and r: "mem_tx_save_node tx n = (tx', Some e)" and c: "is_version_conflict e"
  shows "tx' = tx \<and> \<not> newer (tx_content (mx_store tx) tx) n"
proof (cases "map_of (mx_versions tx) (n_id n)")
  case (Some v)
  have "\<exists>m. v_nodes (tx_content (mx_store tx) tx) (n_id n) = Some m \<and> n_version m = v"
    using ok Some by (simp add: tx_ok_def tx_content_def)
  moreover have "tx' = tx" "n_version n < v"
    using r c Some by (auto simp: mem_tx_save_node_def split: if_splits)
  ultimately show ?thesis by (auto simp: newer_def)
next
  case None
  then have "\<forall>k\<in>set (mx_nodes tx). n_id k \<noteq> n_id n" using ok by (auto simp: tx_ok_def)
  then have "v_nodes (tx_content (mx_store tx) tx) (n_id n) = map_of (ms_nodes (mx_store tx)) (n_id n)"
    by (simp add: tx_content_def put_nodes_other)
  then show ?thesis
    using r c None
    by (auto simp: mem_tx_save_node_def check_version_def newer_def split: if_splits option.splits)
qed

lemma recovery_save_node_mem:
  assumes ok: "tx_ok tx" and r: "recovery_save_node mem_store_ops tx n = (tx', None)"
  shows "tx_ok tx' \<and> mx_store tx' = mx_store tx \<and>
     tx_content (mx_store tx) tx' = put_node (tx_content (mx_store tx) tx) n"
proof -
  obtain tx1 e where m: "mem_tx_save_node tx n = (tx1, e)" by fastforce
  show ?thesis
  proof (cases e)
    case None
    then have "tx1 = tx'" using r m by (simp add: recovery_save_node_def mem_store_ops_def)
    then show ?thesis using mem_tx_save_node_ok [OF ok] m None by blast
  next
    case (Some x)
    then have "tx1 = tx'" "is_version_conflict x"
      using r m by (auto simp: recovery_save_node_def mem_store_ops_def split: if_splits)
    with mem_tx_save_node_conflict [OF ok] m Some ok show ?thesis by (auto simp: put_node_def)
  qed
qed

lemma recovery_save_node_live:
  "n_id n \<noteq> [] \<Longrightarrow> \<exists>tx'. recovery_save_node mem_store_ops tx n = (tx', None)"
  by (auto simp: recovery_save_node_def mem_store_ops_def mem_tx_save_node_def check_version_def
      split: prod.splits option.splits if_splits sum.splits bool.splits)

lemma recovery_apply_op_mem:
  assumes ok: "tx_ok tx" and r: "apply_op (recovery_ops mem_store_ops) tx op = (tx', None)"
  shows "tx_ok tx' \<and> mx_store tx' = mx_store tx \<and>
     tx_content (mx_store tx) tx' = view_op (tx_content (mx_store tx) tx) op"
proof (cases "op_kind op \<in> {TxOpAddNode, TxOpUpdateNode, TxOpAddChild}")
  case True
  with r obtain n where "op_node op = Some n" "recovery_save_node mem_store_ops tx n = (tx', None)"
    by (auto simp: apply_op_def recovery_ops_def split: option.splits)
  with recovery_save_node_mem [OF ok] True show ?thesis by (auto simp: view_op_def)
next
  case False
  then have "apply_op mem_store_ops tx op = (tx', None)"
    using r by (auto simp: apply_op_def recovery_ops_def recovery_save_active_def mem_store_ops_def
        split: op_kind.splits option.splits)
  then show ?thesis by (rule apply_op_mem [OF ok])
qed

lemma recovery_apply_ops_mem:
  assumes "tx_ok tx" "apply_ops (recovery_ops mem_store_ops) tx ops = (tx', None)"
  shows "tx_ok tx' \<and> mx_store tx' = mx_store tx \<and>
     tx_content (mx_store tx) tx' = view_ops (tx_content (mx_store tx) tx) ops"
  using assms
proof (induction ops arbitrary: tx)
  case (Cons op ops)
  obtain tx1 r where r: "apply_op (recovery_ops mem_store_ops) tx op = (tx1, r)" by fastforce
  then have "r = None" "apply_ops (recovery_ops mem_store_ops) tx1 ops = (tx', None)"
    using Cons.prems(2) by (auto split: option.splits)
  then show ?case using recovery_apply_op_mem [OF Cons.prems(1)] Cons.IH [of tx1] r by auto
qed simp

lemma apply_txs_mem:
  assumes "tx_ok tx" "apply_txs (recovery_ops mem_store_ops) tx txs = (tx', None)"
  shows "tx_ok tx' \<and> mx_store tx' = mx_store tx \<and>
     tx_content (mx_store tx) tx' = view_ops (tx_content (mx_store tx) tx) (concat (map snd txs))"
  using assms
proof (induction txs arbitrary: tx)
  case (Cons t txs)
  obtain i ops where t: "t = (i, ops)" by (cases t)
  obtain tx1 r where r: "apply_ops (recovery_ops mem_store_ops) tx ops = (tx1, r)" by fastforce
  then have "r = None" "apply_txs (recovery_ops mem_store_ops) tx1 txs = (tx', None)"
    using Cons.prems(2) t by (auto split: option.splits)
  then show ?case using recovery_apply_ops_mem [OF Cons.prems(1)] Cons.IH [of tx1] r t by auto
qed simp

lemma recovery_apply_op_live:
  assumes "op_complete op"
  shows "\<exists>tx'. apply_op (recovery_ops mem_store_ops) tx op = (tx', None)"
proof (cases "op_kind op \<in> {TxOpAddNode, TxOpUpdateNode, TxOpAddChild}")
  case True
  then obtain n where n: "op_node op = Some n" "n_id n \<noteq> []" using assms by (auto simp: op_complete_def)
  with True recovery_save_node_live [of n tx] show ?thesis
    by (auto simp: apply_op_def recovery_ops_def)
next
  case False
  then show ?thesis using assms
    by (auto simp: apply_op_def recovery_ops_def mem_store_ops_def mem_tx_save_branch_def
          mem_tx_save_checkpoint_def op_complete_def recovery_save_active_def mem_tx_save_active_def
        split: op_kind.splits)
qed

lemma apply_txs_live:
  "list_all op_complete (concat (map snd txs)) \<Longrightarrow>
   \<exists>tx'. apply_txs (recovery_ops mem_store_ops) tx txs = (tx', None)"
proof (induction txs arbitrary: tx)
  case (Cons t txs)
  obtain i ops where t: "t = (i, ops)" by (cases t)
  have "list_all op_complete ops \<Longrightarrow> \<exists>tx'. apply_ops (recovery_ops mem_store_ops) tx ops = (tx', None)" for tx
  proof (induction ops arbitrary: tx)
    case (Cons op ops)
    then obtain tx1 where "apply_op (recovery_ops mem_store_ops) tx op = (tx1, None)"
      using recovery_apply_op_live [of op tx] by auto
    with Cons show ?case by simp
  qed simp
  then obtain tx1 where "apply_ops (recovery_ops mem_store_ops) tx ops = (tx1, None)"
    using Cons.prems t by auto
  with Cons t show ?case by simp
qed simp

lemma recovery_run_tx:
  assumes "mem_run_tx s (\<lambda>tx. apply_txs (recovery_ops mem_store_ops) tx txs) = (s', e)"
  shows "(case e of Some x \<Rightarrow> s' = s
     | None \<Rightarrow> mem_content s' = view_ops (mem_content s) (concat (map snd txs))) \<and>
     (list_all op_complete (concat (map snd txs)) \<longrightarrow> e = None)"
proof -
  obtain tx r where tx: "apply_txs (recovery_ops mem_store_ops) (mem_begin s) txs = (tx, r)" by fastforce
  have base: "mx_store (mem_begin s) = s" by (simp add: mem_begin_def)
  show ?thesis
  proof (cases r)
    case None
    then have ok: "tx_ok tx" "mx_store tx = s"
      "tx_content s tx = view_ops (mem_content s) (concat (map snd txs))"
      using apply_txs_mem [OF mem_begin_ok(1)] tx by (fastforce simp: base)+
    have c: "mem_commit s tx = (s', e)" using assms tx None by (simp add: mem_run_tx_def)
    have "e = None" using mem_commit_live [OF ok(1)] ok(2) c by auto
    then show ?thesis using mem_commit_atomic [OF ok(1) c] ok(3) by simp
  next
    case (Some x)
    then have "\<not> list_all op_complete (concat (map snd txs))"
      using apply_txs_live [of txs "mem_begin s"] tx by auto
    then show ?thesis using assms tx Some by (auto simp: mem_run_tx_def)
  qed
qed

section \<open>The whole recovery\<close>

lemma apply_batches_mem:
  assumes "wal_sound w" "mem_wal_recover w = map fst txs" "wal_pending w = map snd txs"
    "apply_batches mem_recovery mem_store_ops w s k txs = (w', s', k', e)"
  shows "\<exists>n\<le>length txs. k' = k + n \<and> wal_sound w' \<and> wal_pending w' = drop n (map snd txs) \<and>
     mem_content s' = view_ops (mem_content s) (concat (take n (map snd txs))) \<and>
     (e = None \<longrightarrow> n = length txs) \<and>
     (list_all op_complete (concat (map snd txs)) \<longrightarrow> e = None)"
  using assms
proof (induction "length txs" arbitrary: w s k txs rule: less_induct)
  case less
  show ?case
  proof (cases "txs = []")
    case True
    then show ?thesis using less.prems by (simp add: apply_batches.simps)
  next
    case False
    let ?b = "take batch_size txs"
    obtain s1 e1 where r: "mem_run_tx s (\<lambda>tx. apply_txs (recovery_ops mem_store_ops) tx ?b) = (s1, e1)"
      by fastforce
    then have run: "run_tx mem_store_ops s (\<lambda>tx. apply_txs (recovery_ops mem_store_ops) tx ?b) = (s1, e1)"
      by (simp add: mem_store_ops_def)
    note batch = recovery_run_tx [OF r]
    have complete: "list_all op_complete (concat (map snd txs)) \<longleftrightarrow>
       list_all op_complete (concat (map snd ?b)) \<and>
       list_all op_complete (concat (map snd (drop batch_size txs)))"
      by (metis append_take_drop_id concat_append list_all_append map_append)
    show ?thesis
    proof (cases e1)
      case (Some x)
      then show ?thesis
        using less.prems run batch complete False
        by (intro exI [of _ 0]) (auto simp: apply_batches.simps [of _ _ _ _ _ txs])
    next
      case None
      have "map fst ?b @ map fst (drop batch_size txs) = mem_wal_recover w"
        using less.prems(2) by (metis append_take_drop_id map_append)
      from mark_each_mem [OF less.prems(1) this] obtain w1 where
        w1: "mark_each mem_wal_mark_applied w ?b = (w1, None)" "wal_sound w1"
          "mem_wal_recover w1 = map fst (drop batch_size txs)"
          "wal_pending w1 = drop (length ?b) (wal_pending w)" by blast
      have mark: "mark_applied mem_recovery w ?b = (w1, None)"
        using w1(1) by (simp add: mark_applied_def mem_recovery_def)
      have tail: "apply_batches mem_recovery mem_store_ops w1 s1 (k + length ?b) (drop batch_size txs)
          = (w', s', k', e)"
        using less.prems(4) False run None mark by (simp add: apply_batches.simps [of _ _ _ _ _ txs] Let_def)
      have pend: "wal_pending w1 = map snd (drop batch_size txs)"
        using w1(4) less.prems(3) by (simp add: drop_map min_def)
      have len: "length (drop batch_size txs) < length txs" using False by (simp add: batch_size_def)
      from less.hyps [OF len w1(2,3) pend tail] obtain n where
        n: "n \<le> length (drop batch_size txs)" "k' = k + length ?b + n" "wal_sound w'"
          "wal_pending w' = drop n (map snd (drop batch_size txs))"
          "mem_content s' = view_ops (mem_content s1) (concat (take n (map snd (drop batch_size txs))))"
          "e = None \<longrightarrow> n = length (drop batch_size txs)"
          "list_all op_complete (concat (map snd (drop batch_size txs))) \<longrightarrow> e = None" by blast
      have split: "take (length ?b + n) (map snd txs) = map snd ?b @ take n (map snd (drop batch_size txs))"
        by (simp add: take_map drop_map take_add min_def)
      have "mem_content s1 = view_ops (mem_content s) (concat (map snd ?b))" using batch None by simp
      then show ?thesis
        using n split complete
        by (intro exI [of _ "length ?b + n"]) (auto simp: drop_map min_def add.commute)
    qed
  qed
qed

end
