(* ===== verification/Tree_Durability.thy ===== *)
theory Tree_Durability
  imports Tree_Load Recovery
begin

text \<open>
  Sessions: any sequence of mutations on a new tree, over the in-memory log and store. The store
  mirrors the tree after every mutation; a log without a store is enough to rebuild the tree after
  a crash, through \<open>RecoverWAL\<close> and \<open>LoadFromStore\<close>; and with both, recovery changes nothing.
\<close>

section \<open>Sessions\<close>

inductive tree_run ::
  "('w, 's, 't) backend \<Rightarrow> ('w \<Rightarrow> bool) \<Rightarrow> ('w, 's) conv_tree \<Rightarrow> ('w, 's) conv_tree \<Rightarrow> bool"
  for bk room where
  run_start: "tree_run bk room t t"
| run_step: "tree_run bk room t u \<Longrightarrow> log_room room u \<Longrightarrow> tree_step bk u v \<Longrightarrow> tree_run bk room t v"

lemma run_wf: "tree_run bk room t u \<Longrightarrow> wf_tree t \<Longrightarrow> wf_tree u \<and> extends t u"
proof (induction rule: tree_run.induct)
  case (run_step t u v)
  then show ?case using tree_step_wf extends_trans by blast
qed simp

context tree_backend
begin

lemma run_durable:
  "tree_run bk room t u \<Longrightarrow> wf_tree t \<Longrightarrow> durable content healthy sound t \<Longrightarrow>
   durable content healthy sound u"
proof (induction rule: tree_run.induct)
  case (run_step t u v)
  then show ?case using step_durable tree_step_good run_wf by blast
qed simp

lemma run_fit:
  "tree_run bk room t u \<Longrightarrow> wf_tree t \<Longrightarrow> durable content healthy sound t \<Longrightarrow>
   log_fits pending_txs t \<Longrightarrow> log_fits pending_txs u"
proof (induction rule: tree_run.induct)
  case (run_step t u v)
  then show ?case using step_fit [of u v] tree_step_good run_wf run_durable by blast
qed simp

lemma run_replayable:
  assumes ok: "\<And>t ops t1 e. durable content healthy sound t \<Longrightarrow> log_room room t \<Longrightarrow>
      wal_tx bk t ops = (t1, e) \<Longrightarrow> applied e \<Longrightarrow> e = None"
  shows "tree_run bk room t u \<Longrightarrow> wf_tree t \<Longrightarrow> durable content healthy sound t \<Longrightarrow>
   replayable content pending_txs t \<Longrightarrow> replayable content pending_txs u"
proof (induction rule: tree_run.induct)
  case (run_step t u v)
  have wf: "wf_tree u" using run_wf [OF run_step(1)] run_step by simp
  have d: "durable content healthy sound u" using run_durable [OF run_step(1)] run_step by simp
  have p: "replayable content pending_txs u" using run_step by simp
  show ?case
    by (rule step_replayable [OF tree_step_good [OF run_step(3) wf] d run_step(2) p])
      (rule ok [OF d run_step(2)])
qed simp

end

section \<open>The in-memory backend\<close>

definition mem_backend :: "(mem_wal, mem_store, mem_tx) backend" where
  "mem_backend = \<lparr>bk_wal = mem_wal_ops, bk_store = mem_store_ops\<rparr>"

lemma mem_backend_fields [simp]: "bk_wal mem_backend = mem_wal_ops" "bk_store mem_backend = mem_store_ops"
  by (simp_all add: mem_backend_def)

interpretation mb: tree_backend mem_backend mem_content "\<lambda>_. True" wal_pending wal_sound wal_room wal_open_in
  unfolding tree_backend_def mem_backend_fields
  using ms.durable_store_axioms mw.write_ahead_log_axioms by blast

type_synonym mem_tree = "(mem_wal, mem_store) conv_tree"

definition mem_durable :: "mem_tree \<Rightarrow> bool" where
  "mem_durable t = durable mem_content (\<lambda>_. True) wal_sound t"

text \<open>The in-memory log never fails a commit, so a mutation that takes effect reports no error.\<close>

lemma mem_wal_tx_ok:
  assumes d: "durable mem_content (\<lambda>_. True) wal_sound t" and r: "log_room wal_room t"
    and tx: "wal_tx mem_backend t ops = (t1, e)" and a: "applied e"
  shows "e = None"
proof (cases "t_wal t")
  case None
  show ?thesis
  proof (cases e)
    case (Some x)
    then obtain s s1 where "persist mem_store_ops s ops = (s1, Some x)"
      using tx None by (auto simp: wal_tx_def split: if_splits option.splits prod.splits)
    then have "\<not> is_wal_commit x" using mem_persist_failure by blast
    then show ?thesis using a Some by (simp add: applied_def)
  qed simp
next
  case (Some w)
  have s: "wal_sound w" "wal_room w" using d r Some by (simp_all add: durable_def log_room_def)
  show ?thesis
  proof (cases "ops = []")
    case True
    then show ?thesis using tx by (simp add: wal_tx_def)
  next
    case False
    obtain w1 x where o: "open_tx mem_wal_ops w ops = (w1, x)" by fastforce
    then obtain i where i: "x = Inr i" "wal_sound w1" "wal_open_in w1 i ops"
      using wal_open_law [OF s] by blast
    obtain w2 c where c: "mem_wal_commit w1 i = (w2, c)" by fastforce
    then have "c = None" using wal_finish_law [OF i(2,3)] by blast
    then have cc: "wal_commit mem_wal_ops w1 i = (w2, None)" using c by (simp add: mem_wal_ops_def)
    show ?thesis
    proof (cases "t_store t")
      case None
      then show ?thesis using tx Some False o i(1) cc by (auto simp: wal_tx_def)
    next
      case st: (Some st)
      obtain s1 p where p: "persist mem_store_ops st ops = (s1, p)" by fastforce
      show ?thesis
      proof (cases p)
        case None
        then show ?thesis using tx Some st False o i(1) cc p by (auto simp: wal_tx_def)
      next
        case pe: (Some y)
        then have "e = Some y" using tx Some st False o i(1) p by (auto simp: wal_tx_def)
        moreover have "\<not> is_wal_commit y" using mem_persist_failure p pe by blast
        ultimately show ?thesis using a by (simp add: applied_def)
      qed
    qed
  qed
qed

section \<open>Children in order, throughout a session\<close>

definition mem_ordered :: "mem_tree \<Rightarrow> bool" where
  "mem_ordered t = (case t_store t of None \<Rightarrow> True | Some s \<Rightarrow> ordered (parent_of t) s)"

lemma parent_of_same_core: "same_core t u \<Longrightarrow> parent_of t = parent_of u"
  by (simp add: parent_of_def tree_simps fun_eq_iff)

lemma wal_tx_store_trace:
  assumes "wal_tx bk t ops = (t1, e)" "t_store t1 = Some s'"
  shows "\<exists>s. t_store t = Some s \<and> 
    (s' = s \<or> (\<exists>r. persist (bk_store bk) s ops = (s', r) \<and> (r = None \<longrightarrow> applied e)))"
  using assms by (auto simp: wal_tx_def applied_def split: if_splits option.splits prod.splits sum.splits)

lemma ordered_extends:
  assumes "ordered (parent_of t) s" "extends t u" "mirrors (mem_content s) t"
  shows "ordered (parent_of u) s"
proof (rule ordered_cong [OF assms(1)], intro allI impI)
  fix i
  assume "map_of (ms_nodes s) i \<noteq> None"
  then obtain n where "get_node t i = Some n" using assms(3) by (auto simp: mirrors_def)
  then show "parent_of t i = parent_of u i"
    using assms(2) by (fastforce simp: extends_def parent_of_def rewritten_def)
qed

lemma ops_fit_par: "wf_tree t \<Longrightarrow> ops_fit t ops \<Longrightarrow> par_ok (parent_of t) ops"
  by (fastforce simp: ops_fit_def par_ok_def parent_of_def rewritten_def)

lemma step_ordered:
  assumes step: "good_result mem_backend t t'" and d: "mem_durable t" and o: "mem_ordered t"
  shows "mem_ordered t'"
  using step
proof (cases rule: good_result_cases)
  case (refused ops e)
  show ?thesis
  proof (cases "t_store t'")
    case (Some s')
    then obtain s where s: "t_store t = Some s"
      "s' = s \<or> (\<exists>r. persist mem_store_ops s ops = (s', r) \<and> r \<noteq> None)"
      using wal_tx_store_trace [OF refused(1)] refused(2) by auto
    have "s' = s" using s(2) mem_persist_failure by blast
    then show ?thesis
      using o s Some parent_of_same_core [OF refused(3)] by (simp add: mem_ordered_def)
  qed (simp add: mem_ordered_def)
next
  case (written ops install t1 e)
  have f: "ops_fit t' ops" "t_store t' = t_store t1" using written(3-5) unfolding faithful_def by blast+
  have par: "par_ok (parent_of t') ops" using ops_fit_par f(1) written(3,6) by blast
  show ?thesis
  proof (cases "t_store t'")
    case (Some s')
    then have "t_store t1 = Some s'" using f(2) by simp
    from wal_tx_store_trace [OF written(1) this] obtain s where
      s: "t_store t = Some s" "s' = s \<or> (\<exists>r. persist mem_store_ops s ops = (s', r))"
      unfolding mem_backend_fields by (elim exE conjE disjE) auto
    have "ordered (parent_of t) s" "mirrors (mem_content s) t" "extends t t'"
      using o d s(1) written(3,7) by (simp_all add: mem_ordered_def mem_durable_def durable_def)
    then have "ordered (parent_of t') s" using ordered_extends by blast
    then have "ordered (parent_of t') s'" using s(2) ordered_persist [OF _ par] by blast
    then show ?thesis using Some by (simp add: mem_ordered_def)
  qed (simp add: mem_ordered_def)
qed (use o in simp)

lemma run_ordered:
  "tree_run mem_backend wal_room t u \<Longrightarrow> wf_tree t \<Longrightarrow> mem_durable t \<Longrightarrow> mem_ordered t \<Longrightarrow> mem_ordered u"
proof (induction rule: tree_run.induct)
  case (run_step t u v)
  have wf: "wf_tree u" using run_wf [OF run_step(1)] run_step by simp
  have d: "mem_durable u" using mb.run_durable [OF run_step(1)] run_step by (simp add: mem_durable_def)
  show ?case using step_ordered [OF tree_step_good [OF run_step(3) wf] d] run_step by simp
qed simp

section \<open>A session from a new tree\<close>

text \<open>
  A conversation created on an empty log, an empty store, or both, and used for any number of calls.
\<close>

definition session ::
  "mem_wal option \<Rightarrow> mem_store option \<Rightarrow> mem_tree \<Rightarrow> bool" where
  "session w s t = (\<exists>meta uid now ps t0 i e.
     new_tree mem_backend w s meta uid now ps = (t0, Some i, e) \<and> uid \<noteq> [] \<and>
     w \<in> {None, Some wal_new} \<and> s \<in> {None, Some mem_new} \<and> tree_run mem_backend wal_room t0 t)"

lemma session_state:
  assumes "session w s t"
  shows "wf_tree t" "mem_durable t" "mem_ordered t" "log_fits wal_pending t"
    "replayable mem_content wal_pending t"
proof -
  obtain meta uid now ps t0 i e where
    n: "new_tree mem_backend w s meta uid now ps = (t0, Some i, e)" "uid \<noteq> []"
    and ws: "w \<in> {None, Some wal_new}" "s \<in> {None, Some mem_new}"
    and run: "tree_run mem_backend wal_room t0 t"
    using assms unfolding session_def by blast
  have content: "mem_content mem_new = empty_view"
    by (simp add: view_eq_iff mem_new_def empty_view_def)
  have room: "wal_room wal_new" by (simp add: wal_room_def wal_new_def)
  have t0: "wf_tree t0 \<and> durable mem_content (\<lambda>_. True) wal_sound t0 \<and> log_fits wal_pending t0 \<and>
     good_result mem_backend (blank_tree w s meta) t0 \<and>
     (\<exists>ops t1. wal_tx mem_backend (blank_tree w s meta) ops = (t1, e) \<and> applied e \<and>
        (e = None \<longrightarrow> replayable mem_content wal_pending t0))"
    using ws content room by (intro mb.new_tree_state [OF n]) auto
  have blank: "mirrors empty_view (blank_tree w s meta :: mem_tree)"
    by (simp add: mirrors_def empty_view_def blank_tree_def get_node_def fun_eq_iff)
  have parts: "t_store (blank_tree w s meta :: mem_tree) = s" "t_wal (blank_tree w s meta :: mem_tree) = w"
    by (simp_all add: blank_tree_def)
  have dblank: "durable mem_content (\<lambda>_. True) wal_sound (blank_tree w s meta)"
    and oblank: "mem_ordered (blank_tree w s meta)"
    using ws content blank by (auto simp: durable_def mem_ordered_def parts)
  have rblank: "log_room wal_room (blank_tree w s meta)"
    using ws room by (auto simp: log_room_def blank_tree_def)
  have "e = None" using t0 mem_wal_tx_ok [OF dblank rblank] by blast
  then have r0: "replayable mem_content wal_pending t0" using t0 by blast
  have o0: "mem_ordered t0" using t0 step_ordered [of "blank_tree w s meta" t0] oblank dblank by (simp add: mem_durable_def)
  show "wf_tree t" using run_wf [OF run] t0 by blast
  show "mem_durable t" using mb.run_durable [OF run] t0 by (simp add: mem_durable_def)
  show "mem_ordered t" using run_ordered [OF run] t0 o0 by (simp add: mem_durable_def)
  show "log_fits wal_pending t" using mb.run_fit [OF run] t0 by blast
  show "replayable mem_content wal_pending t"
    by (rule mb.run_replayable [OF _ run]) (use t0 r0 mem_wal_tx_ok in blast)+
qed

section \<open>Recovery and reload\<close>

lemma recovery_save_fst:
  "fst (recovery_save_node so tx n) = fst (tx_save_node so tx n)"
  by (simp add: recovery_save_node_def split: prod.split option.split)

lemma buffers_only_recovery: "buffers_only (recovery_ops mem_store_ops)"
  using buffers_only_mem
  unfolding buffers_only_def recovery_ops_def
  by (simp add: recovery_save_fst recovery_save_active_def split: option.split)

lemma apply_txs_buffer:
  "apply_txs (recovery_ops mem_store_ops) tx txs = (tx', e) \<Longrightarrow> par_ok par (concat (map snd txs)) \<Longrightarrow>
   \<forall>n\<in>set (mx_nodes tx). n_parent n = par (n_id n) \<Longrightarrow>
   \<forall>n\<in>set (mx_nodes tx'). n_parent n = par (n_id n)"
proof (induction txs arbitrary: tx)
  case (Cons t txs)
  obtain i ops where t: "t = (i, ops)" by (cases t)
  obtain tx1 e1 where r: "apply_ops (recovery_ops mem_store_ops) tx ops = (tx1, e1)" by fastforce
  have par: "par_ok par ops" "par_ok par (concat (map snd txs))"
    using Cons.prems(2) t by (auto simp: par_ok_def)
  have one: "\<forall>n\<in>set (mx_nodes tx1). n_parent n = par (n_id n)"
    using apply_ops_buffer [OF buffers_only_recovery r par(1)] Cons.prems(3) by blast
  show ?case
    using Cons.IH [OF _ par(2) one] Cons.prems(1) t r one by (cases e1) auto
qed simp

lemma ordered_recovery_tx:
  assumes o: "ordered par s" and par: "par_ok par (concat (map snd txs))"
    and r: "mem_run_tx s (\<lambda>tx. apply_txs (recovery_ops mem_store_ops) tx txs) = (s', e)"
  shows "ordered par s'"
proof -
  obtain tx e1 where tx: "apply_txs (recovery_ops mem_store_ops) (mem_begin s) txs = (tx, e1)" by fastforce
  have buf: "\<forall>n\<in>set (mx_nodes tx). n_parent n = par (n_id n)"
    using apply_txs_buffer [OF tx par] by (simp add: mem_begin_def)
  have "s' = s \<or> (\<exists>e2. mem_commit s tx = (s', e2))"
    using r tx by (cases e1) (auto simp: mem_run_tx_def)
  then show ?thesis using ordered_commit [OF o buf] o by blast
qed

lemma ordered_batches:
  assumes "ordered par s" "par_ok par (concat (map snd txs))"
    "apply_batches rw mem_store_ops w s k txs = (w', s', k', e)"
  shows "ordered par s'"
  using assms
proof (induction "length txs" arbitrary: w s k txs rule: less_induct)
  case less
  show ?case
  proof (cases "txs = []")
    case True
    then show ?thesis using less.prems by (simp add: apply_batches.simps)
  next
    case False
    let ?b = "take batch_size txs" and ?r = "drop batch_size txs"
    obtain s1 e1 where r: "mem_run_tx s (\<lambda>tx. apply_txs (recovery_ops mem_store_ops) tx ?b) = (s1, e1)"
      by fastforce
    have "par_ok par (concat (map snd ?b) @ concat (map snd ?r))"
      using less.prems(2) by (metis append_take_drop_id concat_append map_append)
    then have par: "par_ok par (concat (map snd ?b))" "par_ok par (concat (map snd ?r))"
      by (auto simp: par_ok_def)
    have o1: "ordered par s1" using ordered_recovery_tx [OF less.prems(1) par(1) r] .
    have run: "run_tx mem_store_ops s (\<lambda>tx. apply_txs (recovery_ops mem_store_ops) tx ?b) = (s1, e1)"
      using r by (simp add: mem_store_ops_def)
    obtain w1 m where m: "mark_applied rw w ?b = (w1, m)" by fastforce
    have len: "length ?r < length txs" using False by (simp add: batch_size_def)
    show ?thesis
    proof (cases "e1 = None \<and> m = None")
      case True
      then have "apply_batches rw mem_store_ops w1 s1 (k + length ?b) ?r = (w', s', k', e)"
        using less.prems(3) False run m by (simp add: apply_batches.simps [of _ _ _ _ _ txs] Let_def)
      then show ?thesis using less.hyps [OF len o1 par(2)] by blast
    next
      case no: False
      then have "s' = s1"
        using less.prems(3) False run m
        by (cases e1; cases m) (auto simp: apply_batches.simps [of _ _ _ _ _ txs] Let_def)
      then show ?thesis using o1 by simp
    qed
  qed
qed

text \<open>Recovery of an in-memory log into an in-memory store.\<close>

lemma recover_wal_mem:
  assumes w: "wal_sound w" and c: "list_all op_complete (concat (wal_pending w))"
  shows "\<exists>w' s'. recover_wal mem_recovery mem_store_ops w s = (w', s', length (wal_pending w), None) \<and>
     wal_sound w' \<and> wal_pending w' = [] \<and> mem_content s' = view_ops (mem_content s) (concat (wal_pending w)) \<and>
     (\<forall>par. ordered par s \<longrightarrow> par_ok par (concat (wal_pending w)) \<longrightarrow> ordered par s')"
proof -
  let ?txs = "mem_pending w"
  obtain w' s' k e where b: "apply_batches mem_recovery mem_store_ops w s 0 ?txs = (w', s', k, e)"
    by (metis prod_cases4)
  have len: "length ?txs = length (wal_pending w)" by (metis length_map mem_pending_parts(2))
  from apply_batches_mem [OF w _ _ b] obtain n where n: "n \<le> length ?txs" "k = n" "wal_sound w'"
    "wal_pending w' = drop n (wal_pending w)"
    "mem_content s' = view_ops (mem_content s) (concat (take n (wal_pending w)))"
    "e = None \<longrightarrow> n = length ?txs" "e = None" using c by auto
  have "recover_wal mem_recovery mem_store_ops w s = (w', s', k, None)"
    using pending_of_mem [OF w] b n(7) by (simp add: recover_wal_def) (simp add: mem_recovery_def)
  then show ?thesis using n len ordered_batches [OF _ _ b] by simp
qed

lemma ops_fit_complete: "ops_fit t ops \<Longrightarrow> list_all op_complete ops"
  by (auto simp: ops_fit_def list_all_iff)

text \<open>A session keeps the log and the store it was given.\<close>

lemma wal_tx_parts:
  "wal_tx bk t ops = (t1, e) \<Longrightarrow> (t_wal t1 = None \<longleftrightarrow> t_wal t = None) \<and> (t_store t1 = None \<longleftrightarrow> t_store t = None)"
  by (auto simp: wal_tx_def split: if_splits option.splits prod.splits sum.splits)

lemma good_result_parts:
  assumes "good_result bk t t'"
  shows "(t_wal t' = None \<longleftrightarrow> t_wal t = None) \<and> (t_store t' = None \<longleftrightarrow> t_store t = None)"
  using assms
proof (cases rule: good_result_cases)
  case (refused ops e)
  then show ?thesis using wal_tx_parts by blast
next
  case (written ops install t1 e)
  then have "t_wal t' = t_wal t1" "t_store t' = t_store t1" unfolding faithful_def by blast+
  then show ?thesis using wal_tx_parts [OF written(1)] by simp
qed simp

lemma run_parts:
  "tree_run bk room t u \<Longrightarrow> wf_tree t \<Longrightarrow>
   (t_wal u = None \<longleftrightarrow> t_wal t = None) \<and> (t_store u = None \<longleftrightarrow> t_store t = None)"
proof (induction rule: tree_run.induct)
  case (run_step t u v)
  then show ?case using good_result_parts [OF tree_step_good] run_wf by metis
qed simp

lemma session_parts:
  assumes "session w s t"
  shows "(t_wal t = None \<longleftrightarrow> w = None) \<and> (t_store t = None \<longleftrightarrow> s = None)"
proof -
  obtain meta uid now ps t0 i e where
    n: "new_tree mem_backend w s meta uid now ps = (t0, Some i, e)" "uid \<noteq> []"
    and ws: "w \<in> {None, Some wal_new}" "s \<in> {None, Some mem_new}"
    and run: "tree_run mem_backend wal_room t0 t"
    using assms unfolding session_def by blast
  have "mem_content mem_new = empty_view" "wal_room wal_new"
    by (simp_all add: view_eq_iff mem_new_def empty_view_def wal_room_def wal_new_def)
  then have t0: "wf_tree t0 \<and> good_result mem_backend (blank_tree w s meta) t0"
    using ws mb.new_tree_state [OF n] by auto
  then show ?thesis
    using run_parts [OF run] good_result_parts [of mem_backend "blank_tree w s meta" t0]
    by (simp add: blank_tree_def)
qed

text \<open>A log alone: recovering it into an empty store gives a store that mirrors the tree.\<close>

lemma session_recover:
  assumes s: "session (Some wal_new) None t"
  shows "\<exists>w w' s'. t_wal t = Some w \<and> recover_wal mem_recovery mem_store_ops w mem_new = (w', s', length (wal_pending w), None) \<and>
     wal_pending w' = [] \<and> mirrors (mem_content s') t \<and> ordered (parent_of t) s'"
proof -
  note st = session_state [OF s]
  obtain w where w: "t_wal t = Some w" and n: "t_store t = None" using session_parts [OF s] by auto
  have snd: "wal_sound w" using st(2) w by (simp add: mem_durable_def durable_def)
  have fit: "ops_fit t (concat (wal_pending w))" using st(4) w by (simp add: log_fits_def)
  have rep: "mirrors (view_ops empty_view (concat (wal_pending w))) t"
    using st(5) w n by (simp add: replayable_def)
  have content: "mem_content mem_new = empty_view"
    by (simp add: view_eq_iff mem_new_def empty_view_def)
  from recover_wal_mem [OF snd ops_fit_complete [OF fit], of mem_new] obtain w' s' where
    r: "recover_wal mem_recovery mem_store_ops w mem_new = (w', s', length (wal_pending w), None)"
      "wal_pending w' = []" "mem_content s' = view_ops empty_view (concat (wal_pending w))"
      "\<forall>par. ordered par mem_new \<longrightarrow> par_ok par (concat (wal_pending w)) \<longrightarrow> ordered par s'"
    unfolding content by blast
  have "ordered (parent_of t) s'" using r(4) ops_fit_par [OF st(1) fit] by simp
  with r(1-3) rep w show ?thesis by auto
qed

text \<open>A loaded conversation reads like the one it was saved from.\<close>

lemma walk_up_active: "walk_up k (t\<lparr>t_active := b\<rparr>) i = walk_up k t i"
proof (induction k arbitrary: i)
  case 0
  then show ?case by (simp add: walk_up.simps)
next
  case (Suc k)
  then show ?case by (simp add: walk_up.simps [of "Suc k"] split: option.split)
qed

lemma flatten_active: "flatten (t\<lparr>t_active := b\<rparr>) i = flatten t i"
proof -
  have "visible_message (t\<lparr>t_active := b\<rparr>) = visible_message t"
    by (simp add: visible_message_def fun_eq_iff)
  then show ?thesis by (simp add: flatten_def path_def walk_up_active)
qed

lemma flatten_same_conversation:
  assumes wf: "wf_tree t" and same: "same_conversation t u" and u: "distinct (map fst (t_nodes u))"
    "\<And>p. distinct (t_children u p)" and i: "get_node t i = Some n"
  shows "flatten u i = flatten t i"
proof -
  let ?u = "u\<lparr>t_active := t_active t\<rparr>"
  have sc: "same_conversation t ?u" using same by (simp add: same_conversation_def)
  have act: "map_of (t_branches ?u) (t_active ?u) \<noteq> None"
    using wf same by (simp add: wf_tree_def refs_ok_def same_conversation_def)
  have wfu: "wf_tree ?u" by (rule wf_same_conversation [OF sc wf _ _ act]) (use u in simp_all)
  have "flatten ?u i = flatten t i"
    using same by (intro flatten_agree [OF wf wfu i]) (simp add: same_conversation_def)
  then show ?thesis by (simp add: flatten_active)
qed

definition same_reading :: "('w, 's) conv_tree \<Rightarrow> ('v, 'r) conv_tree \<Rightarrow> bool" where
  "same_reading t u =
     (same_conversation t u \<and> t_active u = (if t_active t = [] then ''main'' else t_active t))"

lemma mem_load_reading:
  assumes "wf_tree t" "mirrors (mem_content s) t" "ordered (parent_of t) s" "validate_metadata meta = None"
  shows "\<exists>u. load_from_store mem_reads (Some s) (t_root t) [] w st meta = Ok u \<and> same_reading t u \<and>
     (\<forall>i n. get_node t i = Some n \<longrightarrow> flatten u i = flatten t i)"
  using mem_load_same [OF assms, of w st] flatten_same_conversation [OF assms(1)]
  unfolding same_reading_def by blast

text \<open>With a store, the store alone gives the tree back.\<close>

lemma session_reload:
  assumes s: "session w (Some mem_new) t" and m: "validate_metadata meta = None"
  shows "\<exists>st u. t_store t = Some st \<and> load_from_store mem_reads (Some st) (t_root t) [] w' s' meta = Ok u \<and> same_reading t u \<and>
     (\<forall>i n. get_node t i = Some n \<longrightarrow> flatten u i = flatten t i)"
proof -
  obtain st where st: "t_store t = Some st" using session_parts [OF s] by auto
  have "mirrors (mem_content st) t" "ordered (parent_of t) st"
    using session_state(2,3) [OF s] st by (simp_all add: mem_durable_def durable_def mem_ordered_def)
  from mem_load_reading [OF session_state(1) [OF s] this m] st show ?thesis by blast
qed

text \<open>With both, replaying the log into the store leaves the store's content as it is.\<close>

lemma session_recover_noop:
  assumes s: "session (Some wal_new) (Some mem_new) t"
  shows "\<exists>w st w' st'. t_wal t = Some w \<and> t_store t = Some st \<and> recover_wal mem_recovery mem_store_ops w st = (w', st', length (wal_pending w), None) \<and>
     wal_pending w' = [] \<and> mem_content st' = mem_content st"
proof -
  note state = session_state [OF s]
  obtain w st where w: "t_wal t = Some w" and st: "t_store t = Some st" using session_parts [OF s] by auto
  have "wal_sound w" using state(2) w by (simp add: mem_durable_def durable_def)
  moreover have "list_all op_complete (concat (wal_pending w))"
    using state(4) w ops_fit_complete by (simp add: log_fits_def)
  moreover have "view_ops (mem_content st) (concat (wal_pending w)) = mem_content st"
    using state(5) w st by (simp add: replayable_def)
  ultimately show ?thesis using recover_wal_mem [of w st] w st by metis
qed

end
