(* ===== verification/Tree_Properties.thy ===== *)
theory Tree_Properties
  imports Tree_Durability
begin

text \<open>
  The properties of the conversation tree and its persistence. Witnesses use one small session: a
  conversation with a system prompt, a user message and an answer, logged in memory.
\<close>

section \<open>What each mutation does\<close>

lemma write_child_result:
  assumes "write_through bk t (wal_add_node_ops n) (install_child n) v = (t', Some x, e)"
  shows "\<exists>t1. same_core t1 t \<and> t' = install_child n t1 \<and> x = v"
  using assms
proof (cases rule: write_through_cases)
  case (durable t1)
  have "same_core t1 t" using durable(1) by (rule wal_tx_same_core)
  then show ?thesis using durable(3,4) by blast
qed simp

lemma install_child_reads:
  assumes wf: "wf_tree t" and fresh: "fresh_id t (n_id n)" and p: "get_node t (n_parent n) = Some p"
    and core: "same_core t1 t"
  shows "wf_tree (install_child n t1)"
    and "get_node t i = Some m \<Longrightarrow> flatten (install_child n t1) i = flatten t i"
    and "n_state n \<noteq> NodeArchived \<Longrightarrow> flatten t (n_parent n) = Ok ms \<Longrightarrow>
      flatten (install_child n t1) (n_id n) = Ok (ms @ [n_message n])"
proof -
  have wf1: "wf_tree t1" using wf wf_same_core [OF core] by simp
  have g: "get_node (install_child n t1) j = (if j = n_id n then Some n else get_node t j)" for j
    using core by (simp add: tree_simps)
  show wf2: "wf_tree (install_child n t1)"
    using fresh p core by (intro wf_install_child [OF wf1]) (auto simp: fresh_id_def tree_simps)
  have agree: "flatten (install_child n t1) i = flatten t i" if "get_node t i = Some m" for i m
    using fresh by (intro flatten_agree [OF wf wf2 that]) (auto simp: g fresh_id_def)
  then show "get_node t i = Some m \<Longrightarrow> flatten (install_child n t1) i = flatten t i" .
  show "flatten (install_child n t1) (n_id n) = Ok (ms @ [n_message n])"
    if "n_state n \<noteq> NodeArchived" "flatten t (n_parent n) = Ok ms"
  proof -
    have "n_parent n \<noteq> []" using wf_node [OF wf p] by simp
    then show ?thesis
      using flatten_step [OF wf2, of "n_id n" n] agree [OF p] that g by (auto simp: visible_message_def)
  qed
qed

text \<open>
  C2: adding a message on a branch appends it, and nothing else, to that branch's conversation, and
  leaves every other branch as it was, whatever the log and the store do.
\<close>

theorem add_on_branch_appends:
  assumes wf: "wf_tree t" and fresh: "fresh_id t uid"
    and r: "add_child_on_branch bk t b msg uid now = (t', Some n, e)"
  shows "(\<exists>ms. flatten_branch t b = Ok ms \<and> flatten_branch t' b = Ok (ms @ [msg])) \<and>
    (\<forall>b'. b' \<noteq> b \<longrightarrow> map_of (t_branches t') b' = map_of (t_branches t) b' \<and>
       flatten_branch t' b' = flatten_branch t b') \<and> wf_tree t'"
proof -
  obtain tip parent where tip: "map_of (t_branches t) b = Some tip" "get_node t tip = Some parent"
    using r by (auto simp: add_child_on_branch_def split: option.splits)
  then have un: "add_child_unlocked bk t parent b msg uid now = (t', Some n, e)"
    using r by (simp add: add_child_on_branch_def)
  let ?n = "child_node parent b msg NodeActive uid now"
  have "leaf_check parent = None" using un by (auto simp: add_child_unlocked_def split: option.splits)
  then have "write_through bk t (wal_add_node_ops ?n) (install_child ?n) ?n = (t', Some n, e)"
    using un by (simp add: add_child_unlocked_def Let_def)
  from write_child_result [OF this] obtain t1 where t1: "same_core t1 t" "t' = install_child ?n t1" by blast
  have id: "n_id parent = tip" using wf_node [OF wf tip(2)] by simp
  have fr: "fresh_id t (n_id ?n)" and pa: "get_node t (n_parent ?n) = Some parent"
    using fresh tip(2) id by simp_all
  note reads = install_child_reads [OF wf fr pa t1(1)]
  have br: "map_of (t_branches t') = (map_of (t_branches t))(b \<mapsto> uid)"
    using t1 by (simp add: same_core_def)
  obtain ms where ms: "flatten t tip = Ok ms" using flatten_ends [OF wf tip(2)] by blast
  have "flatten_branch t' b = Ok (ms @ [msg])"
    using reads(3) [of ms] ms id br t1(2) by (simp add: flatten_branch_def)
  moreover have "flatten_branch t b = Ok ms" using tip(1) ms by (simp add: flatten_branch_def)
  moreover have "flatten_branch t' b' = flatten_branch t b'" if "b' \<noteq> b" for b'
  proof (cases "map_of (t_branches t) b'")
    case None
    then show ?thesis using that br by (simp add: flatten_branch_def)
  next
    case (Some i)
    then obtain m where "get_node t i = Some m" using wf_tip [OF wf] by blast
    then show ?thesis using Some that br reads(2) t1(2) by (simp add: flatten_branch_def)
  qed
  ultimately show ?thesis using br reads(1) t1(2) by auto
qed

section \<open>A small session\<close>

definition demo_root :: mem_tree where
  "demo_root = fst (new_tree mem_backend (Some wal_new) None NoMetadata ''r'' 0 [TextPart ''be kind''])"

definition demo_ask :: mem_tree where
  "demo_ask = fst (add_child_on_branch mem_backend demo_root ''main'' (UserMessage [TextPart ''hi'']) ''u'' 1)"

definition demo_answer :: mem_tree where
  "demo_answer = fst (add_child mem_backend demo_ask ''u'' (AssistantMessage [TextPart ''hello'']) ''a'' 2)"

lemmas demo_simps = demo_root_def demo_ask_def demo_answer_def new_tree_def validate_metadata_def
  write_through_def wal_tx_def blank_tree_def open_tx_def mem_wal_ops_def mem_wal_begin_def
  mem_wal_append_def mem_wal_commit_def put_tx_def wal_new_def wal_add_node_ops_def root_node_def
  install_root_def applied_def add_child_on_branch_def add_child_unlocked_def get_node_def leaf_check_def
  child_node_def install_child_def add_child_def branch_ending_at_def tip_or_zero_def Let_def

lemma demo_root_value:
  "new_tree mem_backend (Some wal_new) None NoMetadata ''r'' 0 [TextPart ''be kind''] =
     (demo_root, Some ''r'', None)"
  by (simp add: demo_simps)

lemma demo_ask_value:
  "add_child_on_branch mem_backend demo_root ''main'' (UserMessage [TextPart ''hi'']) ''u'' 1 =
     (demo_ask, get_node demo_ask ''u'', None)"
  by (simp add: demo_simps)

lemma demo_answer_value:
  "add_child mem_backend demo_ask ''u'' (AssistantMessage [TextPart ''hello'']) ''a'' 2 =
     (demo_answer, get_node demo_answer ''a'', None)"
  by (simp add: demo_simps)

lemma demo_session: "session (Some wal_new) None demo_root"
  unfolding session_def using demo_root_value
  by (intro exI conjI) (auto intro: run_start)

lemma demo_room: "log_room wal_room demo_root" "log_room wal_room demo_ask"
  by (simp_all add: demo_simps log_room_def wal_room_def)

lemma demo_fresh: "fresh_id demo_root ''u''" "fresh_id demo_ask ''a''"
  by (simp_all add: demo_simps fresh_id_def)

lemma demo_steps: "tree_step mem_backend demo_root demo_ask" "tree_step mem_backend demo_ask demo_answer"
  using step_add_on_branch [OF demo_fresh(1) demo_ask_value] step_add_child [OF demo_fresh(2) demo_answer_value]
  by simp_all

lemma demo_run: "tree_run mem_backend wal_room demo_root demo_answer"
  using run_step [OF run_step [OF run_start demo_room(1) demo_steps(1)] demo_room(2) demo_steps(2)] .

lemma demo_answer_session: "session (Some wal_new) None demo_answer"
  unfolding session_def using demo_root_value demo_run
  by (intro exI conjI) (auto intro: run_start)

lemma demo_wf: "wf_tree demo_root" "wf_tree demo_ask" "wf_tree demo_answer"
  using session_state(1) [OF demo_session] session_state(1) [OF demo_answer_session]
    tree_step_wf [OF demo_steps(1)] by simp_all

theorem add_on_branch_appends_witness:
  "\<exists>ms. flatten_branch demo_ask ''main'' = Ok (ms @ [UserMessage [TextPart ''hi'']])"
proof -
  obtain n where "get_node demo_ask ''u'' = Some n" by (simp add: demo_simps)
  then show ?thesis
    using add_on_branch_appends [OF demo_wf(1) demo_fresh(1)] demo_ask_value by metis
qed

text \<open>
  C3: every mutation, successful or failed, on any backend, keeps the tree well-formed, and never
  loses or rewrites a node (only its state and version move) or a checkpoint.
\<close>

theorem steps_preserve_tree:
  assumes "tree_run bk room t u" and "wf_tree t"
  shows "wf_tree u \<and> extends t u"
  using run_wf [OF assms] .

theorem steps_preserve_tree_witness: "wf_tree demo_answer \<and> extends demo_root demo_answer"
  using steps_preserve_tree [OF demo_run demo_wf(1)] .

text \<open>
  C1: crash recovery. Whatever a session did, replaying its log into an empty store and loading
  that store gives the conversation back: the same nodes, branches, checkpoints and messages.
\<close>

theorem crash_recovery:
  assumes "session (Some wal_new) None t" and "validate_metadata meta = None"
  shows "\<exists>w w' s u. t_wal t = Some w \<and>
     recover_wal mem_recovery mem_store_ops w mem_new = (w', s, length (wal_pending w), None) \<and>
     wal_pending w' = [] \<and>
     load_from_store mem_reads (Some s) (t_root t) [] w2 s2 meta = Ok u \<and> same_reading t u \<and>
     (\<forall>i n. get_node t i = Some n \<longrightarrow> flatten u i = flatten t i)"
proof -
  obtain w w' s where r: "t_wal t = Some w"
    "recover_wal mem_recovery mem_store_ops w mem_new = (w', s, length (wal_pending w), None)"
    "wal_pending w' = []" "mirrors (mem_content s) t" "ordered (parent_of t) s"
    using session_recover [OF assms(1)] by blast
  from mem_load_reading [OF session_state(1) [OF assms(1)] r(4,5) assms(2)] r(1-3)
  show ?thesis by blast
qed

theorem crash_recovery_witness:
  "\<exists>w w' s u. t_wal demo_answer = Some w \<and>
     recover_wal mem_recovery mem_store_ops w mem_new = (w', s, length (wal_pending w), None) \<and>
     load_from_store mem_reads (Some s) ''r'' [] None None NoMetadata = Ok u \<and>
     flatten u ''a'' = flatten demo_answer ''a''"
proof -
  have "t_root demo_answer = ''r''" "get_node demo_answer ''a'' \<noteq> None" by (simp_all add: demo_simps)
  then show ?thesis
    using crash_recovery [OF demo_answer_session, of NoMetadata None None]
    by (fastforce simp: validate_metadata_def)
qed

text \<open>
  C4: with a store behind the tree, loading the store at any time gives the conversation back.
\<close>

theorem store_reload:
  assumes "session w (Some mem_new) t" and "validate_metadata meta = None"
  shows "\<exists>s u. t_store t = Some s \<and>
     load_from_store mem_reads (Some s) (t_root t) [] w2 s2 meta = Ok u \<and> same_reading t u \<and>
     (\<forall>i n. get_node t i = Some n \<longrightarrow> flatten u i = flatten t i)"
  using session_reload [OF assms] .

definition demo_stored :: mem_tree where
  "demo_stored = fst (new_tree mem_backend (Some wal_new) (Some mem_new) NoMetadata ''r'' 0 [])"

lemma demo_stored_session: "session (Some wal_new) (Some mem_new) demo_stored"
proof -
  have "persist mem_store_ops mem_new ops = (s, None) \<Longrightarrow>
     \<exists>t. new_tree mem_backend (Some wal_new) (Some mem_new) NoMetadata ''r'' 0 [] = (t, Some ''r'', None)"
    if "ops = wal_add_node_ops (root_node ''r'' 0 [])" for ops s
    using that by (simp add: demo_simps)
  moreover have "\<exists>s. persist mem_store_ops mem_new (wal_add_node_ops (root_node ''r'' 0 [])) = (s, None)"
    by (rule mem_persist_live)
      (simp_all add: wal_add_node_ops_def root_node_def stale_def mem_new_def add_node_op_def
        set_branch_op_def blank_op_def op_complete_def)
  ultimately obtain t where
    "new_tree mem_backend (Some wal_new) (Some mem_new) NoMetadata ''r'' 0 [] = (t, Some ''r'', None)"
    by blast
  then show ?thesis
    unfolding session_def demo_stored_def by (intro exI conjI) (auto intro: run_start)
qed

theorem store_reload_witness:
  "\<exists>s u. t_store demo_stored = Some s \<and>
     load_from_store mem_reads (Some s) (t_root demo_stored) [] None None NoMetadata = Ok u \<and>
     same_reading demo_stored u"
  using store_reload [OF demo_stored_session, of NoMetadata None None]
  by (auto simp: validate_metadata_def)

text \<open>
  C5: when the store already holds every committed change, recovery applies the whole log again and
  changes nothing: the operations are idempotent as a history.
\<close>

theorem recovery_idempotent:
  assumes "session (Some wal_new) (Some mem_new) t"
  shows "\<exists>w s w' s'. t_wal t = Some w \<and> t_store t = Some s \<and>
     recover_wal mem_recovery mem_store_ops w s = (w', s', length (wal_pending w), None) \<and>
     wal_pending w' = [] \<and> mem_content s' = mem_content s"
  using session_recover_noop [OF assms] .

theorem recovery_idempotent_witness:
  "\<exists>w s w' s'. t_wal demo_stored = Some w \<and> t_store demo_stored = Some s \<and>
     recover_wal mem_recovery mem_store_ops w s = (w', s', length (wal_pending w), None) \<and>
     mem_content s' = mem_content s"
  using recovery_idempotent [OF demo_stored_session] by blast

section \<open>Archiving\<close>

lemma mutate_subtree_result:
  assumes wf: "wf_tree t" and i: "get_node t i = Some n" and f: "keeps_shape f"
    and r: "mutate_subtree bk t n recursive f = (t', q)"
  shows "q \<noteq> Diverge \<and> (q = Ok () \<longrightarrow> (\<forall>j. get_node t' j =
     (if (if recursive then in_subtree t i j else j = i) then map_option f (get_node t j) else get_node t j)))"
proof -
  obtain ns where ns: "collect_subtree t n recursive = Ok ns" "\<forall>m\<in>set ns. get_node t (n_id m) = Some m"
    "n_id ` set ns = (if recursive then {j. get_node t j \<noteq> None \<and> in_subtree t i j} else {i})"
    using collect_subtree_exact [OF wf i] by blast
  obtain u e where w: "write_through bk t (map update_node_op (map f ns)) (install_updates (map f ns)) ()
      = (t', u, e)" and q: "q = (case e of None \<Rightarrow> Ok () | Some x \<Rightarrow> Fail x)"
    using r ns(1) by (cases "write_through bk t (map update_node_op (map f ns)) (install_updates (map f ns)) ()")
      (auto simp: mutate_subtree_def split: option.splits)
  from w show ?thesis
  proof (cases rule: write_through_cases)
    case (durable t1)
    have core: "same_core t1 t" using durable(1) by (rule wal_tx_same_core)
    have ns1: "get_node t1 (n_id m) = Some m" if "m \<in> set ns" for m
      using ns(2) that core by (simp add: tree_simps)
    have g: "get_node t' j = (if j \<in> n_id ` set ns then map_option f (get_node t j) else get_node t j)" for j
      using get_node_install_updates [OF f ns1] core durable(3) by (simp add: tree_simps)
    show ?thesis using q i by (auto simp: g ns(3) split: option.split)
  next
    case refused
    then have "e \<noteq> None" by (cases e) simp_all
    then show ?thesis using q by (auto split: option.splits)
  qed
qed

text \<open>
  C8: archiving always ends, and when it succeeds it archives the node, with the whole subtree below
  it when recursive and nothing else, and raises the version of every node it touched.
\<close>

theorem archive_exact:
  assumes "wf_tree t" and "archive bk t i who recursive now = (t', q)"
  shows "q \<noteq> Diverge \<and> (q = Ok () \<longrightarrow>
     (\<forall>j. get_node t' j = (if (if recursive then in_subtree t i j else j = i)
        then map_option (archived_node now who) (get_node t j) else get_node t j)))"
proof (cases "get_node t i")
  case None
  then show ?thesis using assms(2) by (auto simp: archive_def)
next
  case (Some n)
  show ?thesis
  proof (cases "n_parent n = []")
    case False
    then have r: "mutate_subtree bk t n recursive (archived_node now who) = (t', q)"
      using assms(2) Some by (simp add: archive_def)
    show ?thesis by (rule mutate_subtree_result [OF assms(1) Some _ r]) simp
  qed (use assms(2) Some in \<open>auto simp: archive_def\<close>)
qed

lemma demo_archive:
  "archive mem_backend demo_answer ''u'' ''me'' True 9 =
     (fst (archive mem_backend demo_answer ''u'' ''me'' True 9), Ok ())"
  by (simp add: archive_def mutate_subtree_def collect_subtree_def numeral_2_eq_2 update_node_op_def
      archived_node_def blank_op_def demo_simps)

theorem archive_exact_witness:
  "\<exists>n. get_node (fst (archive mem_backend demo_answer ''u'' ''me'' True 9)) ''r'' = Some n \<and>
     n_state n = NodeActive"
proof -
  have "\<not> in_subtree demo_answer ''u'' ''r''"
    by (simp add: in_subtree_def path_def walk_up.simps demo_simps)
  moreover have "\<exists>n. get_node demo_answer ''r'' = Some n \<and> n_state n = NodeActive" by (simp add: demo_simps)
  ultimately show ?thesis using archive_exact [OF demo_wf(3) demo_archive] by simp
qed

section \<open>Checkpoints\<close>

text \<open>
  C9: a checkpoint survives any later work on the tree. Rewinding to it opens a branch whose path is
  the path the checkpointed branch had, and moves no other branch.
\<close>

theorem checkpoint_rewind:
  assumes wf: "wf_tree t" and new: "map_of (t_checkpoints t) cid = None"
    and tip: "map_of (t_branches t) b = Some tip"
    and cp: "create_checkpoint bk t b name cid now = (t1, Some c, e)"
    and run: "tree_run bk room t1 t2" and rw: "rewind bk t2 cid buid = (t3, Some b', e')"
  shows "c = cid \<and> map_of (t_branches t3) = (map_of (t_branches t2))(b' \<mapsto> tip) \<and>
     path t3 tip = path t tip \<and> (\<forall>i. get_node t3 i = get_node t2 i)"
proof -
  let ?cp = "\<lparr>cp_id = cid, cp_branch = b, cp_node = tip, cp_name = name, cp_created = now\<rparr>"
  have "write_through bk t [add_checkpoint_op ?cp]
     (\<lambda>u. u\<lparr>t_checkpoints := AList.update cid ?cp (t_checkpoints u)\<rparr>) cid = (t1, Some c, e)"
    using cp tip by (simp add: create_checkpoint_def Let_def)
  then have c: "c = cid \<and> map_of (t_checkpoints t1) cid = Some ?cp"
    by (cases rule: write_through_cases) simp_all
  have s1: "wf_tree t1 \<and> extends t t1" using tree_step_wf [OF step_checkpoint [OF new cp] wf] .
  have s2: "wf_tree t2 \<and> extends t1 t2" using run_wf [OF run] s1 by blast
  have cp2: "map_of (t_checkpoints t2) cid = Some ?cp"
    using s2 c by (force simp: extends_def map_le_def)
  have s3: "wf_tree t3 \<and> extends t2 t3" using tree_step_wf [OF step_rewind [OF rw]] s2 by blast
  have ext: "extends t t3" using s1 s2 s3 extends_trans by blast
  obtain n where n: "get_node t tip = Some n" using wf_tip [OF wf tip] by blast
  have "\<exists>m'. get_node t3 j = Some m' \<and> n_parent m' = n_parent m" if "get_node t j = Some m" for j m
    using ext that unfolding extends_def rewritten_def by blast
  then have "path t3 tip = path t tip" using s3 by (intro path_agree [OF wf _ n]) blast+
  moreover have "map_of (t_branches t3) = (map_of (t_branches t2))(b' \<mapsto> tip) \<and> get_node t3 = get_node t2"
  proof -
    obtain m where "get_node t2 tip = Some m" using wf_checkpoint [of t2 cid ?cp] s2 cp2 by auto
    then have "write_through bk t2 [set_branch_op (''rewind-'' @ name @ ''-'' @ take 8 buid) tip]
       (\<lambda>u. u\<lparr>t_branches := AList.update (''rewind-'' @ name @ ''-'' @ take 8 buid) tip (t_branches u)\<rparr>)
       (''rewind-'' @ name @ ''-'' @ take 8 buid) = (t3, Some b', e')"
      using rw cp2 by (simp add: rewind_def Let_def)
    then show ?thesis
    proof (cases rule: write_through_cases)
      case (durable u)
      have "same_core u t2" using durable(1) by (rule wal_tx_same_core)
      then show ?thesis using durable(3,4) by (simp add: same_core_def get_node_def fun_eq_iff)
    qed simp
  qed
  ultimately show ?thesis using c by simp
qed

theorem checkpoint_rewind_witness:
  "\<exists>t1 t3 c b'. create_checkpoint mem_backend demo_ask ''main'' ''cp'' ''c'' 5 = (t1, Some c, None) \<and>
     rewind mem_backend t1 ''c'' ''12345678-9'' = (t3, Some b', None) \<and>
     map_of (t_branches t3) = (map_of (t_branches t1))(b' \<mapsto> ''u'')"
proof -
  obtain t1 where t1: "create_checkpoint mem_backend demo_ask ''main'' ''cp'' ''c'' 5 = (t1, Some ''c'', None)"
    by (simp add: create_checkpoint_def add_checkpoint_op_def blank_op_def demo_simps)
  moreover have "\<exists>t3 b'. rewind mem_backend t1 ''c'' ''12345678-9'' = (t3, Some b', None)"
    using t1 by (auto simp: create_checkpoint_def rewind_def add_checkpoint_op_def blank_op_def demo_simps)
  moreover have "map_of (t_checkpoints demo_ask) ''c'' = None" "map_of (t_branches demo_ask) ''main'' = Some ''u''"
    by (simp_all add: demo_simps)
  ultimately show ?thesis
    using checkpoint_rewind [OF demo_wf(2) _ _ t1 run_start] by metis
qed

section \<open>Reads\<close>

text \<open>
  reading ends. On a well-formed tree the walk from a node to the root returns: the path starts at the
  root, ends at the node and passes no node twice, and its tree path of sibling numbers leads back to the node.
\<close>

theorem path_walk_ends:
  assumes wf: "wf_tree t" and i: "get_node t i = Some n"
  shows "\<exists>p tp. path t i = Ok p \<and> hd p = t_root t \<and> last p = i \<and> distinct p \<and>
     length p \<le> length (t_nodes t) \<and> node_path t i = Ok tp \<and> follow t (t_root t) tp = Some i"
proof -
  obtain p where p: "path t i = Ok p" "hd p = t_root t" using path_nodes [OF wf i] by blast
  moreover have "last p = i" using path_ends [OF wf i] p(1) by auto
  ultimately show ?thesis
    using path_distinct [OF wf i] path_length [OF wf i] node_path_follows [OF wf i] by blast
qed

theorem path_walk_ends_witness:
  "\<exists>tp. node_path demo_answer ''a'' = Ok tp \<and> follow demo_answer ''r'' tp = Some ''a''"
proof -
  have "t_root demo_answer = ''r''" "get_node demo_answer ''a'' \<noteq> None" by (simp_all add: demo_simps)
  then show ?thesis using path_walk_ends [OF demo_wf(3)] by fastforce
qed

text \<open>
  a difference splits the two paths at the last node they share: the common part, then what was removed,
  is the path of the first node; the common part, then what was added, is the path of the second.
\<close>

theorem diff_splits_paths:
  assumes wf: "wf_tree t" and i: "get_node t i = Some n" and j: "get_node t j = Some m"
  shows "\<exists>d. diff t i j = Ok d \<and>
     path t i = Ok (td_common d @ map nd_node (td_removed d)) \<and>
     path t j = Ok (td_common d @ map nd_node (td_added d)) \<and>
     td_common d \<noteq> [] \<and> td_ancestor d = last (td_common d) \<and>
     (td_removed d = [] \<or> td_added d = [] \<or> nd_node (hd (td_removed d)) \<noteq> nd_node (hd (td_added d)))"
  using assms by (rule diff_total)

theorem diff_splits_paths_witness:
  "\<exists>d. diff demo_answer ''u'' ''a'' = Ok d \<and> path demo_answer ''a'' = Ok (td_common d @ map nd_node (td_added d))"
proof -
  have "get_node demo_answer ''u'' \<noteq> None" "get_node demo_answer ''a'' \<noteq> None" by (simp_all add: demo_simps)
  then show ?thesis using diff_splits_paths [OF demo_wf(3)] by fastforce
qed

end
