(* ===== verification/Store_Properties.thy ===== *)
theory Store_Properties
  imports Tree_Durability
begin

text \<open>
  The properties of the in-memory store's transactions, of the in-memory log and of recovery, and
  two behaviours of recovery that its comments do not say.
\<close>

section \<open>Transactions\<close>



section \<open>Recovery\<close>

text \<open>
  C11: recovery of an in-memory log makes progress by whole transactions, in log order: on any
  outcome, a prefix of the pending transactions is in the store and marked applied, the count says
  how long it is, and the rest is still pending. It is the whole log when no error is reported, and
  no error is reported when the logged operations are complete.
\<close>

theorem recovery_progress:
  assumes "wal_sound w" and "recover_wal mem_recovery mem_store_ops w s = (w', s', k, e)"
  shows "k \<le> length (wal_pending w) \<and> wal_pending w' = drop k (wal_pending w) \<and>
     mem_content s' = view_ops (mem_content s) (concat (take k (wal_pending w))) \<and>
     (e = None \<longrightarrow> k = length (wal_pending w)) \<and>
     (list_all op_complete (concat (wal_pending w)) \<longrightarrow> e = None)"
proof -
  let ?txs = "mem_pending w"
  obtain w1 s1 k1 e1 where b: "apply_batches mem_recovery mem_store_ops w s 0 ?txs = (w1, s1, k1, e1)"
    by (metis prod_cases4)
  have len: "length ?txs = length (wal_pending w)" by (metis length_map mem_pending_parts(2))
  have "(w', s', k, e) = (w1, s1, k1, e1)"
    using pending_of_mem [OF assms(1)] b assms(2)
    by (cases e1) (simp_all add: recover_wal_def, simp_all add: mem_recovery_def)
  then show ?thesis using apply_batches_mem [OF assms(1) _ _ b] len by auto
qed

definition demo_log :: mem_wal where
  "demo_log =
     (case mem_wal_begin wal_new of (w, Inr i) \<Rightarrow>
        fst (mem_wal_commit (fst (mem_wal_append w i (set_branch_op ''main'' ''r''))) i) | (w, Inl _) \<Rightarrow> w)"

lemma demo_log_sound: "wal_sound demo_log"
proof -
  have room: "wal_room wal_new" by (simp add: wal_room_def wal_new_def)
  obtain w x where "mem_wal_begin wal_new = (w, x)" by fastforce
  with wal_begin_law [OF wal_sound_new(1) room] obtain i where b: "mem_wal_begin wal_new = (w, Inr i)"
    and w: "wal_sound w" "wal_open_in w i []" by blast
  obtain w1 e1 where a: "mem_wal_append w i (set_branch_op ''main'' ''r'') = (w1, e1)" by fastforce
  note w1 = wal_append_law [OF w a]
  obtain w2 e2 where c: "mem_wal_commit w1 i = (w2, e2)" by fastforce
  have "demo_log = w2" by (simp add: demo_log_def b a c)
  then show ?thesis using wal_finish_law [of w1 i _ w2 e2] w1 c by blast
qed

theorem recovery_progress_witness:
  "\<exists>w' s' k e. recover_wal mem_recovery mem_store_ops demo_log mem_new = (w', s', k, e) \<and>
     wal_pending w' = drop k (wal_pending demo_log)"
proof -
  obtain w' s' k e where r: "recover_wal mem_recovery mem_store_ops demo_log mem_new = (w', s', k, e)"
    by (metis prod_cases4)
  show ?thesis using recovery_progress [OF demo_log_sound r] r by blast
qed

section \<open>What the comments do not say\<close>

text \<open>
  The log promises commit order and recovers in begin order: of two transactions open at a time, the
  one that began first is recovered first, whichever committed first.
\<close>

definition overlapped :: mem_wal where
  "overlapped =
     (let w1 = fst (mem_wal_begin wal_new); w2 = fst (mem_wal_begin w1);
          w3 = fst (mem_wal_append w2 ''tx-1'' (set_branch_op ''main'' ''old''));
          w4 = fst (mem_wal_append w3 ''tx-2'' (set_branch_op ''main'' ''new''));
          w5 = fst (mem_wal_commit w4 ''tx-2'')
      in fst (mem_wal_commit w5 ''tx-1''))"

lemma digit_chars [simp]: "char_of (49 :: nat) = CHR ''1''" "char_of (50 :: nat) = CHR ''2''"
  by code_simp+

lemma tx_names [simp]:
  "tx_name 1 = ''tx-1''" "tx_name (Suc 0) = ''tx-1''" "tx_name 2 = ''tx-2''"
  "tx_seq ''tx-1'' = 1" "tx_seq ''tx-2'' = 2"
proof -
  show n: "tx_name 1 = ''tx-1''" "tx_name (Suc 0) = ''tx-1''" "tx_name 2 = ''tx-2''"
    by (simp_all add: tx_name_def nat_digits.simps digit_char_def)
  show "tx_seq ''tx-1'' = 1" "tx_seq ''tx-2'' = 2"
    using tx_seq_name [of 1] tx_seq_name [of 2] n by simp_all
qed

lemma recovers_in_begin_order: "mem_wal_recover overlapped = [''tx-1'', ''tx-2'']"
  by (simp add: overlapped_def mem_wal_begin_def mem_wal_append_def mem_wal_commit_def wal_new_def
      put_tx_def mem_wal_recover_def Let_def)

text \<open>
  A commit the log lost: the store took a branch move, the log did not. Recovery replays the older
  move and takes the branch back.
\<close>

definition moved_store :: mem_store where
  "moved_store = mem_save_branch mem_new ''main'' ''new''"

lemma recovery_takes_branch_back:
  "\<exists>w' s' k. recover_wal mem_recovery mem_store_ops demo_log moved_store = (w', s', k, None) \<and>
     map_of (ms_branches moved_store) ''main'' = Some ''new'' \<and>
     map_of (ms_branches s') ''main'' = Some ''r''"
proof -
  have pend: "wal_pending demo_log = [[set_branch_op ''main'' ''r'']]"
    by (simp add: demo_log_def mem_wal_begin_def mem_wal_append_def mem_wal_commit_def wal_new_def
        put_tx_def wal_pending_def mem_wal_recover_def Let_def)
  from recover_wal_mem [OF demo_log_sound, of moved_store] obtain w' s' where
    "recover_wal mem_recovery mem_store_ops demo_log moved_store = (w', s', 1, None)"
    "mem_content s' = view_ops (mem_content moved_store) [set_branch_op ''main'' ''r'']"
    by (auto simp: pend)
  then show ?thesis
    by (auto simp: view_eq_iff moved_store_def mem_save_branch_def)
qed

end
