(* ===== verification/Compact_Properties.thy ===== *)
theory Compact_Properties
  imports Tree_Properties
begin

text \<open>
  What compaction does to a conversation (\<open>agent/tree/compact.go\<close>): where it cuts, what the new
  branch reads, and that no other branch changes.
\<close>

section \<open>Reading the new branch\<close>

lemma flatten_install_all:
  assumes "wf_tree t" "linked t ns" "get_node t i = Some m"
  shows "flatten (install_all ns t) i = flatten t i"
  using assms by (intro flatten_agree wf_install_all install_all_keeps) auto

lemma chain_flatten:
  assumes "wf_tree t" "linked t ns" "chained prev ns" "\<forall>n\<in>set ns. n_state n \<noteq> NodeArchived"
    "flatten t prev = Ok ms" "ns \<noteq> []"
  shows "flatten (install_all ns t) (n_id (last ns)) = Ok (ms @ map n_message ns)"
  using assms
proof (induction ns arbitrary: t prev ms)
  case (Cons n ns)
  let ?u = "install_child n t"
  obtain p where p: "get_node t (n_parent n) = Some p" "fresh_id t (n_id n)" using Cons.prems(2) by auto
  note reads = install_child_reads [OF Cons.prems(1) p(2,1), of t]
  have u: "flatten ?u (n_id n) = Ok (ms @ [n_message n])" and w: "wf_tree ?u"
    using reads(1,3) Cons.prems by (simp_all add: same_core_def)
  show ?case
  proof (cases "ns = []")
    case True
    then show ?thesis using u by simp
  next
    case False
    then show ?thesis using Cons.IH [OF w _ _ _ u] Cons.prems by simp
  qed
qed simp

text \<open>The new nodes, read from the node before the first one that was summarised.\<close>

lemma compacted_messages:
  assumes "length r \<le> length ids"
    and "List.map_filter (get_node t) (remaining_after p (n_id (last chosen))) = r"
  shows "map n_message (compacted_nodes t p chosen summary b rid sid ids now) =
    [UserMessage [TextPart summary_request], AssistantMessage [TextPart summary]] @ map n_message r"
  using assms by (simp add: compacted_nodes_def copy_chain_messages request_node_def summary_node_def)

lemma flatten_path: "path t i = Ok p \<Longrightarrow> flatten t i = Ok (concat (map (visible_message t) p))"
  by (simp add: flatten_def)

lemma parent_path:
  assumes wf: "wf_tree t" and i: "get_node t i = Some n" and p: "path t i = Ok (xs @ n_id m # ys)"
    and m: "get_node t (n_id m) = Some m" "n_parent m \<noteq> []"
  shows "path t (n_parent m) = Ok xs"
proof -
  have "path t (n_id m) = Ok (xs @ [n_id m])" by (rule path_of_ancestor [OF wf i p])
  then show ?thesis using path_step [OF wf m] by auto
qed

lemma opened_branch_reads:
  assumes wf: "wf_tree t" and core: "same_core t1 t" and lk: "linked t ns" and ch: "chained prev ns"
    and br: "ns \<noteq> []" "\<forall>n\<in>set ns. n_branch n = b" and st: "\<forall>n\<in>set ns. n_state n \<noteq> NodeArchived"
    and prev: "flatten t prev = Ok ms" and t': "t' = install_compact ns b (n_id (last ns)) t1"
  shows "flatten_branch t' b = Ok (ms @ map n_message ns)"
    and "b' \<noteq> b \<Longrightarrow> map_of (t_branches t') b' = map_of (t_branches t) b' \<and> flatten_branch t' b' = flatten_branch t b'"
proof -
  have wf1: "wf_tree t1" using wf wf_same_core [OF core] by simp
  have lk1: "linked t1 ns" using lk linked_same_core [OF core] by simp
  have gone: "flatten t' i = flatten (install_all ns t1) i" for i
    unfolding t' install_compact_all [OF br] by (rule flatten_active)
  have same: "flatten t1 i = flatten t i" for i by (rule flatten_same_core [OF core])
  have br': "t_branches t' = AList.update b (n_id (last ns)) (t_branches t)"
    using core by (simp add: t' install_compact_frame same_core_def)
  show "flatten_branch t' b = Ok (ms @ map n_message ns)"
    using chain_flatten [OF wf1 lk1 ch st _ br(1), of ms] prev
    by (simp add: flatten_branch_def br' update_conv' gone same)
  show "map_of (t_branches t') b' = map_of (t_branches t) b' \<and> flatten_branch t' b' = flatten_branch t b'"
    if "b' \<noteq> b"
  proof (cases "map_of (t_branches t) b'")
    case None
    then show ?thesis using that by (simp add: flatten_branch_def br' update_conv')
  next
    case (Some i)
    then obtain m where "get_node t i = Some m" using wf_tip [OF wf] by blast
    then have "get_node t1 i = Some m" using core by (simp add: tree_simps)
    then have "flatten t' i = flatten t i" using flatten_install_all [OF wf1 lk1] gone same by simp
    then show ?thesis using Some that by (simp add: flatten_branch_def br' update_conv')
  qed
qed

text \<open>
  C34: compaction replaces one stretch of the branch by its summary. The new branch reads the messages
  before the stretch, the request and the summary of the stretch's active messages, and then every message
  after it; it becomes the active branch, and every other branch, the compacted one included, reads as before.
\<close>

theorem compact_replaces_stretch:
  assumes wf: "wf_tree t" and fresh: "fresh_ids t (rid # sid # ids)" and enough: "length (t_nodes t) \<le> length ids"
    and r: "compact bk t branch tokenizer provider to_text opts buid rid sid ids now = (t', Ok (b, e))"
    and new: "b \<noteq> branch"
  shows "\<exists>tip before mid after shared summary.
     map_of (t_branches t) branch = Some tip \<and> path t tip = Ok (map n_id (before @ mid @ after)) \<and>
     (\<forall>n\<in>set (before @ mid @ after). get_node t (n_id n) = Some n) \<and> mid \<noteq> [] \<and>
     (if co_preserve_shared opts then shared_nodes t branch else Ok []) = Ok shared \<and>
     summarize_messages provider to_text (map n_message (filter (compactable shared) mid)) = Inr summary \<and>
     flatten_branch t' b = Ok (concat (map (visible_message t) (map n_id before)) @
       [UserMessage [TextPart summary_request], AssistantMessage [TextPart summary]] @ map n_message after) \<and>
     t_active t' = b \<and>
     (\<forall>b'. b' \<noteq> b \<longrightarrow> map_of (t_branches t') b' = map_of (t_branches t) b' \<and>
        flatten_branch t' b' = flatten_branch t b')"
  using r
proof (cases rule: compact_cases)
  case (written tip p shared chosen summary nb ns u e1)
  have nb: "nb = b" and u: "u = Some ()" using written(9) by simp_all
  have lk: "linked t ns" using written_linked [OF wf written(1-5) fresh] written(7) by simp
  have br: "ns \<noteq> []" "\<forall>n\<in>set ns. n_branch n = b"
    using written(7) compacted_branch nb by (simp add: compacted_nodes_def, blast)
  have st: "\<forall>n\<in>set ns. n_state n \<noteq> NodeArchived" using written(7) compacted_branch by blast
  obtain n where n: "get_node t tip = Some n" using wf_tip [OF wf written(1)] by blast
  have "set p \<subseteq> {j. get_node t j \<noteq> None}" using path_nodes [OF wf n] written(2) by (elim exE conjE) simp
  then obtain ps where ps: "p = map n_id ps" "\<forall>n\<in>set ps. get_node t (n_id n) = Some n"
    using known_nodes [OF _ wf] by blast
  obtain a m q where s: "ps = a @ m @ q" "m \<noteq> []" "chosen = filter (compactable shared) m"
    "hd chosen = hd m" "last chosen = last m" "n_parent (hd m) \<noteq> []"
    using chosen_split [OF ps(2)] written(4,5) unfolding ps(1) by blast
  have d: "distinct p" by (rule path_distinct [OF wf n written(2)])
  have split: "p = (map n_id (a @ butlast m)) @ n_id (last m) # map n_id q"
    using ps(1) s(1,2) by (metis append.assoc append_butlast_last_id append_Cons append_Nil list.simps(9) map_append)
  have rest: "List.map_filter (get_node t) (remaining_after p (n_id (last chosen))) = q"
  proof -
    have "remaining_after p (n_id (last m)) = map n_id q"
      using d unfolding split by (rule remaining_after_split)
    then show ?thesis using ps(2) s(1,5) by (simp add: map_filter_known)
  qed
  have len: "length q \<le> length ids"
    using path_length [OF wf n written(2)] enough ps(1) s(1) by simp
  have "p = map n_id a @ n_id (hd m) # map n_id (tl m @ q)" using ps(1) s(1,2) by (cases m) simp_all
  then have prev: "flatten t (n_parent (hd m)) = Ok (concat (map (visible_message t) (map n_id a)))"
    using written(2) ps(2) s(1,2,6) by (intro flatten_path parent_path [OF wf n]) auto
  have ch: "chained (n_parent (hd m)) ns" using compacted_chained [of chosen t p] written(7) s(4) by simp
  obtain t1 where t1: "same_core t1 t" "t' = install_compact ns b (n_id (last ns)) t1"
    using written(8)
  proof (cases rule: write_through_cases)
    case (durable t1)
    then show ?thesis using that nb wal_tx_same_core by blast
  qed (simp add: u)
  note reads = opened_branch_reads [OF wf t1(1) lk ch br st prev t1(2)]
  have "map n_message ns = [UserMessage [TextPart summary_request], AssistantMessage [TextPart summary]] @ map n_message q"
    unfolding written(7) by (rule compacted_messages [OF len rest])
  then have "flatten_branch t' b = Ok (concat (map (visible_message t) (map n_id a)) @
       [UserMessage [TextPart summary_request], AssistantMessage [TextPart summary]] @ map n_message q)"
    using reads(1) by simp
  moreover have "t_active t' = b" using t1(2) by (simp add: install_compact_frame)
  ultimately show ?thesis
    using written(1,2,3,6) ps s(1-3) reads(2)
    by (intro exI [of _ tip] exI [of _ a] exI [of _ m] exI [of _ q] exI [of _ shared] exI [of _ summary])
      (simp add: Ball_def)
qed (use new in simp)

text \<open>
  the cut keeps a tool result with its call. At least one message is summarised, the first message that
  stays is no tool result, and all messages go only when everything after the first is a tool result.
\<close>

theorem cut_keeps_results_with_calls:
  assumes "ms \<noteq> []"
  shows "1 \<le> compact_count ms \<and> compact_count ms \<le> length ms \<and>
     (compact_count ms < length ms \<longrightarrow> \<not> has_tool_result (ms ! compact_count ms)) \<and>
     (compact_count ms = length ms \<longrightarrow> (\<forall>i. 1 \<le> i \<longrightarrow> i < length ms \<longrightarrow> has_tool_result (ms ! i)))"
  using assms by (rule compact_count_boundary)

section \<open>Examples\<close>

definition demo_call :: "message list" where
  "demo_call = [UserMessage [TextPart ''a''], AssistantMessage [TextPart ''b''],
     UserMessage [ToolResultPart ''c'' ''d''], AssistantMessage [TextPart ''e'']]"

theorem cut_keeps_results_with_calls_witness:
  "compact_count demo_call = 3 \<and> \<not> has_tool_result (demo_call ! compact_count demo_call)"
proof -
  have "compact_count demo_call = 3" by code_simp
  then show ?thesis using cut_keeps_results_with_calls [of demo_call] by (simp add: demo_call_def)
qed

definition demo_compact where
  "demo_compact = compact mem_backend demo_answer ''main'' (\<lambda>ms. Inr 100) (\<lambda>ms. Inr [PartDelta ''greeting''])
     (\<lambda>ms. []) \<lparr>co_max_tokens = 10, co_preserve_shared = True\<rparr> ''12345678'' ''q'' ''s'' [''x'', ''y'', ''z''] 3"

lemma demo_compact_value: "snd demo_compact = Ok (''compact-main-12345678'', None)"
  by code_simp

theorem compact_replaces_stretch_witness:
  "t_active (fst demo_compact) = ''compact-main-12345678'' \<and>
   flatten_branch (fst demo_compact) ''main'' = flatten_branch demo_answer ''main''"
proof -
  have f: "fresh_ids demo_answer [''q'', ''s'', ''x'', ''y'', ''z'']" "length (t_nodes demo_answer) \<le> 3"
    by (simp_all add: demo_simps fresh_ids_def fresh_id_def)
  have "compact mem_backend demo_answer ''main'' (\<lambda>ms. Inr 100) (\<lambda>ms. Inr [PartDelta ''greeting''])
     (\<lambda>ms. []) \<lparr>co_max_tokens = 10, co_preserve_shared = True\<rparr> ''12345678'' ''q'' ''s'' [''x'', ''y'', ''z''] 3 =
     (fst demo_compact, Ok (''compact-main-12345678'', None))"
    using demo_compact_value unfolding demo_compact_def by (simp add: prod_eq_iff)
  from compact_replaces_stretch [OF demo_wf(3) f(1) _ this] f(2) show ?thesis by fastforce
qed

text \<open>
  Copies are always active: a message after the summarised stretch that was archived, and so hidden, is
  visible again on the compacted branch.
\<close>

definition demo_long :: mem_tree where
  "demo_long = fst (add_child mem_backend demo_answer ''a'' (UserMessage [TextPart ''secret'']) ''v'' 3)"

definition demo_hidden :: mem_tree where
  "demo_hidden = fst (archive mem_backend demo_long ''v'' ''user'' False 4)"

lemma archived_message_reappears:
  "flatten_branch demo_hidden ''main'' = Ok [SystemMessage [TextPart ''be kind''],
     UserMessage [TextPart ''hi''], AssistantMessage [TextPart ''hello'']] \<and>
   flatten_branch (fst (compact mem_backend demo_hidden ''main'' (\<lambda>ms. Inr 100) (\<lambda>ms. Inr [PartDelta ''greeting''])
     (\<lambda>ms. []) \<lparr>co_max_tokens = 10, co_preserve_shared = True\<rparr> ''12345678'' ''q'' ''s'' [''x'', ''y'', ''z''] 5))
     ''compact-main-12345678'' = Ok [SystemMessage [TextPart ''be kind''],
     UserMessage [TextPart summary_request], AssistantMessage [TextPart ''greeting''],
     AssistantMessage [TextPart ''hello''], UserMessage [TextPart ''secret'']]"
  by code_simp

end
