(* ===== verification/Gates.thy ===== *)
theory Gates
  imports Grants
begin

text \<open>
  Tool gates, \<open>agent/types/gate.go\<close> and \<open>capability_gate.go\<close>: the decisions a policy makes about a
  tool call before it runs, their composition, and the gates the package provides. A gate is a
  function of the tool and its arguments; \<open>None\<close> stands for Go's nil map of arguments.
\<close>

type_synonym tool_args = "(string \<times> json) list"

text \<open>A capability class is a string; \<open>effective\<close> maps what it does not know to \<open>unknown\<close>.\<close>

definition "CapUnknown = ''unknown''"
definition "CapRead = ''read''"
definition "CapWrite = ''write''"
definition "CapDestructive = ''destructive''"

lemmas capabilities = CapUnknown_def CapRead_def CapWrite_def CapDestructive_def

definition effective :: "string \<Rightarrow> string" where
  "effective c = (if c \<in> set [CapRead, CapWrite, CapDestructive] then c else CapUnknown)"

record tool_def =
  td_name :: string
  td_description :: string
  td_capability :: string

record marker =
  mk_kind :: string
  mk_message :: string
  mk_meta :: tool_args

section \<open>Decisions\<close>

datatype gate_outcome = GateAllow | GateRequireApproval | GateDeny

record gate_decision =
  gd_outcome :: gate_outcome
  gd_reason :: string
  gd_marker :: "marker option"
  gd_args :: "tool_args option"

definition allow :: gate_decision where
  "allow = \<lparr>gd_outcome = GateAllow, gd_reason = [], gd_marker = None, gd_args = None\<rparr>"

definition deny :: "string \<Rightarrow> gate_decision" where
  "deny reason = \<lparr>gd_outcome = GateDeny, gd_reason = reason, gd_marker = None, gd_args = None\<rparr>"

definition require_approval :: "string \<Rightarrow> gate_decision" where
  "require_approval reason =
     \<lparr>gd_outcome = GateRequireApproval, gd_reason = reason, gd_marker = None, gd_args = None\<rparr>"

type_synonym gate = "tool_def \<Rightarrow> tool_args option \<Rightarrow> gate_decision"

definition allow_all_gate :: gate where
  "allow_all_gate def args = allow"

section \<open>Composition\<close>

definition rewritten :: "gate_decision \<Rightarrow> tool_args option \<Rightarrow> tool_args option" where
  "rewritten d merged = (if gd_args d \<noteq> None then gd_args d else merged)"

definition add_reason :: "gate_decision \<Rightarrow> string list \<Rightarrow> string list" where
  "add_reason d reasons = (if gd_reason d \<noteq> [] then reasons @ [gd_reason d] else reasons)"

definition first_marker :: "gate_decision \<Rightarrow> marker option \<Rightarrow> marker option" where
  "first_marker d m = (if m = None \<and> gd_marker d \<noteq> None then gd_marker d else m)"

text \<open>The state of the loop over the gates: arguments so far, whether one asked, reasons, marker.\<close>

fun gates_loop ::
    "gate list \<Rightarrow> tool_def \<Rightarrow> tool_args option \<Rightarrow> bool \<Rightarrow> string list \<Rightarrow> marker option \<Rightarrow> gate_decision" where
  "gates_loop [] def merged approval reasons marker =
     (if approval then
        \<lparr>gd_outcome = GateRequireApproval, gd_reason = join_with ''; '' reasons, gd_marker = marker,
         gd_args = merged\<rparr>
      else if merged \<noteq> None then
        \<lparr>gd_outcome = GateAllow, gd_reason = [], gd_marker = None, gd_args = merged\<rparr>
      else allow)"
| "gates_loop (g # gs) def merged approval reasons marker =
     (let d = g def merged in
      case gd_outcome d of
        GateDeny \<Rightarrow> d\<lparr>gd_args := rewritten d merged\<rparr>
      | GateRequireApproval \<Rightarrow>
          gates_loop gs def (rewritten d merged) True (add_reason d reasons) (first_marker d marker)
      | GateAllow \<Rightarrow> gates_loop gs def (rewritten d merged) approval reasons marker)"

definition gates :: "gate list \<Rightarrow> gate" where
  "gates gs def args = gates_loop gs def args False [] None"

section \<open>Gates by name\<close>

definition allow_list_gate :: "string list \<Rightarrow> gate" where
  "allow_list_gate names def args =
     (if td_name def \<in> set names then allow
      else deny (''tool '' @ td_name def @ '' is not on the allow list''))"

definition deny_list_gate :: "string list \<Rightarrow> gate" where
  "deny_list_gate names def args =
     (if td_name def \<in> set names then deny (''tool '' @ td_name def @ '' is denied by policy'')
      else allow)"

fun prefix_approval_gate :: "string \<Rightarrow> string list \<Rightarrow> gate" where
  "prefix_approval_gate reason [] def args = allow"
| "prefix_approval_gate reason (p # ps) def args =
     (if has_prefix (td_name def) p
      then require_approval
        (if reason = [] then ''tool '' @ td_name def @ '' requires approval'' else reason)
      else prefix_approval_gate reason ps def args)"

section \<open>Gates by capability\<close>

type_synonym capability_policy = "(string, gate_outcome) gomap"

definition default_capability_policy :: capability_policy where
  "default_capability_policy =
     [(CapRead, GateAllow), (CapWrite, GateRequireApproval), (CapDestructive, GateDeny),
      (CapUnknown, GateRequireApproval)]"

definition policy_outcome :: "capability_policy \<Rightarrow> string \<Rightarrow> gate_outcome" where
  "policy_outcome p c =
     (case map_of p (effective c) of Some o' \<Rightarrow> o' | None \<Rightarrow> GateRequireApproval)"

definition fix_policy :: "capability_policy \<Rightarrow> capability_policy" where
  "fix_policy p = foldl (\<lambda>m (c, o'). AList.update (effective c) o' m) [] p"

definition capability_gate :: "capability_policy option \<Rightarrow> gate" where
  "capability_gate policy def args =
     (let fixed = fix_policy (case policy of Some p \<Rightarrow> p | None \<Rightarrow> default_capability_policy);
          class = effective (td_capability def)
      in case policy_outcome fixed class of
           GateAllow \<Rightarrow> allow
         | GateDeny \<Rightarrow> deny (''tool '' @ td_name def @ '' is '' @ class @ '' and denied by capability policy'')
         | GateRequireApproval \<Rightarrow>
             require_approval (''tool '' @ td_name def @ '' is '' @ class @ '' and requires approval''))"

section \<open>The most restrictive verdict wins\<close>

text \<open>Verdicts in order of restriction.\<close>

instantiation gate_outcome :: linorder
begin

fun strictness :: "gate_outcome \<Rightarrow> nat" where
  "strictness GateAllow = 0"
| "strictness GateRequireApproval = 1"
| "strictness GateDeny = 2"

definition less_eq_gate_outcome :: "gate_outcome \<Rightarrow> gate_outcome \<Rightarrow> bool" where
  "less_eq_gate_outcome a b = (strictness a \<le> strictness b)"

definition less_gate_outcome :: "gate_outcome \<Rightarrow> gate_outcome \<Rightarrow> bool" where
  "less_gate_outcome a b = (strictness a < strictness b)"

instance
proof
  fix a b c :: gate_outcome
  show "a \<le> b \<Longrightarrow> b \<le> a \<Longrightarrow> a = b" by (cases a; cases b) (auto simp: less_eq_gate_outcome_def)
qed (auto simp: less_eq_gate_outcome_def less_gate_outcome_def)

end

lemma outcome_order [simp]:
  "GateAllow \<le> x" "x \<le> GateDeny" "max GateAllow x = x" "max x GateAllow = x" "max GateDeny x = GateDeny"
  "max x GateDeny = GateDeny"
  by (cases x; simp add: less_eq_gate_outcome_def max_def)+

text \<open>What each gate of a chain says, at the arguments it sees; the chain ends at a denial.\<close>

fun verdicts :: "gate list \<Rightarrow> tool_def \<Rightarrow> tool_args option \<Rightarrow> gate_decision list" where
  "verdicts [] def args = []"
| "verdicts (g # gs) def args =
     (let d = g def args in
      d # (if gd_outcome d = GateDeny then []
           else verdicts gs def (rewritten d args)))"

definition strictest :: "gate_decision list \<Rightarrow> gate_outcome" where
  "strictest ds = foldr (\<lambda>d m. max (gd_outcome d) m) ds GateAllow"

lemma gates_loop_outcome:
  "gd_outcome (gates_loop gs def args approval reasons marker) =
     max (if approval then GateRequireApproval else GateAllow) (strictest (verdicts gs def args))"
proof (induction gs def args approval reasons marker rule: gates_loop.induct)
  case (2 g gs def merged approval reasons marker)
  show ?case
  proof (cases "gd_outcome (g def merged)")
    case GateAllow
    then show ?thesis using 2(1) [OF refl GateAllow] GateAllow by (simp add: strictest_def Let_def)
  next
    case GateRequireApproval
    then show ?thesis using 2(2) [OF refl GateRequireApproval] GateRequireApproval
      by (simp add: strictest_def Let_def max.left_commute)
  next
    case GateDeny
    then show ?thesis by (simp add: strictest_def Let_def)
  qed
qed (simp add: allow_def strictest_def)

text \<open>A gate that leaves the arguments as they are.\<close>

definition pure_gate :: "gate \<Rightarrow> bool" where
  "pure_gate g \<longleftrightarrow> (\<forall>def args. gd_args (g def args) = None)"

lemma gates_loop_pure:
  "(\<And>g. g \<in> set gs \<Longrightarrow> gd_args (g def args) = None) \<Longrightarrow>
     strictest (verdicts gs def args) = foldr (\<lambda>g m. max (gd_outcome (g def args)) m) gs GateAllow"
  by (induction gs) (auto simp: strictest_def rewritten_def Let_def)

lemma foldr_max_outcome:
  "foldr (\<lambda>g m. max (f g) m) gs GateAllow = Max (insert GateAllow (f ` set gs))"
  by (induction gs) (auto simp: insert_commute [of GateAllow])

lemma provided_gates_pure [simp]:
  "pure_gate allow_all_gate" "pure_gate (allow_list_gate names)" "pure_gate (deny_list_gate names)"
  "pure_gate (capability_gate policy)"
  by (auto simp: pure_gate_def allow_all_gate_def allow_list_gate_def deny_list_gate_def
      capability_gate_def allow_def deny_def require_approval_def Let_def split: gate_outcome.splits)

lemma prefix_gate_pure [simp]: "pure_gate (prefix_approval_gate reason ps)"
proof -
  have "gd_args (prefix_approval_gate reason ps def args) = None" for def args
    by (induction ps) (auto simp: allow_def require_approval_def)
  then show ?thesis by (simp add: pure_gate_def)
qed

lemmas pure_args =
  provided_gates_pure [unfolded pure_gate_def, rule_format] prefix_gate_pure [unfolded pure_gate_def, rule_format]

text \<open>
  The most restrictive verdict wins, and the order of the gates does not matter: composed gates
  that do not rewrite arguments deny a call exactly when one of them denies it, ask a person exactly
  when none denies it and one asks, and allow it exactly when all of them do, in any order.\<close>

theorem gates_most_restrictive:
  assumes "\<And>g. g \<in> set gs \<Longrightarrow> gd_args (g def args) = None" "set hs = set gs"
  shows "(gd_outcome (gates gs def args) = Max (insert GateAllow ((\<lambda>g. gd_outcome (g def args)) ` set gs))) \<and>
    (gd_outcome (gates hs def args) = gd_outcome (gates gs def args))"
proof (intro conjI)
  show "gd_outcome (gates gs def args) = Max (insert GateAllow ((\<lambda>g. gd_outcome (g def args)) ` set gs))"
    using assms(1) by (simp add: gates_def gates_loop_outcome gates_loop_pure foldr_max_outcome)
  then show "gd_outcome (gates hs def args) = gd_outcome (gates gs def args)"
    using gates_loop_pure [of gs def args] gates_loop_pure [of hs def args] assms(1)
    by (simp add: gates_def gates_loop_outcome foldr_max_outcome assms(2))
qed

theorem gates_most_restrictive_witness:
  "gd_outcome (gates [prefix_approval_gate [] [''write_''], deny_list_gate [''write_all''],
       allow_list_gate [''write_all'']]
     \<lparr>td_name = ''write_all'', td_description = [], td_capability = []\<rparr> None) =
   gd_outcome (gates [allow_list_gate [''write_all''], deny_list_gate [''write_all''],
       prefix_approval_gate [] [''write_'']]
     \<lparr>td_name = ''write_all'', td_description = [], td_capability = []\<rparr> None)"
  by (rule gates_most_restrictive [where gs = "[allow_list_gate [''write_all''],
        deny_list_gate [''write_all''], prefix_approval_gate [] [''write_'']]", THEN conjunct2])
    (auto simp: pure_args simp del: prefix_approval_gate.simps)

section \<open>Nesting\<close>

text \<open>The loop over a list in two parts is the loop over the second from where the first stops.\<close>

fun gates_state ::
    "gate list \<Rightarrow> tool_def \<Rightarrow> tool_args option \<Rightarrow> bool \<Rightarrow> string list \<Rightarrow> marker option \<Rightarrow>
     gate_decision + tool_args option \<times> bool \<times> string list \<times> marker option" where
  "gates_state [] def merged approval reasons marker = Inr (merged, approval, reasons, marker)"
| "gates_state (g # gs) def merged approval reasons marker =
     (let d = g def merged in
      case gd_outcome d of
        GateDeny \<Rightarrow> Inl (d\<lparr>gd_args := rewritten d merged\<rparr>)
      | GateRequireApproval \<Rightarrow>
          gates_state gs def (rewritten d merged) True (add_reason d reasons) (first_marker d marker)
      | GateAllow \<Rightarrow> gates_state gs def (rewritten d merged) approval reasons marker)"

lemma gates_loop_append:
  "gates_loop (gs @ hs) def merged approval reasons marker =
     (case gates_state gs def merged approval reasons marker of
        Inl d \<Rightarrow> d | Inr (m, a, r, k) \<Rightarrow> gates_loop hs def m a r k)"
  by (induction gs def merged approval reasons marker rule: gates_state.induct)
    (auto simp: Let_def split: gate_outcome.splits)

text \<open>A run of the loop that starts with reasons and a marker, from one that starts with none.\<close>

lemma gates_state_shift:
  "gates_state gs def merged approval reasons marker =
     (case gates_state gs def merged False [] None of
        Inl d \<Rightarrow> Inl d
      | Inr (m, a, r, k) \<Rightarrow>
          Inr (m, approval \<or> a, reasons @ r, if marker = None then k else marker))"
proof (induction gs arbitrary: merged approval reasons marker)
  case (Cons g gs)
  let ?d = "g def merged"
  show ?case
  proof (cases "gd_outcome ?d")
    case GateAllow
    then show ?thesis
      using Cons.IH [of "rewritten ?d merged" approval reasons marker] by (simp add: Let_def)
  next
    case GateRequireApproval
    have "gates_state (g # gs) def merged approval reasons marker =
        gates_state gs def (rewritten ?d merged) True (add_reason ?d reasons) (first_marker ?d marker)"
      "gates_state (g # gs) def merged False [] None =
        gates_state gs def (rewritten ?d merged) True (add_reason ?d []) (first_marker ?d None)"
      by (simp_all add: Let_def GateRequireApproval)
    then show ?thesis
      using Cons.IH [of "rewritten ?d merged" True "add_reason ?d reasons" "first_marker ?d marker"]
        Cons.IH [of "rewritten ?d merged" True "add_reason ?d []" "first_marker ?d None"]
      by (auto simp: add_reason_def first_marker_def split: sum.splits)
  next
    case GateDeny
    then show ?thesis by (simp add: Let_def)
  qed
qed simp

lemma rewritten_None: "rewritten d m = None \<Longrightarrow> m = None"
  by (simp add: rewritten_def split: if_splits)

lemma gates_state_fields_gen:
  assumes "gates_state gs def merged approval reasons marker = Inr (m, a, r, k)"
    "list_all (\<lambda>w. w \<noteq> []) reasons" "approval \<or> reasons = [] \<and> marker = None"
  shows "list_all (\<lambda>w. w \<noteq> []) r \<and> (a \<or> r = [] \<and> k = None) \<and> (m = None \<longrightarrow> merged = None)"
  using assms
proof (induction gs arbitrary: merged approval reasons marker)
  case (Cons g gs)
  let ?d = "g def merged"
  show ?case
  proof (cases "gd_outcome ?d")
    case GateAllow
    then show ?thesis
      using Cons.IH [of "rewritten ?d merged" approval reasons marker] Cons.prems
        rewritten_None [of ?d merged] by (auto simp: Let_def)
  next
    case GateRequireApproval
    have "list_all (\<lambda>w. w \<noteq> []) (add_reason ?d reasons)"
      using Cons.prems(2) by (simp add: add_reason_def)
    then show ?thesis
      using Cons.IH [of "rewritten ?d merged" True "add_reason ?d reasons" "first_marker ?d marker"]
        Cons.prems(1) rewritten_None [of ?d merged] GateRequireApproval by (auto simp: Let_def)
  next
    case GateDeny
    then show ?thesis using Cons.prems by (simp add: Let_def)
  qed
qed simp

lemma gates_state_fields:
  assumes "gates_state gs def merged False [] None = Inr (m, a, r, k)"
  shows "list_all (\<lambda>w. w \<noteq> []) r" "\<not> a \<Longrightarrow> r = [] \<and> k = None" "m = None \<Longrightarrow> merged = None"
  using gates_state_fields_gen [OF assms] by auto

lemma join_with_append:
  "join_with s (xs @ ys) = (if xs = [] then join_with s ys else if ys = [] then join_with s xs
     else join_with s xs @ s @ join_with s ys)"
proof (induction xs rule: induct_list012)
  case (2 x)
  then show ?case by (cases ys) auto
next
  case (3 x y zs)
  then show ?case by auto
qed simp

lemma join_with_Nil_iff: "list_all (\<lambda>w. w \<noteq> []) ws \<Longrightarrow> join_with s ws = [] \<longleftrightarrow> ws = []"
  by (cases ws rule: remdups_adj.cases) auto

lemma gates_state_denies:
  "gates_state gs def merged approval reasons marker = Inl d \<Longrightarrow>
     gd_outcome d = GateDeny \<and> (gd_args d = None \<longrightarrow> merged = None)"
proof (induction gs arbitrary: merged approval reasons marker)
  case (Cons g gs)
  let ?d = "g def merged"
  show ?case
  proof (cases "gd_outcome ?d")
    case GateAllow
    then show ?thesis
      using Cons.IH [of "rewritten ?d merged" approval reasons marker] Cons.prems
        rewritten_None [of ?d merged] by (auto simp: Let_def)
  next
    case GateRequireApproval
    then show ?thesis
      using Cons.IH [of "rewritten ?d merged" True "add_reason ?d reasons" "first_marker ?d marker"]
        Cons.prems rewritten_None [of ?d merged] by (auto simp: Let_def)
  next
    case GateDeny
    then show ?thesis using Cons.prems rewritten_None [of ?d merged] by (auto simp: Let_def)
  qed
qed simp

text \<open>What a composed gate does as one gate of a longer chain.\<close>

lemma composed_gate_step:
  "gates_loop (gates hs # rest) def merged approval reasons marker =
     (case gates_state hs def merged False [] None of
        Inl d \<Rightarrow> d
      | Inr (m, a, r, k) \<Rightarrow>
          gates_loop rest def m (approval \<or> a)
            (if r = [] then reasons else reasons @ [join_with ''; '' r])
            (if marker = None then k else marker))"
proof -
  have g: "gates hs def merged =
      (case gates_state hs def merged False [] None of
         Inl d \<Rightarrow> d | Inr (m, a, r, k) \<Rightarrow> gates_loop [] def m a r k)"
    using gates_loop_append [of hs "[]" def merged False "[]" None] by (simp add: gates_def)
  show ?thesis
  proof (cases "gates_state hs def merged False [] None")
    case (Inl d)
    then show ?thesis
      using gates_state_denies [OF Inl] by (auto simp: g rewritten_def Let_def)
  next
    case (Inr st)
    obtain m a r k where st: "st = (m, a, r, k)" by (cases st)
    note f = gates_state_fields [OF Inr [unfolded st]]
    have rw: "rewritten (gates hs def merged) merged = m"
      using f(3) by (auto simp: g Inr st rewritten_def allow_def)
    show ?thesis
    proof (cases a)
      case True
      then show ?thesis
        using rw join_with_Nil_iff [OF f(1), of "''; ''"]
        by (simp add: g Inr st add_reason_def first_marker_def)
    next
      case False
      then show ?thesis
        using rw f(2) by (auto simp: g Inr st allow_def)
    qed
  qed
qed

text \<open>
  Composition is associative: gates grouped into composed gates decide as the flat list does,
  with the same outcome, reason, marker and arguments, so a policy can be built out of policies.\<close>

theorem gates_nested:
  "gates [gates gs, gates hs] def args = gates (gs @ hs) def args"
proof (cases "gates_state gs def args False [] None")
  case (Inl d)
  then show ?thesis
    unfolding gates_def [of "[gates gs, gates hs]"] composed_gate_step
    by (simp add: gates_def gates_loop_append)
next
  case (Inr st)
  obtain m a r k where st: "st = (m, a, r, k)" by (cases st)
  note f = gates_state_fields [OF Inr [unfolded st]]
  have "gates [gates gs, gates hs] def args =
      gates_loop [gates hs] def m a (if r = [] then [] else [join_with ''; '' r]) k"
    unfolding gates_def [of "[gates gs, gates hs]"] composed_gate_step [of gs "[gates hs]"]
    by (simp add: Inr st del: gates_loop.simps)
  also have "\<dots> = gates_loop hs def m a r k"
  proof (cases "gates_state hs def m False [] None")
    case (Inl d)
    then show ?thesis
      using gates_loop_append [of hs "[]" def m a r k] gates_state_shift [of hs def m a r k]
      unfolding composed_gate_step by simp
  next
    case (Inr st')
    obtain m' a' r' k' where st': "st' = (m', a', r', k')" by (cases st')
    note f' = gates_state_fields [OF Inr [unfolded st']]
    show ?thesis
      using gates_loop_append [of hs "[]" def m a r k] gates_state_shift [of hs def m a r k] f(2) f'(2)
      unfolding composed_gate_step by (auto simp: Inr st' join_with_append)
  qed
  also have "\<dots> = gates (gs @ hs) def args"
    by (simp add: gates_def gates_loop_append Inr st)
  finally show ?thesis .
qed

end
