(* ===== verification/Approval.thy ===== *)
theory Approval
  imports Gates Conversation
begin

text \<open>
  The approval policy of the agent, \<open>agent/approval_policy.go\<close>: the grants and counts of a
  conversation, rebuilt from the approval records on its branch, the verdict on a call before
  anyone is asked, and the request for a decision. The person's answer (\<open>awaitApprovalPhase\<close>), the
  durable step runner and the digest of a grant's identifier are arguments.
\<close>

section \<open>Policy and state\<close>

record approval_policy =
  po_risk_defaults :: bool
  po_deny_after :: int
  po_hide_denied :: bool
  po_ramp_after :: int

definition risk_gate :: gate where
  "risk_gate = capability_gate (Some
     [(CapRead, GateAllow), (CapWrite, GateRequireApproval), (CapDestructive, GateRequireApproval),
      (CapUnknown, GateRequireApproval)])"

record approval_state =
  as_grants :: "grant list"
  as_approvals :: "(string, int) gomap"
  as_denials :: "(string, int) gomap"

definition empty_approvals :: approval_state where
  "empty_approvals = \<lparr>as_grants = [], as_approvals = [], as_denials = []\<rparr>"

definition count_in :: "(string, int) gomap \<Rightarrow> string \<Rightarrow> int" where
  "count_in m k = (case map_of m k of Some n \<Rightarrow> n | None \<Rightarrow> 0)"

definition bump :: "(string, int) gomap \<Rightarrow> string \<Rightarrow> (string, int) gomap" where
  "bump m k = AList.update k (wrap64 (count_in m k + 1)) m"

definition apply_record :: "approval_state \<Rightarrow> approval_part \<Rightarrow> approval_state" where
  "apply_record s rec =
     (case ap_event rec of
        EvGranted \<Rightarrow>
          s\<lparr>as_grants := as_grants s @ (case ap_grant rec of Some g \<Rightarrow> [g] | None \<Rightarrow> []),
            as_approvals := bump (as_approvals s) (ap_tool rec)\<rparr>
      | EvApproved \<Rightarrow> s\<lparr>as_approvals := bump (as_approvals s) (ap_tool rec)\<rparr>
      | EvDenied \<Rightarrow> s\<lparr>as_denials := bump (as_denials s) (ap_tool rec)\<rparr>
      | EvSnapshot \<Rightarrow>
          \<lparr>as_grants = ap_grants rec, as_approvals = ap_approvals rec, as_denials = ap_denials rec\<rparr>
      | EvAutoApproved \<Rightarrow> s
      | EvAutoDenied \<Rightarrow> s)"

text \<open>Records are read from system messages only.\<close>

fun records_of :: "message \<Rightarrow> approval_part list" where
  "records_of (SystemMessage ps) =
     concat (map (\<lambda>p. case p of ApprovalPart rec \<Rightarrow> [rec] | _ \<Rightarrow> []) ps)"
| "records_of (UserMessage ps) = []"
| "records_of (AssistantMessage ps) = []"

definition new_approval_state :: "message list \<Rightarrow> approval_state" where
  "new_approval_state msgs =
     foldl (\<lambda>s m. foldl apply_record s (records_of m)) empty_approvals msgs"

definition snapshot :: "approval_state \<Rightarrow> approval_part option" where
  "snapshot s =
     (if as_grants s = [] \<and> as_approvals s = [] \<and> as_denials s = [] then None
      else Some \<lparr>ap_event = EvSnapshot, ap_tool = [], ap_call_id = [], ap_grant = None,
        ap_grant_id = [], ap_approver = [], ap_reason = [], ap_grants = as_grants s,
        ap_approvals = as_approvals s, ap_denials = as_denials s\<rparr>)"

text \<open>The message compaction carries over to the branch it created.\<close>

definition carry_approvals :: "approval_state option \<Rightarrow> message option" where
  "carry_approvals st =
     (case st of
        None \<Rightarrow> None
      | Some s \<Rightarrow> map_option (\<lambda>rec. SystemMessage [ApprovalPart rec]) (snapshot s))"

definition denied :: "approval_state \<Rightarrow> string \<Rightarrow> int \<Rightarrow> bool" where
  "denied s tool limit = (0 < limit \<and> limit \<le> count_in (as_denials s) tool)"

definition grants_of :: "message list \<Rightarrow> grant list" where
  "grants_of msgs = as_grants (new_approval_state msgs)"

section \<open>The verdict\<close>

definition verdict_ask :: approval_verdict where
  "verdict_ask = \<lparr>av_outcome = VerdictAsk, av_grant = [], av_reason = []\<rparr>"

text \<open>The newest grant that covers the call.\<close>

definition covering_grant :: "grant list \<Rightarrow> string \<Rightarrow> tool_args \<Rightarrow> time \<Rightarrow> grant option" where
  "covering_grant gs tool args now = List.find (\<lambda>g. covers g tool args now) (rev gs)"

definition state_verdict ::
    "approval_state \<Rightarrow> approval_policy \<Rightarrow> tool_def \<Rightarrow> tool_args \<Rightarrow> time \<Rightarrow> approval_verdict" where
  "state_verdict s p def args now =
     (if 0 < po_deny_after p \<and> po_deny_after p \<le> count_in (as_denials s) (td_name def) then
        \<lparr>av_outcome = VerdictDeny, av_grant = [],
         av_reason = ''tool '' @ td_name def @ '' was denied '' @
           itoa (count_in (as_denials s) (td_name def)) @ '' times in this conversation''\<rparr>
      else if effective (td_capability def) = CapDestructive then verdict_ask
      else (case covering_grant (as_grants s) (td_name def) args now of
         Some g \<Rightarrow> \<lparr>av_outcome = VerdictApprove, av_grant = g_id g, av_reason = []\<rparr>
       | None \<Rightarrow>
           if 0 < po_ramp_after p \<and> effective (td_capability def) = CapWrite \<and>
              po_ramp_after p \<le> count_in (as_approvals s) (td_name def)
           then \<lparr>av_outcome = VerdictApprove, av_grant = [],
             av_reason = ''approved '' @ itoa (count_in (as_approvals s) (td_name def)) @
               '' times in this conversation''\<rparr>
           else verdict_ask))"

text \<open>
  A durable runner returns what it recorded for the step, or runs it now: from the step's name and
  the verdict decided now, an error or the verdict on record. \<open>None\<close> is the inline runner.
\<close>

type_synonym step_runner = "(string \<Rightarrow> approval_verdict \<Rightarrow> string + approval_verdict option) option"

definition policy_verdict ::
    "step_runner \<Rightarrow> approval_policy \<Rightarrow> approval_state \<Rightarrow> string \<Rightarrow> tool_args \<Rightarrow> tool_def \<Rightarrow> string \<Rightarrow> time \<Rightarrow>
     string + approval_verdict" where
  "policy_verdict runner p s call_id args def phase now =
     (case runner of
        None \<Rightarrow> Inr (state_verdict s p def args now)
      | Some run \<Rightarrow>
          (case run (''approval-'' @ phase @ ''-'' @ call_id) (state_verdict s p def args now) of
             Inl e \<Rightarrow> Inl e
           | Inr None \<Rightarrow> Inr verdict_ask
           | Inr (Some v) \<Rightarrow> Inr v))"

section \<open>Asking for a decision\<close>

record decision =
  dc_approved :: bool
  dc_args :: "tool_args option"
  dc_message :: string
  dc_approver :: string
  dc_grant :: "grant_request option"
  dc_denied :: bool

definition refusal :: "string \<Rightarrow> decision" where
  "refusal msg = \<lparr>dc_approved = False, dc_args = None, dc_message = msg, dc_approver = [],
     dc_grant = None, dc_denied = False\<rparr>"

definition automatic :: decision where
  "automatic = \<lparr>dc_approved = True, dc_args = None, dc_message = [], dc_approver = [],
     dc_grant = None, dc_denied = False\<rparr>"

record call_approval =
  ca_required :: bool
  ca_approver :: string
  ca_grant :: string

definition grant_from :: "(string \<Rightarrow> string) \<Rightarrow> decision \<Rightarrow> tool_def \<Rightarrow> string \<Rightarrow> grant option" where
  "grant_from digest d def call_id =
     (case dc_grant d of
        None \<Rightarrow> None
      | Some req \<Rightarrow>
          if effective (td_capability def) = CapDestructive then None
          else if grant_validate req \<noteq> None then None
          else new_grant digest req (td_name def) call_id (dc_approver d))"

definition approval_record :: "approval_event \<Rightarrow> tool_def \<Rightarrow> string \<Rightarrow> approval_part" where
  "approval_record ev def call_id =
     \<lparr>ap_event = ev, ap_tool = td_name def, ap_call_id = call_id, ap_grant = None, ap_grant_id = [],
      ap_approver = [], ap_reason = [], ap_grants = [], ap_approvals = [], ap_denials = []\<rparr>"

text \<open>What a person's answer records.\<close>

definition answer_record :: "(string \<Rightarrow> string) \<Rightarrow> decision \<Rightarrow> bool \<Rightarrow> tool_def \<Rightarrow> string \<Rightarrow> approval_part list" where
  "answer_record digest d ok def call_id =
     (if ok then
        (case grant_from digest d def call_id of
           Some g \<Rightarrow> [(approval_record EvGranted def call_id)\<lparr>ap_grant := Some g, ap_approver := dc_approver d\<rparr>]
         | None \<Rightarrow> [(approval_record EvApproved def call_id)\<lparr>ap_approver := dc_approver d\<rparr>])
      else if dc_denied d then
        [(approval_record EvDenied def call_id)\<lparr>ap_approver := dc_approver d, ap_reason := dc_message d\<rparr>]
      else [])"

text \<open>The result of a request: the state, what the call learns of its approval, the records to
  write, the decision with whether the call may run, and the error that stops the run.\<close>

record request_result =
  rr_state :: "approval_state option"
  rr_approval :: "call_approval option"
  rr_records :: "approval_part list"
  rr_decision :: decision
  rr_ok :: bool
  rr_stop :: "string option"

definition approval_of :: "decision \<times> bool \<Rightarrow> call_approval option" where
  "approval_of answer =
     (if snd answer then Some \<lparr>ca_required = True, ca_approver = dc_approver (fst answer), ca_grant = []\<rparr>
      else None)"

definition record_all :: "approval_state \<Rightarrow> approval_part list \<Rightarrow> approval_state" where
  "record_all s recs = foldl apply_record s recs"

definition request_approval ::
    "step_runner \<Rightarrow> approval_policy option \<Rightarrow> (string \<Rightarrow> string) \<Rightarrow> decision \<times> bool \<Rightarrow>
     approval_state option \<Rightarrow> string \<Rightarrow> tool_args \<Rightarrow> tool_def \<Rightarrow> string \<Rightarrow> time \<Rightarrow> request_result" where
  "request_approval runner policy digest answer st call_id args def phase now =
     (case (policy, st) of
        (Some p, Some s) \<Rightarrow>
          (case policy_verdict runner p s call_id args def phase now of
             Inl e \<Rightarrow> \<lparr>rr_state = st, rr_approval = None, rr_records = [], rr_decision = refusal e,
                 rr_ok = False, rr_stop = Some e\<rparr>
           | Inr v \<Rightarrow>
               (case av_outcome v of
                  VerdictDeny \<Rightarrow>
                    (let recs = [(approval_record EvAutoDenied def call_id)\<lparr>ap_reason := av_reason v\<rparr>] in
                     \<lparr>rr_state = Some (record_all s recs), rr_approval = None, rr_records = recs,
                      rr_decision = refusal (''refused: '' @ av_reason v), rr_ok = False, rr_stop = None\<rparr>)
                | VerdictApprove \<Rightarrow>
                    (let recs = [(approval_record EvAutoApproved def call_id)
                           \<lparr>ap_grant_id := av_grant v, ap_reason := av_reason v\<rparr>] in
                     \<lparr>rr_state = Some (record_all s recs),
                      rr_approval = Some \<lparr>ca_required = True, ca_approver = [], ca_grant = av_grant v\<rparr>,
                      rr_records = recs, rr_decision = automatic, rr_ok = True, rr_stop = None\<rparr>)
                | VerdictAsk \<Rightarrow>
                    (let recs = answer_record digest (fst answer) (snd answer) def call_id in
                     \<lparr>rr_state = Some (record_all s recs), rr_approval = approval_of answer,
                      rr_records = recs, rr_decision = fst answer, rr_ok = snd answer, rr_stop = None\<rparr>)))
      | _ \<Rightarrow> \<lparr>rr_state = st, rr_approval = approval_of answer, rr_records = [],
             rr_decision = fst answer, rr_ok = snd answer, rr_stop = None\<rparr>)"

section \<open>Hiding denied tools\<close>

definition hide_denied ::
    "approval_policy option \<Rightarrow> approval_state option \<Rightarrow> tool_def list \<Rightarrow> tool_def list" where
  "hide_denied policy st tools =
     (case (policy, st) of
        (Some p, Some s) \<Rightarrow>
          if \<not> po_hide_denied p \<or> po_deny_after p \<le> 0 then tools
          else filter (\<lambda>t. \<not> denied s (td_name t) (po_deny_after p)) tools
      | _ \<Rightarrow> tools)"

end
