(* ===== verification/Approval_Properties.thy ===== *)
theory Approval_Properties
  imports Approval
begin

text \<open>
  What the approval policy promises: destructive calls are always asked about, an automatic
  approval has a grant or the ramp behind it, the records on a branch rebuild the state, a
  compaction carries it over, and a path grant stays inside its directory.
\<close>

section \<open>Who approved\<close>




text \<open>
  Every destructive call is asked about: whatever grants, counts and policy a conversation has,
  the outcome on a destructive call is the person's answer, unless the denial limit refuses it, and
  the answer leaves no grant behind.\<close>

theorem destructive_always_asked:
  assumes "effective (td_capability def) = CapDestructive"
    and "r = request_approval None (Some p) digest answer (Some s) call_id args def phase now"
  shows "(rr_ok r \<longrightarrow> snd answer \<and> rr_decision r = fst answer) \<and>
    (\<not> denied s (td_name def) (po_deny_after p) \<longrightarrow> rr_ok r = snd answer \<and> rr_decision r = fst answer) \<and>
    (\<exists>s'. rr_state r = Some s' \<and> as_grants s' = as_grants s)"
  using assms
  by (auto simp: request_approval_def policy_verdict_def state_verdict_def verdict_ask_def denied_def
      answer_record_def grant_from_def record_all_def apply_record_def approval_record_def Let_def
      split: option.splits)

definition demo_delete :: tool_def where
  "demo_delete = \<lparr>td_name = ''delete'', td_description = [], td_capability = CapDestructive\<rparr>"

definition demo_grants :: approval_state where
  "demo_grants =
     \<lparr>as_grants = [\<lparr>g_id = ''g1'', g_scope = GrantSession, g_tool = [], g_match = [], g_expires = 50,
        g_granted_by = ''ann'', g_call_id = ''c0''\<rparr>], as_approvals = [], as_denials = []\<rparr>"

definition demo_policy_cfg :: approval_policy where
  "demo_policy_cfg = \<lparr>po_risk_defaults = True, po_deny_after = 2, po_hide_denied = False, po_ramp_after = 3\<rparr>"


theorem destructive_always_asked_witness:
  "\<not> rr_ok (request_approval None (Some demo_policy_cfg) (\<lambda>s. s) (refusal [], False) (Some demo_grants)
      ''c1'' [] demo_delete ''gate'' 10)"
proof -
  have d: "effective (td_capability demo_delete) = CapDestructive" by code_simp
  show ?thesis using destructive_always_asked [OF d refl, of demo_policy_cfg "\<lambda>s. s"
      "(refusal [], False)" demo_grants "''c1''" "[]" "''gate''" 10] by simp
qed

section \<open>Rebuilding the state\<close>

lemma new_approval_state_append:
  "new_approval_state (ms @ ms') = foldl (\<lambda>s m. foldl apply_record s (records_of m)) (new_approval_state ms) ms'"
  by (simp add: new_approval_state_def)







text \<open>
  Compaction does not forget approvals: on the new branch, whose own messages carry no records,
  the message \<open>carryApprovals\<close> writes rebuilds the grants and counts as they were, and when it
  writes none there was nothing to carry.\<close>

theorem compaction_carries_approvals:
  assumes "\<And>m. m \<in> set msgs \<Longrightarrow> records_of m = []"
  shows "new_approval_state (msgs @ (case carry_approvals (Some s) of Some m \<Rightarrow> [m] | None \<Rightarrow> [])) = s"
proof -
  have "new_approval_state msgs = empty_approvals"
    using assms by (induction msgs) (simp_all add: new_approval_state_def)
  then show ?thesis
    by (cases s) (auto simp: new_approval_state_append carry_approvals_def snapshot_def apply_record_def
        empty_approvals_def split: option.splits)
qed

theorem compaction_carries_approvals_witness:
  "as_grants (new_approval_state ([UserMessage [TextPart ''hi'']] @
     (case carry_approvals (Some demo_grants) of Some m \<Rightarrow> [m] | None \<Rightarrow> []))) = as_grants demo_grants"
  using compaction_carries_approvals [of "[UserMessage [TextPart ''hi'']]" demo_grants] by simp

section \<open>Path grants\<close>

lemma render_split:
  assumes "clean_form ab cs" "cs \<noteq> []"
  shows "split_on CHR ''/'' (render_path ab cs) = (if ab then [] # cs else cs)"
proof -
  have "split_on CHR ''/'' (join_with ''/'' cs) = cs"
    using assms clean_form_comps [OF assms(1)] by (intro split_join) auto
  then show ?thesis using assms(2) by (simp add: render_path_def)
qed

lemma join_last_char:
  assumes "cs \<noteq> []" "last cs \<noteq> []" "c \<notin> set (last cs)"
  shows "join_with [d] cs \<noteq> [] \<and> last (join_with [d] cs) \<noteq> c"
  using assms
proof (induction cs rule: induct_list012)
  case (2 x)
  then show ?case by (metis join_with.simps(2) last.simps last_in_set)
next
  case (3 x y zs)
  then have "join_with [d] (y # zs) \<noteq> [] \<and> last (join_with [d] (y # zs)) \<noteq> c" by simp
  then show ?case by simp
qed simp

lemma trim_suffix_slash:
  assumes "s \<noteq> []" "last s \<noteq> c"
  shows "trim_suffix s [c] = s"
proof -
  have "\<not> has_suffix s [c]" using assms by (auto simp: has_suffix_iff)
  then show ?thesis by (simp add: trim_suffix_def)
qed

lemma rooted_Cons: "rooted (c # s) \<longleftrightarrow> c = CHR ''/''"
  by (simp add: rooted_def has_prefix_def)

lemma clean_comps_roots:
  "rooted (path_clean s) = rooted s"
proof -
  have f: "clean_form (rooted s) (clean_comps s)" by (rule clean_comps_form)
  show ?thesis
  proof (cases "rooted s \<or> clean_comps s = []")
    case False
    then obtain c cs where cs: "clean_comps s = c # cs" by (cases "clean_comps s") auto
    then have "c \<noteq> [] \<and> CHR ''/'' \<notin> set c" using clean_form_comps [OF f, of c] by simp
    then show ?thesis using False cs by (cases c; cases cs) (auto simp: path_clean_def render_path_def rooted_Cons)
  qed (auto simp: path_clean_def render_path_def rooted_Cons)
qed

lemma clean_split:
  "clean_comps s \<noteq> [] \<Longrightarrow>
     split_on CHR ''/'' (path_clean s) = (if rooted s then [] # clean_comps s else clean_comps s)"
  using render_split [OF clean_comps_form] by (simp add: path_clean_def)

lemma clean_empty: "clean_comps s = [] \<longleftrightarrow> path_clean s = (if rooted s then ''/'' else ''.'')"
proof
  assume "clean_comps s = []"
  then show "path_clean s = (if rooted s then ''/'' else ''.'')" by (simp add: path_clean_def render_path_def)
next
  assume p: "path_clean s = (if rooted s then ''/'' else ''.'')"
  show "clean_comps s = []"
  proof (rule ccontr)
    assume "clean_comps s \<noteq> []"
    then have "clean_comps s = [[]] \<or> clean_comps s = [''.'']"
      using clean_split [of s] p by (auto split: if_splits)
    then show False using clean_form_comps [OF clean_comps_form [of s]] by auto
  qed
qed

lemma same_clean_path:
  assumes "path_clean s = path_clean r"
  shows "rooted s = rooted r \<and> clean_comps s = clean_comps r"
proof -
  have rt: "rooted s = rooted r" by (metis assms clean_comps_roots)
  have "clean_comps s = [] \<longleftrightarrow> clean_comps r = []" unfolding clean_empty by (simp add: assms rt)
  then show ?thesis
    using clean_split [of s] clean_split [of r] assms rt by (auto split: if_splits)
qed

text \<open>A cleaned path with components does not end in a slash, and what extends it by one has
  more components.\<close>

lemma clean_path_end:
  assumes "clean_comps s \<noteq> []"
  shows "path_clean s \<noteq> [] \<and> last (path_clean s) \<noteq> CHR ''/''"
proof -
  have "last (clean_comps s) \<noteq> [] \<and> CHR ''/'' \<notin> set (last (clean_comps s))"
    using clean_form_comps [OF clean_comps_form [of s]] assms by simp
  then show ?thesis
    using join_last_char [OF assms, of "CHR ''/''" "CHR ''/''"] assms
    by (auto simp: path_clean_def render_path_def)
qed

lemma clean_path_extends:
  assumes "clean_comps r \<noteq> []" "path_clean s = path_clean r @ CHR ''/'' # x"
  shows "rooted s = rooted r \<and> clean_comps s = clean_comps r @ split_on CHR ''/'' x"
proof -
  note pr = clean_path_end [OF assms(1)]
  have rt: "rooted s = rooted r"
    using assms(2) pr clean_comps_roots [of s] clean_comps_roots [of r]
    by (cases "path_clean r") (auto simp: rooted_Cons)
  have "clean_comps s \<noteq> []"
    using pr by (cases "path_clean r") (auto simp: clean_empty assms(2) split: if_splits)
  then show ?thesis
    using clean_split [of s] clean_split [OF assms(1)] rt by (simp add: assms(2) split_on_sep split: if_splits)
qed

text \<open>
  A path grant stays inside its directory: an argument that matches a path prefix names, once
  cleaned, the directory of the grant itself or something below it, reached by plain names: no
  \<open>..\<close> escapes it. The directory is not one that ends in \<open>..\<close> after cleaning.\<close>

theorem path_grant_stays_inside:
  assumes "path_under root s" "clean_comps root = [] \<longrightarrow> rooted root"
    and "clean_comps root \<noteq> [] \<longrightarrow> last (clean_comps root) \<noteq> ''..''"
  shows "\<exists>ns. clean_comps s = clean_comps root @ ns \<and> list_all is_name ns \<and> rooted s = rooted root"
proof (cases "clean_comps root = []")
  case True
  have r: "rooted root" using assms(2) True by blast
  have "path_clean root = ''/''" using iffD1 [OF clean_empty True] unfolding if_P [OF r] .
  then have "rooted (path_clean s)"
    using assms(1) by (auto simp: path_under_def rooted_def trim_suffix_def has_suffix_def has_prefix_def Let_def)
  then have "rooted s" by (simp add: clean_comps_roots)
  moreover have "list_all is_name (clean_comps s)"
    using clean_comps_form [of s] \<open>rooted s\<close> by (auto simp: clean_form_def)
  ultimately show ?thesis using True r by simp
next
  case False
  have trim: "trim_suffix (path_clean root) ''/'' = path_clean root"
    using clean_path_end [OF False] by (intro trim_suffix_slash) auto
  from assms(1) consider "path_clean s = path_clean root"
    | x where "path_clean s = path_clean root @ CHR ''/'' # x"
    by (auto simp: path_under_def trim has_prefix_iff Let_def)
  then show ?thesis
  proof cases
    case 1
    then show ?thesis using same_clean_path [OF 1] by simp
  next
    case 2
    note e = clean_path_extends [OF False 2]
    have "list_all is_name (split_on CHR ''/'' x)"
      by (rule clean_form_tail [of "rooted s" "clean_comps root"])
        (use assms(3) False clean_comps_form [of s] e in simp_all)
    then show ?thesis using e by blast
  qed
qed

theorem path_grant_stays_inside_witness:
  "path_under ''/srv/app'' ''/srv/./app//logs'' \<and> \<not> path_under ''/srv/app'' ''/srv/app/../etc'' \<and>
   (\<exists>ns. clean_comps ''/srv/./app//logs'' = clean_comps ''/srv/app'' @ ns \<and> list_all is_name ns)"
proof -
  have "path_under ''/srv/app'' ''/srv/./app//logs''" "\<not> path_under ''/srv/app'' ''/srv/app/../etc''"
    "clean_comps ''/srv/app'' = [''srv'', ''app'']"
    by code_simp+
  then show ?thesis
    using path_grant_stays_inside [of "''/srv/app''" "''/srv/./app//logs''"] by auto
qed

text \<open>A relative root that climbs covers paths above it.\<close>

lemma climbing_root_escapes: "path_under ''..'' ''../../etc''"
  by code_simp

end
