(* ===== verification/Float64.thy ===== *)
theory Float64
  imports Prelude Complex_Main "HOL-Library.Log_Nat"
begin

text \<open>
  Go's \<open>float64\<close> as far as the program computes with it: a finite value is a rational number, and
  every operation is the exact operation followed by \<open>rnd64\<close>, rounding to the nearest value with
  53 significant bits (ties to even) and exponent at least \<open>-1074\<close>, as IEEE 754 prescribes for
  binary64. Infinities and NaN are left out: the values of the program are prices and amounts of
  money, far below \<open>2 ^ 1024\<close>. Rounding is monotone, which is what the pricing proofs rest on.
\<close>

section \<open>The binary exponent\<close>

definition floor_log2 :: "rat \<Rightarrow> int" where
  "floor_log2 x =
     (let (a, b) = quotient_of x;
          k = int (floorlog 2 (nat a)) - int (floorlog 2 (nat b))
      in if 2 powi k \<le> x then k else k - 1)"

lemma two_powi_less [simp]: "(2 :: rat) powi i < 2 powi j \<longleftrightarrow> i < j"
  using power_int_strict_increasing [of i j "2 :: rat"] power_int_increasing [of j i "2 :: rat"]
  by (cases "i < j") auto

lemma two_powi_le [simp]: "(2 :: rat) powi i \<le> 2 powi j \<longleftrightarrow> i \<le> j"
  using two_powi_less [of j i] by (simp only: not_less [symmetric])

lemma two_powi_pos [simp]: "0 < (2 :: rat) powi i"
  by (simp add: zero_less_power_int)

lemma floor_log2_bounds:
  assumes "0 < x"
  shows "2 powi floor_log2 x \<le> x" "x < 2 powi (floor_log2 x + 1)"
proof -
  obtain a b where q: "quotient_of x = (a, b)" by (cases "quotient_of x") auto
  have x: "x = of_int a / of_int b" and b: "0 < b"
    using quotient_of_div [OF q] quotient_of_denom_pos [OF q] by auto
  have a: "0 < a" using assms x b by (simp add: zero_less_divide_iff)
  define m n where "m = floorlog 2 (nat a)" and "n = floorlog 2 (nat b)"
  have m: "2 ^ (m - 1) \<le> nat a \<and> nat a < 2 ^ m" and n: "2 ^ (n - 1) \<le> nat b \<and> nat b < 2 ^ n"
    using floorlog_bounds [of "nat a" 2] floorlog_bounds [of "nat b" 2] a b by (auto simp: m_def n_def)
  have pos: "1 \<le> m" "1 \<le> n"
    using a b floorlog_eq_zero_iff [of 2 "nat a"] floorlog_eq_zero_iff [of 2 "nat b"]
    by (auto simp: m_def n_def)
  have lift: "(2 :: rat) ^ k \<le> of_int c \<longleftrightarrow> 2 ^ k \<le> nat c"
    "(of_int c :: rat) < 2 ^ k \<longleftrightarrow> nat c < 2 ^ k" if "0 < c" for c :: int and k
  proof -
    have "(2 :: rat) ^ k \<le> of_int c \<longleftrightarrow> (2 :: int) ^ k \<le> c"
      by (metis of_int_le_iff of_int_numeral of_int_power)
    then show "(2 :: rat) ^ k \<le> of_int c \<longleftrightarrow> 2 ^ k \<le> nat c"
      using that by (simp add: nat_le_iff le_nat_iff)
    have "(of_int c :: rat) < 2 ^ k \<longleftrightarrow> c < (2 :: int) ^ k"
      by (metis of_int_less_iff of_int_numeral of_int_power)
    then show "(of_int c :: rat) < 2 ^ k \<longleftrightarrow> nat c < 2 ^ k"
      using that by (simp add: nat_less_iff)
  qed
  have A: "(2 :: rat) powi (int m - 1) \<le> of_int a" "(of_int a :: rat) < 2 powi int m"
    using m lift [OF a] pos by (auto simp: power_int_def nat_diff_distrib nat_less_iff)
  have B: "(2 :: rat) powi (int n - 1) \<le> of_int b" "(of_int b :: rat) < 2 powi int n"
    using n lift [OF b] pos by (auto simp: power_int_def nat_diff_distrib nat_less_iff)
  have up: "x < 2 powi (int m - int n + 1)"
  proof -
    have "of_int a < (2 :: rat) powi (int m - int n + 1) * 2 powi (int n - 1)"
      using A(2) by (simp flip: power_int_add)
    also have "\<dots> \<le> 2 powi (int m - int n + 1) * of_int b"
      using B(1) by (intro mult_left_mono) (auto intro: less_imp_le)
    finally show ?thesis using b by (simp add: x divide_less_eq)
  qed
  have low: "2 powi (int m - int n - 1) \<le> x"
  proof -
    have "(2 :: rat) powi (int m - int n - 1) * of_int b \<le> 2 powi (int m - int n - 1) * 2 powi int n"
      using B(2) by (intro mult_left_mono) (auto intro: less_imp_le)
    also have "\<dots> = 2 powi (int m - 1)"
      using power_int_add [of "2 :: rat" "int m - int n - 1" "int n"] by simp
    also have "\<dots> \<le> of_int a" by (rule A(1))
    finally show ?thesis using b by (simp add: x le_divide_eq)
  qed
  show "2 powi floor_log2 x \<le> x" "x < 2 powi (floor_log2 x + 1)"
    using up low by (auto simp: floor_log2_def q m_def [symmetric] n_def [symmetric] Let_def)
qed

lemma floor_log2_mono:
  assumes "0 < x" "x \<le> y"
  shows "floor_log2 x \<le> floor_log2 y"
proof -
  have "2 powi floor_log2 x < (2 :: rat) powi (floor_log2 y + 1)"
    using floor_log2_bounds [of x] floor_log2_bounds [of y] assms by linarith
  then show ?thesis by simp
qed

section \<open>Rounding\<close>

text \<open>To the nearest integer, ties to the even one.\<close>

definition round_even :: "rat \<Rightarrow> int" where
  "round_even x =
     (let f = \<lfloor>x\<rfloor>; d = x - of_int f in
      if d < 1 / 2 then f else if 1 / 2 < d then f + 1 else if even f then f else f + 1)"

lemma round_even_bounds: "\<lfloor>x\<rfloor> \<le> round_even x" "round_even x \<le> \<lfloor>x\<rfloor> + 1"
  by (auto simp: round_even_def Let_def)

lemma round_even_of_int [simp]: "round_even (of_int n) = n"
  by (simp add: round_even_def)

lemma round_even_mono: "x \<le> y \<Longrightarrow> round_even x \<le> round_even y"
proof (cases "\<lfloor>x\<rfloor> = \<lfloor>y\<rfloor>")
  case True
  assume "x \<le> y"
  then show ?thesis using True by (auto simp: round_even_def Let_def)
next
  case False
  assume le: "x \<le> y"
  then have "\<lfloor>x\<rfloor> + 1 \<le> \<lfloor>y\<rfloor>" using False floor_mono [OF le] by linarith
  then show ?thesis using round_even_bounds [of x] round_even_bounds [of y] by linarith
qed

text \<open>The unit in the last place of a positive value.\<close>

definition ulp_exp :: "rat \<Rightarrow> int" where
  "ulp_exp x = max (floor_log2 x - 52) (- 1074)"

definition round_pos :: "rat \<Rightarrow> rat" where
  "round_pos x = of_int (round_even (x / 2 powi ulp_exp x)) * 2 powi ulp_exp x"

definition rnd64 :: "rat \<Rightarrow> rat" where
  "rnd64 x = (if x = 0 then 0 else if 0 < x then round_pos x else - round_pos (- x))"

lemma round_pos_nonneg: "0 < x \<Longrightarrow> 0 \<le> round_pos x"
proof -
  assume "0 < x"
  then have "0 \<le> x / 2 powi ulp_exp x" by (simp add: less_imp_le)
  then have "0 \<le> round_even (x / 2 powi ulp_exp x)"
    using round_even_mono [of 0 "x / 2 powi ulp_exp x"] round_even_of_int [of 0] by simp
  then show ?thesis by (simp add: round_pos_def less_imp_le)
qed

lemma round_pos_mono:
  assumes "0 < x" "x \<le> y"
  shows "round_pos x \<le> round_pos y"
proof (cases "ulp_exp x = ulp_exp y")
  case True
  have "x / 2 powi ulp_exp y \<le> y / 2 powi ulp_exp y"
    using assms by (intro divide_right_mono) (auto intro: less_imp_le)
  then show ?thesis
    unfolding round_pos_def True by (intro mult_right_mono) (auto intro: round_even_mono less_imp_le)
next
  case False
  define u v where "u = ulp_exp x" and "v = ulp_exp y"
  have uv: "u + 1 \<le> v" using False floor_log2_mono [OF assms] by (auto simp: u_def v_def ulp_exp_def)
  have v: "v = floor_log2 y - 52" using uv by (auto simp: u_def v_def ulp_exp_def)
  have u: "floor_log2 x - 52 \<le> u" by (simp add: u_def ulp_exp_def)
  have "x \<le> 2 powi (u + 53)"
  proof -
    have "x < 2 powi (floor_log2 x + 1)" by (rule floor_log2_bounds(2) [OF assms(1)])
    also have "\<dots> \<le> 2 powi (u + 53)" using u by simp
    finally show ?thesis by simp
  qed
  then have "x / 2 powi u \<le> 2 powi (u + 53) / 2 powi u"
    by (intro divide_right_mono) (auto intro: less_imp_le)
  then have "x / 2 powi u \<le> of_int (2 ^ 53)" by (simp add: power_int_add)
  then have "round_even (x / 2 powi u) \<le> 2 ^ 53"
    using round_even_mono round_even_of_int by metis
  then have X: "round_pos x \<le> of_int (2 ^ 53) * 2 powi u"
    unfolding round_pos_def u_def [symmetric]
    by (intro mult_right_mono) (auto intro: less_imp_le simp: of_int_le_iff)
  have "2 powi (v + 52) \<le> y" using floor_log2_bounds(1) [of y] assms v by simp
  then have "2 powi (v + 52) / 2 powi v \<le> y / 2 powi v"
    by (intro divide_right_mono) (auto intro: less_imp_le)
  then have "of_int (2 ^ 52) \<le> y / 2 powi v" by (simp add: power_int_add)
  then have "2 ^ 52 \<le> round_even (y / 2 powi v)"
    using round_even_mono round_even_of_int by metis
  then have Y: "of_int (2 ^ 52) * 2 powi v \<le> round_pos y"
    unfolding round_pos_def v_def [symmetric]
    by (intro mult_right_mono) (auto intro: less_imp_le simp: of_int_le_iff)
  have "of_int (2 ^ 53) * (2 :: rat) powi u = of_int (2 ^ 52) * 2 powi (u + 1)"
    by (simp add: power_int_add)
  also have "\<dots> \<le> of_int (2 ^ 52) * 2 powi v" using uv by (intro mult_left_mono) auto
  finally show ?thesis using X Y by linarith
qed

lemma rnd64_zero [simp]: "rnd64 0 = 0"
  by (simp add: rnd64_def)

lemma rnd64_mono: "x \<le> y \<Longrightarrow> rnd64 x \<le> rnd64 y"
  using round_pos_mono [of x y] round_pos_mono [of "- y" "- x"] round_pos_nonneg [of y]
    round_pos_nonneg [of "- x"]
  by (auto simp: rnd64_def)

lemma rnd64_nonneg: "0 \<le> x \<Longrightarrow> 0 \<le> rnd64 x"
  using rnd64_mono [of 0 x] by simp

text \<open>A value with at most 53 significant bits is its own rounding.\<close>

definition is_float64 :: "rat \<Rightarrow> bool" where
  "is_float64 x \<longleftrightarrow> (\<exists>n e. x = of_int n * 2 powi e \<and> \<bar>n\<bar> < 2 ^ 53 \<and> - 1074 \<le> e)"

lemma is_float64_of_int: "\<bar>n\<bar> < 9007199254740992 \<Longrightarrow> is_float64 (of_int n)"
  unfolding is_float64_def by (intro exI [of _ n] exI [of _ 0]) simp

lemma is_float64_half: "\<bar>n\<bar> < 9007199254740992 \<Longrightarrow> is_float64 (of_int n / 2)"
  unfolding is_float64_def
  by (intro exI [of _ n] exI [of _ "- 1"]) (simp add: power_int_minus)

lemma round_pos_exact:
  assumes "0 < n" "n < 2 ^ 53" "- 1074 \<le> e"
  shows "round_pos (of_int n * 2 powi e) = of_int n * 2 powi e"
proof -
  define x :: rat where "x = of_int n * 2 powi e"
  have pos: "0 < x" using assms by (simp add: x_def)
  have "(of_int n :: rat) < of_int (2 ^ 53)" using assms by (simp only: of_int_less_iff)
  then have "x < of_int (2 ^ 53) * 2 powi e"
    unfolding x_def by (intro mult_strict_right_mono) auto
  then have "x < 2 powi (e + 53)" by (simp add: power_int_add mult.commute)
  then have "2 powi floor_log2 x < (2 :: rat) powi (e + 53)"
    using floor_log2_bounds(1) [OF pos] by linarith
  then have u: "ulp_exp x \<le> e" using assms by (simp add: ulp_exp_def)
  then obtain k where e: "e = ulp_exp x + int k" using zle_iff_zadd by auto
  have "(2 :: rat) powi e = 2 powi ulp_exp x * 2 ^ k"
    using power_int_add [of "2 :: rat" "ulp_exp x" "int k"] by (simp add: e [symmetric])
  then have x: "x = of_int (n * 2 ^ k) * 2 powi ulp_exp x"
    by (simp add: x_def mult.commute)
  then have "x / 2 powi ulp_exp x = of_int (n * 2 ^ k)"
    by (metis nonzero_mult_div_cancel_right less_irrefl two_powi_pos)
  then have "round_pos x = of_int (n * 2 ^ k) * 2 powi ulp_exp x"
    unfolding round_pos_def by (simp only: round_even_of_int)
  then have "round_pos x = x" using x by (rule trans [OF _ sym])
  then show ?thesis by (simp only: x_def)
qed

lemma rnd64_exact: "is_float64 x \<Longrightarrow> rnd64 x = x"
proof -
  assume "is_float64 x"
  then obtain n e where x: "x = of_int n * 2 powi e" and n: "\<bar>n\<bar> < 2 ^ 53" and e: "- 1074 \<le> e"
    unfolding is_float64_def by blast
  consider "n = 0" | "0 < n" | "n < 0" by linarith
  then show ?thesis
  proof cases
    case 2
    then show ?thesis using round_pos_exact [of n e] n e by (simp add: rnd64_def x)
  next
    case 3
    then have "x < 0" unfolding x by (intro mult_neg_pos) auto
    then show ?thesis using round_pos_exact [of "- n" e] n e 3 by (simp add: rnd64_def x)
  qed (simp add: x)
qed

lemma rnd64_numeral:
  "numeral w < (9007199254740992 :: int) \<Longrightarrow> rnd64 (numeral w) = numeral w"
  "numeral w < (9007199254740992 :: int) \<Longrightarrow> rnd64 (numeral w / 2) = numeral w / 2"
  "rnd64 1 = 1"
  "rnd64 (1 / 2) = 1 / 2"
  using rnd64_exact [OF is_float64_of_int [of "numeral w"]]
    rnd64_exact [OF is_float64_half [of "numeral w"]] rnd64_exact [OF is_float64_of_int [of 1]]
    rnd64_exact [OF is_float64_half [of 1]]
  by simp_all

lemma floor_half_numeral: "\<lfloor>numeral w / 2 :: rat\<rfloor> = numeral w div 2"
  using floor_divide_of_int_eq [of "numeral w" 2, where 'a = rat] by simp

section \<open>Operations\<close>

definition fadd :: "rat \<Rightarrow> rat \<Rightarrow> rat" where "fadd x y = rnd64 (x + y)"

definition fsub :: "rat \<Rightarrow> rat \<Rightarrow> rat" where "fsub x y = rnd64 (x - y)"

definition fmul :: "rat \<Rightarrow> rat \<Rightarrow> rat" where "fmul x y = rnd64 (x * y)"

definition fdiv :: "rat \<Rightarrow> rat \<Rightarrow> rat" where "fdiv x y = rnd64 (x / y)"

definition float_of_int :: "int \<Rightarrow> rat" where "float_of_int n = rnd64 (of_int n)"

text \<open>Conversion to \<open>int64\<close> truncates; out of range it gives what amd64 gives.\<close>

definition int_of_float :: "rat \<Rightarrow> int" where
  "int_of_float x =
     (let n = (if 0 \<le> x then \<lfloor>x\<rfloor> else \<lceil>x\<rceil>) in
      if - 9223372036854775808 \<le> n \<and> n \<le> max_int64 then n else - 9223372036854775808)"

named_theorems float_mono

lemma fadd_mono [float_mono]: "x \<le> x' \<Longrightarrow> y \<le> y' \<Longrightarrow> fadd x y \<le> fadd x' y'"
  unfolding fadd_def by (intro rnd64_mono) simp

lemma fmul_mono [float_mono]:
  "x \<le> x' \<Longrightarrow> y \<le> y' \<Longrightarrow> 0 \<le> x \<Longrightarrow> 0 \<le> y \<Longrightarrow> fmul x y \<le> fmul x' y'"
  unfolding fmul_def by (intro rnd64_mono mult_mono) auto

lemma fdiv_mono [float_mono]: "x \<le> x' \<Longrightarrow> 0 < y \<Longrightarrow> fdiv x y \<le> fdiv x' y"
  unfolding fdiv_def by (intro rnd64_mono divide_right_mono) auto

lemma float_of_int_mono [float_mono]: "m \<le> n \<Longrightarrow> float_of_int m \<le> float_of_int n"
  unfolding float_of_int_def by (intro rnd64_mono) simp

lemma float_nonneg [simp]:
  "0 \<le> x \<Longrightarrow> 0 \<le> y \<Longrightarrow> 0 \<le> fadd x y"
  "0 \<le> x \<Longrightarrow> 0 \<le> y \<Longrightarrow> 0 \<le> fmul x y"
  "0 \<le> x \<Longrightarrow> 0 < y \<Longrightarrow> 0 \<le> fdiv x y"
  "0 \<le> n \<Longrightarrow> 0 \<le> float_of_int n"
  by (auto simp: fadd_def fmul_def fdiv_def float_of_int_def intro!: rnd64_nonneg)

lemma int_of_float_mono:
  assumes "x \<le> y" "- 9223372036854775808 \<le> x" "y < 9223372036854775808"
  shows "int_of_float x \<le> int_of_float y"
proof -
  have "(if 0 \<le> x then \<lfloor>x\<rfloor> else \<lceil>x\<rceil>) \<le> (if 0 \<le> y then \<lfloor>y\<rfloor> else \<lceil>y\<rceil>)"
  proof (cases "0 \<le> x \<or> y < 0")
    case True
    then show ?thesis using assms(1) floor_mono [of x y] ceiling_mono [of x y] by auto
  next
    case False
    then have "\<lceil>x\<rceil> \<le> 0" "0 \<le> \<lfloor>y\<rfloor>" by (simp_all add: ceiling_le_iff le_floor_iff)
    then have "\<lceil>x\<rceil> \<le> \<lfloor>y\<rfloor>" by (rule order_trans)
    then show ?thesis using False by simp
  qed
  moreover have "- 9223372036854775808 \<le> (if 0 \<le> x then \<lfloor>x\<rfloor> else \<lceil>x\<rceil>)"
    using assms(2) by (auto simp: le_floor_iff le_ceiling_iff)
  moreover have "(if 0 \<le> y then \<lfloor>y\<rfloor> else \<lceil>y\<rceil>) \<le> max_int64"
    using assms(3) by (auto simp: floor_le_iff ceiling_le_iff max_int64_def)
  ultimately show ?thesis by (simp add: int_of_float_def Let_def)
qed

end
