(* ===== verification/Pricing.thy ===== *)
theory Pricing
  imports Float64 Go_Strings
begin

text \<open>
  Prices and usage, \<open>agent/types/pricing.go\<close>: what a model charges, the token usage of a call, its
  cost in micro-units, and the rate card of a vendor's batch API. Rates are \<open>float64\<close> values
  (\<open>Float64\<close>), token counts and costs are 64-bit integers whose sums wrap. A Go map of rates or
  counts is an association list in the order a range statement visits it: the float sum of
  \<open>Cost\<close> depends on that order.
\<close>

type_synonym modality = string
type_synonym cost = int

definition modality_text :: modality where "modality_text = ''text''"

record modality_rate =
  mr_input :: rat
  mr_output :: rat

record pricing =
  pr_currency :: string
  pr_input :: rat
  pr_output :: rat
  pr_cached :: rat
  pr_cache_write :: rat
  pr_per_request :: rat
  pr_batch_discount :: rat
  pr_batch_cached :: rat
  pr_as_of :: string
  pr_source :: string
  pr_free :: bool
  pr_modal :: "(modality, modality_rate) gomap"

record token_usage =
  tu_input :: int
  tu_cached :: int
  tu_cache_write :: int
  tu_output :: int
  tu_requests :: int
  tu_in_mod :: "(modality, int) gomap"
  tu_out_mod :: "(modality, int) gomap"

definition no_usage :: token_usage where
  "no_usage = \<lparr>tu_input = 0, tu_cached = 0, tu_cache_write = 0, tu_output = 0, tu_requests = 0,
     tu_in_mod = [], tu_out_mod = []\<rparr>"

text \<open>Reading a Go map gives the zero value where the key is absent.\<close>

definition count_of :: "('k, int) gomap \<Rightarrow> 'k \<Rightarrow> int" where
  "count_of m k = (case map_of m k of Some n \<Rightarrow> n | None \<Rightarrow> 0)"

definition input_rate :: "pricing \<Rightarrow> modality \<Rightarrow> rat" where
  "input_rate p m = (case map_of (pr_modal p) m of Some r \<Rightarrow> mr_input r | None \<Rightarrow> 0)"

definition output_rate :: "pricing \<Rightarrow> modality \<Rightarrow> rat" where
  "output_rate p m = (case map_of (pr_modal p) m of Some r \<Rightarrow> mr_output r | None \<Rightarrow> 0)"

section \<open>Usage\<close>

definition add_modalities ::
    "(modality, int) gomap \<Rightarrow> (modality, int) gomap \<Rightarrow> (modality, int) gomap" where
  "add_modalities a b =
     foldl (\<lambda>out (m, n). AList.update m (wrap64 (count_of out m + n)) out) a b"

definition usage_add :: "token_usage \<Rightarrow> token_usage \<Rightarrow> token_usage" where
  "usage_add u v =
     \<lparr>tu_input = wrap64 (tu_input u + tu_input v),
      tu_cached = wrap64 (tu_cached u + tu_cached v),
      tu_cache_write = wrap64 (tu_cache_write u + tu_cache_write v),
      tu_output = wrap64 (tu_output u + tu_output v),
      tu_requests = wrap64 (tu_requests u + tu_requests v),
      tu_in_mod = add_modalities (tu_in_mod u) (tu_in_mod v),
      tu_out_mod = add_modalities (tu_out_mod u) (tu_out_mod v)\<rparr>"

definition usage_total :: "token_usage \<Rightarrow> int" where
  "usage_total u =
     wrap64 (wrap64 (wrap64 (tu_input u + tu_cached u) + tu_cache_write u) + tu_output u)"

record usage_delta =
  ud_prompt :: int
  ud_completion :: int
  ud_cached_prompt :: int
  ud_cache_write :: int
  ud_requests :: int
  ud_cache_hit :: bool
  ud_prompt_mod :: "(modality, int) gomap"
  ud_completion_mod :: "(modality, int) gomap"

definition usage_from_delta :: "usage_delta \<Rightarrow> token_usage" where
  "usage_from_delta d =
     (if ud_cache_hit d then no_usage
      else (let cached = max 0 (ud_cached_prompt d); written = max 0 (ud_cache_write d) in
        \<lparr>tu_input = max 0 (wrap64 (wrap64 (ud_prompt d - cached) - written)),
         tu_cached = cached, tu_cache_write = written, tu_output = ud_completion d,
         tu_requests = max 1 (ud_requests d),
         tu_in_mod = add_modalities [] (ud_prompt_mod d),
         tu_out_mod = add_modalities [] (ud_completion_mod d)\<rparr>))"

section \<open>Rate cards\<close>

definition pricing_is_zero :: "pricing \<Rightarrow> bool" where
  "pricing_is_zero p =
     (\<not> pr_free p \<and> pr_input p = 0 \<and> pr_output p = 0 \<and> pr_cached p = 0 \<and> pr_cache_write p = 0 \<and>
      pr_per_request p = 0)"

definition unpriced_modality :: "(modality \<Rightarrow> rat) \<Rightarrow> modality \<times> int \<Rightarrow> bool" where
  "unpriced_modality rate mn = (0 < snd mn \<and> fst mn \<noteq> modality_text \<and> rate (fst mn) \<le> 0)"

definition unpriced :: "pricing \<Rightarrow> token_usage \<Rightarrow> bool" where
  "unpriced p u =
     (if pr_free p then False
      else if pricing_is_zero p then 0 < usage_total u
      else list_ex (unpriced_modality (input_rate p)) (tu_in_mod u) \<or>
           list_ex (unpriced_modality (output_rate p)) (tu_out_mod u))"

definition pricing_currency :: "pricing \<Rightarrow> string" where
  "pricing_currency p = (if pr_currency p = [] then ''USD'' else pr_currency p)"

definition usd :: "rat \<Rightarrow> cost" where
  "usd amount =
     (if 0 \<le> amount then int_of_float (fadd (fmul amount 1000000) (1 / 2))
      else int_of_float (fsub (fmul amount 1000000) (1 / 2)))"

definition per_mtok :: "int \<Rightarrow> rat \<Rightarrow> rat" where
  "per_mtok tokens rate = fmul (fdiv (float_of_int tokens) 1000000) rate"

text \<open>
  The loop over one direction's modalities: the tokens left to bill as text and the sum so far.
  Taking the smaller of a positive count and what is left cannot leave the range of an \<open>int\<close>.
\<close>

fun bill_modal :: "(modality \<Rightarrow> rat) \<Rightarrow> (modality \<times> int) list \<Rightarrow> int \<Rightarrow> rat \<Rightarrow> int \<times> rat" where
  "bill_modal rate [] tokens modal = (tokens, modal)"
| "bill_modal rate ((m, n) # ms) tokens modal =
     (if m \<noteq> modality_text \<and> 0 < n \<and> 0 < rate m
      then bill_modal rate ms (tokens - min n tokens) (fadd modal (per_mtok (min n tokens) (rate m)))
      else bill_modal rate ms tokens modal)"

definition amount :: "pricing \<Rightarrow> token_usage \<Rightarrow> rat" where
  "amount p u =
     (let (input, m1) = bill_modal (input_rate p) (tu_in_mod u) (tu_input u) 0;
          (output, modal) = bill_modal (output_rate p) (tu_out_mod u) (tu_output u) m1;
          cached_rate = (if pr_cached p = 0 then pr_input p else pr_cached p);
          write_rate = (if pr_cache_write p = 0 then pr_input p else pr_cache_write p)
      in fadd (fadd (fadd (fadd (fadd (per_mtok input (pr_input p))
           (per_mtok (tu_cached u) cached_rate))
           (per_mtok (tu_cache_write u) write_rate))
           (per_mtok output (pr_output p)))
           (fmul (float_of_int (tu_requests u)) (pr_per_request p)))
           modal)"

definition pricing_cost :: "pricing \<Rightarrow> token_usage \<Rightarrow> cost" where
  "pricing_cost p u = (if pr_free p then 0 else usd (amount p u))"

definition scale_modal :: "(modality, modality_rate) gomap \<Rightarrow> rat \<Rightarrow> (modality, modality_rate) gomap" where
  "scale_modal rates f =
     map (\<lambda>(m, r). (m, \<lparr>mr_input = fmul (mr_input r) f, mr_output = fmul (mr_output r) f\<rparr>)) rates"

definition batch_pricing :: "pricing \<Rightarrow> pricing" where
  "batch_pricing p0 =
     (let d = pr_batch_discount p0;
          p = p0\<lparr>pr_batch_discount := 0, pr_batch_cached := 0\<rparr> in
      if d \<le> 0 \<or> 1 \<le> d \<or> pr_free p then p
      else
        (let cached =
               (if pr_batch_cached p0 = 0
                then (if pr_cached p = 0 then pr_input p else pr_cached p)
                else pr_batch_cached p0);
             f = fsub 1 d;
             write = (if pr_cache_write p = 0 then pr_input p else pr_cache_write p)
         in p\<lparr>pr_input := fmul (pr_input p) f, pr_output := fmul (pr_output p) f,
              pr_cache_write := fmul write f, pr_cached := cached,
              pr_modal := scale_modal (pr_modal p) f,
              pr_source := (if pr_source p = [] then [] else pr_source p @ '' (batch)'')\<rparr>))"

section \<open>Costs\<close>

lemma count_of_update [simp]:
  "count_of (AList.update k v m) j = (if j = k then v else count_of m j)"
  by (simp add: count_of_def)

lemma per_mtok_mono:
  "0 \<le> s \<Longrightarrow> s \<le> t \<Longrightarrow> 0 \<le> q \<Longrightarrow> q \<le> r \<Longrightarrow> per_mtok s q \<le> per_mtok t r"
  unfolding per_mtok_def by (intro float_mono) auto

lemma per_mtok_nonneg [simp]: "0 \<le> t \<Longrightarrow> 0 \<le> r \<Longrightarrow> 0 \<le> per_mtok t r"
  by (simp add: per_mtok_def)

text \<open>A modality loop under lower rates bills the same tokens at no more.\<close>

lemma bill_modal_mono:
  assumes "\<And>m. q m \<le> r m" "\<And>m. 0 < r m \<Longrightarrow> 0 < q m" "0 \<le> t" "x \<le> y" "0 \<le> x"
  shows "fst (bill_modal q ms t x) = fst (bill_modal r ms t y) \<and> 0 \<le> fst (bill_modal q ms t x) \<and>
    snd (bill_modal q ms t x) \<le> snd (bill_modal r ms t y) \<and> 0 \<le> snd (bill_modal q ms t x)"
  using assms(3-)
proof (induction ms arbitrary: t x y)
  case (Cons a ms)
  obtain m n where a: "a = (m, n)" by (cases a)
  show ?case
  proof (cases "m \<noteq> modality_text \<and> 0 < n \<and> 0 < q m")
    case True
    then have "0 < r m" using assms(1) [of m] by linarith
    moreover have "per_mtok (min n t) (q m) \<le> per_mtok (min n t) (r m)"
      using True Cons.prems assms(1) by (intro per_mtok_mono) auto
    moreover have "0 \<le> per_mtok (min n t) (q m)" using True Cons.prems by simp
    ultimately show ?thesis
      using True Cons.prems Cons.IH [of "t - min n t" "fadd x (per_mtok (min n t) (q m))"
          "fadd y (per_mtok (min n t) (r m))"]
      by (simp add: a fadd_mono)
  next
    case False
    then have "\<not> (m \<noteq> modality_text \<and> 0 < n \<and> 0 < r m)" using assms(2) by blast
    then show ?thesis using False Cons.prems Cons.IH [of t x y] by (auto simp: a)
  qed
qed simp

definition rates_ok :: "pricing \<Rightarrow> bool" where
  "rates_ok p \<longleftrightarrow> 0 \<le> pr_input p \<and> 0 \<le> pr_output p \<and> 0 \<le> pr_cached p \<and> 0 \<le> pr_cache_write p \<and>
     0 \<le> pr_per_request p \<and>
     (\<forall>(m, r) \<in> set (pr_modal p). 0 \<le> mr_input r \<and> 0 \<le> mr_output r)"

definition counts_ok :: "token_usage \<Rightarrow> bool" where
  "counts_ok u \<longleftrightarrow> 0 \<le> tu_input u \<and> 0 \<le> tu_cached u \<and> 0 \<le> tu_cache_write u \<and> 0 \<le> tu_output u \<and>
     0 \<le> tu_requests u"

text \<open>Two rate cards, the second nowhere cheaper, and pricing the same modalities.\<close>

definition no_dearer :: "pricing \<Rightarrow> pricing \<Rightarrow> bool" where
  "no_dearer p q \<longleftrightarrow>
     pr_input p \<le> pr_input q \<and> pr_output p \<le> pr_output q \<and>
     (if pr_cached p = 0 then pr_input p else pr_cached p)
       \<le> (if pr_cached q = 0 then pr_input q else pr_cached q) \<and>
     (if pr_cache_write p = 0 then pr_input p else pr_cache_write p)
       \<le> (if pr_cache_write q = 0 then pr_input q else pr_cache_write q) \<and>
     pr_per_request p \<le> pr_per_request q \<and> pr_free p = pr_free q \<and>
     (\<forall>m. input_rate p m \<le> input_rate q m \<and> (0 < input_rate q m \<longrightarrow> 0 < input_rate p m)) \<and>
     (\<forall>m. output_rate p m \<le> output_rate q m \<and> (0 < output_rate q m \<longrightarrow> 0 < output_rate p m))"

lemma amount_mono:
  assumes "no_dearer p q" "rates_ok p" "counts_ok u"
  shows "0 \<le> amount p u \<and> amount p u \<le> amount q u"
proof -
  obtain i x j y where 1: "bill_modal (input_rate p) (tu_in_mod u) (tu_input u) 0 = (i, x)"
    "bill_modal (input_rate q) (tu_in_mod u) (tu_input u) 0 = (j, y)"
    by (meson surj_pair)
  have i: "i = j \<and> 0 \<le> i \<and> x \<le> y \<and> 0 \<le> x"
    using bill_modal_mono [of "input_rate p" "input_rate q" "tu_input u" 0 0 "tu_in_mod u"] assms 1
    by (simp add: no_dearer_def counts_ok_def)
  obtain k v l w where 2: "bill_modal (output_rate p) (tu_out_mod u) (tu_output u) x = (k, v)"
    "bill_modal (output_rate q) (tu_out_mod u) (tu_output u) y = (l, w)"
    by (meson surj_pair)
  have k: "k = l \<and> 0 \<le> k \<and> v \<le> w \<and> 0 \<le> v"
    using bill_modal_mono [of "output_rate p" "output_rate q" "tu_output u" x y "tu_out_mod u"]
      assms 2 i by (simp add: no_dearer_def counts_ok_def)
  have "0 \<le> amount p u"
    using assms i k by (auto simp: amount_def 1 2 rates_ok_def counts_ok_def intro!: float_nonneg)
  moreover have "amount p u \<le> amount q u"
    unfolding amount_def 1 2 Let_def prod.case
    using assms i k
    by (intro fadd_mono per_mtok_mono fmul_mono) (auto simp: no_dearer_def rates_ok_def counts_ok_def)
  ultimately show ?thesis by blast
qed

lemma usd_mono:
  assumes "0 \<le> x" "x \<le> y" "fadd (fmul y 1000000) (1 / 2) < 9223372036854775808"
  shows "0 \<le> usd x \<and> usd x \<le> usd y"
proof -
  have le: "fadd (fmul x 1000000) (1 / 2) \<le> fadd (fmul y 1000000) (1 / 2)"
    using assms by (intro float_mono) auto
  have pos: "0 \<le> fadd (fmul x 1000000) (1 / 2)" using assms by simp
  have "int_of_float 0 \<le> int_of_float (fadd (fmul x 1000000) (1 / 2))"
    by (rule int_of_float_mono) (use pos le assms(3) in linarith)+
  moreover have "int_of_float (fadd (fmul x 1000000) (1 / 2)) \<le> int_of_float (fadd (fmul y 1000000) (1 / 2))"
    by (rule int_of_float_mono) (use pos le assms(3) in linarith)+
  ultimately show ?thesis using assms by (simp add: usd_def int_of_float_def max_int64_def)
qed

text \<open>Bills stay clear of the range of an \<open>int64\<close> (9.2 trillion currency units).\<close>

definition payable :: "pricing \<Rightarrow> token_usage \<Rightarrow> bool" where
  "payable p u \<longleftrightarrow> fadd (fmul (amount p u) 1000000) (1 / 2) < 9223372036854775808"

lemma cost_mono:
  assumes "no_dearer p q" "rates_ok p" "counts_ok u" "payable q u"
  shows "0 \<le> pricing_cost p u \<and> pricing_cost p u \<le> pricing_cost q u"
  using amount_mono [OF assms(1-3)] usd_mono [of "amount p u" "amount q u"] assms
  by (auto simp: pricing_cost_def payable_def no_dearer_def)

lemma no_dearer_refl [simp]: "no_dearer p p"
  by (simp add: no_dearer_def)

lemma cost_nonneg: "rates_ok p \<Longrightarrow> counts_ok u \<Longrightarrow> payable p u \<Longrightarrow> 0 \<le> pricing_cost p u"
  using cost_mono [of p p u] by simp

section \<open>Batch rates\<close>

text \<open>The rates of the card are \<open>float64\<close> values, and the discount does not round one away.\<close>

definition discountable :: "pricing \<Rightarrow> bool" where
  "discountable p \<longleftrightarrow>
     (\<forall>x \<in> {pr_input p, pr_output p, pr_cache_write p}
        \<union> (\<Union>(m, r) \<in> set (pr_modal p). {mr_input r, mr_output r}).
        is_float64 x \<and> (0 < x \<longrightarrow> 0 < fmul x (fsub 1 (pr_batch_discount p))))"

lemma fmul_le_self:
  assumes "is_float64 x" "0 \<le> x" "f \<le> 1"
  shows "fmul x f \<le> x"
proof -
  have "rnd64 (x * f) \<le> rnd64 x"
    using assms by (intro rnd64_mono) (simp add: mult_left_le)
  then show ?thesis using rnd64_exact [OF assms(1)] by (simp add: fmul_def)
qed

lemma map_of_scale_modal:
  "map_of (scale_modal rates f) m =
     map_option (\<lambda>r. \<lparr>mr_input = fmul (mr_input r) f, mr_output = fmul (mr_output r) f\<rparr>) (map_of rates m)"
  by (induction rates) (auto simp: scale_modal_def)

lemma fmul_zero [simp]: "fmul 0 f = 0"
  by (simp add: fmul_def)

lemma batch_no_dearer:
  assumes "rates_ok p" "discountable p" "0 \<le> pr_batch_cached p"
    and cached: "pr_batch_cached p \<le> (if pr_cached p = 0 then pr_input p else pr_cached p)"
  shows "no_dearer (batch_pricing p) p \<and> rates_ok (batch_pricing p)"
proof (cases "pr_batch_discount p \<le> 0 \<or> 1 \<le> pr_batch_discount p \<or> pr_free p")
  case True
  then have "batch_pricing p = p\<lparr>pr_batch_discount := 0, pr_batch_cached := 0\<rparr>"
    by (auto simp: batch_pricing_def Let_def)
  then show ?thesis using assms by (simp add: no_dearer_def rates_ok_def input_rate_def output_rate_def)
next
  case False
  define f where "f = fsub 1 (pr_batch_discount p)"
  have f: "0 \<le> f" "f \<le> 1"
    using False rnd64_nonneg [of "1 - pr_batch_discount p"] rnd64_mono [of "1 - pr_batch_discount p" 1]
    by (auto simp: f_def fsub_def rnd64_numeral)
  have low: "fmul x f \<le> x \<and> 0 \<le> fmul x f \<and> (0 < x \<longrightarrow> 0 < fmul x f)"
    if "x \<in> {pr_input p, pr_output p, pr_cache_write p}
        \<union> (\<Union>(m, r) \<in> set (pr_modal p). {mr_input r, mr_output r})" for x
  proof -
    have "is_float64 x \<and> (0 < x \<longrightarrow> 0 < fmul x f)"
      using assms(2) that unfolding discountable_def f_def by blast
    moreover have "0 \<le> x" using that assms(1) by (auto simp: rates_ok_def)
    ultimately show ?thesis using fmul_le_self f by auto
  qed
  have modal: "fmul (mr_input r) f \<le> mr_input r \<and> 0 \<le> fmul (mr_input r) f
      \<and> (0 < mr_input r \<longrightarrow> 0 < fmul (mr_input r) f)"
    "fmul (mr_output r) f \<le> mr_output r \<and> 0 \<le> fmul (mr_output r) f
      \<and> (0 < mr_output r \<longrightarrow> 0 < fmul (mr_output r) f)"
    if "(m, r) \<in> set (pr_modal p)" for m r
    using that by (intro low; force)+
  have modal': "input_rate (batch_pricing p) m \<le> input_rate p m
        \<and> (0 < input_rate p m \<longrightarrow> 0 < input_rate (batch_pricing p) m)"
    "output_rate (batch_pricing p) m \<le> output_rate p m
        \<and> (0 < output_rate p m \<longrightarrow> 0 < output_rate (batch_pricing p) m)" for m
    using False modal map_of_SomeD [of "pr_modal p" m]
    by (auto simp: batch_pricing_def Let_def input_rate_def output_rate_def map_of_scale_modal
        f_def [symmetric] split: option.splits)
  note plain = low [of "pr_input p"] low [of "pr_output p"] low [of "pr_cache_write p"]
  have "rates_ok (batch_pricing p)"
    using False assms plain modal
    by (auto simp: batch_pricing_def Let_def rates_ok_def f_def [symmetric] scale_modal_def)
  moreover have "no_dearer (batch_pricing p) p"
    unfolding no_dearer_def
  proof (intro conjI)
    show "(if pr_cache_write (batch_pricing p) = 0 then pr_input (batch_pricing p)
        else pr_cache_write (batch_pricing p)) \<le> (if pr_cache_write p = 0 then pr_input p else pr_cache_write p)"
      using False plain assms
      by (auto simp: batch_pricing_def Let_def f_def [symmetric] rates_ok_def)
  qed (use False modal' plain assms in \<open>auto simp: batch_pricing_def Let_def f_def [symmetric] rates_ok_def\<close>)
  ultimately show ?thesis by blast
qed

text \<open>
  The rate card for a vendor's batch API never costs more than the interactive one, whatever
  the usage, modality rates included, and taking it twice discounts once. The rates are
  non-negative \<open>float64\<close> values that the discount does not round to zero, a declared batch
  cache rate is at most the interactive one, and the bill fits an \<open>int64\<close>.\<close>

theorem batch_never_dearer:
  assumes "rates_ok p" "discountable p" "0 \<le> pr_batch_cached p"
    and "pr_batch_cached p \<le> (if pr_cached p = 0 then pr_input p else pr_cached p)"
    and "counts_ok u" "payable p u"
  shows "(0 \<le> pricing_cost (batch_pricing p) u) \<and>
    (pricing_cost (batch_pricing p) u \<le> pricing_cost p u) \<and>
    (batch_pricing (batch_pricing p) = batch_pricing p)"
  using cost_mono [of "batch_pricing p" p u] batch_no_dearer [of p] assms
  by (auto simp: batch_pricing_def Let_def)

text \<open>A card with text, cached and audio rates, and a call that uses all of them.\<close>

definition demo_card :: pricing where
  "demo_card =
     \<lparr>pr_currency = [], pr_input = 4, pr_output = 16, pr_cached = 1, pr_cache_write = 0,
      pr_per_request = 0, pr_batch_discount = 1 / 2, pr_batch_cached = 0, pr_as_of = ''2026-07-24'',
      pr_source = ''list'', pr_free = False,
      pr_modal = [(''audio'', \<lparr>mr_input = 32, mr_output = 64\<rparr>)]\<rparr>"

definition demo_call :: token_usage where
  "demo_call =
     \<lparr>tu_input = 3000000, tu_cached = 2000000, tu_cache_write = 0, tu_output = 1000000,
      tu_requests = 1, tu_in_mod = [(''audio'', 1000000)], tu_out_mod = []\<rparr>"

lemmas float_eval = fadd_def fsub_def fmul_def fdiv_def float_of_int_def per_mtok_def rnd64_numeral
  floor_half_numeral

lemma demo_amounts:
  "amount demo_card demo_call = 58" "amount (batch_pricing demo_card) demo_call = 30"
  by (simp_all add: demo_card_def demo_call_def amount_def batch_pricing_def scale_modal_def
      input_rate_def output_rate_def modality_text_def float_eval Let_def)

lemma demo_card_ok:
  "rates_ok demo_card" "discountable demo_card" "counts_ok demo_call" "payable demo_card demo_call"
  "pr_batch_cached demo_card = 0" "pr_cached demo_card = 1"
proof -
  have flt: "is_float64 (numeral w)" if "numeral w < (9007199254740992 :: int)" for w
    using is_float64_of_int [of "numeral w"] that by simp
  show "rates_ok demo_card" "counts_ok demo_call" "pr_batch_cached demo_card = 0"
    "pr_cached demo_card = 1"
    by (simp_all add: rates_ok_def counts_ok_def demo_card_def demo_call_def)
  show "payable demo_card demo_call" by (simp add: payable_def demo_amounts float_eval)
  show "discountable demo_card"
    using is_float64_of_int [of 0]
    by (simp add: discountable_def demo_card_def float_eval flt)
qed

theorem batch_never_dearer_witness:
  "pricing_cost (batch_pricing demo_card) demo_call = 30000000 \<and>
   pricing_cost demo_card demo_call = 58000000 \<and>
   pricing_cost (batch_pricing demo_card) demo_call \<le> pricing_cost demo_card demo_call"
proof (intro conjI)
  show "pricing_cost (batch_pricing demo_card) demo_call \<le> pricing_cost demo_card demo_call"
    by (rule batch_never_dearer [THEN conjunct2, THEN conjunct1]) (simp_all add: demo_card_ok)
  have "\<not> pr_free demo_card" "\<not> pr_free (batch_pricing demo_card)"
    by (simp_all add: demo_card_def batch_pricing_def Let_def)
  then show "pricing_cost (batch_pricing demo_card) demo_call = 30000000"
    "pricing_cost demo_card demo_call = 58000000"
    by (simp_all add: pricing_cost_def demo_amounts usd_def int_of_float_def max_int64_def float_eval)
qed

end
