(* ===== verification/Budget.thy ===== *)
theory Budget
  imports Pricing
begin

text \<open>
  The spending ledger of a run, \<open>agent/types/budget.go\<close>, \<open>budget_reservation.go\<close> and
  \<open>tool_quota.go\<close>: policy, status, reservations with their settlement, replay of receipts, and tool
  quotas. Every method holds the budget's mutex from start to end, so one definition is one atomic
  step; a method returns the changed ledger with Go's results. Counters and sums wrap at 64 bits.
\<close>

section \<open>State\<close>

datatype budget_action = BudgetStop | BudgetRequireApproval | BudgetWarn

datatype spend_status = StatusOK | StatusWarn | StatusExceeded

datatype budget_error =
    ErrNeedsId | ErrReservationActive | ErrAlreadySettled | ErrUnpricedModel | ErrUnpriced string
  | ErrNegativeBounds | ErrBudgetExceeded | ErrBudgetBusy | ErrUnknownReservation
  | ErrOverReservation | ErrInvalidReceipt | ErrSpent cost cost int | ErrToolQuota string int

record budget_policy =
  bp_call_cost :: cost
  bp_call_tokens :: int
  bp_limit :: cost
  bp_warn_at :: rat
  bp_on_exceed :: budget_action
  bp_approval_grant :: cost
  bp_max_requests :: int
  bp_max_tokens :: int
  bp_allow_unpriced :: bool

record reservation =
  rs_id :: string
  rs_cost :: cost
  rs_tokens :: int
  rs_requests :: int

record receipt =
  rc_id :: string
  rc_model :: string
  rc_pricing :: pricing
  rc_usage :: token_usage
  rc_cost :: cost
  rc_uncertain :: bool
  rc_granted :: cost

record estimate =
  es_input :: int
  es_output :: int
  es_cost :: cost

record budget =
  bg_policy :: budget_policy
  bg_held :: "(string, reservation) gomap"
  bg_settled :: "(string, receipt) gomap"
  bg_uncertain :: int
  bg_spent :: cost
  bg_usage :: token_usage
  bg_by_model :: "(string, token_usage) gomap"
  bg_costs :: "(string, cost) gomap"
  bg_currency :: "(string, string) gomap"
  bg_granted :: cost
  bg_breaches :: int
  bg_quotas :: "(string, int) gomap"
  bg_tool_calls :: "(string, int) gomap"

definition new_budget :: "budget_policy \<Rightarrow> budget" where
  "new_budget p =
     \<lparr>bg_policy = p, bg_held = [], bg_settled = [], bg_uncertain = 0, bg_spent = 0,
      bg_usage = no_usage, bg_by_model = [], bg_costs = [], bg_currency = [], bg_granted = 0,
      bg_breaches = 0, bg_quotas = [], bg_tool_calls = []\<rparr>"

definition no_reservation :: reservation where
  "no_reservation = \<lparr>rs_id = [], rs_cost = 0, rs_tokens = 0, rs_requests = 0\<rparr>"

section \<open>Status and recording\<close>

definition budget_limit :: "budget \<Rightarrow> cost" where
  "budget_limit b = wrap64 (bp_limit (bg_policy b) + bg_granted b)"

definition budget_status :: "budget \<Rightarrow> spend_status" where
  "budget_status b =
     (let p = bg_policy b in
      if 0 < bp_max_requests p \<and> bp_max_requests p \<le> tu_requests (bg_usage b) then StatusExceeded
      else if 0 < bp_max_tokens p \<and> bp_max_tokens p \<le> usage_total (bg_usage b) then StatusExceeded
      else if bp_limit p \<le> 0 then StatusOK
      else if budget_limit b \<le> bg_spent b then StatusExceeded
      else if 0 < bp_warn_at p \<and>
          fmul (float_of_int (budget_limit b)) (bp_warn_at p) \<le> float_of_int (bg_spent b) then StatusWarn
      else StatusOK)"

definition record_usage :: "budget \<Rightarrow> string \<Rightarrow> pricing \<Rightarrow> token_usage \<Rightarrow> cost \<Rightarrow> budget" where
  "record_usage b model pricing u c =
     (let existing = (case map_of (bg_by_model b) model of Some v \<Rightarrow> v | None \<Rightarrow> no_usage);
          b' = b\<lparr>bg_usage := usage_add (bg_usage b) u,
             bg_by_model := AList.update model (usage_add existing u) (bg_by_model b),
             bg_spent := wrap64 (bg_spent b + c),
             bg_costs := AList.update model (wrap64 (count_of (bg_costs b) model + c)) (bg_costs b),
             bg_currency := (if pricing_is_zero pricing then bg_currency b
                else AList.update model (pricing_currency pricing) (bg_currency b))\<rparr>
      in b'\<lparr>bg_breaches := (if budget_status b' = StatusExceeded then wrap64 (bg_breaches b + 1)
            else bg_breaches b)\<rparr>)"

definition unpriced_locked :: "budget \<Rightarrow> pricing \<Rightarrow> token_usage \<Rightarrow> bool" where
  "unpriced_locked b pricing u =
     (0 < bp_limit (bg_policy b) \<and> \<not> bp_allow_unpriced (bg_policy b) \<and> unpriced pricing u)"

definition unpriced_what :: "string \<Rightarrow> pricing \<Rightarrow> token_usage \<Rightarrow> string" where
  "unpriced_what model pricing u =
     (if pricing_is_zero pricing then model
      else
        (let ms = map (\<lambda>(m, n). m @ '' input'') (filter (unpriced_modality (input_rate pricing)) (tu_in_mod u))
           @ map (\<lambda>(m, n). m @ '' output'') (filter (unpriced_modality (output_rate pricing)) (tu_out_mod u))
         in model @ '' has no rate for '' @ join_with '', '' (sort ms)))"

definition budget_record ::
    "budget \<Rightarrow> string \<Rightarrow> pricing \<Rightarrow> token_usage \<Rightarrow> budget \<times> spend_status \<times> budget_error option" where
  "budget_record b model pricing u =
     (let b' = record_usage b model pricing u (pricing_cost pricing u) in
      (b', budget_status b',
       if unpriced_locked b' pricing u then Some (ErrUnpriced (unpriced_what model pricing u)) else None))"

definition grant_amount :: "budget_policy \<Rightarrow> cost \<Rightarrow> cost" where
  "grant_amount p extra =
     (let e = (if extra \<le> 0 then bp_approval_grant p else extra) in if e \<le> 0 then bp_limit p else e)"

definition budget_grant :: "budget \<Rightarrow> cost \<Rightarrow> budget" where
  "budget_grant b extra =
     b\<lparr>bg_granted := wrap64 (bg_granted b + grant_amount (bg_policy b) extra)\<rparr>"

definition budget_remaining :: "budget \<Rightarrow> cost" where
  "budget_remaining b =
     (if bp_limit (bg_policy b) \<le> 0 then - 1
      else max 0 (foldl (\<lambda>rem r. wrap64 (rem - rs_cost r)) (wrap64 (budget_limit b - bg_spent b))
        (map snd (bg_held b))))"

definition budget_exceeded :: "budget \<Rightarrow> bool" where
  "budget_exceeded b = (budget_status b = StatusExceeded)"

definition budget_err :: "budget \<Rightarrow> budget_error option" where
  "budget_err b =
     (if budget_status b \<noteq> StatusExceeded then None
      else if bp_on_exceed (bg_policy b) \<noteq> BudgetStop then None
      else Some (ErrSpent (bg_spent b) (budget_limit b) (tu_requests (bg_usage b))))"

record report =
  rp_model :: string
  rp_usage :: token_usage
  rp_cost :: cost
  rp_currency :: string

definition budget_breakdown :: "budget \<Rightarrow> report list" where
  "budget_breakdown b =
     map (\<lambda>(model, u). \<lparr>rp_model = model, rp_usage = u, rp_cost = count_of (bg_costs b) model,
        rp_currency = (case map_of (bg_currency b) model of Some c \<Rightarrow> c | None \<Rightarrow> [])\<rparr>) (bg_by_model b)"

section \<open>Reservations\<close>

definition held_sum :: "(reservation \<Rightarrow> int) \<Rightarrow> budget \<Rightarrow> int" where
  "held_sum f b = foldl (\<lambda>a r. wrap64 (a + f r)) 0 (map snd (bg_held b))"

definition per_call :: "string \<Rightarrow> budget_policy \<Rightarrow> estimate \<Rightarrow> reservation" where
  "per_call rid p extra =
     \<lparr>rs_id = rid,
      rs_cost = (if 0 < bp_call_cost p then wrap64 (bp_call_cost p + max 0 (es_cost extra))
         else bp_call_cost p),
      rs_tokens = (if 0 < bp_call_tokens p
         then wrap64 (bp_call_tokens p + max 0 (wrap64 (es_input extra + es_output extra)))
         else bp_call_tokens p),
      rs_requests = 1\<rparr>"

text \<open>With no per-call bound, the attempt takes all the capacity that is left.\<close>

definition fill_bounds :: "budget \<Rightarrow> reservation \<Rightarrow> reservation" where
  "fill_bounds b r =
     (let p = bg_policy b;
          r' = (if 0 < bp_limit p \<and> rs_cost r = 0
                then r\<lparr>rs_cost := max 0 (wrap64 (budget_limit b - bg_spent b))\<rparr> else r)
      in if 0 < bp_max_tokens p \<and> rs_tokens r = 0
         then r'\<lparr>rs_tokens := max 0 (wrap64 (bp_max_tokens p - usage_total (bg_usage b)))\<rparr> else r')"

definition exceeds :: "budget \<Rightarrow> reservation \<Rightarrow> bool" where
  "exceeds b r =
     (let p = bg_policy b in
      (0 < bp_max_requests p \<and> bp_max_requests p < wrap64 (tu_requests (bg_usage b) + rs_requests r)) \<or>
      (0 < bp_max_tokens p \<and>
         (rs_tokens r = 0 \<or> bp_max_tokens p < wrap64 (usage_total (bg_usage b) + rs_tokens r))) \<or>
      (0 < bp_limit p \<and> (rs_cost r = 0 \<or> budget_limit b < wrap64 (bg_spent b + rs_cost r))))"

definition busy :: "budget \<Rightarrow> reservation \<Rightarrow> bool" where
  "busy b r =
     (let p = bg_policy b in
      (0 < bp_max_requests p \<and> bp_max_requests p <
         wrap64 (wrap64 (tu_requests (bg_usage b) + held_sum rs_requests b) + rs_requests r)) \<or>
      (0 < bp_max_tokens p \<and> bp_max_tokens p <
         wrap64 (wrap64 (usage_total (bg_usage b) + held_sum rs_tokens b) + rs_tokens r)) \<or>
      (0 < bp_limit p \<and> budget_limit b <
         wrap64 (wrap64 (bg_spent b + held_sum rs_cost b) + rs_cost r)))"

definition hold :: "budget \<Rightarrow> string \<Rightarrow> reservation \<Rightarrow> budget" where
  "hold b rid r = b\<lparr>bg_held := AList.update rid r (bg_held b)\<rparr>"

text \<open>The checks of an identifier and a price that \<open>ReserveWith\<close> and \<open>Carve\<close> share.\<close>

definition admission_error :: "budget \<Rightarrow> string \<Rightarrow> pricing \<Rightarrow> budget_error option" where
  "admission_error b rid pricing =
     (if rid = [] then Some ErrNeedsId
      else if map_of (bg_held b) rid \<noteq> None then Some ErrReservationActive
      else if map_of (bg_settled b) rid \<noteq> None then Some ErrAlreadySettled
      else if 0 < bp_limit (bg_policy b) \<and> pricing_is_zero pricing \<and> \<not> bp_allow_unpriced (bg_policy b)
      then Some ErrUnpricedModel else None)"

definition reserve_with ::
    "budget \<Rightarrow> string \<Rightarrow> pricing \<Rightarrow> estimate \<Rightarrow> budget \<times> reservation \<times> budget_error option" where
  "reserve_with b rid pricing extra =
     (case admission_error b rid pricing of
        Some e \<Rightarrow> (b, no_reservation, Some e)
      | None \<Rightarrow>
          (let p = bg_policy b; r0 = per_call rid p extra in
           if bp_call_cost p < 0 \<or> bp_call_tokens p < 0 then (b, r0, Some ErrNegativeBounds)
           else
             (let r = fill_bounds b r0 in
              if bp_on_exceed p \<noteq> BudgetWarn \<and> exceeds b r then (b, r, Some ErrBudgetExceeded)
              else if bp_on_exceed p \<noteq> BudgetWarn \<and> busy b r then (b, r, Some ErrBudgetBusy)
              else (hold b rid r, r, None))))"

definition no_estimate :: estimate where
  "no_estimate = \<lparr>es_input = 0, es_output = 0, es_cost = 0\<rparr>"

definition reserve :: "budget \<Rightarrow> string \<Rightarrow> pricing \<Rightarrow> budget \<times> reservation \<times> budget_error option" where
  "reserve b rid pricing = reserve_with b rid pricing no_estimate"

definition carve_share :: "int \<Rightarrow> int \<Rightarrow> int" where
  "carve_share want have = (if want \<le> 0 \<or> have < want then have else want)"

definition carve ::
    "budget \<Rightarrow> string \<Rightarrow> string \<Rightarrow> pricing \<Rightarrow> cost \<Rightarrow> int \<Rightarrow> budget \<times> reservation \<times> budget_error option" where
  "carve b from rid pricing c tokens =
     (if from = [] then reserve b rid pricing
      else (case map_of (bg_held b) from of
         None \<Rightarrow> reserve b rid pricing
       | Some parent \<Rightarrow>
           (case admission_error b rid pricing of
              Some e \<Rightarrow> (b, no_reservation, Some e)
            | None \<Rightarrow>
                (let p = bg_policy b in
                 if bp_on_exceed p \<noteq> BudgetWarn \<and> 0 < bp_max_requests p \<and>
                    bp_max_requests p <
                      wrap64 (wrap64 (tu_requests (bg_usage b) + held_sum rs_requests b) + 1)
                 then (b, no_reservation, Some ErrBudgetExceeded)
                 else
                   (let c' = carve_share c (rs_cost parent); t' = carve_share tokens (rs_tokens parent);
                        parent' = parent\<lparr>rs_cost := wrap64 (rs_cost parent - c'),
                          rs_tokens := wrap64 (rs_tokens parent - t')\<rparr>;
                        r = \<lparr>rs_id = rid, rs_cost = c', rs_tokens = t', rs_requests = 1\<rparr>
                    in (hold (hold b from parent') rid r, r, None))))))"

section \<open>Settlement\<close>

text \<open>Unknown usage is charged the whole reservation, and at least one request.\<close>

definition settled_usage :: "reservation \<Rightarrow> token_usage \<Rightarrow> bool \<Rightarrow> token_usage" where
  "settled_usage r u unknown =
     (if unknown
      then u\<lparr>tu_requests := max (tu_requests u) 1,
             tu_input := wrap64 (tu_input u + max 0 (wrap64 (rs_tokens r - usage_total u)))\<rparr>
      else u)"

definition settled_cost :: "pricing \<Rightarrow> reservation \<Rightarrow> token_usage \<Rightarrow> bool \<Rightarrow> cost" where
  "settled_cost pricing r u unknown =
     (let c = pricing_cost pricing (settled_usage r u unknown) in
      if unknown then max c (rs_cost r) else c)"

definition settlement ::
    "budget \<Rightarrow> reservation \<Rightarrow> string \<Rightarrow> string \<Rightarrow> pricing \<Rightarrow> token_usage \<Rightarrow> bool \<Rightarrow> receipt" where
  "settlement b r rid model pricing usage unknown =
     (let u = settled_usage r usage unknown in
      \<lparr>rc_id = rid, rc_model = model, rc_pricing = pricing, rc_usage = u,
       rc_cost = settled_cost pricing r usage unknown,
       rc_uncertain = (unknown \<or> (\<not> pricing_is_zero pricing \<and> unpriced pricing u)),
       rc_granted = bg_granted b\<rparr>)"

definition settle ::
    "budget \<Rightarrow> string \<Rightarrow> string \<Rightarrow> pricing \<Rightarrow> token_usage \<Rightarrow> bool \<Rightarrow> budget \<times> budget_error option" where
  "settle b rid model pricing usage unknown =
     (if map_of (bg_settled b) rid \<noteq> None then (b, None)
      else (case map_of (bg_held b) rid of
         None \<Rightarrow> (b, Some ErrUnknownReservation)
       | Some r \<Rightarrow>
           (let rc = settlement b r rid model pricing usage unknown; u = rc_usage rc; c = rc_cost rc;
                b1 = b\<lparr>bg_held := AList.delete rid (bg_held b),
                       bg_uncertain := (if rc_uncertain rc then wrap64 (bg_uncertain b + 1)
                          else bg_uncertain b)\<rparr>;
                b2 = record_usage b1 model pricing u c;
                b3 = b2\<lparr>bg_settled := AList.update rid rc (bg_settled b2)\<rparr>
            in (b3,
                if unpriced_locked b3 pricing u then Some (ErrUnpriced (unpriced_what model pricing u))
                else if \<not> unknown \<and> ((0 < rs_cost r \<and> rs_cost r < c) \<or>
                    (0 < rs_tokens r \<and> rs_tokens r < usage_total u)) then Some ErrOverReservation
                else None))))"

definition record_once ::
    "budget \<Rightarrow> string \<Rightarrow> string \<Rightarrow> pricing \<Rightarrow> token_usage \<Rightarrow> budget \<times> spend_status \<times> budget_error option" where
  "record_once b rid model pricing u =
     (let b' = (if map_of (bg_settled b) rid \<noteq> None then b
           else (record_usage b model pricing u (pricing_cost pricing u))
             \<lparr>bg_settled := AList.update rid
                \<lparr>rc_id = rid, rc_model = model, rc_pricing = pricing, rc_usage = u,
                 rc_cost = pricing_cost pricing u, rc_uncertain = False, rc_granted = 0\<rparr> (bg_settled b)\<rparr>)
      in (b', budget_status b',
          if unpriced_locked b' pricing u then Some (ErrUnpriced (unpriced_what model pricing u))
          else None))"

definition no_receipt :: receipt where
  "no_receipt =
     \<lparr>rc_id = [], rc_model = [],
      rc_pricing = \<lparr>pr_currency = [], pr_input = 0, pr_output = 0, pr_cached = 0, pr_cache_write = 0,
        pr_per_request = 0, pr_batch_discount = 0, pr_batch_cached = 0, pr_as_of = [],
        pr_source = [], pr_free = False, pr_modal = []\<rparr>,
      rc_usage = no_usage, rc_cost = 0, rc_uncertain = False, rc_granted = 0\<rparr>"

definition budget_receipt :: "budget \<Rightarrow> string \<Rightarrow> receipt" where
  "budget_receipt b rid = (case map_of (bg_settled b) rid of Some r \<Rightarrow> r | None \<Rightarrow> no_receipt)"

definition budget_restore :: "budget \<Rightarrow> receipt \<Rightarrow> budget \<times> budget_error option" where
  "budget_restore b r =
     (if rc_id r = [] \<or> rc_cost r < 0 then (b, Some ErrInvalidReceipt)
      else if map_of (bg_settled b) (rc_id r) \<noteq> None then (b, None)
      else
        (let b1 = b\<lparr>bg_granted := max (bg_granted b) (rc_granted r)\<rparr>;
             b2 = record_usage b1 (rc_model r) (rc_pricing r) (rc_usage r) (rc_cost r)
         in (b2\<lparr>bg_uncertain := (if rc_uncertain r then wrap64 (bg_uncertain b2 + 1) else bg_uncertain b2),
                bg_settled := AList.update (rc_id r) r (bg_settled b2)\<rparr>, None)))"

definition reservation_receipt :: "budget \<Rightarrow> string \<Rightarrow> string \<Rightarrow> pricing \<Rightarrow> receipt" where
  "reservation_receipt b rid model pricing =
     (let r = (case map_of (bg_held b) rid of Some r \<Rightarrow> r | None \<Rightarrow> no_reservation);
          u = no_usage\<lparr>tu_input := rs_tokens r, tu_requests := rs_requests r\<rparr>
      in \<lparr>rc_id = rid, rc_model = model, rc_pricing = pricing, rc_usage = u,
          rc_cost = max (rs_cost r) (pricing_cost pricing u), rc_uncertain = True,
          rc_granted = bg_granted b\<rparr>)"

section \<open>Tool quotas\<close>

definition tool_quota :: "budget \<Rightarrow> string \<Rightarrow> int \<Rightarrow> budget" where
  "tool_quota b name n =
     (if n \<le> 0 then b\<lparr>bg_quotas := AList.delete name (bg_quotas b)\<rparr>
      else b\<lparr>bg_quotas := AList.update name n (bg_quotas b)\<rparr>)"

definition reserve_tool_call :: "budget \<Rightarrow> string \<Rightarrow> budget \<times> budget_error option" where
  "reserve_tool_call b name =
     (let admit = (b\<lparr>bg_tool_calls := AList.update name (wrap64 (count_of (bg_tool_calls b) name + 1))
            (bg_tool_calls b)\<rparr>, None)
      in case map_of (bg_quotas b) name of
           Some limit \<Rightarrow>
             if limit \<le> count_of (bg_tool_calls b) name then (b, Some (ErrToolQuota name limit)) else admit
         | None \<Rightarrow> admit)"

definition tool_calls :: "budget \<Rightarrow> string \<Rightarrow> int" where
  "tool_calls b name = count_of (bg_tool_calls b) name"

definition tool_quota_remaining :: "budget \<Rightarrow> string \<Rightarrow> int \<times> bool" where
  "tool_quota_remaining b name =
     (case map_of (bg_quotas b) name of
        None \<Rightarrow> (0, False)
      | Some limit \<Rightarrow> (max (wrap64 (limit - tool_calls b name)) 0, True))"

end
