(* ===== verification/Budget_Ledger.thy ===== *)
theory Budget_Ledger
  imports Budget
begin

text \<open>
  What the operations of the ledger do, in the three dimensions a policy limits (cost, tokens,
  requests): sums over the held reservations, frame lemmas, and the invariants that sequences of
  operations (\<open>ledger_op\<close>, \<open>run_ledger\<close>) keep.
\<close>

section \<open>Wrapping sums\<close>

lemma wrap64_range: "- 9223372036854775808 \<le> wrap64 x \<and> wrap64 x \<le> 9223372036854775807"
proof -
  have "0 \<le> (x + 9223372036854775808) mod 18446744073709551616"
    "(x + 9223372036854775808) mod 18446744073709551616 < 18446744073709551616" by simp_all
  then show ?thesis by (simp add: wrap64_def)
qed

lemma wrap64_cong:
  assumes "x mod 18446744073709551616 = y mod 18446744073709551616"
  shows "wrap64 x = wrap64 y"
  unfolding wrap64_def
  by (rule arg_cong [OF mod_add_cong [OF assms refl], of "\<lambda>z. z - 9223372036854775808"])

lemma wrap64_mod: "wrap64 x mod 18446744073709551616 = x mod 18446744073709551616"
  unfolding wrap64_def by (simp add: mod_diff_left_eq)

lemma wrap64_add_left [simp]: "wrap64 (wrap64 x + y) = wrap64 (x + y)"
  by (intro wrap64_cong mod_add_cong wrap64_mod refl)

lemma wrap64_add_right [simp]: "wrap64 (x + wrap64 y) = wrap64 (x + y)"
  by (intro wrap64_cong mod_add_cong wrap64_mod refl)

lemma wrap64_small: "- 9223372036854775808 \<le> x \<Longrightarrow> x < 9223372036854775808 \<Longrightarrow> wrap64 x = x"
  by (rule wrap64_id) (simp_all add: max_int64_def)

section \<open>Sums over a map\<close>

definition total_of :: "('v \<Rightarrow> int) \<Rightarrow> ('k, 'v) gomap \<Rightarrow> int" where
  "total_of f m = sum_list (map (f \<circ> snd) m)"

lemma total_of_simps [simp]:
  "total_of f [] = 0" "total_of f ((k, v) # m) = f v + total_of f m"
  "total_of f (m @ m') = total_of f m + total_of f m'"
  by (simp_all add: total_of_def)

lemma total_of_fresh:
  "map_of m k = None \<Longrightarrow> total_of f (AList.update k v m) = total_of f m + f v"
  by (simp add: update_fresh)

lemma total_of_replace:
  "distinct (map fst m) \<Longrightarrow> map_of m k = Some v \<Longrightarrow>
     total_of f (AList.update k w m) = total_of f m - f v + f w"
  by (induction m) (auto split: if_splits)

lemma delete_fresh: "k \<notin> fst ` set m \<Longrightarrow> AList.delete k m = m"
  by (induction m) auto

lemma total_of_remove:
  "distinct (map fst m) \<Longrightarrow> map_of m k = Some v \<Longrightarrow>
     total_of f (AList.delete k m) = total_of f m - f v"
  by (induction m) (auto simp: delete_fresh split: if_splits)

lemma total_of_nonneg: "(\<And>k v. (k, v) \<in> set m \<Longrightarrow> 0 \<le> f v) \<Longrightarrow> 0 \<le> total_of f m"
  by (induction m) fastforce+

lemma total_of_member:
  assumes "\<And>k v. (k, v) \<in> set m \<Longrightarrow> 0 \<le> f v" "(k, v) \<in> set m"
  shows "f v \<le> total_of f m"
  using assms
proof (induction m)
  case (Cons a m)
  obtain k' v' where a: "a = (k', v')" by (cases a)
  have rest: "0 \<le> total_of f m" using Cons.prems by (intro total_of_nonneg) auto
  show ?case
  proof (cases "(k, v) = a")
    case False
    then have "f v \<le> total_of f m" using Cons by auto
    then show ?thesis using Cons.prems(1) [of k' v'] by (simp add: a)
  qed (use rest in \<open>simp add: a\<close>)
qed simp

lemma held_sum_wrap: "held_sum f b = wrap64 (total_of f (bg_held b))"
proof -
  have "foldl (\<lambda>a r. wrap64 (a + f r)) (wrap64 x) (map snd m) = wrap64 (x + total_of f m)" for x m
    by (induction m arbitrary: x) (auto simp: add.assoc)
  from this [of 0 "bg_held b"] show ?thesis by (simp add: held_sum_def wrap64_def)
qed

section \<open>Frame lemmas\<close>

lemma record_usage_fields [simp]:
  "bg_policy (record_usage b model pricing u c) = bg_policy b"
  "bg_held (record_usage b model pricing u c) = bg_held b"
  "bg_settled (record_usage b model pricing u c) = bg_settled b"
  "bg_uncertain (record_usage b model pricing u c) = bg_uncertain b"
  "bg_granted (record_usage b model pricing u c) = bg_granted b"
  "bg_quotas (record_usage b model pricing u c) = bg_quotas b"
  "bg_tool_calls (record_usage b model pricing u c) = bg_tool_calls b"
  "bg_spent (record_usage b model pricing u c) = wrap64 (bg_spent b + c)"
  "bg_usage (record_usage b model pricing u c) = usage_add (bg_usage b) u"
  "bg_costs (record_usage b model pricing u c) =
     AList.update model (wrap64 (count_of (bg_costs b) model + c)) (bg_costs b)"
  by (simp_all add: record_usage_def Let_def)

lemma hold_fields [simp]:
  "bg_policy (hold b rid r) = bg_policy b"
  "bg_held (hold b rid r) = AList.update rid r (bg_held b)"
  "bg_settled (hold b rid r) = bg_settled b"
  "bg_uncertain (hold b rid r) = bg_uncertain b"
  "bg_granted (hold b rid r) = bg_granted b"
  "bg_spent (hold b rid r) = bg_spent b"
  "bg_usage (hold b rid r) = bg_usage b"
  "bg_costs (hold b rid r) = bg_costs b"
  "bg_quotas (hold b rid r) = bg_quotas b"
  "bg_tool_calls (hold b rid r) = bg_tool_calls b"
  by (simp_all add: hold_def)

lemma usage_add_fields [simp]:
  "tu_input (usage_add u v) = wrap64 (tu_input u + tu_input v)"
  "tu_cached (usage_add u v) = wrap64 (tu_cached u + tu_cached v)"
  "tu_cache_write (usage_add u v) = wrap64 (tu_cache_write u + tu_cache_write v)"
  "tu_output (usage_add u v) = wrap64 (tu_output u + tu_output v)"
  "tu_requests (usage_add u v) = wrap64 (tu_requests u + tu_requests v)"
  by (simp_all add: usage_add_def)

lemma new_budget_fields [simp]:
  "bg_policy (new_budget p) = p" "bg_held (new_budget p) = []" "bg_settled (new_budget p) = []"
  "bg_uncertain (new_budget p) = 0" "bg_spent (new_budget p) = 0" "bg_usage (new_budget p) = no_usage"
  "bg_costs (new_budget p) = []" "bg_granted (new_budget p) = 0" "bg_quotas (new_budget p) = []"
  "bg_tool_calls (new_budget p) = []"
  by (simp_all add: new_budget_def)

lemma no_usage_fields [simp]:
  "tu_input no_usage = 0" "tu_cached no_usage = 0" "tu_cache_write no_usage = 0"
  "tu_output no_usage = 0" "tu_requests no_usage = 0"
  by (simp_all add: no_usage_def)

section \<open>Sequences of operations\<close>

datatype ledger_op =
    OpReserve string pricing estimate
  | OpCarve string string pricing cost int
  | OpSettle string string pricing token_usage bool
  | OpRecordOnce string string pricing token_usage
  | OpRestore receipt
  | OpGrant cost
  | OpQuota string int
  | OpToolCall string

fun ledger_step :: "budget \<Rightarrow> ledger_op \<Rightarrow> budget" where
  "ledger_step b (OpReserve rid pricing extra) = fst (reserve_with b rid pricing extra)"
| "ledger_step b (OpCarve from rid pricing c t) = fst (carve b from rid pricing c t)"
| "ledger_step b (OpSettle rid model pricing u unknown) = fst (settle b rid model pricing u unknown)"
| "ledger_step b (OpRecordOnce rid model pricing u) = fst (record_once b rid model pricing u)"
| "ledger_step b (OpRestore r) = fst (budget_restore b r)"
| "ledger_step b (OpGrant extra) = budget_grant b extra"
| "ledger_step b (OpQuota name n) = tool_quota b name n"
| "ledger_step b (OpToolCall name) = fst (reserve_tool_call b name)"

definition run_ledger :: "budget \<Rightarrow> ledger_op list \<Rightarrow> budget" where
  "run_ledger b ops = foldl ledger_step b ops"

lemma run_ledger_simps [simp]:
  "run_ledger b [] = b" "run_ledger b (x # xs) = run_ledger (ledger_step b x) xs"
  by (simp_all add: run_ledger_def)

lemma run_ledger_induct:
  assumes "P b" "\<And>b x. P b \<Longrightarrow> x \<in> set ops \<Longrightarrow> P (ledger_step b x)"
  shows "P (run_ledger b ops)"
  using assms by (induction ops arbitrary: b) auto

text \<open>The cases of admission: refused with the ledger as it was, or one more reservation.\<close>

lemma reserve_with_cases:
  obtains (refused) e r where "reserve_with b rid pricing extra = (b, r, Some e)"
  | (admitted) r where
      "reserve_with b rid pricing extra = (hold b rid r, r, None)"
      "r = fill_bounds b (per_call rid (bg_policy b) extra)"
      "admission_error b rid pricing = None"
      "\<not> bp_call_cost (bg_policy b) < 0" "\<not> bp_call_tokens (bg_policy b) < 0"
      "bp_on_exceed (bg_policy b) \<noteq> BudgetWarn \<longrightarrow> \<not> exceeds b r \<and> \<not> busy b r"
proof (cases "admission_error b rid pricing")
  case (Some e)
  then show ?thesis using refused by (simp add: reserve_with_def)
next
  case None
  define r where "r = fill_bounds b (per_call rid (bg_policy b) extra)"
  consider "bp_call_cost (bg_policy b) < 0 \<or> bp_call_tokens (bg_policy b) < 0"
    | "\<not> bp_call_cost (bg_policy b) < 0" "\<not> bp_call_tokens (bg_policy b) < 0"
      "bp_on_exceed (bg_policy b) \<noteq> BudgetWarn \<and> (exceeds b r \<or> busy b r)"
    | "\<not> bp_call_cost (bg_policy b) < 0" "\<not> bp_call_tokens (bg_policy b) < 0"
      "bp_on_exceed (bg_policy b) \<noteq> BudgetWarn \<longrightarrow> \<not> exceeds b r \<and> \<not> busy b r"
    by blast
  then show ?thesis
  proof cases
    case 1
    show ?thesis
      by (rule refused [of "per_call rid (bg_policy b) extra" ErrNegativeBounds])
        (use 1 None in \<open>simp add: reserve_with_def Let_def\<close>)
  next
    case 2
    show ?thesis
      by (rule refused [of r "if exceeds b r then ErrBudgetExceeded else ErrBudgetBusy"])
        (use 2 None in \<open>auto simp: reserve_with_def Let_def r_def [symmetric]\<close>)
  next
    case 3
    show ?thesis
      by (rule admitted [of r])
        (use 3 None in \<open>auto simp: reserve_with_def Let_def r_def [symmetric]\<close>)
  qed
qed

lemma admission_None:
  "admission_error b rid pricing = None \<Longrightarrow>
     rid \<noteq> [] \<and> map_of (bg_held b) rid = None \<and> map_of (bg_settled b) rid = None"
  by (auto simp: admission_error_def split: if_splits)

lemma carve_cases:
  obtains (refused) e r where "carve b from rid pricing c t = (b, r, Some e)"
  | (reserved) "carve b from rid pricing c t = reserve b rid pricing"
  | (carved) parent c' t' r where
      "carve b from rid pricing c t =
         (hold (hold b from (parent\<lparr>rs_cost := wrap64 (rs_cost parent - c'),
            rs_tokens := wrap64 (rs_tokens parent - t')\<rparr>)) rid r, r, None)"
      "map_of (bg_held b) from = Some parent"
      "c' = carve_share c (rs_cost parent)" "t' = carve_share t (rs_tokens parent)"
      "r = \<lparr>rs_id = rid, rs_cost = c', rs_tokens = t', rs_requests = 1\<rparr>"
      "admission_error b rid pricing = None"
      "bp_on_exceed (bg_policy b) \<noteq> BudgetWarn \<and> 0 < bp_max_requests (bg_policy b) \<longrightarrow>
         \<not> bp_max_requests (bg_policy b) <
            wrap64 (wrap64 (tu_requests (bg_usage b) + held_sum rs_requests b) + 1)"
proof (cases "from = [] \<or> map_of (bg_held b) from = None")
  case True
  then show ?thesis using reserved by (auto simp: carve_def)
next
  case False
  then obtain parent where p: "from \<noteq> []" "map_of (bg_held b) from = Some parent" by auto
  show ?thesis
  proof (cases "admission_error b rid pricing")
    case (Some e)
    then show ?thesis using refused p by (auto simp: carve_def)
  next
    case None
    then show ?thesis
      using refused carved [of parent] p
      by (cases "bp_on_exceed (bg_policy b) \<noteq> BudgetWarn \<and> 0 < bp_max_requests (bg_policy b) \<and>
          bp_max_requests (bg_policy b) < wrap64 (wrap64 (tu_requests (bg_usage b) + held_sum rs_requests b) + 1)")
        (auto simp: carve_def Let_def)
  qed
qed

lemma settle_cases:
  obtains (repeated) "settle b rid model pricing u unknown = (b, None)" "map_of (bg_settled b) rid \<noteq> None"
  | (unheld) "settle b rid model pricing u unknown = (b, Some ErrUnknownReservation)"
      "map_of (bg_settled b) rid = None" "map_of (bg_held b) rid = None"
  | (settled) r rc b' e where
      "settle b rid model pricing u unknown = (b', e)"
      "map_of (bg_settled b) rid = None" "map_of (bg_held b) rid = Some r"
      "rc = settlement b r rid model pricing u unknown"
      "bg_policy b' = bg_policy b" "bg_granted b' = bg_granted b"
      "bg_held b' = AList.delete rid (bg_held b)"
      "bg_settled b' = AList.update rid rc (bg_settled b)"
      "bg_uncertain b' = (if rc_uncertain rc then wrap64 (bg_uncertain b + 1) else bg_uncertain b)"
      "bg_spent b' = wrap64 (bg_spent b + rc_cost rc)"
      "bg_usage b' = usage_add (bg_usage b) (rc_usage rc)"
      "bg_costs b' = AList.update model (wrap64 (count_of (bg_costs b) model + rc_cost rc)) (bg_costs b)"
      "bg_quotas b' = bg_quotas b" "bg_tool_calls b' = bg_tool_calls b"
proof (cases "map_of (bg_settled b) rid")
  case (Some x)
  then show ?thesis using repeated by (simp add: settle_def)
next
  case None
  show ?thesis
  proof (cases "map_of (bg_held b) rid")
    case (Some r)
    show ?thesis
      by (rule settled [OF prod.collapse [symmetric] None Some refl])
        (simp_all add: settle_def None Some Let_def)
  qed (use unheld None in \<open>simp add: settle_def\<close>)
qed

lemma settlement_fields [simp]:
  "rc_id (settlement b r rid model pricing u unknown) = rid"
  "rc_model (settlement b r rid model pricing u unknown) = model"
  "rc_usage (settlement b r rid model pricing u unknown) = settled_usage r u unknown"
  "rc_cost (settlement b r rid model pricing u unknown) = settled_cost pricing r u unknown"
  "rc_granted (settlement b r rid model pricing u unknown) = bg_granted b"
  by (simp_all add: settlement_def Let_def)

end
