(* ===== verification/Budget_Ceilings.thy ===== *)
theory Budget_Ceilings
  imports Budget_Ledger
begin

text \<open>
  The ceilings of a policy hold while calls keep to their reservations: in each enabled dimension
  the amount used plus everything reserved stays at or below the ceiling. One predicate,
  \<open>fits\<close>, states it for any dimension; admission, carving and settlement preserve it.
\<close>

section \<open>One dimension\<close>

definition cap :: int where "cap = 2305843009213693952"

definition fits :: "int \<Rightarrow> (reservation \<Rightarrow> int) \<Rightarrow> int \<Rightarrow> budget \<Rightarrow> bool" where
  "fits used f roof b \<longleftrightarrow>
     0 \<le> used \<and> (\<forall>(k, r) \<in> set (bg_held b). 0 \<le> f r) \<and>
     used + total_of f (bg_held b) \<le> roof \<and> roof \<le> cap"

lemma fits_held_nonneg: "fits used f roof b \<Longrightarrow> 0 \<le> total_of f (bg_held b)"
  by (rule total_of_nonneg) (auto simp: fits_def)

lemma fits_range:
  assumes "fits used f roof b"
  shows "0 \<le> used" "used \<le> roof" "total_of f (bg_held b) \<le> roof - used" "roof \<le> cap"
    "0 \<le> total_of f (bg_held b)"
  using assms fits_held_nonneg [OF assms] by (auto simp: fits_def)

lemma fits_member:
  assumes "fits used f roof b" "map_of (bg_held b) k = Some r"
  shows "0 \<le> f r" "f r \<le> total_of f (bg_held b)"
  using assms total_of_member [of "bg_held b" f k r] map_of_SomeD [OF assms(2)]
  by (fastforce simp: fits_def)+

lemma fits_hold:
  assumes "fits used f roof b" "map_of (bg_held b) k = None" "0 \<le> f r"
    "used + total_of f (bg_held b) + f r \<le> roof"
  shows "fits used f roof (hold b k r)"
  using assms by (auto simp: fits_def update_fresh)

text \<open>The admission test on wrapped sums is the test on the sums.\<close>

lemma admission_exact:
  assumes "fits used f roof b" "0 \<le> x" "x \<le> cap"
    and "\<not> roof < wrap64 (wrap64 (used + held_sum f b) + x)"
  shows "used + total_of f (bg_held b) + x \<le> roof"
proof -
  have "wrap64 (wrap64 (used + held_sum f b) + x) = wrap64 (used + total_of f (bg_held b) + x)"
    by (simp add: held_sum_wrap add.assoc)
  also have "\<dots> = used + total_of f (bg_held b) + x"
    using fits_range [OF assms(1)] assms by (intro wrap64_small) (simp_all add: cap_def)
  finally show ?thesis using assms(4) by simp
qed

lemma update_key_in_set: "(k', v') \<in> set (AList.update k v m) \<Longrightarrow> (k', v') = (k, v) \<or> (k', v') \<in> set m"
  by (induction m) (auto split: if_splits)

lemma delete_in_set: "x \<in> set (AList.delete k m) \<Longrightarrow> x \<in> set m"
  by (induction m) (auto split: if_splits)

text \<open>Moving a share of one reservation to a new one leaves the sum as it was, or adds what the
  new one has beyond the share.\<close>

lemma fits_carve:
  assumes "fits used f roof b" "distinct (map fst (bg_held b))"
    "map_of (bg_held b) from = Some parent" "map_of (bg_held b) rid = None"
    "0 \<le> f parent'" "0 \<le> f r" "used + total_of f (bg_held b) - f parent + f parent' + f r \<le> roof"
  shows "fits used f roof (hold (hold b from parent') rid r)"
proof (rule fits_hold)
  show "fits used f roof (hold b from parent')"
    using assms(1,5,6,7) total_of_replace [OF assms(2,3), of f parent']
    by (fastforce simp: fits_def dest: update_key_in_set)
  show "map_of (bg_held (hold b from parent')) rid = None" using assms(3,4) by auto
qed (use assms(6,7) total_of_replace [OF assms(2,3), of f parent'] in auto)

lemma fits_settle:
  assumes "fits used f roof b" "distinct (map fst (bg_held b))" "map_of (bg_held b) rid = Some r"
    and "bg_held b' = AList.delete rid (bg_held b)" "0 \<le> u" "u \<le> f r"
  shows "fits (used + u) f roof b'"
  using assms total_of_remove [OF assms(2,3), of f]
  by (fastforce simp: fits_def dest: delete_in_set)

lemma fits_same:
  assumes "fits used f roof b" "bg_held b' = bg_held b" "roof \<le> roof'" "roof' \<le> cap"
  shows "fits used f roof' b'"
  using assms by (auto simp: fits_def)

section \<open>The three dimensions\<close>

definition counted_tokens :: "token_usage \<Rightarrow> int" where
  "counted_tokens u = tu_input u + tu_cached u + tu_cache_write u + tu_output u"

definition token_counts_ok :: "token_usage \<Rightarrow> bool" where
  "token_counts_ok u \<longleftrightarrow> 0 \<le> tu_input u \<and> 0 \<le> tu_cached u \<and> 0 \<le> tu_cache_write u \<and> 0 \<le> tu_output u"

lemma usage_total_wrap: "usage_total u = wrap64 (counted_tokens u)"
  by (simp add: usage_total_def counted_tokens_def)

definition cost_fits :: "budget \<Rightarrow> bool" where
  "cost_fits b \<longleftrightarrow> 0 < bp_limit (bg_policy b) \<longrightarrow>
     0 \<le> bg_granted b \<and> fits (bg_spent b) rs_cost (bp_limit (bg_policy b) + bg_granted b) b"

definition tokens_fit :: "budget \<Rightarrow> bool" where
  "tokens_fit b \<longleftrightarrow> 0 < bp_max_tokens (bg_policy b) \<longrightarrow>
     token_counts_ok (bg_usage b) \<and>
     fits (counted_tokens (bg_usage b)) rs_tokens (bp_max_tokens (bg_policy b)) b"

definition requests_fit :: "budget \<Rightarrow> bool" where
  "requests_fit b \<longleftrightarrow> 0 < bp_max_requests (bg_policy b) \<longrightarrow>
     fits (tu_requests (bg_usage b)) rs_requests (bp_max_requests (bg_policy b)) b"

definition within_policy :: "budget \<Rightarrow> bool" where
  "within_policy b \<longleftrightarrow>
     bp_on_exceed (bg_policy b) \<noteq> BudgetWarn \<and> distinct (map fst (bg_held b)) \<and>
     cost_fits b \<and> tokens_fit b \<and> requests_fit b"

lemma limit_exact:
  "cost_fits b \<Longrightarrow> 0 < bp_limit (bg_policy b) \<Longrightarrow>
     budget_limit b = bp_limit (bg_policy b) + bg_granted b"
  unfolding budget_limit_def
  by (rule wrap64_small) (auto simp: cost_fits_def cap_def dest: fits_range)

lemma tokens_exact:
  "tokens_fit b \<Longrightarrow> 0 < bp_max_tokens (bg_policy b) \<Longrightarrow>
     usage_total (bg_usage b) = counted_tokens (bg_usage b)"
  unfolding usage_total_wrap
  using fits_range [of "counted_tokens (bg_usage b)" rs_tokens "bp_max_tokens (bg_policy b)" b]
  by (intro wrap64_small) (simp_all add: tokens_fit_def cap_def)

text \<open>Per-call bounds and estimates that do not overflow.\<close>

definition estimate_ok :: "budget_policy \<Rightarrow> estimate \<Rightarrow> bool" where
  "estimate_ok p extra \<longleftrightarrow>
     bp_call_cost p + max 0 (es_cost extra) \<le> cap \<and>
     - cap \<le> es_input extra + es_output extra \<and>
     bp_call_tokens p + max 0 (es_input extra + es_output extra) \<le> cap"

lemma per_call_bounds:
  assumes "estimate_ok p extra" "\<not> bp_call_cost p < 0" "\<not> bp_call_tokens p < 0"
  shows "0 \<le> rs_cost (per_call rid p extra)" "rs_cost (per_call rid p extra) \<le> cap"
    "0 \<le> rs_tokens (per_call rid p extra)" "rs_tokens (per_call rid p extra) \<le> cap"
    "rs_requests (per_call rid p extra) = 1"
proof -
  have e: "wrap64 (es_input extra + es_output extra) = es_input extra + es_output extra"
    using assms by (intro wrap64_small) (auto simp: estimate_ok_def cap_def)
  have t: "wrap64 (bp_call_tokens p + max 0 (es_input extra + es_output extra)) =
      bp_call_tokens p + max 0 (es_input extra + es_output extra)"
    using assms by (intro wrap64_small) (auto simp: estimate_ok_def cap_def)
  have c: "wrap64 (bp_call_cost p + max 0 (es_cost extra)) = bp_call_cost p + max 0 (es_cost extra)"
    using assms by (intro wrap64_small) (auto simp: estimate_ok_def cap_def)
  show "0 \<le> rs_cost (per_call rid p extra)" "rs_cost (per_call rid p extra) \<le> cap"
    "0 \<le> rs_tokens (per_call rid p extra)" "rs_tokens (per_call rid p extra) \<le> cap"
    "rs_requests (per_call rid p extra) = 1"
    using assms by (auto simp: per_call_def estimate_ok_def e t c cap_def)
qed

lemma fill_bounds_fields:
  assumes "cost_fits b" "tokens_fit b"
    "0 \<le> rs_cost r" "rs_cost r \<le> cap" "0 \<le> rs_tokens r" "rs_tokens r \<le> cap"
  shows "0 \<le> rs_cost (fill_bounds b r)" "rs_cost (fill_bounds b r) \<le> cap"
    "0 \<le> rs_tokens (fill_bounds b r)" "rs_tokens (fill_bounds b r) \<le> cap"
    "rs_requests (fill_bounds b r) = rs_requests r"
proof -
  have c: "wrap64 (budget_limit b - bg_spent b) \<le> cap" if "0 < bp_limit (bg_policy b)"
  proof -
    have f: "fits (bg_spent b) rs_cost (bp_limit (bg_policy b) + bg_granted b) b"
      using assms(1) that by (simp add: cost_fits_def)
    show ?thesis using fits_range [OF f] by (simp add: limit_exact assms(1) that cap_def wrap64_small)
  qed
  have t: "wrap64 (bp_max_tokens (bg_policy b) - usage_total (bg_usage b)) \<le> cap"
    if "0 < bp_max_tokens (bg_policy b)"
  proof -
    have f: "fits (counted_tokens (bg_usage b)) rs_tokens (bp_max_tokens (bg_policy b)) b"
      using assms(2) that by (simp add: tokens_fit_def)
    show ?thesis using fits_range [OF f] by (simp add: tokens_exact assms(2) that cap_def wrap64_small)
  qed
  show "0 \<le> rs_cost (fill_bounds b r)" "rs_cost (fill_bounds b r) \<le> cap"
    "0 \<le> rs_tokens (fill_bounds b r)" "rs_tokens (fill_bounds b r) \<le> cap"
    "rs_requests (fill_bounds b r) = rs_requests r"
    using assms c t by (auto simp: fill_bounds_def Let_def cap_def)
qed

lemma not_busy:
  assumes "\<not> busy b r"
  shows "0 < bp_limit (bg_policy b) \<Longrightarrow>
      \<not> budget_limit b < wrap64 (wrap64 (bg_spent b + held_sum rs_cost b) + rs_cost r)"
    "0 < bp_max_tokens (bg_policy b) \<Longrightarrow> \<not> bp_max_tokens (bg_policy b) <
      wrap64 (wrap64 (usage_total (bg_usage b) + held_sum rs_tokens b) + rs_tokens r)"
    "0 < bp_max_requests (bg_policy b) \<Longrightarrow> \<not> bp_max_requests (bg_policy b) <
      wrap64 (wrap64 (tu_requests (bg_usage b) + held_sum rs_requests b) + rs_requests r)"
  using assms unfolding busy_def Let_def by blast+

lemma reserve_keeps_within:
  assumes w: "within_policy b" and e: "estimate_ok (bg_policy b) extra"
  shows "within_policy (fst (reserve_with b rid pricing extra))"
proof (cases rule: reserve_with_cases [of b rid pricing extra])
  case refused
  then show ?thesis using w by simp
next
  case (admitted r)
  have parts: "cost_fits b" "tokens_fit b" "requests_fit b" "distinct (map fst (bg_held b))"
    and enforce: "bp_on_exceed (bg_policy b) \<noteq> BudgetWarn"
    using w by (auto simp: within_policy_def)
  note pc = per_call_bounds [OF e admitted(4,5), of rid]
  note r = fill_bounds_fields [OF parts(1,2) pc(1-4), folded admitted(2)]
  have free: "map_of (bg_held b) rid = None" using admission_None [OF admitted(3)] by simp
  have nb: "\<not> busy b r" using admitted(6) enforce by blast
  have "cost_fits (hold b rid r)"
    unfolding cost_fits_def
  proof (intro impI conjI)
    assume "0 < bp_limit (bg_policy (hold b rid r))"
    then have lim: "0 < bp_limit (bg_policy b)" by simp
    then have f: "fits (bg_spent b) rs_cost (bp_limit (bg_policy b) + bg_granted b) b"
      and g: "0 \<le> bg_granted b"
      using parts(1) by (simp_all add: cost_fits_def)
    show "0 \<le> bg_granted (hold b rid r)" using g by simp
    have "bg_spent b + total_of rs_cost (bg_held b) + rs_cost r \<le> bp_limit (bg_policy b) + bg_granted b"
      using not_busy(1) [OF nb lim] unfolding limit_exact [OF parts(1) lim]
      by (rule admission_exact [OF f r(1,2)])
    then show "fits (bg_spent (hold b rid r)) rs_cost
        (bp_limit (bg_policy (hold b rid r)) + bg_granted (hold b rid r)) (hold b rid r)"
      using fits_hold [OF f free r(1)] by simp
  qed
  moreover have "tokens_fit (hold b rid r)"
    unfolding tokens_fit_def
  proof (intro impI conjI)
    assume "0 < bp_max_tokens (bg_policy (hold b rid r))"
    then have lim: "0 < bp_max_tokens (bg_policy b)" by simp
    then have f: "fits (counted_tokens (bg_usage b)) rs_tokens (bp_max_tokens (bg_policy b)) b"
      and g: "token_counts_ok (bg_usage b)"
      using parts(2) by (simp_all add: tokens_fit_def)
    show "token_counts_ok (bg_usage (hold b rid r))" using g by simp
    have "counted_tokens (bg_usage b) + total_of rs_tokens (bg_held b) + rs_tokens r
        \<le> bp_max_tokens (bg_policy b)"
      using not_busy(2) [OF nb lim] unfolding tokens_exact [OF parts(2) lim]
      by (rule admission_exact [OF f r(3,4)])
    then show "fits (counted_tokens (bg_usage (hold b rid r))) rs_tokens
        (bp_max_tokens (bg_policy (hold b rid r))) (hold b rid r)"
      using fits_hold [OF f free r(3)] by simp
  qed
  moreover have "requests_fit (hold b rid r)"
    unfolding requests_fit_def
  proof (intro impI)
    assume "0 < bp_max_requests (bg_policy (hold b rid r))"
    then have lim: "0 < bp_max_requests (bg_policy b)" by simp
    then have f: "fits (tu_requests (bg_usage b)) rs_requests (bp_max_requests (bg_policy b)) b"
      using parts(3) by (simp add: requests_fit_def)
    have one: "rs_requests r = 1" using r(5) pc(5) by simp
    have "tu_requests (bg_usage b) + total_of rs_requests (bg_held b) + rs_requests r
        \<le> bp_max_requests (bg_policy b)"
      using not_busy(3) [OF nb lim] one by (intro admission_exact [OF f]) (auto simp: cap_def)
    then show "fits (tu_requests (bg_usage (hold b rid r))) rs_requests
        (bp_max_requests (bg_policy (hold b rid r))) (hold b rid r)"
      using fits_hold [OF f free] one by simp
  qed
  ultimately show ?thesis
    using admitted(1) parts(4) enforce by (auto simp: within_policy_def)
qed

lemma carve_share_bounds: "0 \<le> have \<Longrightarrow> 0 \<le> carve_share want have \<and> carve_share want have \<le> have"
  by (auto simp: carve_share_def)

lemma carve_keeps_within:
  assumes w: "within_policy b" and e: "estimate_ok (bg_policy b) no_estimate"
  shows "within_policy (fst (carve b from rid pricing c t))"
proof (cases rule: carve_cases [of b "from" rid pricing c t])
  case refused
  then show ?thesis using w by simp
next
  case reserved
  then show ?thesis using reserve_keeps_within [OF w e, of rid pricing] by (simp add: reserve_def)
next
  case (carved parent c' t' r)
  define parent' where "parent' = parent\<lparr>rs_cost := wrap64 (rs_cost parent - c'),
    rs_tokens := wrap64 (rs_tokens parent - t')\<rparr>"
  define b' where "b' = hold (hold b from parent') rid r"
  have b': "fst (carve b from rid pricing c t) = b'" using carved(1) by (simp add: b'_def parent'_def)
  have parts: "cost_fits b" "tokens_fit b" "requests_fit b" "distinct (map fst (bg_held b))"
    and enforce: "bp_on_exceed (bg_policy b) \<noteq> BudgetWarn"
    using w by (auto simp: within_policy_def)
  have free: "map_of (bg_held b) rid = None" using admission_None [OF carved(6)] by simp
  note fields = hold_fields b'_def
  have "cost_fits b'"
    unfolding cost_fits_def
  proof (intro impI conjI)
    assume "0 < bp_limit (bg_policy b')"
    then have f: "fits (bg_spent b) rs_cost (bp_limit (bg_policy b) + bg_granted b) b"
      and g: "0 \<le> bg_granted b"
      using parts(1) by (simp_all add: cost_fits_def fields)
    show "0 \<le> bg_granted b'" using g by (simp add: fields)
    have p: "0 \<le> rs_cost parent" "rs_cost parent \<le> cap"
      using fits_member [OF f carved(2)] fits_range [OF f] by auto
    have c: "0 \<le> c'" "c' \<le> rs_cost parent" using carve_share_bounds [OF p(1), of c] carved(3) by auto
    have p': "rs_cost parent' = rs_cost parent - c'"
      using p c by (simp add: parent'_def wrap64_small cap_def)
    have "fits (bg_spent b) rs_cost (bp_limit (bg_policy b) + bg_granted b) (hold (hold b from parent') rid r)"
      using c fits_range(3) [OF f] p'
      by (intro fits_carve [OF f parts(4) carved(2) free]) (simp_all add: carved(5))
    then show "fits (bg_spent b') rs_cost (bp_limit (bg_policy b') + bg_granted b') b'"
      by (simp add: b'_def)
  qed
  moreover have "tokens_fit b'"
    unfolding tokens_fit_def
  proof (intro impI conjI)
    assume "0 < bp_max_tokens (bg_policy b')"
    then have f: "fits (counted_tokens (bg_usage b)) rs_tokens (bp_max_tokens (bg_policy b)) b"
      and g: "token_counts_ok (bg_usage b)"
      using parts(2) by (simp_all add: tokens_fit_def fields)
    show "token_counts_ok (bg_usage b')" using g by (simp add: fields)
    have p: "0 \<le> rs_tokens parent" "rs_tokens parent \<le> cap"
      using fits_member [OF f carved(2)] fits_range [OF f] by auto
    have c: "0 \<le> t'" "t' \<le> rs_tokens parent" using carve_share_bounds [OF p(1), of t] carved(4) by auto
    have p': "rs_tokens parent' = rs_tokens parent - t'"
      using p c by (simp add: parent'_def wrap64_small cap_def)
    have "fits (counted_tokens (bg_usage b)) rs_tokens (bp_max_tokens (bg_policy b))
        (hold (hold b from parent') rid r)"
      using c fits_range(3) [OF f] p'
      by (intro fits_carve [OF f parts(4) carved(2) free]) (simp_all add: carved(5))
    then show "fits (counted_tokens (bg_usage b')) rs_tokens (bp_max_tokens (bg_policy b')) b'"
      by (simp add: b'_def)
  qed
  moreover have "requests_fit b'"
    unfolding requests_fit_def
  proof (intro impI)
    assume "0 < bp_max_requests (bg_policy b')"
    then have lim: "0 < bp_max_requests (bg_policy b)" by (simp add: fields)
    then have f: "fits (tu_requests (bg_usage b)) rs_requests (bp_max_requests (bg_policy b)) b"
      using parts(3) by (simp add: requests_fit_def)
    have room: "tu_requests (bg_usage b) + total_of rs_requests (bg_held b) + 1 \<le> bp_max_requests (bg_policy b)"
      using carved(7) enforce lim by (intro admission_exact [OF f]) (auto simp: cap_def)
    have "fits (tu_requests (bg_usage b)) rs_requests (bp_max_requests (bg_policy b))
        (hold (hold b from parent') rid r)"
      using room fits_member [OF f carved(2)]
      by (intro fits_carve [OF f parts(4) carved(2) free]) (simp_all add: carved(5) parent'_def)
    then show "fits (tu_requests (bg_usage b')) rs_requests (bp_max_requests (bg_policy b')) b'"
      by (simp add: b'_def)
  qed
  ultimately show ?thesis
    using parts(4) enforce unfolding b' by (auto simp: within_policy_def fields)
qed

text \<open>A settlement within the reservation, in every dimension the policy limits.\<close>

definition within_reservation :: "budget \<Rightarrow> reservation \<Rightarrow> pricing \<Rightarrow> token_usage \<Rightarrow> bool \<Rightarrow> bool" where
  "within_reservation b r pricing usage unknown \<longleftrightarrow>
     (let u = settled_usage r usage unknown; c = settled_cost pricing r usage unknown; p = bg_policy b in
      (0 < bp_limit p \<longrightarrow> 0 \<le> c \<and> c \<le> rs_cost r) \<and>
      (0 < bp_max_tokens p \<longrightarrow> token_counts_ok u \<and> counted_tokens u \<le> rs_tokens r) \<and>
      (0 < bp_max_requests p \<longrightarrow> 0 \<le> tu_requests u \<and> tu_requests u \<le> rs_requests r))"

lemma usage_add_exact:
  assumes "token_counts_ok u" "token_counts_ok v" "counted_tokens u + counted_tokens v \<le> cap"
  shows "token_counts_ok (usage_add u v)"
    "counted_tokens (usage_add u v) = counted_tokens u + counted_tokens v"
proof -
  have fields: "wrap64 (tu_input u + tu_input v) = tu_input u + tu_input v"
    "wrap64 (tu_cached u + tu_cached v) = tu_cached u + tu_cached v"
    "wrap64 (tu_cache_write u + tu_cache_write v) = tu_cache_write u + tu_cache_write v"
    "wrap64 (tu_output u + tu_output v) = tu_output u + tu_output v"
    using assms by (auto simp: token_counts_ok_def counted_tokens_def cap_def intro!: wrap64_small)
  show "token_counts_ok (usage_add u v)" using assms by (simp add: token_counts_ok_def fields)
  show "counted_tokens (usage_add u v) = counted_tokens u + counted_tokens v"
    by (simp add: counted_tokens_def fields)
qed

lemma settle_keeps_within:
  assumes w: "within_policy b"
    and kept: "\<And>r. map_of (bg_held b) rid = Some r \<Longrightarrow> within_reservation b r pricing usage unknown"
  shows "within_policy (fst (settle b rid model pricing usage unknown))"
proof (cases rule: settle_cases [of b rid model pricing usage unknown])
  case (settled r rc b' err)
  have parts: "cost_fits b" "tokens_fit b" "requests_fit b" "distinct (map fst (bg_held b))"
    and enforce: "bp_on_exceed (bg_policy b) \<noteq> BudgetWarn"
    using w by (auto simp: within_policy_def)
  define u c where "u = settled_usage r usage unknown" and "c = settled_cost pricing r usage unknown"
  have rc: "rc_usage rc = u" "rc_cost rc = c" by (simp_all add: settled(4) u_def c_def)
  have k: "0 < bp_limit (bg_policy b) \<longrightarrow> 0 \<le> c \<and> c \<le> rs_cost r"
    "0 < bp_max_tokens (bg_policy b) \<longrightarrow> token_counts_ok u \<and> counted_tokens u \<le> rs_tokens r"
    "0 < bp_max_requests (bg_policy b) \<longrightarrow> 0 \<le> tu_requests u \<and> tu_requests u \<le> rs_requests r"
    using kept [OF settled(3)] by (simp_all add: within_reservation_def u_def c_def Let_def)
  note b' = settled(5-11)
  have "cost_fits b'"
    unfolding cost_fits_def
  proof (intro impI conjI)
    assume "0 < bp_limit (bg_policy b')"
    then have f: "fits (bg_spent b) rs_cost (bp_limit (bg_policy b) + bg_granted b) b"
      and g: "0 \<le> bg_granted b" and c: "0 \<le> c" "c \<le> rs_cost r"
      using parts(1) k(1) by (simp_all add: cost_fits_def b')
    show "0 \<le> bg_granted b'" using g by (simp add: b')
    have "bg_spent b' = bg_spent b + c"
      using fits_range [OF f] fits_member [OF f settled(3)] c
      by (simp add: b' rc cap_def wrap64_small)
    then show "fits (bg_spent b') rs_cost (bp_limit (bg_policy b') + bg_granted b') b'"
      using fits_settle [OF f parts(4) settled(3,7) c] by (simp add: b')
  qed
  moreover have "tokens_fit b'"
    unfolding tokens_fit_def
  proof (intro impI)
    assume "0 < bp_max_tokens (bg_policy b')"
    then have f: "fits (counted_tokens (bg_usage b)) rs_tokens (bp_max_tokens (bg_policy b)) b"
      and g: "token_counts_ok (bg_usage b)" and c: "token_counts_ok u" "counted_tokens u \<le> rs_tokens r"
      using parts(2) k(2) by (simp_all add: tokens_fit_def b')
    have "0 \<le> counted_tokens u" using c(1) by (simp add: counted_tokens_def token_counts_ok_def)
    moreover have "counted_tokens (bg_usage b) + counted_tokens u \<le> cap"
      using fits_range [OF f] fits_member [OF f settled(3)] c by simp
    ultimately show "token_counts_ok (bg_usage b') \<and>
        fits (counted_tokens (bg_usage b')) rs_tokens (bp_max_tokens (bg_policy b')) b'"
      using usage_add_exact [OF g c(1)] fits_settle [OF f parts(4) settled(3,7) _ c(2)]
      by (simp add: b' rc)
  qed
  moreover have "requests_fit b'"
    unfolding requests_fit_def
  proof (intro impI)
    assume "0 < bp_max_requests (bg_policy b')"
    then have f: "fits (tu_requests (bg_usage b)) rs_requests (bp_max_requests (bg_policy b)) b"
      and c: "0 \<le> tu_requests u" "tu_requests u \<le> rs_requests r"
      using parts(3) k(3) by (simp_all add: requests_fit_def b')
    have "tu_requests (bg_usage b') = tu_requests (bg_usage b) + tu_requests u"
      using fits_range [OF f] fits_member [OF f settled(3)] c
      by (simp add: b' rc cap_def wrap64_small)
    then show "fits (tu_requests (bg_usage b')) rs_requests (bp_max_requests (bg_policy b')) b'"
      using fits_settle [OF f parts(4) settled(3,7) c] by (simp add: b')
  qed
  ultimately show ?thesis
    using settled(1) parts(4) enforce by (auto simp: within_policy_def b')
qed (use w in simp_all)

lemma tool_ops_frame:
  "bg_policy (tool_quota b name n) = bg_policy b" "bg_held (tool_quota b name n) = bg_held b"
  "bg_spent (tool_quota b name n) = bg_spent b" "bg_usage (tool_quota b name n) = bg_usage b"
  "bg_granted (tool_quota b name n) = bg_granted b" "bg_settled (tool_quota b name n) = bg_settled b"
  "bg_costs (tool_quota b name n) = bg_costs b" "bg_uncertain (tool_quota b name n) = bg_uncertain b"
  "bg_policy (fst (reserve_tool_call b name)) = bg_policy b"
  "bg_held (fst (reserve_tool_call b name)) = bg_held b"
  "bg_spent (fst (reserve_tool_call b name)) = bg_spent b"
  "bg_usage (fst (reserve_tool_call b name)) = bg_usage b"
  "bg_granted (fst (reserve_tool_call b name)) = bg_granted b"
  "bg_settled (fst (reserve_tool_call b name)) = bg_settled b"
  "bg_costs (fst (reserve_tool_call b name)) = bg_costs b"
  "bg_uncertain (fst (reserve_tool_call b name)) = bg_uncertain b"
  by (simp_all add: tool_quota_def reserve_tool_call_def Let_def split: option.splits)

lemma within_policy_cong:
  assumes "within_policy b" "bg_policy b' = bg_policy b" "bg_held b' = bg_held b"
    "bg_spent b' = bg_spent b" "bg_usage b' = bg_usage b" "bg_granted b' = bg_granted b"
  shows "within_policy b'"
  using assms by (simp add: within_policy_def cost_fits_def tokens_fit_def requests_fit_def fits_def)

lemma grant_keeps_within:
  assumes "within_policy b" "0 \<le> grant_amount (bg_policy b) extra"
    "bp_limit (bg_policy b) + bg_granted b + grant_amount (bg_policy b) extra \<le> cap"
  shows "within_policy (budget_grant b extra)"
proof -
  have "cost_fits (budget_grant b extra)"
    unfolding cost_fits_def
  proof (intro impI)
    assume "0 < bp_limit (bg_policy (budget_grant b extra))"
    then have lim: "0 < bp_limit (bg_policy b)" by (simp add: budget_grant_def)
    then have f: "fits (bg_spent b) rs_cost (bp_limit (bg_policy b) + bg_granted b) b" "0 \<le> bg_granted b"
      using assms(1) by (simp_all add: within_policy_def cost_fits_def)
    have "bg_granted (budget_grant b extra) = bg_granted b + grant_amount (bg_policy b) extra"
      using f(2) assms(2,3) lim by (simp add: budget_grant_def wrap64_small cap_def)
    then show "0 \<le> bg_granted (budget_grant b extra) \<and>
        fits (bg_spent (budget_grant b extra)) rs_cost
          (bp_limit (bg_policy (budget_grant b extra)) + bg_granted (budget_grant b extra))
          (budget_grant b extra)"
      using f assms(2,3) fits_same [OF f(1), of "budget_grant b extra"
          "bp_limit (bg_policy b) + (bg_granted b + grant_amount (bg_policy b) extra)"]
      by (simp add: budget_grant_def)
  qed
  then show ?thesis
    using assms(1)
    by (simp add: within_policy_def budget_grant_def tokens_fit_def requests_fit_def fits_def)
qed

end
