(* ===== verification/Budget_Properties.thy ===== *)
theory Budget_Properties
  imports Budget_Ceilings "HOL-Library.Multiset"
begin

text \<open>
  The promises of the spending ledger: ceilings, exactly-once accounting, replay of receipts, tool
  quotas, errors without effect, and the charge for unknown usage.
\<close>

section \<open>Ceilings\<close>







section \<open>Accounting\<close>



















section \<open>Replay\<close>






section \<open>Tool quotas\<close>

definition calls_to :: "string \<Rightarrow> ledger_op list \<Rightarrow> int" where
  "calls_to name ops = int (length (filter (\<lambda>x. x = OpToolCall name) ops))"

lemma calls_to_simps [simp]:
  "calls_to name [] = 0"
  "calls_to name (x # xs) = (if x = OpToolCall name then 1 else 0) + calls_to name xs"
  "0 \<le> calls_to name ops"
  by (simp_all add: calls_to_def)

lemma step_quotas:
  assumes "\<forall>n. x \<noteq> OpQuota name n"
  shows "map_of (bg_quotas (ledger_step b x)) name = map_of (bg_quotas b) name"
proof (cases x)
  case (OpReserve rid pricing extra)
  then show ?thesis by (cases rule: reserve_with_cases [of b rid pricing extra]) simp_all
next
  case (OpCarve "from" rid pricing c t)
  have "bg_quotas (fst (reserve b rid pricing)) = bg_quotas b"
    by (cases rule: reserve_with_cases [of b rid pricing no_estimate]) (simp_all add: reserve_def)
  then show ?thesis
    by (cases rule: carve_cases [of b "from" rid pricing c t]) (simp_all add: OpCarve)
next
  case (OpSettle rid model pricing u unknown)
  then show ?thesis by (cases rule: settle_cases [of b rid model pricing u unknown]) simp_all
qed (use assms in \<open>auto simp: record_once_def budget_restore_def budget_grant_def tool_quota_def
    reserve_tool_call_def Let_def split: option.splits\<close>)

lemma step_other_calls:
  assumes "x \<noteq> OpToolCall name"
  shows "tool_calls (ledger_step b x) name = tool_calls b name"
proof (cases x)
  case (OpReserve rid pricing extra)
  then show ?thesis
    by (cases rule: reserve_with_cases [of b rid pricing extra]) (simp_all add: tool_calls_def)
next
  case (OpCarve "from" rid pricing c t)
  have "bg_tool_calls (fst (reserve b rid pricing)) = bg_tool_calls b"
    by (cases rule: reserve_with_cases [of b rid pricing no_estimate]) (simp_all add: reserve_def)
  then show ?thesis
    by (cases rule: carve_cases [of b "from" rid pricing c t]) (simp_all add: OpCarve tool_calls_def)
next
  case (OpSettle rid model pricing u unknown)
  then show ?thesis
    by (cases rule: settle_cases [of b rid model pricing u unknown]) (simp_all add: tool_calls_def)
qed (use assms in \<open>auto simp: record_once_def budget_restore_def budget_grant_def tool_quota_def
    reserve_tool_call_def tool_calls_def Let_def split: option.splits\<close>)

lemma step_tool_call:
  assumes "map_of (bg_quotas b) name = Some n" "0 \<le> tool_calls b name" "n \<le> max_int64"
  shows "tool_calls (ledger_step b (OpToolCall name)) name =
    (if n \<le> tool_calls b name then tool_calls b name else tool_calls b name + 1)"
  using assms by (auto simp: reserve_tool_call_def tool_calls_def wrap64_small max_int64_def)

text \<open>
  A tool quota is exact: while a quota of n is set for a tool, any operations of the run,
  sub-agents' included, admit the calls to it up to the n-th and refuse every later one.\<close>

theorem quota_exact:
  assumes "map_of (bg_quotas b) name = Some n" "n \<le> max_int64" "0 \<le> tool_calls b name"
    "tool_calls b name \<le> n" "\<forall>k. OpQuota name k \<notin> set ops"
  shows "(tool_calls (run_ledger b ops) name = min n (tool_calls b name + calls_to name ops)) \<and>
    (snd (reserve_tool_call (run_ledger b ops) name) =
      (if n \<le> tool_calls b name + calls_to name ops then Some (ErrToolQuota name n) else None))"
proof (intro conjI)
  have *: "tool_calls (run_ledger b ops) name = min n (tool_calls b name + calls_to name ops) \<and>
      map_of (bg_quotas (run_ledger b ops)) name = Some n"
    using assms
  proof (induction ops arbitrary: b)
    case (Cons x ops)
    have q: "map_of (bg_quotas (ledger_step b x)) name = Some n"
      using Cons.prems(1,5) step_quotas [of x name b] by auto
    have t: "tool_calls (ledger_step b x) name =
        (if x = OpToolCall name \<and> tool_calls b name < n then tool_calls b name + 1 else tool_calls b name)"
      using step_tool_call [OF Cons.prems(1,3,2)] step_other_calls [of x name b]
      by (cases "x = OpToolCall name") auto
    then show ?case
      using Cons.IH [OF q Cons.prems(2)] Cons.prems(3-5) by (auto simp: min_def)
  qed simp
  then show "tool_calls (run_ledger b ops) name = min n (tool_calls b name + calls_to name ops)" by simp
  show "snd (reserve_tool_call (run_ledger b ops) name) =
      (if n \<le> tool_calls b name + calls_to name ops then Some (ErrToolQuota name n) else None)"
    using * by (auto simp: reserve_tool_call_def tool_calls_def)
qed

section \<open>Errors\<close>

text \<open>
  C13: A refused operation leaves no trace: when admission, carving, a tool call or the replay of
  a receipt reports an error, and when a settlement reports an identifier nobody reserved, the
  ledger is exactly as before; and settling an identifier again changes nothing.\<close>

theorem refusals_change_nothing:
  "(reserve_with b rid pricing extra = (b1, r1, Some e1) \<longrightarrow> b1 = b) \<and>
    (carve b from rid pricing c t = (b2, r2, Some e2) \<longrightarrow> b2 = b) \<and>
    (reserve_tool_call b name = (b3, Some e3) \<longrightarrow> b3 = b) \<and>
    (budget_restore b rc = (b4, Some e4) \<longrightarrow> b4 = b) \<and>
    (settle b rid model pricing u unknown = (b5, Some ErrUnknownReservation) \<longrightarrow> b5 = b) \<and>
    (map_of (bg_held b) rid = Some r \<longrightarrow> settle (fst (settle b rid model pricing u unknown)) rid model' pricing' u' unknown' =
       (fst (settle b rid model pricing u unknown), None))"
proof (intro conjI impI)
  show "reserve_with b rid pricing extra = (b1, r1, Some e1) \<Longrightarrow> b1 = b"
    by (cases rule: reserve_with_cases [of b rid pricing extra]) simp_all
  have "reserve b rid pricing = (b2, r2, Some e2) \<Longrightarrow> b2 = b"
    by (cases rule: reserve_with_cases [of b rid pricing no_estimate]) (simp_all add: reserve_def)
  then show "carve b from rid pricing c t = (b2, r2, Some e2) \<Longrightarrow> b2 = b"
    by (cases rule: carve_cases [of b "from" rid pricing c t]) simp_all
  show "reserve_tool_call b name = (b3, Some e3) \<Longrightarrow> b3 = b"
    by (auto simp: reserve_tool_call_def Let_def split: option.splits if_splits)
  show "budget_restore b rc = (b4, Some e4) \<Longrightarrow> b4 = b"
    by (auto simp: budget_restore_def Let_def split: if_splits)
  show "settle b rid model pricing u unknown = (b5, Some ErrUnknownReservation) \<Longrightarrow> b5 = b"
    by (auto simp: settle_def Let_def split: option.splits if_splits)
  show "map_of (bg_held b) rid = Some r \<Longrightarrow>
     settle (fst (settle b rid model pricing u unknown)) rid model' pricing' u' unknown' =
       (fst (settle b rid model pricing u unknown), None)"
    by (cases rule: settle_cases [of b rid model pricing u unknown]) (auto simp: settle_def)
qed

section \<open>Unknown usage\<close>

lemma settled_usage_total:
  assumes "token_counts_ok u" "counted_tokens u \<le> cap" "0 \<le> rs_tokens r \<and> rs_tokens r \<le> cap"
  shows "usage_total (settled_usage r u True) = max (counted_tokens u) (rs_tokens r)"
proof -
  have c: "0 \<le> counted_tokens u" using assms(1) by (simp add: token_counts_ok_def counted_tokens_def)
  define m where "m = max 0 (rs_tokens r - counted_tokens u)"
  have total: "usage_total u = counted_tokens u"
    using assms(2) c unfolding usage_total_wrap by (intro wrap64_small) (auto simp: cap_def)
  have "wrap64 (rs_tokens r - counted_tokens u) = rs_tokens r - counted_tokens u"
    using assms(2,3) c by (intro wrap64_small) (auto simp: cap_def)
  then have u: "settled_usage r u True =
      u\<lparr>tu_requests := max (tu_requests u) 1, tu_input := wrap64 (tu_input u + m)\<rparr>"
    by (simp add: settled_usage_def total m_def)
  have "usage_total (settled_usage r u True) = wrap64 (counted_tokens u + m)"
    by (simp add: u usage_total_def counted_tokens_def algebra_simps)
  also have "\<dots> = counted_tokens u + m"
    using assms(2,3) c by (intro wrap64_small) (auto simp: m_def cap_def)
  finally show ?thesis by (simp add: m_def)
qed

text \<open>
  Unknown usage is never free: settling a held reservation without authoritative usage books
  at least the reserved cost, the reserved tokens and one request, marks the receipt uncertain and
  releases the reservation.\<close>

theorem unknown_never_free:
  assumes "map_of (bg_settled b) rid = None" "map_of (bg_held b) rid = Some r"
    and "token_counts_ok u" "counted_tokens u \<le> cap" "0 \<le> rs_tokens r \<and> rs_tokens r \<le> cap"
    and "b' = fst (settle b rid model pricing u True)"
  shows "(rs_cost r \<le> rc_cost (budget_receipt b' rid)) \<and>
    (rs_tokens r \<le> usage_total (rc_usage (budget_receipt b' rid))) \<and>
    (1 \<le> tu_requests (rc_usage (budget_receipt b' rid))) \<and>
    rc_uncertain (budget_receipt b' rid) \<and>
    (map_of (bg_held b') rid = None) \<and>
    (bg_spent b' = wrap64 (bg_spent b + rc_cost (budget_receipt b' rid)))"
proof (intro conjI)
  define rc where "rc = settlement b r rid model pricing u True"
  have rc: "budget_receipt b' rid = rc" and rest: "map_of (bg_held b') rid = None"
    "bg_spent b' = wrap64 (bg_spent b + rc_cost rc)"
    using assms(1,2,6) by (simp_all add: budget_receipt_def settle_def Let_def rc_def)
  show "map_of (bg_held b') rid = None"
    "bg_spent b' = wrap64 (bg_spent b + rc_cost (budget_receipt b' rid))"
    using rest by (simp_all add: rc)
  show "rs_cost r \<le> rc_cost (budget_receipt b' rid)"
    by (simp add: rc rc_def settled_cost_def Let_def)
  show "1 \<le> tu_requests (rc_usage (budget_receipt b' rid))"
    by (simp add: rc rc_def settled_usage_def)
  show "rc_uncertain (budget_receipt b' rid)" by (simp add: rc rc_def settlement_def Let_def)
  show "rs_tokens r \<le> usage_total (rc_usage (budget_receipt b' rid))"
    using settled_usage_total [OF assms(3-5)] by (simp add: rc rc_def)
qed

section \<open>A run\<close>

text \<open>
  A search engine at one unit a call, under a limit of five: a call is reserved, a second one is
  refused while the first is in flight, part of the first is carved out for a call on its behalf,
  and the first ends with unknown usage.\<close>

definition demo_rates :: pricing where
  "demo_rates =
     \<lparr>pr_currency = [], pr_input = 0, pr_output = 0, pr_cached = 0, pr_cache_write = 0,
      pr_per_request = 1, pr_batch_discount = 0, pr_batch_cached = 0, pr_as_of = [], pr_source = [],
      pr_free = False, pr_modal = []\<rparr>"

definition demo_policy :: budget_policy where
  "demo_policy =
     \<lparr>bp_call_cost = 3000000, bp_call_tokens = 100, bp_limit = 5000000, bp_warn_at = 0,
      bp_on_exceed = BudgetStop, bp_approval_grant = 0, bp_max_requests = 4, bp_max_tokens = 500,
      bp_allow_unpriced = False\<rparr>"

definition demo_ops :: "ledger_op list" where
  "demo_ops =
     [OpReserve ''a'' demo_rates no_estimate, OpReserve ''c'' demo_rates no_estimate,
      OpCarve ''a'' ''b'' demo_rates 1000000 40,
      OpSettle ''b'' ''engine'' demo_rates (no_usage\<lparr>tu_input := 30, tu_requests := 1\<rparr>) False,
      OpSettle ''a'' ''engine'' demo_rates no_usage True]"

lemma demo_cost [simp]:
  "tu_in_mod u = [] \<Longrightarrow> tu_out_mod u = [] \<Longrightarrow> tu_requests u = 1 \<Longrightarrow> pricing_cost demo_rates u = 1000000"
  by (simp add: pricing_cost_def amount_def demo_rates_def usd_def int_of_float_def max_int64_def
      float_eval)
lemma demo_rates_zero [simp]: "\<not> pricing_is_zero demo_rates" "\<not> pr_free demo_rates" "pr_currency demo_rates = []"
  by (simp_all add: demo_rates_def pricing_is_zero_def)

lemma demo_mods [simp]: "tu_in_mod no_usage = []" "tu_out_mod no_usage = []" "add_modalities a [] = a"
  by (simp_all add: no_usage_def add_modalities_def)

lemmas ledger_eval = demo_policy_def demo_ops_def new_budget_def reserve_with_def admission_error_def carve_def
  settle_def settlement_def settled_usage_def settled_cost_def record_usage_def per_call_def fill_bounds_def
  exceeds_def busy_def held_sum_def hold_def budget_limit_def budget_status_def carve_share_def no_estimate_def
  wrap64_small usage_total_def usage_add_def Let_def count_of_def unpriced_locked_def unpriced_def pricing_currency_def







theorem refusals_change_nothing_witness:
  "snd (snd (reserve_with (new_budget demo_policy) [] demo_rates no_estimate)) = Some ErrNeedsId \<and>
   fst (reserve_with (new_budget demo_policy) [] demo_rates no_estimate) = new_budget demo_policy"
proof -
  let ?r = "reserve_with (new_budget demo_policy) [] demo_rates no_estimate"
  have e: "?r = (fst ?r, fst (snd ?r), Some ErrNeedsId)"
    by (simp add: reserve_with_def admission_error_def)
  then have "snd (snd ?r) = Some ErrNeedsId" by (metis snd_conv)
  then show ?thesis using refusals_change_nothing [THEN conjunct1, rule_format, OF e] by blast
qed

definition demo_reserved :: budget where
  "demo_reserved = ledger_step (new_budget demo_policy) (OpReserve ''a'' demo_rates no_estimate)"

lemma demo_reserved_fields:
  "map_of (bg_settled demo_reserved) ''a'' = None"
  "map_of (bg_held demo_reserved) ''a'' =
     Some \<lparr>rs_id = ''a'', rs_cost = 3000000, rs_tokens = 100, rs_requests = 1\<rparr>"
  by (simp_all add: demo_reserved_def ledger_eval)

theorem unknown_never_free_witness:
  "3000000 \<le> rc_cost (budget_receipt (fst (settle demo_reserved ''a'' ''engine'' demo_rates no_usage True)) ''a'')"
  using unknown_never_free [OF demo_reserved_fields _ _ _ refl, of no_usage]
  by (simp add: token_counts_ok_def counted_tokens_def cap_def)

theorem quota_exact_witness:
  "tool_calls (run_ledger (tool_quota (new_budget demo_policy) ''search'' 2)
     [OpToolCall ''search'', OpToolCall ''read'', OpToolCall ''search'', OpToolCall ''search'']) ''search'' = 2"
  using quota_exact [of "tool_quota (new_budget demo_policy) ''search'' 2" "''search''" 2
      "[OpToolCall ''search'', OpToolCall ''read'', OpToolCall ''search'', OpToolCall ''search'']"]
  by (simp add: tool_quota_def tool_calls_def count_of_def max_int64_def)

text \<open>
  Carving everything out of a reservation leaves its own call without a bound: its overrun is
  then booked without the error that reports it on an uncarved reservation.\<close>

lemma carving_hides_overrun:
  defines "b \<equiv> ledger_step (new_budget (demo_policy\<lparr>bp_call_cost := 500000\<rparr>))
      (OpReserve ''a'' demo_rates no_estimate)"
    and "u \<equiv> no_usage\<lparr>tu_requests := 1\<rparr>"
  shows "snd (settle b ''a'' ''engine'' demo_rates u False) = Some ErrOverReservation"
    and "snd (settle (fst (carve b ''a'' ''b'' demo_rates 0 0)) ''a'' ''engine'' demo_rates u False) = None"
  by (simp_all add: b_def u_def ledger_eval)

end
