(* ===== verification/Semver.thy ===== *)
theory Semver
  imports Go_Strings
begin

text \<open>
  Semantic versions and version ranges, \<open>agent/definition/semver.go\<close>: parsing, printing, precedence,
  npm range syntax and matching. Numbers are 64-bit integers; the bound one above a version wraps.
\<close>

section \<open>Versions\<close>

record version =
  v_major :: int
  v_minor :: int
  v_patch :: int
  v_pre :: "string list"
  v_build :: string

datatype version_error =
    ErrBuildMetadata | ErrPreRelease | ErrVersion | ErrNumber string | ErrPartialPreRelease
  | ErrNotFull | ErrMatchesNothing | ErrOperator string | ErrEmptyAlternative
  | ErrRange string version_error

fun bind_sum :: "'e + 'a \<Rightarrow> ('a \<Rightarrow> 'e + 'b) \<Rightarrow> 'e + 'b" where
  "bind_sum (Inl e) f = Inl e"
| "bind_sum (Inr a) f = f a"

lemma bind_sum_eq_Inr: "bind_sum m f = Inr b \<longleftrightarrow> (\<exists>a. m = Inr a \<and> f a = Inr b)"
  by (cases m) auto

definition plain_version :: "int \<Rightarrow> int \<Rightarrow> int \<Rightarrow> version" where
  "plain_version a b c = \<lparr>v_major = a, v_minor = b, v_patch = c, v_pre = [], v_build = []\<rparr>"

definition parse_number :: "string \<Rightarrow> int option" where
  "parse_number f =
     (if f = [] \<or> 1 < length f \<and> f ! 0 = CHR ''0'' then None
      else (case atoi f of
          None \<Rightarrow> None
        | Some x \<Rightarrow> if x < 0 then None else Some x))"

definition is_alpha_or_dash :: "char \<Rightarrow> bool" where
  "is_alpha_or_dash c =
     (c \<ge> CHR ''a'' \<and> c \<le> CHR ''z'' \<or> c \<ge> CHR ''A'' \<and> c \<le> CHR ''Z'' \<or> c = CHR ''-'')"

definition valid_ident :: "bool \<Rightarrow> string \<Rightarrow> bool" where
  "valid_ident no_leading_zero i =
     (i \<noteq> [] \<and> list_all (\<lambda>c. is_digit c \<or> is_alpha_or_dash c) i \<and>
      \<not> (list_all is_digit i \<and> no_leading_zero \<and> 1 < length i \<and> i ! 0 = CHR ''0''))"

definition valid_idents :: "string \<Rightarrow> bool \<Rightarrow> bool" where
  "valid_idents s no_leading_zero = list_all (valid_ident no_leading_zero) (split_on CHR ''.'' s)"

definition is_wild :: "string \<Rightarrow> bool" where
  "is_wild f = (f = ''x'' \<or> f = ''X'' \<or> f = ''*'')"

text \<open>The numbers given before the version ends, or a wildcard ends it.\<close>

fun parse_fields :: "string list \<Rightarrow> version_error + int list" where
  "parse_fields [] = Inr []"
| "parse_fields (f # fs) =
     (if is_wild f then (if fs \<noteq> [] \<and> \<not> is_wild (hd fs) then Inl ErrVersion else Inr [])
      else (case parse_number f of
          None \<Rightarrow> Inl (ErrNumber f)
        | Some x \<Rightarrow> bind_sum (parse_fields fs) (\<lambda>xs. Inr (x # xs))))"

definition number_at :: "int list \<Rightarrow> nat \<Rightarrow> int" where
  "number_at xs i = (if i < length xs then xs ! i else 0)"

text \<open>The build metadata after the first \<open>+\<close>, then the pre-release after the first \<open>-\<close>.\<close>

definition cut_build :: "string \<Rightarrow> version_error + string \<times> string" where
  "cut_build s =
     (case cut CHR ''+'' s of
        (a, b, False) \<Rightarrow> Inr (s, [])
      | (a, b, True) \<Rightarrow> if b = [] \<or> \<not> valid_idents b False then Inl ErrBuildMetadata else Inr (a, b))"

definition cut_pre :: "string \<Rightarrow> version_error + string \<times> string list" where
  "cut_pre s =
     (case cut CHR ''-'' s of
        (a, b, False) \<Rightarrow> Inr (s, [])
      | (a, b, True) \<Rightarrow>
          if b = [] \<or> \<not> valid_idents b True then Inl ErrPreRelease else Inr (a, split_on CHR ''.'' b))"

definition parse_partial :: "string \<Rightarrow> version_error + version \<times> nat" where
  "parse_partial orig =
     bind_sum (cut_build (trim_prefix (trim_space orig) ''v'')) (\<lambda>(s1, build).
     bind_sum (cut_pre s1) (\<lambda>(s2, pre).
       let fields = split_on CHR ''.'' s2 in
       if 3 < length fields \<or> s2 = [] then Inl ErrVersion
       else bind_sum (parse_fields fields) (\<lambda>xs.
         if (pre \<noteq> [] \<or> build \<noteq> []) \<and> length xs \<noteq> 3 then Inl ErrPartialPreRelease
         else Inr (\<lparr>v_major = number_at xs 0, v_minor = number_at xs 1, v_patch = number_at xs 2,
           v_pre = pre, v_build = build\<rparr>, length xs))))"

definition parse_version :: "string \<Rightarrow> version_error + version" where
  "parse_version s =
     bind_sum (parse_partial s) (\<lambda>(v, n). if n \<noteq> 3 then Inl ErrNotFull else Inr v)"

definition version_string :: "version \<Rightarrow> string" where
  "version_string v =
     itoa (v_major v) @ ''.'' @ itoa (v_minor v) @ ''.'' @ itoa (v_patch v) @
     (if v_pre v \<noteq> [] then ''-'' @ join_with ''.'' (v_pre v) else []) @
     (if v_build v \<noteq> [] then ''+'' @ v_build v else [])"

section \<open>Precedence\<close>

definition cmp :: "'a::linorder \<Rightarrow> 'a \<Rightarrow> int" where
  "cmp a b = (if a < b then - 1 else if b < a then 1 else 0)"

definition compare_ident :: "string \<Rightarrow> string \<Rightarrow> int" where
  "compare_ident a b =
     (case (atoi a, atoi b) of
        (Some m, Some n) \<Rightarrow> cmp m n
      | (Some m, None) \<Rightarrow> - 1
      | (None, Some n) \<Rightarrow> 1
      | (None, None) \<Rightarrow> cmp a b)"

fun compare_idents :: "string list \<Rightarrow> string list \<Rightarrow> int" where
  "compare_idents (a # as) (b # bs) =
     (let c = compare_ident a b in if c \<noteq> 0 then c else compare_idents as bs)"
| "compare_idents as bs = cmp (length as) (length bs)"

definition compare_pre :: "string list \<Rightarrow> string list \<Rightarrow> int" where
  "compare_pre p q =
     (if p = [] \<and> q = [] then 0 else if p = [] then 1 else if q = [] then - 1 else compare_idents p q)"

definition version_compare :: "version \<Rightarrow> version \<Rightarrow> int" where
  "version_compare v w =
     (let c = cmp (v_major v) (v_major w) in if c \<noteq> 0 then c else
      let c = cmp (v_minor v) (v_minor w) in if c \<noteq> 0 then c else
      let c = cmp (v_patch v) (v_patch w) in if c \<noteq> 0 then c else
      compare_pre (v_pre v) (v_pre w))"

definition same_core_version :: "version \<Rightarrow> version \<Rightarrow> bool" where
  "same_core_version v w = (v_major v = v_major w \<and> v_minor v = v_minor w \<and> v_patch v = v_patch w)"

section \<open>Ranges\<close>

record comparator =
  cp_op :: string
  cp_version :: version

record range =
  rg_sets :: "comparator list list"
  rg_text :: string

definition comparator_matches :: "comparator \<Rightarrow> version \<Rightarrow> bool" where
  "comparator_matches c v =
     (let d = version_compare v (cp_version c) in
      if cp_op c = ''>'' then 0 < d
      else if cp_op c = ''>='' then 0 \<le> d
      else if cp_op c = ''<'' then d < 0
      else if cp_op c = ''<='' then d \<le> 0
      else d = 0)"

definition upper :: "version \<Rightarrow> nat \<Rightarrow> version" where
  "upper v n =
     (if n = 1 then plain_version (wrap64 (v_major v + 1)) 0 0
      else if n = 2 then plain_version (v_major v) (wrap64 (v_minor v + 1)) 0
      else plain_version (v_major v) (v_minor v) (wrap64 (v_patch v + 1)))"

definition floor_of :: "version \<Rightarrow> version" where
  "floor_of v = v\<lparr>v_pre := [''0'']\<rparr>"

definition comp :: "string \<Rightarrow> version \<Rightarrow> comparator" where
  "comp op' v = \<lparr>cp_op = op', cp_version = v\<rparr>"

definition tilde_top :: "version \<Rightarrow> nat \<Rightarrow> version" where
  "tilde_top v n =
     (if n = 1 then plain_version (wrap64 (v_major v + 1)) 0 0
      else plain_version (v_major v) (wrap64 (v_minor v + 1)) 0)"

definition caret_top :: "version \<Rightarrow> nat \<Rightarrow> version" where
  "caret_top v n =
     (if 0 < v_major v \<or> n = 1 then plain_version (wrap64 (v_major v + 1)) 0 0
      else if 0 < v_minor v \<or> n = 2 then plain_version 0 (wrap64 (v_minor v + 1)) 0
      else plain_version 0 0 (wrap64 (v_patch v + 1)))"

definition expand :: "string \<Rightarrow> string \<Rightarrow> version_error + comparator list" where
  "expand op' s =
     (if is_wild s then
        (if op' \<in> set ['''', ''='', ''>='', ''<='', ''^'', ''~''] then Inr [] else Inl ErrMatchesNothing)
      else bind_sum (parse_partial s) (\<lambda>(v, n).
        if op' = '''' \<or> op' = ''='' then
          (if n = 3 then Inr [comp ''='' v] else Inr [comp ''>='' v, comp ''<'' (floor_of (upper v n))])
        else if op' = ''>='' then Inr [comp ''>='' v]
        else if op' = ''>'' then
          (if n = 3 then Inr [comp ''>'' v] else Inr [comp ''>='' (upper v n)])
        else if op' = ''<'' then Inr [comp ''<'' (floor_of v)]
        else if op' = ''<='' then
          (if n = 3 then Inr [comp ''<='' v] else Inr [comp ''<'' (floor_of (upper v n))])
        else if op' = ''~'' then Inr [comp ''>='' v, comp ''<'' (floor_of (tilde_top v n))]
        else if op' = ''^'' then Inr [comp ''>='' v, comp ''<'' (floor_of (caret_top v n))]
        else Inl (ErrOperator op')))"

fun split_op_of :: "string list \<Rightarrow> string \<Rightarrow> string \<times> string" where
  "split_op_of [] f = ([], f)"
| "split_op_of (p # ps) f = (if has_prefix f p then (p, drop (length p) f) else split_op_of ps f)"

definition split_op :: "string \<Rightarrow> string \<times> string" where
  "split_op f = split_op_of [''>='', ''<='', ''>'', ''<'', ''='', ''^'', ''~''] f"

text \<open>The fields of one alternative: hyphen ranges, and operators apart from their version.\<close>

function parse_set :: "string list \<Rightarrow> version_error + comparator list" where
  "parse_set [] = Inr []"
| "parse_set (f # fs) =
     (if 2 \<le> length fs \<and> hd fs = ''-'' then
        bind_sum (expand ''>='' f) (\<lambda>lo.
        bind_sum (expand ''<='' (fs ! 1)) (\<lambda>hi.
        bind_sum (parse_set (drop 2 fs)) (\<lambda>cs. Inr (lo @ hi @ cs))))
      else
        (let (op', v) = split_op f in
         if v = [] \<and> fs \<noteq> [] then
           bind_sum (expand op' (hd fs)) (\<lambda>c. bind_sum (parse_set (tl fs)) (\<lambda>cs. Inr (c @ cs)))
         else
           bind_sum (expand op' v) (\<lambda>c. bind_sum (parse_set fs) (\<lambda>cs. Inr (c @ cs)))))"
  by pat_completeness auto
termination by (relation "measure length") auto

fun split_bars :: "string \<Rightarrow> string list" where
  "split_bars [] = [[]]"
| "split_bars [c] = [[c]]"
| "split_bars (c # d # cs) =
     (if c = CHR ''|'' \<and> d = CHR ''|'' then [] # split_bars cs
      else (case split_bars (d # cs) of [] \<Rightarrow> [[c]] | w # ws \<Rightarrow> (c # w) # ws))"

fun parse_alternatives :: "string list \<Rightarrow> version_error + comparator list list" where
  "parse_alternatives [] = Inr []"
| "parse_alternatives (alt # alts) =
     (let fields = fields_func is_space alt in
      if fields = [] then Inl ErrEmptyAlternative
      else bind_sum (parse_set fields) (\<lambda>s. bind_sum (parse_alternatives alts) (\<lambda>ss. Inr (s # ss))))"

definition parse_range :: "string \<Rightarrow> version_error + range" where
  "parse_range s =
     (let text = trim_space s in
      if text = [] then Inr \<lparr>rg_sets = [], rg_text = text\<rparr>
      else (case parse_alternatives (split_bars text) of
          Inl e \<Rightarrow> Inl (ErrRange s e)
        | Inr sets \<Rightarrow> Inr \<lparr>rg_sets = sets, rg_text = text\<rparr>))"

definition is_floor :: "version \<Rightarrow> bool" where
  "is_floor v = (length (v_pre v) = 1 \<and> v_pre v ! 0 = ''0'')"

definition set_matches :: "comparator list \<Rightarrow> version \<Rightarrow> bool" where
  "set_matches cs v =
     (list_all (\<lambda>c. comparator_matches c v) cs \<and>
      (v_pre v = [] \<or>
       list_ex (\<lambda>c. v_pre (cp_version c) \<noteq> [] \<and> same_core_version (cp_version c) v \<and> \<not> is_floor (cp_version c)) cs))"

definition range_matches :: "range \<Rightarrow> version \<Rightarrow> bool" where
  "range_matches r v =
     (if rg_sets r = [] then v_pre v = [] else list_ex (\<lambda>s. set_matches s v) (rg_sets r))"

end
