(* ===== verification/Semver_Properties.thy ===== *)
theory Semver_Properties
  imports Semver "HOL-Library.Product_Lexorder"
begin

text \<open>
  What semantic versions promise: parsing yields well-formed versions, printing and parsing are
  inverse, precedence is a total preorder that a lexicographic key describes, and a caret range
  matches the compatible releases.
\<close>

section \<open>Precedence\<close>

definition ident_rank :: "string \<Rightarrow> bool \<times> int \<times> string" where
  "ident_rank i = (case atoi i of Some n \<Rightarrow> (False, n, []) | None \<Rightarrow> (True, 0, i))"

definition version_rank ::
    "version \<Rightarrow> int \<times> int \<times> int \<times> bool \<times> (bool \<times> int \<times> string) list" where
  "version_rank v = (v_major v, v_minor v, v_patch v, v_pre v = [], map ident_rank (v_pre v))"

lemma cmp_simps [simp]: "cmp a a = 0" "cmp a b = 0 \<longleftrightarrow> a = b"
  by (auto simp: cmp_def)

lemma cmp_neg: "cmp b a = - cmp a b"
  by (auto simp: cmp_def)

lemma cmp_le: "cmp a b \<le> 0 \<longleftrightarrow> a \<le> b" "cmp a b < 0 \<longleftrightarrow> a < b" "0 \<le> cmp a b \<longleftrightarrow> b \<le> a" "0 < cmp a b \<longleftrightarrow> b < a"
  by (auto simp: cmp_def)

lemma cmp_pair: "cmp (a, b) (c, d) = (if cmp a c \<noteq> 0 then cmp a c else cmp b d)"
  by (auto simp: cmp_def less_prod_def')

lemma cmp_list:
  "cmp (a # as) (b # bs) = (if cmp a b \<noteq> 0 then cmp a b else cmp as bs)"
  "cmp [] (b # bs) = - 1" "cmp (a # as) [] = 1" "cmp ([] :: 'a::linorder list) [] = 0"
  by (auto simp: cmp_def)

lemma compare_ident_rank: "compare_ident a b = cmp (ident_rank a) (ident_rank b)"
  by (auto simp: compare_ident_def ident_rank_def cmp_pair split: option.splits)
    (auto simp: cmp_def)

lemma Nil_less_map [simp]: "[] < map f xs \<longleftrightarrow> xs \<noteq> []"
  by (cases xs) auto

lemma compare_idents_rank: "compare_idents as bs = cmp (map ident_rank as) (map ident_rank bs)"
  by (induction as bs rule: compare_idents.induct)
    (auto simp: compare_ident_rank cmp_list Let_def, auto simp: cmp_def)

lemma compare_rank: "version_compare v w = cmp (version_rank v) (version_rank w)"
proof -
  have "compare_pre (v_pre v) (v_pre w) =
      cmp (v_pre v = [], map ident_rank (v_pre v)) (v_pre w = [], map ident_rank (v_pre w))"
    by (auto simp: compare_pre_def compare_idents_rank cmp_pair) (auto simp: cmp_def)
  then show ?thesis by (simp add: version_compare_def version_rank_def cmp_pair Let_def)
qed

text \<open>
  Precedence is a total preorder on versions: comparing the other way round negates the
  result, "at most" and "less than" compose, two versions compare equal exactly when they are
  interchangeable in every comparison, and build metadata never counts.\<close>

theorem version_order:
  "version_compare w v = - version_compare v w \<and>
   (version_compare u v \<le> 0 \<and> version_compare v w \<le> 0 \<longrightarrow> version_compare u w \<le> 0) \<and>
   (version_compare u v < 0 \<and> version_compare v w \<le> 0 \<longrightarrow> version_compare u w < 0) \<and>
   (version_compare v w = 0 \<longleftrightarrow> (\<forall>x. version_compare v x = version_compare w x)) \<and>
   version_compare (v\<lparr>v_build := b\<rparr>) w = version_compare v w"
proof (intro conjI)
  show "version_compare v w = 0 \<longleftrightarrow> (\<forall>x. version_compare v x = version_compare w x)"
  proof
    assume "\<forall>x. version_compare v x = version_compare w x"
    then have "version_compare v w = version_compare w w" by blast
    then show "version_compare v w = 0" by (simp add: compare_rank)
  qed (simp add: compare_rank)
  show "version_compare (v\<lparr>v_build := b\<rparr>) w = version_compare v w"
    by (simp add: version_compare_def)
qed (auto simp: compare_rank cmp_le cmp_neg [of "version_rank w"] intro: order_trans le_less_trans less_le_trans)

section \<open>Well-formed versions\<close>

definition number_ok :: "int \<Rightarrow> bool" where
  "number_ok n \<longleftrightarrow> 0 \<le> n \<and> n \<le> max_int64"

definition version_ok :: "version \<Rightarrow> bool" where
  "version_ok v \<longleftrightarrow> number_ok (v_major v) \<and> number_ok (v_minor v) \<and> number_ok (v_patch v) \<and>
     list_all (valid_ident True) (v_pre v) \<and> (v_build v \<noteq> [] \<longrightarrow> valid_idents (v_build v) False)"

lemma atoi_range: "atoi s = Some n \<Longrightarrow> - 9223372036854775808 \<le> n \<and> n \<le> max_int64"
  by (auto simp: atoi_def Let_def split: if_splits prod.splits)

lemma parse_number_ok: "parse_number f = Some n \<Longrightarrow> number_ok n"
  using atoi_range [of f] by (auto simp: parse_number_def number_ok_def split: if_splits option.splits)

lemma parse_fields_ok: "parse_fields fs = Inr xs \<Longrightarrow> list_all number_ok xs \<and> length xs \<le> length fs"
  by (induction fs arbitrary: xs)
    (auto simp: bind_sum_eq_Inr parse_number_ok split: if_splits option.splits)

lemma number_at_ok: "list_all number_ok xs \<Longrightarrow> number_ok (number_at xs i)"
  by (auto simp: number_at_def list_all_length number_ok_def max_int64_def)

lemma cut_build_ok: "cut_build s = Inr (a, b) \<Longrightarrow> b \<noteq> [] \<longrightarrow> valid_idents b False"
  by (auto simp: cut_build_def split: prod.splits bool.splits if_splits)

lemma cut_pre_ok: "cut_pre s = Inr (a, p) \<Longrightarrow> list_all (valid_ident True) p"
  by (auto simp: cut_pre_def valid_idents_def split: prod.splits bool.splits if_splits)

lemma parse_partial_ok:
  assumes "parse_partial s = Inr (v, n)"
  shows "version_ok v \<and> n \<le> 3"
proof -
  from assms obtain s1 build s2 pre xs where
    1: "cut_build (trim_prefix (trim_space s) ''v'') = Inr (s1, build)" and 2: "cut_pre s1 = Inr (s2, pre)"
    and 3: "parse_fields (split_on CHR ''.'' s2) = Inr xs" "length (split_on CHR ''.'' s2) \<le> 3"
    and v: "v = \<lparr>v_major = number_at xs 0, v_minor = number_at xs 1, v_patch = number_at xs 2,
           v_pre = pre, v_build = build\<rparr>" "n = length xs"
    by (auto simp: parse_partial_def bind_sum_eq_Inr Let_def split: prod.splits if_splits)
  show ?thesis
    using cut_build_ok [OF 1] cut_pre_ok [OF 2] parse_fields_ok [OF 3(1)] 3(2)
    by (simp add: version_ok_def v number_at_ok)
qed

text \<open>
  Whatever text it is given, \<open>ParseVersion\<close> returns an error or a well-formed version: its
  numbers are not negative and fit 64 bits, and its pre-release and build identifiers are not
  empty, use the allowed characters, and no numeric pre-release identifier has a leading zero.\<close>

theorem parsed_versions_ok:
  "case parse_version s of Inr v \<Rightarrow> version_ok v | Inl e \<Rightarrow> True"
  using parse_partial_ok [of s]
  by (auto simp: parse_version_def split: sum.splits prod.splits if_splits)
    (auto simp: bind_sum_eq_Inr split: if_splits)

section \<open>Printing and parsing\<close>

definition ident_char :: "char \<Rightarrow> bool" where
  "ident_char c \<longleftrightarrow> is_digit c \<or> is_alpha_or_dash c"

lemma ident_char_plain:
  "ident_char c \<Longrightarrow> \<not> is_space c \<and> c \<noteq> CHR ''+'' \<and> c \<noteq> CHR ''.'' \<and> c \<noteq> CHR ''|''"
  by (auto simp: ident_char_def is_digit_def is_alpha_or_dash_def is_space_def less_eq_char_def)

lemma digit_plain:
  "is_digit c \<Longrightarrow> \<not> is_space c \<and> c \<noteq> CHR ''+'' \<and> c \<noteq> CHR ''.'' \<and> c \<noteq> CHR ''-'' \<and> c \<noteq> CHR ''v'' \<and>
     c \<noteq> CHR ''x'' \<and> c \<noteq> CHR ''X'' \<and> c \<noteq> CHR ''*'' \<and> c \<noteq> CHR ''|''"
  by (auto simp: is_digit_def is_space_def less_eq_char_def)

lemma separators [simp]:
  "\<not> is_digit CHR ''+''" "\<not> is_digit CHR ''-''" "\<not> is_digit CHR ''.''" "\<not> is_digit CHR ''v''"
  "\<not> is_digit CHR ''|''" "\<not> ident_char CHR ''+''" "\<not> ident_char CHR ''.''" "\<not> ident_char CHR ''|''"
  by (simp_all add: is_digit_def ident_char_def is_alpha_or_dash_def less_eq_char_def)

lemma itoa_digits: "0 \<le> n \<Longrightarrow> list_all is_digit (itoa n) \<and> itoa n \<noteq> []"
  using nat_digits_ok [of "nat n"] by (simp add: itoa_def)

lemma nat_digits_lead: "nat_digits n = CHR ''0'' # cs \<Longrightarrow> cs = [] \<and> n = 0"
proof (induction n arbitrary: cs rule: nat_digits.induct)
  case (1 n)
  show ?case
  proof (cases "n < 10")
    case True
    then have "digit_char n = CHR ''0''" "cs = []" using 1(2) by (simp_all add: nat_digits.simps [of n])
    then have "digit_val (digit_char n) = 0" by (simp add: digit_val_def)
    then show ?thesis using digit_char_nat [OF True] \<open>cs = []\<close> by simp
  next
    case False
    obtain d ds where d: "nat_digits (n div 10) = d # ds" using nat_digits_ok by (meson neq_Nil_conv)
    then have "d = CHR ''0''" using 1(2) False by (simp add: nat_digits.simps [of n])
    then have "n div 10 = 0" using 1(1) [OF False] d by simp
    then show ?thesis using False by simp
  qed
qed

lemma parse_number_itoa: "number_ok n \<Longrightarrow> parse_number (itoa n) = Some n"
proof -
  assume n: "number_ok n"
  obtain c cs where c: "itoa n = c # cs" using itoa_digits n by (meson neq_Nil_conv number_ok_def)
  have "c = CHR ''0'' \<Longrightarrow> cs = []" using nat_digits_lead [of "nat n" cs] c n by (simp add: itoa_def number_ok_def)
  moreover have "atoi (itoa n) = Some n" using n by (intro atoi_itoa) (simp_all add: number_ok_def)
  ultimately show ?thesis using c n by (auto simp: parse_number_def number_ok_def)
qed

lemma itoa_not_wild: "0 \<le> n \<Longrightarrow> \<not> is_wild (itoa n)"
  using itoa_digits [of n] by (auto simp: is_wild_def is_digit_def less_eq_char_def)

definition core_string :: "version \<Rightarrow> string" where
  "core_string v = itoa (v_major v) @ ''.'' @ itoa (v_minor v) @ ''.'' @ itoa (v_patch v)"

lemma split_core:
  assumes "version_ok v"
  shows "split_on CHR ''.'' (core_string v) = [itoa (v_major v), itoa (v_minor v), itoa (v_patch v)]"
proof -
  have "CHR ''.'' \<notin> set (itoa n)" if "number_ok n" for n
    using itoa_digits [of n] that digit_plain by (auto simp: list_all_iff number_ok_def)
  then show ?thesis using assms by (simp add: core_string_def version_ok_def)
qed

lemma core_chars: "version_ok v \<Longrightarrow> c \<in> set (core_string v) \<Longrightarrow> is_digit c \<or> c = CHR ''.''"
  using itoa_digits [of "v_major v"] itoa_digits [of "v_minor v"] itoa_digits [of "v_patch v"]
  by (auto simp: core_string_def version_ok_def number_ok_def list_all_iff)

lemma set_join: "set (join_with [d] ws) \<subseteq> insert d (\<Union>w \<in> set ws. set w)"
  by (induction ws rule: induct_list012) auto

lemma idents_chars: "valid_idents s b \<Longrightarrow> c \<in> set s \<Longrightarrow> ident_char c \<or> c = CHR ''.''"
proof -
  assume v: "valid_idents s b" and c: "c \<in> set s"
  have "set s \<subseteq> insert CHR ''.'' (\<Union>w \<in> set (split_on CHR ''.'' s). set w)"
    using set_join [of "CHR ''.''" "split_on CHR ''.'' s"] by simp
  then show "ident_char c \<or> c = CHR ''.''"
    using v c by (auto simp: valid_idents_def valid_ident_def list_all_iff ident_char_def)
qed

lemma join_idents:
  assumes "p \<noteq> []" "list_all (valid_ident True) p"
  shows "split_on CHR ''.'' (join_with ''.'' p) = p" "valid_idents (join_with ''.'' p) True"
    "join_with ''.'' p \<noteq> []"
proof -
  have "CHR ''.'' \<notin> set w" if "w \<in> set p" for w
    using assms(2) that ident_char_plain by (auto simp: list_all_iff valid_ident_def ident_char_def)
  then show s: "split_on CHR ''.'' (join_with ''.'' p) = p" by (intro split_join) (use assms in auto)
  show "valid_idents (join_with ''.'' p) True" using assms by (simp add: valid_idents_def s)
  have "hd p \<noteq> []" using assms by (cases p) (auto simp: valid_ident_def)
  then show "join_with ''.'' p \<noteq> []" using assms(1) by (cases p rule: remdups_adj.cases) auto
qed

definition pre_string :: "version \<Rightarrow> string" where
  "pre_string v = (if v_pre v \<noteq> [] then ''-'' @ join_with ''.'' (v_pre v) else [])"

lemma version_string_parts:
  "version_string v = core_string v @ pre_string v @ (if v_build v \<noteq> [] then ''+'' @ v_build v else [])"
  by (simp add: version_string_def core_string_def pre_string_def)

lemma pre_chars: "version_ok v \<Longrightarrow> c \<in> set (pre_string v) \<Longrightarrow> ident_char c \<or> c = CHR ''.''"
proof -
  assume v: "version_ok v" and c: "c \<in> set (pre_string v)"
  then have p: "v_pre v \<noteq> []" by (auto simp: pre_string_def)
  have "ident_char CHR ''-''" by (simp add: ident_char_def is_alpha_or_dash_def)
  then show "ident_char c \<or> c = CHR ''.''"
    using idents_chars [OF join_idents(2) [OF p]] v c p by (auto simp: version_ok_def pre_string_def)
qed

lemma version_chars:
  "version_ok v \<Longrightarrow> c \<in> set (version_string v) \<Longrightarrow> ident_char c \<or> c = CHR ''.'' \<or> c = CHR ''+''"
  using core_chars [of v c] pre_chars [of v c] idents_chars [of "v_build v" False c]
  by (auto simp: version_string_parts version_ok_def ident_char_def split: if_splits)

lemma cut_build_string:
  assumes "version_ok v"
  shows "cut_build (version_string v) = Inr (core_string v @ pre_string v, v_build v)"
proof -
  have "CHR ''+'' \<notin> set (core_string v @ pre_string v)"
    using core_chars [OF assms, of "CHR ''+''"] pre_chars [OF assms, of "CHR ''+''"] by auto
  then show ?thesis
    using assms cut_first [of "CHR ''+''" "core_string v @ pre_string v" "v_build v"]
    by (auto simp: cut_build_def version_string_parts version_ok_def)
qed

lemma cut_pre_string:
  assumes "version_ok v"
  shows "cut_pre (core_string v @ pre_string v) = Inr (core_string v, v_pre v)"
proof -
  have "CHR ''-'' \<notin> set (core_string v)" using core_chars [OF assms, of "CHR ''-''"] by auto
  then show ?thesis
    using assms join_idents [of "v_pre v"]
      cut_first [of "CHR ''-''" "core_string v" "join_with ''.'' (v_pre v)"]
    by (auto simp: cut_pre_def pre_string_def version_ok_def)
qed

lemma parse_partial_string:
  assumes "version_ok v"
  shows "parse_partial (version_string v) = Inr (v, 3)"
proof -
  have n: "number_ok (v_major v)" "number_ok (v_minor v)" "number_ok (v_patch v)"
    using assms by (simp_all add: version_ok_def)
  have "\<not> is_space c" if "c \<in> set (version_string v)" for c
    using version_chars [OF assms that] ident_char_plain by (auto simp: is_space_def)
  then have t: "trim_space (version_string v) = version_string v" by (rule trim_space_idle)
  obtain c cs where c: "itoa (v_major v) = c # cs" "is_digit c"
    using itoa_digits [of "v_major v"] n(1) by (cases "itoa (v_major v)") (auto simp: number_ok_def)
  have "\<not> has_prefix (version_string v) ''v''"
    using c digit_plain [OF c(2)] by (simp add: version_string_def has_prefix_def)
  then have p: "trim_prefix (version_string v) ''v'' = version_string v" by (simp add: trim_prefix_def)
  have "core_string v \<noteq> []" by (simp add: core_string_def)
  moreover have "parse_fields [itoa (v_major v), itoa (v_minor v), itoa (v_patch v)] =
      Inr [v_major v, v_minor v, v_patch v]"
    using n itoa_not_wild by (simp add: parse_number_itoa number_ok_def)
  ultimately show ?thesis
    by (simp add: parse_partial_def t p cut_build_string [OF assms] cut_pre_string [OF assms]
        split_core [OF assms] number_at_def Let_def)
qed

text \<open>
  Printing and parsing are inverse: a well-formed version parses back from its text unchanged,
  so whatever \<open>ParseVersion\<close> accepts, printing it and parsing it again gives the same version.\<close>

theorem version_round_trip:
  "(version_ok v \<longrightarrow> parse_version (version_string v) = Inr v) \<and>
   (parse_version s = Inr w \<longrightarrow> parse_version (version_string w) = Inr w)"
proof -
  have 1: "version_ok v \<Longrightarrow> parse_version (version_string v) = Inr v" for v
    by (simp add: parse_version_def parse_partial_string)
  have "version_ok w" if "parse_version s = Inr w"
    using that parse_partial_ok [of s] by (auto simp: parse_version_def bind_sum_eq_Inr split: if_splits)
  then show ?thesis using 1 by blast
qed

section \<open>Caret ranges\<close>

text \<open>The leftmost number of the lower bound that is not zero stays as it is.\<close>

definition caret_compatible :: "version \<Rightarrow> version \<Rightarrow> bool" where
  "caret_compatible lo v \<longleftrightarrow>
     (if 0 < v_major lo then v_major v = v_major lo
      else if 0 < v_minor lo then v_major v = 0 \<and> v_minor v = v_minor lo
      else v_major v = 0 \<and> v_minor v = 0 \<and> v_patch v = v_patch lo)"

lemma split_bars_plain: "CHR ''|'' \<notin> set s \<Longrightarrow> split_bars s = [s]"
  by (induction s rule: split_bars.induct) auto

lemma fields_plain: "s \<noteq> [] \<Longrightarrow> (\<And>c. c \<in> set s \<Longrightarrow> \<not> is_space c) \<Longrightarrow> fields_func is_space s = [s]"
proof -
  assume s: "s \<noteq> []" and plain: "\<And>c. c \<in> set s \<Longrightarrow> \<not> is_space c"
  obtain c cs where c: "s = c # cs" using s by (cases s) auto
  have rest: "takeWhile (\<lambda>x. \<not> is_space x) cs = cs" "dropWhile (\<lambda>x. \<not> is_space x) cs = []"
    using plain c by (simp_all add: takeWhile_eq_all_conv dropWhile_eq_Nil_conv)
  have "fields_func is_space [] = []" by (simp add: fields_func.simps)
  moreover have "\<not> is_space c" using plain c by simp
  ultimately show ?thesis by (subst fields_func.simps) (simp add: c rest)
qed

lemma parse_caret:
  assumes "version_ok lo"
  shows "parse_range (''^'' @ version_string lo) =
    Inr \<lparr>rg_sets = [[comp ''>='' lo, comp ''<'' (floor_of (caret_top lo 3))]],
      rg_text = ''^'' @ version_string lo\<rparr>"
proof -
  let ?s = "''^'' @ version_string lo"
  have plain: "\<not> is_space c \<and> c \<noteq> CHR ''|''" if "c \<in> set ?s" for c
  proof -
    have "c = CHR ''^'' \<or> ident_char c \<or> c = CHR ''.'' \<or> c = CHR ''+''"
      using that version_chars [OF assms, of c] by auto
    moreover have "ident_char c \<Longrightarrow> ?thesis" using ident_char_plain by blast
    ultimately show ?thesis by (elim disjE) (simp_all add: is_space_def)
  qed
  have t: "trim_space ?s = ?s" by (rule trim_space_idle) (rule conjunct1 [OF plain])
  have f: "fields_func is_space ?s = [?s]" by (rule fields_plain) (simp, rule conjunct1 [OF plain])
  have "CHR ''|'' \<notin> set ?s" using conjunct2 [OF plain, of "CHR ''|''"] by metis
  then have b: "split_bars ?s = [?s]" by (rule split_bars_plain)
  have o: "split_op ?s = (''^'', version_string lo)" by (simp add: split_op_def has_prefix_def)
  have ne: "version_string lo \<noteq> []" by (simp add: version_string_def)
  have "length (version_string lo) \<noteq> 1" by (simp add: version_string_def)
  then have w: "\<not> is_wild (version_string lo)" by (auto simp: is_wild_def)
  have e: "expand ''^'' (version_string lo) = Inr [comp ''>='' lo, comp ''<'' (floor_of (caret_top lo 3))]"
    by (simp add: expand_def w parse_partial_string [OF assms])
  have p: "parse_set [?s] = Inr [comp ''>='' lo, comp ''<'' (floor_of (caret_top lo 3))]"
    using o e ne by (simp add: Let_def)
  show ?thesis
    unfolding parse_range_def Let_def t b parse_alternatives.simps f using p by simp
qed

lemma below_top:
  assumes "version_ok lo" "version_ok v" "version_compare lo v \<le> 0"
    and "v_major lo < max_int64" "v_minor lo < max_int64" "v_patch lo < max_int64"
    and "v_pre v = [] \<or> same_core_version lo v"
  shows "version_compare v (floor_of (caret_top lo 3)) < 0 \<longleftrightarrow> caret_compatible lo v"
proof -
  have w: "wrap64 (v_major lo + 1) = v_major lo + 1" "wrap64 (v_minor lo + 1) = v_minor lo + 1"
    "wrap64 (v_patch lo + 1) = v_patch lo + 1"
    using assms by (auto intro!: wrap64_id simp: version_ok_def number_ok_def max_int64_def)
  have n: "0 \<le> v_major lo" "0 \<le> v_minor lo" "0 \<le> v_patch lo" "0 \<le> v_major v" "0 \<le> v_minor v" "0 \<le> v_patch v"
    using assms(1,2) by (simp_all add: version_ok_def number_ok_def)
  have le: "version_rank lo \<le> version_rank v" using assms(3) by (simp add: compare_rank cmp_le)
  show ?thesis
  proof (cases "same_core_version lo v")
    case True
    then have e: "v_major v = v_major lo" "v_minor v = v_minor lo" "v_patch v = v_patch lo"
      by (simp_all add: same_core_version_def)
    show ?thesis using n
      by (simp add: e compare_rank cmp_le version_rank_def floor_of_def caret_top_def plain_version_def
          caret_compatible_def less_prod_def' w)
  next
    case False
    then have "v_pre v = []" using assms(7) by blast
    then show ?thesis using n le False
      by (auto simp: compare_rank cmp_le version_rank_def floor_of_def caret_top_def plain_version_def
          caret_compatible_def same_core_version_def less_prod_def' less_eq_prod_def w)
  qed
qed

text \<open>
  A caret range matches the compatible versions: \<open>^\<close> and a version match exactly the versions
  at or above it with the same leftmost number that is not zero; and of pre-releases only those of
  the version itself, when it names one. The numbers are below the largest \<open>int64\<close>.\<close>

theorem caret_range_exact:
  assumes "version_ok lo" "v_major lo < max_int64" "v_minor lo < max_int64" "v_patch lo < max_int64"
    and "version_ok v"
  shows "\<exists>r. parse_range (''^'' @ version_string lo) = Inr r \<and>
     (range_matches r v \<longleftrightarrow>
        version_compare lo v \<le> 0 \<and> caret_compatible lo v \<and>
        (v_pre v = [] \<or> v_pre lo \<noteq> [] \<and> v_pre lo \<noteq> [''0''] \<and> same_core_version lo v))"
proof -
  define cs where "cs = [comp ''>='' lo, comp ''<'' (floor_of (caret_top lo 3))]"
  have pre: "list_ex (\<lambda>c. v_pre (cp_version c) \<noteq> [] \<and> same_core_version (cp_version c) v \<and> \<not> is_floor (cp_version c)) cs \<longleftrightarrow>
      v_pre lo \<noteq> [] \<and> v_pre lo \<noteq> [''0''] \<and> same_core_version lo v"
    by (auto simp: cs_def comp_def floor_of_def is_floor_def length_Suc_conv)
  have neg: "0 \<le> version_compare v lo \<longleftrightarrow> version_compare lo v \<le> 0"
    by (simp add: compare_rank cmp_le)
  have "set_matches cs v \<longleftrightarrow> version_compare lo v \<le> 0 \<and> caret_compatible lo v \<and>
      (v_pre v = [] \<or> v_pre lo \<noteq> [] \<and> v_pre lo \<noteq> [''0''] \<and> same_core_version lo v)"
    unfolding set_matches_def pre
    using below_top [OF assms(1,5) _ assms(2-4)] neg
    by (auto simp: cs_def comparator_matches_def comp_def Let_def)
  then show ?thesis
    unfolding parse_caret [OF assms(1)] by (simp add: range_matches_def cs_def)
qed

theorem caret_range_exact_witness:
  "\<exists>r. parse_range ''^1.2.3'' = Inr r \<and> range_matches r (plain_version 1 10 0)"
proof -
  have ok: "version_ok (plain_version 1 2 3)" "version_ok (plain_version 1 10 0)"
    by (simp_all add: version_ok_def plain_version_def number_ok_def max_int64_def)
  have s: "''^'' @ version_string (plain_version 1 2 3) = ''^1.2.3''" by code_simp
  have "version_compare (plain_version 1 2 3) (plain_version 1 10 0) = - 1" by code_simp
  then show ?thesis
    using caret_range_exact [OF ok(1) _ _ _ ok(2)] unfolding s
    by (auto simp: plain_version_def max_int64_def caret_compatible_def)
qed

theorem version_order_witness:
  "version_compare (plain_version 1 2 3) (plain_version 1 10 0) \<le> 0 \<and>
   version_compare (plain_version 1 10 0) (plain_version 2 0 0) \<le> 0 \<and>
   version_compare (plain_version 1 2 3) (plain_version 2 0 0) \<le> 0"
proof -
  have "version_compare (plain_version 1 2 3) (plain_version 1 10 0) = - 1"
    "version_compare (plain_version 1 10 0) (plain_version 2 0 0) = - 1"
    by code_simp+
  then show ?thesis
    using version_order [of "plain_version 2 0 0" "plain_version 1 10 0" "plain_version 1 2 3" "[]"] by simp
qed

theorem version_round_trip_witness:
  "parse_version ''v2.0.0-rc.1'' = Inr ((plain_version 2 0 0)\<lparr>v_pre := [''rc'', ''1'']\<rparr>) \<and>
   parse_version (version_string ((plain_version 2 0 0)\<lparr>v_pre := [''rc'', ''1'']\<rparr>)) =
     Inr ((plain_version 2 0 0)\<lparr>v_pre := [''rc'', ''1'']\<rparr>)"
proof -
  have "parse_version ''v2.0.0-rc.1'' = Inr ((plain_version 2 0 0)\<lparr>v_pre := [''rc'', ''1'']\<rparr>)"
    by code_simp
  then show ?thesis using version_round_trip [THEN conjunct2, rule_format] by blast
qed

section \<open>Where ranges surprise\<close>

text \<open>An upper bound that names a pre-release loses it: the pre-releases below it do not match.\<close>

lemma upper_bound_drops_pre_release:
  "(case parse_range ''<1.0.0-rc.2'' of Inr r \<Rightarrow>
      \<not> range_matches r ((plain_version 1 0 0)\<lparr>v_pre := [''rc'', ''1'']\<rparr>) | Inl e \<Rightarrow> False) \<and>
   version_compare ((plain_version 1 0 0)\<lparr>v_pre := [''rc'', ''1'']\<rparr>)
     ((plain_version 1 0 0)\<lparr>v_pre := [''rc'', ''2'']\<rparr>) < 0"
  by code_simp

text \<open>A range of wildcards other than the single one is the range of the version zero.\<close>

lemma double_wildcard_matches_zero_only:
  "(case parse_range ''x.x'' of
      Inr r \<Rightarrow> range_matches r (plain_version 0 0 0) \<and> \<not> range_matches r (plain_version 1 2 3)
    | Inl e \<Rightarrow> False)"
  by code_simp

text \<open>An identifier of a hyphen and digits compares as a negative number.\<close>

lemma hyphen_identifier_is_negative:
  "valid_ident True ''-5'' \<and> compare_ident ''-5'' ''0'' = - 1"
  by code_simp

end
