(* ===== verification/Interrupts.thy ===== *)
theory Interrupts
  imports Gates "HOL-Library.Product_Lexorder"
begin

text \<open>
  The in-process interrupt router (\<open>agent/interrupt_router.go\<close>, the types of \<open>agent/types/interrupt.go\<close>):
  runs post questions, replies reach the waiting run over a channel, and questions expire or are withdrawn.
  The channels are part of the state, so that a send to a closed or full channel, and a second close, are
  visible: they are the effects \<open>Panicked\<close> and \<open>Blocked\<close>. A timer is the operation \<open>Expire\<close>, which may
  come at any time after the post, also after \<open>Stop\<close>; the zero time is 0.
\<close>

section \<open>Types\<close>

record approval_decision =
  ad_approved :: bool
  ad_args :: "tool_args option"
  ad_message :: string
  ad_approver :: string
  ad_grant :: "grant_request option"

datatype interrupt_expiry = ExpireDeny | ExpireEscalate | ExpireFail

record interrupt =
  in_id :: string
  in_run :: string
  in_path :: "string list"
  in_kind :: string
  in_payload :: string
  in_markers :: "marker list"
  in_created :: time
  in_expires :: time
  in_on_expire :: interrupt_expiry

record interrupt_reply =
  rp_id :: string
  rp_key :: string
  rp_decision :: approval_decision
  rp_answer :: string

datatype interrupt_error =
    ErrNeedsID | ErrInterruptExpired string | ErrAlreadyPending string
  | ErrInterruptNotFound string | ErrMarkerResolved string

definition interrupt_expired :: "interrupt \<Rightarrow> time \<Rightarrow> bool" where
  "interrupt_expired i now = (in_expires i \<noteq> 0 \<and> \<not> now < in_expires i)"

section \<open>Channels\<close>

text \<open>A reply channel has room for one value; \<open>ch_got\<close> is what the waiting run has received.\<close>

record reply_chan =
  ch_buf :: "interrupt_reply list"
  ch_got :: "interrupt_reply list"
  ch_closed :: bool

definition new_chan :: reply_chan where
  "new_chan = \<lparr>ch_buf = [], ch_got = [], ch_closed = False\<rparr>"

definition chan_send :: "interrupt_reply \<Rightarrow> reply_chan \<Rightarrow> reply_chan effect" where
  "chan_send v c =
     (if ch_closed c then Panicked
      else if 1 \<le> length (ch_buf c) then Blocked
      else Returned (c\<lparr>ch_buf := ch_buf c @ [v]\<rparr>))"

definition chan_close :: "reply_chan \<Rightarrow> reply_chan effect" where
  "chan_close c = (if ch_closed c then Panicked else Returned (c\<lparr>ch_closed := True\<rparr>))"

section \<open>The router\<close>

record memory_interrupt =
  mi_in :: interrupt
  mi_chan :: nat
  mi_answered :: bool
  mi_key :: string
  mi_timer :: bool

record interrupt_router =
  ir_pending :: "(string, memory_interrupt) gomap"
  ir_expired :: "string list"
  ir_answered :: "(string, string) gomap"
  ir_chans :: "reply_chan list"

definition new_interrupt_router :: interrupt_router where
  "new_interrupt_router = \<lparr>ir_pending = [], ir_expired = [], ir_answered = [], ir_chans = []\<rparr>"

definition max_expired :: nat where "max_expired = 1024"
definition max_answered :: nat where "max_answered = 1024"

text \<open>The channel of the post is the number of the new entry of \<open>ir_chans\<close>.\<close>

definition post_interrupt :: "time \<Rightarrow> interrupt \<Rightarrow> interrupt_router \<Rightarrow> interrupt_router \<times> (interrupt_error + nat)" where
  "post_interrupt now i r =
     (if in_id i = [] then (r, Inl ErrNeedsID)
      else if interrupt_expired i now then (r, Inl (ErrInterruptExpired (in_id i)))
      else
        let i = (if in_created i = 0 then i\<lparr>in_created := now\<rparr> else i) in
        case map_of (ir_pending r) (in_id i) of
          Some p \<Rightarrow> (r, Inl (ErrAlreadyPending (in_id i)))
        | None \<Rightarrow>
            let c = length (ir_chans r);
                p = \<lparr>mi_in = i, mi_chan = c, mi_answered = False, mi_key = [], mi_timer = in_expires i \<noteq> 0\<rparr>
            in (r\<lparr>ir_expired := removeAll (in_id i) (ir_expired r),
                   ir_answered := AList.delete (in_id i) (ir_answered r),
                   ir_pending := AList.update (in_id i) p (ir_pending r),
                   ir_chans := ir_chans r @ [new_chan]\<rparr>, Inr c))"

definition remember_expired :: "string \<Rightarrow> interrupt_router \<Rightarrow> interrupt_router" where
  "remember_expired i r =
     (let kept = (if max_expired \<le> length (ir_expired r) then [] else ir_expired r)
      in r\<lparr>ir_expired := List.insert i kept\<rparr>)"

text \<open>Dropping an expired interrupt and closing its channel, as the timer and a late reply both do.\<close>

definition drop_expired :: "string \<Rightarrow> nat \<Rightarrow> interrupt_router \<Rightarrow> interrupt_router effect" where
  "drop_expired i c r =
     (let r = remember_expired i (r\<lparr>ir_pending := AList.delete i (ir_pending r)\<rparr>) in
      case chan_close (ir_chans r ! c) of
        Returned ch \<Rightarrow> Returned (r\<lparr>ir_chans := (ir_chans r)[c := ch]\<rparr>)
      | Panicked \<Rightarrow> Panicked | Blocked \<Rightarrow> Blocked)"

definition expire_interrupt :: "string \<Rightarrow> nat \<Rightarrow> interrupt_router \<Rightarrow> interrupt_router effect" where
  "expire_interrupt i c r =
     (case map_of (ir_pending r) i of
        None \<Rightarrow> Returned r
      | Some p \<Rightarrow> if mi_chan p \<noteq> c \<or> mi_answered p then Returned r else drop_expired i c r)"

definition reply_interrupt ::
  "time \<Rightarrow> interrupt_reply \<Rightarrow> interrupt_router \<Rightarrow> (interrupt_router \<times> interrupt_error option) effect" where
  "reply_interrupt now rp r =
     (let i = rp_id rp in
      case map_of (ir_pending r) i of
        None \<Rightarrow>
          (case map_of (ir_answered r) i of
             Some key \<Rightarrow> Returned (r, if rp_key rp \<noteq> [] \<and> rp_key rp = key then None else Some (ErrMarkerResolved i))
           | None \<Rightarrow>
               Returned (r, Some (if i \<in> set (ir_expired r) then ErrInterruptExpired i else ErrInterruptNotFound i)))
      | Some p \<Rightarrow>
          if mi_answered p then
            Returned (r, if rp_key rp \<noteq> [] \<and> rp_key rp = mi_key p then None else Some (ErrMarkerResolved i))
          else if interrupt_expired (mi_in p) now then
            (case drop_expired i (mi_chan p) r of
               Returned r' \<Rightarrow> Returned (r', Some (ErrInterruptExpired i)) | Panicked \<Rightarrow> Panicked | Blocked \<Rightarrow> Blocked)
          else
            (case chan_send rp (ir_chans r ! mi_chan p) of
               Returned ch \<Rightarrow>
                 Returned (r\<lparr>ir_pending := AList.update i (p\<lparr>mi_answered := True, mi_key := rp_key rp\<rparr>) (ir_pending r),
                             ir_chans := (ir_chans r)[mi_chan p := ch]\<rparr>, None)
             | Panicked \<Rightarrow> Panicked | Blocked \<Rightarrow> Blocked))"

definition pending_interrupts :: "string \<Rightarrow> interrupt_router \<Rightarrow> interrupt list" where
  "pending_interrupts run r =
     sort_key (\<lambda>i. (in_created i, in_id i))
       (map mi_in (filter (\<lambda>p. \<not> mi_answered p \<and> (run = [] \<or> in_run (mi_in p) = run)) (map snd (ir_pending r))))"

definition withdraw_interrupt :: "string \<Rightarrow> interrupt_router \<Rightarrow> interrupt_router \<times> bool" where
  "withdraw_interrupt i r =
     (case map_of (ir_pending r) i of
        None \<Rightarrow> (r, map_of (ir_answered r) i \<noteq> None)
      | Some p \<Rightarrow>
          let r = r\<lparr>ir_pending := AList.delete i (ir_pending r)\<rparr> in
          if \<not> mi_answered p then (r, False)
          else
            let kept = (if max_answered \<le> length (ir_answered r) then [] else ir_answered r)
            in (r\<lparr>ir_answered := AList.update i (mi_key p) kept\<rparr>, True))"

section \<open>Runs\<close>

text \<open>The waiting run takes the value of its channel, if there is one.\<close>

definition receive_reply :: "nat \<Rightarrow> interrupt_router \<Rightarrow> interrupt_router" where
  "receive_reply c r =
     (if c < length (ir_chans r) then
        let ch = ir_chans r ! c in r\<lparr>ir_chans := (ir_chans r)[c := ch\<lparr>ch_buf := [], ch_got := ch_got ch @ ch_buf ch\<rparr>]\<rparr>
      else r)"

datatype router_op =
    Post time interrupt | Expire string nat | Reply time interrupt_reply | Withdraw string | Receive nat

fun router_step :: "router_op \<Rightarrow> interrupt_router \<Rightarrow> interrupt_router effect" where
  "router_step (Post now i) r = Returned (fst (post_interrupt now i r))"
| "router_step (Expire i c) r = expire_interrupt i c r"
| "router_step (Reply now rp) r =
     (case reply_interrupt now rp r of Returned (r', e) \<Rightarrow> Returned r' | Panicked \<Rightarrow> Panicked | Blocked \<Rightarrow> Blocked)"
| "router_step (Withdraw i) r = Returned (fst (withdraw_interrupt i r))"
| "router_step (Receive c) r = Returned (receive_reply c r)"

fun run_router :: "router_op list \<Rightarrow> interrupt_router \<Rightarrow> interrupt_router effect" where
  "run_router [] r = Returned r"
| "run_router (op # ops) r =
     (case router_step op r of Returned r' \<Rightarrow> run_router ops r' | Panicked \<Rightarrow> Panicked | Blocked \<Rightarrow> Blocked)"

end
