(* ===== verification/Interrupts_Properties.thy ===== *)
theory Interrupts_Properties
  imports Interrupts
begin

text \<open>
  What the interrupt router guarantees in any order of posts, replies, timers, withdrawals and receives: its
  channels carry at most one reply and are closed at most once, replies are idempotent by key, and its memory
  of past interrupts is bounded.
\<close>

section \<open>The invariant\<close>

definition chan_ok :: "reply_chan \<Rightarrow> bool" where
  "chan_ok ch = (length (ch_got ch @ ch_buf ch) \<le> 1 \<and> (ch_closed ch \<longrightarrow> ch_got ch @ ch_buf ch = []))"

definition entry_ok :: "reply_chan list \<Rightarrow> string \<Rightarrow> memory_interrupt \<Rightarrow> bool" where
  "entry_ok chs i p =
     (in_id (mi_in p) = i \<and> i \<noteq> [] \<and> mi_chan p < length chs \<and>
      (if mi_answered p
       then \<not> ch_closed (chs ! mi_chan p) \<and>
         (\<exists>v. ch_got (chs ! mi_chan p) @ ch_buf (chs ! mi_chan p) = [v] \<and> rp_id v = i \<and> rp_key v = mi_key p)
       else chs ! mi_chan p = new_chan))"

definition own_chans :: "(string, memory_interrupt) gomap \<Rightarrow> bool" where
  "own_chans ps = (\<forall>i j p q. map_of ps i = Some p \<longrightarrow> map_of ps j = Some q \<longrightarrow> mi_chan p = mi_chan q \<longrightarrow> i = j)"

definition memory_ok :: "interrupt_router \<Rightarrow> bool" where
  "memory_ok r =
     (distinct (map fst (ir_pending r)) \<and> distinct (ir_expired r) \<and> distinct (map fst (ir_answered r)) \<and>
      length (ir_expired r) \<le> max_expired \<and> length (ir_answered r) \<le> max_answered \<and>
      (\<forall>i. (map_of (ir_pending r) i = None \<or> i \<notin> set (ir_expired r)) \<and>
           (map_of (ir_pending r) i = None \<or> map_of (ir_answered r) i = None) \<and>
           (map_of (ir_answered r) i = None \<or> i \<notin> set (ir_expired r))))"

definition router_ok :: "interrupt_router \<Rightarrow> bool" where
  "router_ok r =
     (memory_ok r \<and> own_chans (ir_pending r) \<and> list_all chan_ok (ir_chans r) \<and>
      (\<forall>i p. map_of (ir_pending r) i = Some p \<longrightarrow> entry_ok (ir_chans r) i p))"

lemma memory_disjoint:
  "memory_ok r \<Longrightarrow> map_of (ir_pending r) i = Some p \<Longrightarrow> map_of (ir_answered r) i = None \<and> i \<notin> set (ir_expired r)"
  unfolding memory_ok_def by (metis option.distinct(1))

lemma pending_chan:
  "router_ok r \<Longrightarrow> map_of (ir_pending r) i = Some p \<Longrightarrow> mi_chan p < length (ir_chans r)"
  by (simp add: router_ok_def entry_ok_def)

lemma new_router_ok: "router_ok new_interrupt_router"
  by (simp add: router_ok_def memory_ok_def own_chans_def new_interrupt_router_def max_expired_def max_answered_def)

lemma entry_ok_other:
  "entry_ok chs i p \<Longrightarrow> mi_chan p \<noteq> c \<Longrightarrow> entry_ok (chs[c := ch]) i p"
  by (simp add: entry_ok_def)

lemma entry_ok_append: "entry_ok chs i p \<Longrightarrow> entry_ok (chs @ cs) i p"
  by (auto simp: entry_ok_def nth_append)

lemma length_delete: "length (AList.delete k m) \<le> length m"
  by (induction m) auto

lemma length_removeAll: "length (removeAll x xs) \<le> length xs"
  by (induction xs) (auto intro: le_SucI)

lemma length_insert_le: "length (List.insert x xs) \<le> Suc (length xs)"
  by (simp add: List.insert_def)

lemma length_update_le: "length (AList.update k v m) \<le> Suc (length m)"
  by (induction m) auto

lemma list_all_update: "list_all P xs \<Longrightarrow> P x \<Longrightarrow> list_all P (xs[i := x])"
  using set_update_subset_insert [of xs i x] by (auto simp: list_all_iff)

lemma own_chans_delete: "own_chans ps \<Longrightarrow> own_chans (AList.delete i ps)"
  by (auto simp: own_chans_def)

lemma own_chans_update:
  "own_chans ps \<Longrightarrow> (\<And>j q. map_of ps j = Some q \<Longrightarrow> j \<noteq> i \<Longrightarrow> mi_chan q \<noteq> mi_chan p) \<Longrightarrow>
   own_chans (AList.update i p ps)"
  by (auto simp: own_chans_def) metis+

section \<open>Posting\<close>

lemma post_ok:
  assumes ok: "router_ok r" and p: "post_interrupt now i r = (r', Inr c)"
  shows "router_ok r' \<and> c = length (ir_chans r) \<and> map_of (ir_pending r) (in_id i) = None \<and>
    (\<exists>q. map_of (ir_pending r') (in_id i) = Some q \<and> mi_chan q = c \<and> \<not> mi_answered q)"
proof -
  define j where "j = (if in_created i = 0 then i\<lparr>in_created := now\<rparr> else i)"
  have id: "in_id j = in_id i" by (simp add: j_def)
  have fresh: "map_of (ir_pending r) (in_id i) = None" and ne: "in_id i \<noteq> []"
    using p by (auto simp: post_interrupt_def Let_def j_def [symmetric] id split: if_splits option.splits)
  define q where "q = \<lparr>mi_in = j, mi_chan = length (ir_chans r), mi_answered = False, mi_key = [], mi_timer = in_expires j \<noteq> 0\<rparr>"
  have r': "r' = r\<lparr>ir_expired := removeAll (in_id i) (ir_expired r),
      ir_answered := AList.delete (in_id i) (ir_answered r),
      ir_pending := AList.update (in_id i) q (ir_pending r), ir_chans := ir_chans r @ [new_chan]\<rparr>"
    and c: "c = length (ir_chans r)"
    using p fresh
    by (auto simp: post_interrupt_def Let_def j_def [symmetric] id q_def split: if_splits option.splits)
  have "memory_ok r" using ok by (simp add: router_ok_def)
  then have "memory_ok r'"
    using length_delete [of "in_id i" "ir_answered r"]
    by (auto simp: memory_ok_def r' distinct_removeAll intro: order_trans [OF length_removeAll])
  moreover have "mi_chan s \<noteq> mi_chan q" if "map_of (ir_pending r) k = Some s" for k s
    using pending_chan [OF ok that] by (simp add: q_def)
  then have "own_chans (ir_pending r')"
    unfolding r' using ok by (auto intro!: own_chans_update simp: router_ok_def)
  moreover have "entry_ok (ir_chans r') k p" if "map_of (ir_pending r') k = Some p" for k p
    using that ok ne entry_ok_append [of "ir_chans r" k p "[new_chan]"]
    by (auto simp: r' router_ok_def entry_ok_def q_def id nth_append split: if_splits)
  moreover have "list_all chan_ok (ir_chans r')" using ok by (simp add: r' router_ok_def chan_ok_def new_chan_def)
  ultimately show ?thesis using c fresh by (simp add: router_ok_def r' q_def)
qed

section \<open>Expiry\<close>

lemma remember_expired_fields [simp]:
  "ir_pending (remember_expired i r) = ir_pending r" "ir_answered (remember_expired i r) = ir_answered r"
  "ir_chans (remember_expired i r) = ir_chans r" "i \<in> set (ir_expired (remember_expired i r))"
  by (simp_all add: remember_expired_def Let_def)

lemma memory_expired:
  assumes ok: "memory_ok r" and p: "map_of (ir_pending r) i = Some p"
  shows "memory_ok (remember_expired i (r\<lparr>ir_pending := AList.delete i (ir_pending r)\<rparr>))"
  using ok p length_insert_le [of i "ir_expired r"]
  by (auto simp: memory_ok_def remember_expired_def Let_def max_expired_def distinct_keys_delete)

lemma drop_expired_ok:
  assumes ok: "router_ok r" and p: "map_of (ir_pending r) i = Some p" and un: "\<not> mi_answered p"
  shows "\<exists>r'. drop_expired i (mi_chan p) r = Returned r' \<and> router_ok r' \<and>
    map_of (ir_pending r') = (map_of (ir_pending r))(i := None) \<and> ir_answered r' = ir_answered r \<and>
    i \<in> set (ir_expired r') \<and> ir_chans r' = (ir_chans r)[mi_chan p := new_chan\<lparr>ch_closed := True\<rparr>]"
proof -
  let ?r = "remember_expired i (r\<lparr>ir_pending := AList.delete i (ir_pending r)\<rparr>)"
  let ?ch = "new_chan\<lparr>ch_closed := True\<rparr>"
  have e: "entry_ok (ir_chans r) i p" using ok p by (simp add: router_ok_def)
  have ch: "ir_chans r ! mi_chan p = new_chan" using e un by (simp add: entry_ok_def)
  define r' where "r' = ?r\<lparr>ir_chans := (ir_chans r)[mi_chan p := ?ch]\<rparr>"
  have d: "drop_expired i (mi_chan p) r = Returned r'"
    by (simp add: drop_expired_def Let_def ch chan_close_def new_chan_def r'_def)
  have "memory_ok ?r" using memory_expired p ok by (simp add: router_ok_def)
  then have "memory_ok r'" by (simp add: memory_ok_def r'_def)
  moreover have "own_chans (ir_pending r')" using ok by (simp add: r'_def router_ok_def own_chans_delete)
  moreover have "list_all chan_ok (ir_chans r')"
    using ok by (auto simp: r'_def router_ok_def chan_ok_def new_chan_def intro!: list_all_update)
  moreover have "entry_ok (ir_chans r') k q" if k: "map_of (ir_pending r') k = Some q" for k q
  proof -
    have q: "map_of (ir_pending r) k = Some q" "k \<noteq> i" using k by (auto simp: r'_def split: if_splits)
    then have "mi_chan q \<noteq> mi_chan p" using ok p unfolding router_ok_def own_chans_def by metis
    then show ?thesis using q ok by (simp add: r'_def router_ok_def entry_ok_other)
  qed
  ultimately show ?thesis using d by (simp add: router_ok_def r'_def fun_upd_def)
qed

lemma expire_ok: "router_ok r \<Longrightarrow> \<exists>r'. expire_interrupt i c r = Returned r' \<and> router_ok r'"
  using drop_expired_ok by (fastforce simp: expire_interrupt_def split: option.split)

section \<open>Replies, withdrawals and receives\<close>

lemma reply_delivers:
  assumes ok: "router_ok r" and p: "map_of (ir_pending r) (rp_id rp) = Some p"
    and un: "\<not> mi_answered p" "\<not> interrupt_expired (mi_in p) now"
  shows "\<exists>r'. reply_interrupt now rp r = Returned (r', None) \<and> router_ok r' \<and>
    map_of (ir_pending r') = (map_of (ir_pending r))(rp_id rp \<mapsto> p\<lparr>mi_answered := True, mi_key := rp_key rp\<rparr>) \<and>
    ir_answered r' = ir_answered r \<and> ir_expired r' = ir_expired r \<and>
    ir_chans r' = (ir_chans r)[mi_chan p := new_chan\<lparr>ch_buf := [rp]\<rparr>]"
proof -
  let ?i = "rp_id rp" and ?p = "p\<lparr>mi_answered := True, mi_key := rp_key rp\<rparr>"
  let ?chs = "(ir_chans r)[mi_chan p := new_chan\<lparr>ch_buf := [rp]\<rparr>]"
  have e: "entry_ok (ir_chans r) ?i p" using ok p by (simp add: router_ok_def)
  have ch: "ir_chans r ! mi_chan p = new_chan" using e un by (simp add: entry_ok_def)
  define r' where "r' = r\<lparr>ir_pending := AList.update ?i ?p (ir_pending r), ir_chans := ?chs\<rparr>"
  have d: "reply_interrupt now rp r = Returned (r', None)"
    using p un by (simp add: reply_interrupt_def Let_def ch chan_send_def new_chan_def r'_def)
  have "memory_ok r" using ok by (simp add: router_ok_def)
  then have "memory_ok r'" using p memory_disjoint [OF _ p]
    by (auto simp: memory_ok_def r'_def distinct_keys_update simp del: map_of_eq_Some_iff)
  moreover have other: "mi_chan q \<noteq> mi_chan p" if "map_of (ir_pending r) k = Some q" "k \<noteq> ?i" for k q
    using ok p that unfolding router_ok_def own_chans_def by metis
  then have "own_chans (ir_pending r')"
    unfolding r'_def using ok by (auto intro!: own_chans_update simp: router_ok_def)
  moreover have "list_all chan_ok (ir_chans r')"
    using ok by (auto simp: r'_def router_ok_def chan_ok_def new_chan_def intro!: list_all_update)
  moreover have "entry_ok (ir_chans r') k q" if k: "map_of (ir_pending r') k = Some q" for k q
  proof (cases "k = ?i")
    case True
    then show ?thesis using k e by (auto simp: r'_def entry_ok_def new_chan_def)
  next
    case False
    then have "map_of (ir_pending r) k = Some q" using k by (simp add: r'_def)
    then show ?thesis using other False ok by (simp add: r'_def router_ok_def entry_ok_other)
  qed
  ultimately show ?thesis using d by (simp add: router_ok_def r'_def)
qed

lemma reply_ok:
  assumes ok: "router_ok r" shows "\<exists>r' e. reply_interrupt now rp r = Returned (r', e) \<and> router_ok r'"
proof (cases "map_of (ir_pending r) (rp_id rp)")
  case (Some p)
  show ?thesis
  proof (cases "mi_answered p \<or> interrupt_expired (mi_in p) now")
    case True
    then show ?thesis
      using Some ok drop_expired_ok [OF ok Some] by (auto simp: reply_interrupt_def Let_def)
  next
    case False
    then show ?thesis using reply_delivers [OF ok Some] by blast
  qed
qed (use ok in \<open>auto simp: reply_interrupt_def Let_def split: option.split\<close>)

lemma withdraw_ok:
  assumes ok: "router_ok r" shows "router_ok (fst (withdraw_interrupt i r))"
proof (cases "map_of (ir_pending r) i")
  case (Some p)
  let ?r = "fst (withdraw_interrupt i r)"
  have "memory_ok r" using ok by (simp add: router_ok_def)
  then have "memory_ok ?r"
    using Some memory_disjoint [OF _ Some] length_update_le [of i "mi_key p" "ir_answered r"]
    by (auto simp: memory_ok_def withdraw_interrupt_def Let_def max_answered_def distinct_keys_delete
        distinct_keys_update simp del: map_of_eq_Some_iff)
  moreover have "own_chans (ir_pending ?r)" "list_all chan_ok (ir_chans ?r)"
    "\<forall>k q. map_of (ir_pending ?r) k = Some q \<longrightarrow> entry_ok (ir_chans ?r) k q"
    using ok Some by (auto simp: withdraw_interrupt_def Let_def router_ok_def own_chans_delete)
  ultimately show ?thesis by (simp add: router_ok_def)
qed (simp add: withdraw_interrupt_def ok)

lemma receive_ok:
  assumes ok: "router_ok r" shows "router_ok (receive_reply c r)"
proof (cases "c < length (ir_chans r)")
  case True
  let ?ch = "ir_chans r ! c" and ?ch' = "(ir_chans r ! c)\<lparr>ch_buf := [], ch_got := ch_got (ir_chans r ! c) @ ch_buf (ir_chans r ! c)\<rparr>"
  have r': "receive_reply c r = r\<lparr>ir_chans := (ir_chans r)[c := ?ch']\<rparr>"
    using True by (simp add: receive_reply_def Let_def)
  have "chan_ok ?ch" using ok True by (simp add: router_ok_def list_all_length)
  then have "list_all chan_ok (ir_chans (receive_reply c r))"
    using ok by (auto simp: r' router_ok_def chan_ok_def intro!: list_all_update)
  moreover have "entry_ok (ir_chans (receive_reply c r)) k p" if "map_of (ir_pending r) k = Some p" for k p
  proof -
    have e: "entry_ok (ir_chans r) k p" using ok that by (simp add: router_ok_def)
    show ?thesis
    proof (cases "mi_chan p = c")
      case True
      then show ?thesis using e by (auto simp: r' entry_ok_def new_chan_def)
    next
      case False
      then show ?thesis using e by (simp add: r' entry_ok_other)
    qed
  qed
  ultimately show ?thesis using ok by (simp add: router_ok_def r' memory_ok_def)
qed (use ok in \<open>simp add: receive_reply_def\<close>)

lemma post_failed: "post_interrupt now i r = (r', Inl e) \<Longrightarrow> r' = r"
  by (auto simp: post_interrupt_def Let_def split: if_splits option.splits)

lemma step_ok: "router_ok r \<Longrightarrow> \<exists>r'. router_step op r = Returned r' \<and> router_ok r'"
proof (cases op)
  case (Post now i)
  assume ok: "router_ok r"
  show ?thesis
  proof (cases "post_interrupt now i r")
    case (Pair r' x)
    then show ?thesis using Post ok post_failed post_ok [OF ok] by (cases x) fastforce+
  qed
next
  case (Reply now rp)
  assume "router_ok r"
  from reply_ok [OF this, of now rp] show ?thesis using Reply by fastforce
qed (simp_all add: expire_ok withdraw_ok receive_ok)

lemma run_ok: "router_ok r \<Longrightarrow> \<exists>r'. run_router ops r = Returned r' \<and> router_ok r'"
proof (induction ops arbitrary: r)
  case (Cons op ops)
  from step_ok [OF Cons.prems, of op] obtain r1 where r1: "router_step op r = Returned r1" "router_ok r1" by blast
  from Cons.IH [OF r1(2)] r1(1) show ?case by simp
qed simp

section \<open>Properties\<close>

lemma run_new_ok: "run_router ops new_interrupt_router = Returned r \<Longrightarrow> router_ok r"
  using run_ok [OF new_router_ok, of ops] by auto

text \<open>
  C39: in any order of operations the router neither panics nor blocks: no reply is sent on a closed or a full
  channel, and no channel is closed twice. A channel carries at most one reply, none once it was closed, and
  the router remembers at most 1024 expired and 1024 answered interrupts.
\<close>

theorem router_channels_once:
  "\<exists>r. run_router ops new_interrupt_router = Returned r \<and>
     (\<forall>ch \<in> set (ir_chans r). length (ch_got ch @ ch_buf ch) \<le> 1 \<and> (ch_closed ch \<longrightarrow> ch_got ch @ ch_buf ch = [])) \<and>
     length (ir_expired r) \<le> 1024 \<and> length (ir_answered r) \<le> 1024"
proof -
  obtain r where r: "run_router ops new_interrupt_router = Returned r" "router_ok r"
    using run_ok [OF new_router_ok] by blast
  then show ?thesis
    by (auto simp: router_ok_def memory_ok_def chan_ok_def list_all_iff max_expired_def max_answered_def)
qed

section \<open>Retried replies\<close>

definition settled :: "string \<Rightarrow> string \<Rightarrow> interrupt_router \<Rightarrow> bool" where
  "settled i key r =
     (case map_of (ir_pending r) i of
        Some p \<Rightarrow> mi_answered p \<and> mi_key p = key
      | None \<Rightarrow> map_of (ir_answered r) i = Some key)"

definition posts :: "string \<Rightarrow> router_op \<Rightarrow> bool" where
  "posts i op = (case op of Post now q \<Rightarrow> in_id q = i | _ \<Rightarrow> False)"

definition withdraws :: "router_op \<Rightarrow> bool" where
  "withdraws op = (case op of Withdraw i \<Rightarrow> True | _ \<Rightarrow> False)"

lemma settled_cong:
  "map_of (ir_pending r') i = map_of (ir_pending r) i \<Longrightarrow> ir_answered r' = ir_answered r \<Longrightarrow>
   settled i key r' = settled i key r"
  by (cases "map_of (ir_pending r) i") (simp_all add: settled_def)

lemma reply_settles:
  assumes "router_ok r" "reply_interrupt now rp r = Returned (r', None)"
  shows "settled (rp_id rp) (rp_key rp) r' \<and> length (ir_answered r') = length (ir_answered r)"
proof (cases "map_of (ir_pending r) (rp_id rp)")
  case None
  then show ?thesis
    using assms(2) by (auto simp: reply_interrupt_def Let_def settled_def split: option.splits if_splits)
next
  case (Some p)
  consider "mi_answered p" | "\<not> mi_answered p" "interrupt_expired (mi_in p) now"
    | "\<not> mi_answered p" "\<not> interrupt_expired (mi_in p) now" by blast
  then show ?thesis
  proof cases
    case 1
    then show ?thesis
      using assms(2) Some by (auto simp: reply_interrupt_def Let_def settled_def split: if_splits)
  next
    case 2
    then show ?thesis using assms(2) Some by (auto simp: reply_interrupt_def Let_def split: effect.splits)
  next
    case 3
    from reply_delivers [OF assms(1) Some 3] assms(2) show ?thesis by (auto simp: settled_def)
  qed
qed

lemma settled_reply:
  "settled (rp_id rp) key r \<Longrightarrow> reply_interrupt now rp r =
   Returned (r, if rp_key rp \<noteq> [] \<and> rp_key rp = key then None else Some (ErrMarkerResolved (rp_id rp)))"
  by (auto simp: settled_def reply_interrupt_def Let_def split: option.splits)

lemma settled_expire:
  assumes "router_ok r" "settled i key r" "expire_interrupt j c r = Returned r'"
  shows "settled i key r' \<and> ir_answered r' = ir_answered r"
proof (cases "r' = r")
  case False
  then obtain p where p: "map_of (ir_pending r) j = Some p" "\<not> mi_answered p" "c = mi_chan p"
    "drop_expired j (mi_chan p) r = Returned r'"
    using assms(3) by (auto simp: expire_interrupt_def split: option.splits if_splits)
  from drop_expired_ok [OF assms(1) p(1,2)] p(4)
  have e: "map_of (ir_pending r') = (map_of (ir_pending r))(j := None)" "ir_answered r' = ir_answered r" by auto
  have "i \<noteq> j" using assms(2) p(1,2) by (auto simp: settled_def)
  then show ?thesis using settled_cong [of r' i r key] e assms(2) by simp
qed (use assms in simp)

lemma settled_reply_step:
  assumes ok: "router_ok r" and st: "settled i key r" and rp: "reply_interrupt now rp r = Returned (r', e)"
  shows "settled i key r' \<and> ir_answered r' = ir_answered r"
proof (cases "map_of (ir_pending r) (rp_id rp)")
  case None
  then show ?thesis using rp st by (auto simp: reply_interrupt_def Let_def split: option.splits if_splits)
next
  case (Some p)
  consider "mi_answered p" | "\<not> mi_answered p" "interrupt_expired (mi_in p) now"
    | "\<not> mi_answered p" "\<not> interrupt_expired (mi_in p) now" by blast
  then show ?thesis
  proof cases
    case 1
    then show ?thesis using rp Some st by (auto simp: reply_interrupt_def Let_def split: if_splits)
  next
    case 2
    then have "expire_interrupt (rp_id rp) (mi_chan p) r = Returned r'"
      using rp Some by (auto simp: reply_interrupt_def expire_interrupt_def Let_def split: effect.splits)
    then show ?thesis by (rule settled_expire [OF ok st])
  next
    case 3
    have "i \<noteq> rp_id rp" using st Some 3 by (auto simp: settled_def)
    then show ?thesis using reply_delivers [OF ok Some 3] rp st settled_cong [of r' i r key] by auto
  qed
qed

lemma settled_step:
  assumes ok: "router_ok r" and st: "settled i key r" and op: "\<not> posts i op"
    and room: "withdraws op \<Longrightarrow> length (ir_answered r) < 1024" and s: "router_step op r = Returned r'"
  shows "settled i key r' \<and> length (ir_answered r') \<le> length (ir_answered r) + (if withdraws op then 1 else 0)"
proof (cases op)
  case (Post now q)
  then have ne: "in_id q \<noteq> i" using op by (simp add: posts_def)
  show ?thesis
  proof (cases "post_interrupt now q r")
    case (Pair r1 x)
    then have r': "r' = r1" using s Post by simp
    then show ?thesis
      using Pair ne st length_delete [of "in_id q" "ir_answered r"] Post
      by (auto simp: post_interrupt_def Let_def settled_def withdraws_def split: if_splits option.splits)
  qed
next
  case (Expire j c)
  then show ?thesis using settled_expire [OF ok st] s by (simp add: withdraws_def)
next
  case (Reply now rp)
  then show ?thesis using settled_reply_step [OF ok st] s by (auto simp: withdraws_def split: effect.splits)
next
  case (Withdraw j)
  then have "length (ir_answered r) < 1024" "r' = fst (withdraw_interrupt j r)"
    using room s by (simp_all add: withdraws_def)
  then show ?thesis
    using Withdraw st
    by (auto simp: withdraw_interrupt_def Let_def settled_def withdraws_def max_answered_def length_update_le
        split: option.splits if_splits)
next
  case (Receive c)
  then show ?thesis
    using s st settled_cong [of r' i r key]
    by (auto simp: receive_reply_def Let_def withdraws_def split: if_splits)
qed

lemma settled_run:
  assumes "router_ok r" "settled i key r" "run_router ops r = Returned r'" "list_all (\<lambda>op. \<not> posts i op) ops"
    "length (ir_answered r) + length (filter withdraws ops) \<le> 1024"
  shows "settled i key r'"
  using assms
proof (induction ops arbitrary: r)
  case (Cons op ops)
  from step_ok [OF Cons.prems(1), of op] obtain r1 where r1: "router_step op r = Returned r1" "router_ok r1" by blast
  have "settled i key r1 \<and> length (ir_answered r1) \<le> length (ir_answered r) + (if withdraws op then 1 else 0)"
    using Cons.prems r1 by (intro settled_step) auto
  then show ?case using Cons.IH [OF r1(2)] Cons.prems(3-5) r1(1) by (auto split: if_splits)
qed simp

text \<open>
  replies are idempotent by key. Once a reply was accepted, the same reply with its key is accepted again
  and changes nothing, also after the run received it and withdrew the question, until the question is posted
  anew or the memory of 1024 answered questions overflows; a reply with another key is refused.
\<close>

theorem retried_reply_is_noop:
  assumes run: "run_router before new_interrupt_router = Returned r"
    and rp: "reply_interrupt now rp r = Returned (r1, None)" "rp_key rp \<noteq> []"
    and later: "run_router ops r1 = Returned r2" "list_all (\<lambda>op. \<not> posts (rp_id rp) op) ops"
    and room: "length (ir_answered r) + length (filter withdraws ops) \<le> 1024"
  shows "reply_interrupt now2 rp r2 = Returned (r2, None) \<and>
    (rp_id rp2 = rp_id rp \<and> rp_key rp2 \<noteq> rp_key rp \<longrightarrow>
       reply_interrupt now2 rp2 r2 = Returned (r2, Some (ErrMarkerResolved (rp_id rp))))"
proof -
  note ok = run_new_ok [OF run]
  have ok1: "router_ok r1" using reply_ok [OF ok, of now rp] rp(1) by simp
  have "settled (rp_id rp) (rp_key rp) r2"
    using settled_run [OF ok1 _ later] reply_settles [OF ok rp(1)] room by simp
  then show ?thesis using settled_reply [of rp] settled_reply [of rp2] rp(2) by simp
qed

text \<open>
  the first reply to a pending question is delivered to its channel before the deadline. From the deadline
  on it is refused as expired, the channel is closed empty, every further reply is refused the same way, and
  the timer does nothing more.
\<close>

theorem first_reply_decides:
  assumes run: "run_router ops new_interrupt_router = Returned r"
    and p: "map_of (ir_pending r) (rp_id rp) = Some p" "\<not> mi_answered p"
  shows "if interrupt_expired (mi_in p) now
    then \<exists>r'. reply_interrupt now rp r = Returned (r', Some (ErrInterruptExpired (rp_id rp))) \<and>
      ir_chans r' = (ir_chans r)[mi_chan p := new_chan\<lparr>ch_closed := True\<rparr>] \<and>
      reply_interrupt now2 rp r' = Returned (r', Some (ErrInterruptExpired (rp_id rp))) \<and>
      expire_interrupt (rp_id rp) (mi_chan p) r' = Returned r'
    else \<exists>r'. reply_interrupt now rp r = Returned (r', None) \<and>
      ir_chans r' = (ir_chans r)[mi_chan p := new_chan\<lparr>ch_buf := [rp]\<rparr>]"
proof (cases "interrupt_expired (mi_in p) now")
  case True
  note ok = run_new_ok [OF run]
  obtain r' where d: "drop_expired (rp_id rp) (mi_chan p) r = Returned r'"
    "map_of (ir_pending r') (rp_id rp) = None" "ir_answered r' = ir_answered r" "rp_id rp \<in> set (ir_expired r')"
    "ir_chans r' = (ir_chans r)[mi_chan p := new_chan\<lparr>ch_closed := True\<rparr>]"
    using drop_expired_ok [OF ok p] by auto
  have "map_of (ir_answered r) (rp_id rp) = None"
    using ok memory_disjoint [OF _ p(1)] by (simp add: router_ok_def)
  then show ?thesis
    using True p d by (simp add: reply_interrupt_def expire_interrupt_def Let_def)
qed (use reply_delivers [OF run_new_ok [OF run] p] in auto)

text \<open>
  the list of pending interrupts holds exactly the unanswered ones of the run (of all runs for an empty
  name), each once, by creation time and then by id.
\<close>

theorem pending_list_exact:
  assumes run: "run_router ops new_interrupt_router = Returned r"
  shows "set (pending_interrupts rid r) =
      {q. \<exists>p. map_of (ir_pending r) (in_id q) = Some p \<and> mi_in p = q \<and> \<not> mi_answered p \<and> (rid = [] \<or> in_run q = rid)} \<and>
    sorted (map (\<lambda>q. (in_created q, in_id q)) (pending_interrupts rid r)) \<and>
    distinct (map in_id (pending_interrupts rid r))"
proof (intro conjI)
  note ok = run_new_ok [OF run]
  let ?ps = "filter (\<lambda>p. \<not> mi_answered p \<and> (rid = [] \<or> in_run (mi_in p) = rid)) (map snd (ir_pending r))"
  have d: "distinct (map fst (ir_pending r))" using ok unfolding router_ok_def memory_ok_def by blast
  have id: "in_id (mi_in p) = i" if "(i, p) \<in> set (ir_pending r)" for i p
  proof -
    have "map_of (ir_pending r) i = Some p" using map_of_in_set [OF d] that by blast
    then have "entry_ok (ir_chans r) i p" using ok unfolding router_ok_def by blast
    then show ?thesis by (simp add: entry_ok_def)
  qed
  show "sorted (map (\<lambda>q. (in_created q, in_id q)) (pending_interrupts rid r))"
    by (simp add: pending_interrupts_def)
  show "set (pending_interrupts rid r) = {q. \<exists>p. map_of (ir_pending r) (in_id q) = Some p \<and> mi_in p = q \<and>
      \<not> mi_answered p \<and> (rid = [] \<or> in_run q = rid)}" (is "_ = ?Q")
  proof (intro set_eqI iffI)
    fix q
    assume "q \<in> set (pending_interrupts rid r)"
    then obtain i p where "(i, p) \<in> set (ir_pending r)" "q = mi_in p" "\<not> mi_answered p" "rid = [] \<or> in_run q = rid"
      by (auto simp: pending_interrupts_def)
    moreover have "map_of (ir_pending r) (in_id q) = Some p"
      using calculation(1,2) id [of i p] map_of_in_set [OF d, of i p] by simp
    ultimately show "q \<in> ?Q" by blast
  next
    fix q
    assume "q \<in> ?Q"
    then obtain p where "map_of (ir_pending r) (in_id q) = Some p" "mi_in p = q" "\<not> mi_answered p" "rid = [] \<or> in_run q = rid"
      by blast
    then show "q \<in> set (pending_interrupts rid r)"
      using map_of_SomeD [of "ir_pending r" "in_id q" p] by (force simp: pending_interrupts_def)
  qed
  have e: "map (in_id \<circ> mi_in) (map snd (ir_pending r)) = map fst (ir_pending r)" using id by auto
  have "distinct (map (in_id \<circ> mi_in) (map snd (ir_pending r)))" unfolding e by (rule d)
  then have "distinct (map (in_id \<circ> mi_in) ?ps)" by (rule distinct_map_filter)
  then have "distinct (map in_id (map mi_in ?ps))" by simp
  then show "distinct (map in_id (pending_interrupts rid r))"
    by (simp only: pending_interrupts_def distinct_map distinct_sort set_sort)
qed

section \<open>A small run\<close>

definition demo_question :: "string \<Rightarrow> time \<Rightarrow> interrupt" where
  "demo_question i deadline = \<lparr>in_id = i, in_run = ''run'', in_path = [], in_kind = ''approval'', in_payload = [],
     in_markers = [], in_created = 0, in_expires = deadline, in_on_expire = ExpireDeny\<rparr>"

definition demo_reply :: "string \<Rightarrow> string \<Rightarrow> interrupt_reply" where
  "demo_reply i key = \<lparr>rp_id = i, rp_key = key,
     rp_decision = \<lparr>ad_approved = True, ad_args = None, ad_message = [], ad_approver = [], ad_grant = None\<rparr>,
     rp_answer = []\<rparr>"

definition demo_posted :: interrupt_router where
  "demo_posted = (case run_router [Post 1 (demo_question ''a'' 10), Post 2 (demo_question ''b'' 0)] new_interrupt_router of
     Returned r \<Rightarrow> r | _ \<Rightarrow> new_interrupt_router)"

lemma demo_posted_run:
  "run_router [Post 1 (demo_question ''a'' 10), Post 2 (demo_question ''b'' 0)] new_interrupt_router = Returned demo_posted"
  by code_simp

theorem router_channels_once_witness:
  "\<exists>r. run_router [Post 1 (demo_question ''a'' 10), Reply 2 (demo_reply ''a'' ''k''), Expire ''a'' 0] new_interrupt_router
      = Returned r \<and> (\<forall>ch \<in> set (ir_chans r). length (ch_got ch @ ch_buf ch) \<le> 1)"
  using router_channels_once [of "[Post 1 (demo_question ''a'' 10), Reply 2 (demo_reply ''a'' ''k''), Expire ''a'' 0]"]
  by blast

theorem retried_reply_is_noop_witness:
  "\<exists>r1 r2. reply_interrupt 3 (demo_reply ''a'' ''k'') demo_posted = Returned (r1, None) \<and>
     run_router [Receive 0, Withdraw ''a''] r1 = Returned r2 \<and>
     reply_interrupt 20 (demo_reply ''a'' ''k'') r2 = Returned (r2, None)"
proof -
  obtain r1 where r1: "reply_interrupt 3 (demo_reply ''a'' ''k'') demo_posted = Returned (r1, None)"
    by (simp add: demo_posted_def post_interrupt_def new_interrupt_router_def demo_question_def demo_reply_def
        interrupt_expired_def reply_interrupt_def chan_send_def new_chan_def Let_def)
  have len: "length (ir_answered demo_posted) = 0" by code_simp
  obtain r2 where r2: "run_router [Receive 0, Withdraw ''a''] r1 = Returned r2" by simp
  have "rp_key (demo_reply ''a'' ''k'') \<noteq> []" by (simp add: demo_reply_def)
  from retried_reply_is_noop [OF demo_posted_run r1 this r2] len r1 r2 show ?thesis
    by (auto simp: posts_def withdraws_def)
qed

theorem first_reply_decides_witness:
  "\<exists>r'. reply_interrupt 11 (demo_reply ''a'' ''k'') demo_posted = Returned (r', Some (ErrInterruptExpired ''a'')) \<and>
     expire_interrupt ''a'' 0 r' = Returned r'"
proof -
  obtain p where p: "map_of (ir_pending demo_posted) ''a'' = Some p" "\<not> mi_answered p" "mi_chan p = 0"
    "interrupt_expired (mi_in p) 11"
    by (simp add: demo_posted_def post_interrupt_def new_interrupt_router_def demo_question_def
        interrupt_expired_def)
  have i: "rp_id (demo_reply ''a'' ''k'') = ''a''" by (simp add: demo_reply_def)
  show ?thesis
    using first_reply_decides [OF demo_posted_run, of "demo_reply ''a'' ''k''" p 11] p unfolding i by auto
qed

theorem pending_list_exact_witness:
  "(demo_question ''b'' 0)\<lparr>in_created := 2\<rparr> \<in> set (pending_interrupts ''run'' demo_posted)"
proof -
  have "\<exists>p. map_of (ir_pending demo_posted) ''b'' = Some p \<and>
      mi_in p = (demo_question ''b'' 0)\<lparr>in_created := 2\<rparr> \<and> \<not> mi_answered p"
    by (simp add: demo_posted_def post_interrupt_def new_interrupt_router_def demo_question_def
        interrupt_expired_def Let_def)
  moreover have "in_id ((demo_question ''b'' 0)\<lparr>in_created := 2\<rparr>) = ''b''"
    "in_run ((demo_question ''b'' 0)\<lparr>in_created := 2\<rparr>) = ''run''" by (simp_all add: demo_question_def)
  ultimately show ?thesis using pending_list_exact [OF demo_posted_run, of "''run''"] by auto
qed

end
