(* ===== verification/Perm_Rules.thy ===== *)
theory Perm_Rules
  imports Approval Semver
begin

text \<open>
  Permission rules of an agent definition, \<open>agent/definition/rule.go\<close>, and the approval gate they build,
  \<open>agent/definition/bind/gate.go\<close>. Glob matching (the doublestar package) and the host name of a URL
  (\<open>net/url\<close>) are the arguments \<open>rule_libs\<close>.
\<close>

section \<open>Rules\<close>

record rule =
  ru_tool :: string
  ru_spec :: string
  ru_has_spec :: bool

record rule_libs =
  rl_valid_glob :: "string \<Rightarrow> bool"
  rl_glob :: "string \<Rightarrow> string \<Rightarrow> bool"
  rl_host :: "string \<Rightarrow> string option"

datatype rule_error =
    ErrUnclosed | ErrEmptySpecifier | ErrNoToolName | ErrToolName | ErrPrefixInside | ErrPathPattern
  | ErrDomain | ErrNotOneArgument | ErrArgumentName | ErrBareWildcard

definition rule_aliases :: "(string, string list) gomap" where
  "rule_aliases =
     [(''bash'', [''bash'', ''execute_code'']), (''read'', [''read_file'']), (''write'', [''write_file'']),
      (''edit'', [''edit_file'']), (''glob'', [''glob'']), (''grep'', [''grep'']), (''ls'', [''list_dir'']),
      (''webfetch'', [''fetch_url''])]"

datatype spec_kind = SpecCommand | SpecPath | SpecDomain | SpecArg

definition rule_kind :: "rule \<Rightarrow> spec_kind" where
  "rule_kind r =
     (let t = to_lower (ru_tool r) in
      if t \<in> set [''bash'', ''execute_code''] then SpecCommand
      else if t \<in> set [''read'', ''write'', ''edit'', ''glob'', ''grep'', ''ls'', ''read_file'', ''write_file'',
                        ''edit_file'', ''list_dir''] then SpecPath
      else if t \<in> set [''webfetch'', ''fetch_url''] then SpecDomain
      else SpecArg)"

definition name_char :: "char \<Rightarrow> bool" where
  "name_char c = (c = CHR ''_'' \<or> c = CHR ''.'' \<or> is_digit c \<or> is_alpha_or_dash c)"

text \<open>A star is only good as the last character.\<close>

fun tool_name_ok :: "string \<Rightarrow> bool" where
  "tool_name_ok [] = True"
| "tool_name_ok (c # cs) = ((name_char c \<or> c = CHR ''*'' \<and> cs = []) \<and> tool_name_ok cs)"

fun contains_text :: "string \<Rightarrow> string \<Rightarrow> bool" where
  "contains_text [] p = (p = [])"
| "contains_text (c # cs) p = (has_prefix (c # cs) p \<or> contains_text cs p)"

definition rule_arg_match :: "rule \<Rightarrow> rule_error + arg_match" where
  "rule_arg_match r =
     (case cut CHR '':'' (ru_spec r) of (f, p, ok) \<Rightarrow>
        let field = trim_space f; pattern = trim_space p in
        if \<not> ok \<or> field = [] \<or> pattern = [] then Inl ErrNotOneArgument
        else if \<not> list_all name_char field then Inl ErrArgumentName
        else
          let m = (case cut_suffix pattern ''/**'' of
              (root, True) \<Rightarrow> \<lparr>am_field = field, am_equals = [], am_prefix = [], am_path_prefix = root\<rparr>
            | (_, False) \<Rightarrow> (case cut_suffix pattern ''*'' of
                (pre, True) \<Rightarrow> \<lparr>am_field = field, am_equals = [], am_prefix = pre, am_path_prefix = []\<rparr>
              | (_, False) \<Rightarrow> \<lparr>am_field = field, am_equals = pattern, am_prefix = [], am_path_prefix = []\<rparr>))
          in if am_path_prefix m = [] \<and> am_prefix m = [] \<and> am_equals m = [] then Inl ErrBareWildcard else Inr m)"

definition check_specifier :: "rule_libs \<Rightarrow> rule \<Rightarrow> rule_error option" where
  "check_specifier lib r =
     (case rule_kind r of
        SpecCommand \<Rightarrow> if contains_text (trim_suffix (ru_spec r) '':*'') '':*'' then Some ErrPrefixInside else None
      | SpecPath \<Rightarrow> if \<not> rl_valid_glob lib (ru_spec r) then Some ErrPathPattern else None
      | SpecDomain \<Rightarrow>
          if \<not> has_prefix (ru_spec r) ''domain:'' \<or> trim_prefix (ru_spec r) ''domain:'' = [] then Some ErrDomain
          else None
      | SpecArg \<Rightarrow> (case rule_arg_match r of Inl e \<Rightarrow> Some e | Inr m \<Rightarrow> None))"

definition parse_rule :: "rule_libs \<Rightarrow> string \<Rightarrow> rule_error + rule" where
  "parse_rule lib s =
     (case cut CHR ''('' (trim_space s) of (name, spec, has) \<Rightarrow>
        let tool = trim_space name; text = trim_space (trim_suffix spec '')'');
            r = \<lparr>ru_tool = tool, ru_spec = (if has then text else []), ru_has_spec = has\<rparr> in
        if has \<and> \<not> has_suffix spec '')'' then Inl ErrUnclosed
        else if has \<and> text = [] then Inl ErrEmptySpecifier
        else if tool = [] then Inl ErrNoToolName
        else if \<not> tool_name_ok tool then Inl ErrToolName
        else if has then (case check_specifier lib r of Some e \<Rightarrow> Inl e | None \<Rightarrow> Inr r)
        else Inr r)"

definition rule_string :: "rule \<Rightarrow> string" where
  "rule_string r = (if \<not> ru_has_spec r then ru_tool r else ru_tool r @ ''('' @ ru_spec r @ '')'')"

section \<open>Matching\<close>

definition names_tool :: "rule \<Rightarrow> string \<Rightarrow> bool" where
  "names_tool r tool =
     (let pattern = to_lower (ru_tool r); tool = to_lower tool in
      case cut_suffix pattern ''*'' of
        (pre, True) \<Rightarrow> has_prefix tool pre
      | (_, False) \<Rightarrow>
          (case map_of rule_aliases pattern of
             Some as \<Rightarrow> tool \<in> set as
           | None \<Rightarrow> pattern = tool))"

definition text_arg :: "tool_args \<Rightarrow> string \<Rightarrow> string" where
  "text_arg args k = (case map_of args k of Some (JStr s) \<Rightarrow> s | _ \<Rightarrow> [])"

definition command_arg :: "tool_args \<Rightarrow> string" where
  "command_arg args =
     (case map_of args ''command'' of
        Some (JStr s) \<Rightarrow> trim_space s
      | _ \<Rightarrow> trim_space (text_arg args ''code''))"

definition one_spaced :: "string \<Rightarrow> string" where
  "one_spaced s = join_with '' '' (string_fields s)"

definition command_matches :: "string \<Rightarrow> string \<Rightarrow> bool" where
  "command_matches spec cmd =
     (let cmd = one_spaced cmd in
      if spec = ''*'' then cmd \<noteq> []
      else (case cut_suffix spec '':*'' of
          (pre, True) \<Rightarrow> let pre = one_spaced pre in cmd = pre \<or> has_prefix cmd (pre @ '' '')
        | (_, False) \<Rightarrow> cmd = one_spaced spec))"

definition shell_operators :: string where
  "shell_operators = '';&|<>'' @ [CHR 0x60, CHR 0x0A] @ ''$(){}''"

definition simple_command :: "string \<Rightarrow> bool" where
  "simple_command cmd = (cmd \<noteq> [] \<and> list_all (\<lambda>c. c \<notin> set shell_operators) cmd)"

definition split_commands :: "string \<Rightarrow> string list" where
  "split_commands cmd =
     filter (\<lambda>p. p \<noteq> []) (map trim_space (fields_func (\<lambda>c. c \<in> set shell_operators) cmd))"

definition path_rule_matches :: "rule_libs \<Rightarrow> rule \<Rightarrow> tool_args \<Rightarrow> bool" where
  "path_rule_matches lib r args =
     (let p = (if text_arg args ''path'' = [] then text_arg args ''pattern'' else text_arg args ''path'') in
      if p = [] then False
      else
        let p = path_clean (trim_prefix p ''./'') in
        if has_prefix p ''../'' \<or> p = ''..'' then False
        else rl_glob lib (path_clean (trim_prefix (ru_spec r) ''./'')) p)"

definition domain_rule_matches :: "rule_libs \<Rightarrow> rule \<Rightarrow> tool_args \<Rightarrow> bool" where
  "domain_rule_matches lib r args =
     (case rl_host lib (trim_space (text_arg args ''url'')) of
        None \<Rightarrow> False
      | Some h \<Rightarrow>
          if h = [] then False
          else
            let host = to_lower h; want = to_lower (trim_prefix (ru_spec r) ''domain:'')
            in host = want \<or> has_suffix host (''.'' @ want))"

definition rule_matches :: "rule_libs \<Rightarrow> rule \<Rightarrow> string \<Rightarrow> tool_args \<Rightarrow> bool \<Rightarrow> bool" where
  "rule_matches lib r tool args strict =
     (if \<not> names_tool r tool then False
      else if to_lower tool = ''execute_code'' \<and> text_arg args ''language'' \<noteq> ''shell'' \<and>
          (ru_has_spec r \<or> to_lower (ru_tool r) = ''bash'') then False
      else if \<not> ru_has_spec r then True
      else (case rule_kind r of
          SpecCommand \<Rightarrow>
            let cmd = command_arg args in
            if strict then simple_command cmd \<and> command_matches (ru_spec r) cmd
            else list_ex (command_matches (ru_spec r)) (split_commands cmd)
        | SpecPath \<Rightarrow> path_rule_matches lib r args
        | SpecDomain \<Rightarrow> domain_rule_matches lib r args
        | SpecArg \<Rightarrow> (case rule_arg_match r of Inl e \<Rightarrow> False | Inr m \<Rightarrow> arg_matches m args)))"

section \<open>The approval gate of a definition\<close>

record approval_spec =
  as_capabilities :: "(string, string) gomap"
  as_allow :: "string list"
  as_ask :: "string list"
  as_deny :: "string list"
  as_grant :: string
  as_deny_after :: int
  as_ramp_after :: int
  as_hide_denied :: bool

definition default_capabilities :: capability_policy where
  "default_capabilities =
     [(CapRead, GateAllow), (CapWrite, GateRequireApproval), (CapDestructive, GateRequireApproval),
      (CapUnknown, GateRequireApproval)]"

definition decision_outcome :: "string \<Rightarrow> gate_outcome" where
  "decision_outcome d =
     (if d = ''allow'' then GateAllow else if d = ''deny'' then GateDeny else GateRequireApproval)"

record approval_gate =
  ag_allow :: "rule list"
  ag_ask :: "rule list"
  ag_deny :: "rule list"
  ag_caps :: capability_policy
  ag_marked :: "(string, string) gomap"
  ag_free :: "string list"

fun parse_rules :: "rule_libs \<Rightarrow> string list \<Rightarrow> rule_error + rule list" where
  "parse_rules lib [] = Inr []"
| "parse_rules lib (s # ss) =
     bind_sum (parse_rule lib s) (\<lambda>r. bind_sum (parse_rules lib ss) (\<lambda>rs. Inr (r # rs)))"

definition new_approval_gate :: "rule_libs \<Rightarrow> approval_spec \<Rightarrow> rule_error + approval_gate" where
  "new_approval_gate lib spec =
     bind_sum (parse_rules lib (as_allow spec)) (\<lambda>al.
     bind_sum (parse_rules lib (as_ask spec)) (\<lambda>ak.
     bind_sum (parse_rules lib (as_deny spec)) (\<lambda>dn.
       Inr \<lparr>ag_allow = al, ag_ask = ak, ag_deny = dn,
         ag_caps = foldl (\<lambda>m (c, d). AList.update c (decision_outcome d) m) default_capabilities (as_capabilities spec),
         ag_marked = [], ag_free = []\<rparr>)))"

definition map_args :: "tool_args option \<Rightarrow> tool_args" where
  "map_args args = (case args of None \<Rightarrow> [] | Some a \<Rightarrow> a)"

definition approval_check :: "rule_libs \<Rightarrow> approval_gate \<Rightarrow> gate" where
  "approval_check lib g def args =
     (let name = td_name def; hit = (\<lambda>strict r. rule_matches lib r name (map_args args) strict) in
      case List.find (hit False) (ag_deny g) of
        Some r \<Rightarrow> deny (name @ '' is denied by the rule '' @ rule_string r)
      | None \<Rightarrow>
      (case List.find (hit False) (ag_ask g) of
        Some r \<Rightarrow> require_approval (name @ '' requires approval by the rule '' @ rule_string r)
      | None \<Rightarrow>
          if list_ex (hit True) (ag_allow g) then allow
          else if name \<in> set (ag_free g) then allow
          else (case map_of (ag_marked g) name of
              Some msg \<Rightarrow> require_approval msg
            | None \<Rightarrow>
                let class = effective (td_capability def) in
                case policy_outcome (ag_caps g) class of
                  GateAllow \<Rightarrow> allow
                | GateDeny \<Rightarrow> deny (name @ '' is '' @ class @ '' and denied by the approval policy'')
                | GateRequireApproval \<Rightarrow> require_approval (name @ '' is '' @ class @ '' and requires approval''))))"

text \<open>Taking the marker off a marked tool: the gate asks in its place.\<close>

definition unmark :: "string \<Rightarrow> marker list \<Rightarrow> approval_gate \<Rightarrow> approval_gate \<times> bool" where
  "unmark name markers g =
     (case markers of
        [] \<Rightarrow> (g, False)
      | m # ms \<Rightarrow>
          let msg = (if mk_message m = [] then name @ '' requires approval'' else mk_message m)
          in (g\<lparr>ag_marked := AList.update name msg (ag_marked g)\<rparr>, True))"

definition bound_gates :: "gate option list \<Rightarrow> gate option" where
  "bound_gates gs =
     (case List.map_filter (\<lambda>g. g) gs of
        [] \<Rightarrow> None
      | [g] \<Rightarrow> Some g
      | kept \<Rightarrow> Some (gates kept))"

definition bound_policy :: "approval_spec \<Rightarrow> approval_policy" where
  "bound_policy spec = \<lparr>po_risk_defaults = False, po_deny_after = as_deny_after spec,
     po_hide_denied = as_hide_denied spec, po_ramp_after = as_ramp_after spec\<rparr>"

end
