(* ===== verification/Perm_Properties.thy ===== *)
theory Perm_Properties
  imports Perm_Rules
begin

text \<open>
  What the permission rules guarantee (\<open>agent/definition/rule.go\<close>, \<open>agent/definition/bind/gate.go\<close>): command
  rules compare words, an allow rule never lets a compound command through, a rule that allows a call would
  also deny it, and rules survive printing.
\<close>

section \<open>Commands as words\<close>

lemma fields_no_space: "w \<in> set (string_fields s) \<Longrightarrow> w \<noteq> [] \<and> CHR '' '' \<notin> set w"
  using fields_func_parts [of w is_space s] by (auto simp: is_space_def)

lemma split_one_spaced: "string_fields s \<noteq> [] \<Longrightarrow> split_on CHR '' '' (one_spaced s) = string_fields s"
  unfolding one_spaced_def by (rule split_join) (use fields_no_space in auto)

lemma one_spaced_Nil: "one_spaced s = [] \<longleftrightarrow> string_fields s = []"
proof (cases "string_fields s")
  case (Cons w ws)
  then have "w \<noteq> []" using fields_no_space [of w s] by simp
  then show ?thesis using Cons by (cases ws) (simp_all add: one_spaced_def)
qed (simp add: one_spaced_def)

lemma one_spaced_eq: "one_spaced a = one_spaced b \<longleftrightarrow> string_fields a = string_fields b"
  by (metis one_spaced_Nil one_spaced_def split_one_spaced)

lemma one_spaced_first: "one_spaced s = c # cs \<Longrightarrow> c \<noteq> CHR '' ''"
proof -
  assume a: "one_spaced s = c # cs"
  then obtain w ws where w: "string_fields s = w # ws" by (cases "string_fields s") (auto simp: one_spaced_def)
  then have "w \<noteq> []" "CHR '' '' \<notin> set w" using fields_no_space [of w s] by simp_all
  then show ?thesis using a w by (cases w; cases ws) (auto simp: one_spaced_def)
qed

lemma join_append_space:
  "ws \<noteq> [] \<Longrightarrow> us \<noteq> [] \<Longrightarrow> join_with '' '' (us @ ws) = join_with '' '' us @ '' '' @ join_with '' '' ws"
proof (induction us rule: induct_list012)
  case (2 u)
  then show ?case by (cases ws) simp_all
qed simp_all

lemma one_spaced_prefix:
  "one_spaced c = one_spaced p \<or> has_prefix (one_spaced c) (one_spaced p @ '' '') \<longleftrightarrow>
   (if string_fields p = [] then string_fields c = [] else \<exists>ws. string_fields c = string_fields p @ ws)"
proof (cases "string_fields p = []")
  case True
  then have p: "one_spaced p = []" by (simp add: one_spaced_Nil)
  have "\<not> has_prefix (one_spaced c) '' ''"
    using one_spaced_first [of c] by (auto simp: has_prefix_iff)
  then show ?thesis using True p one_spaced_Nil [of c] by simp
next
  case False
  show ?thesis
  proof
    assume "one_spaced c = one_spaced p \<or> has_prefix (one_spaced c) (one_spaced p @ '' '')"
    then show "if string_fields p = [] then string_fields c = [] else \<exists>ws. string_fields c = string_fields p @ ws"
    proof
      assume "has_prefix (one_spaced c) (one_spaced p @ '' '')"
      then obtain r where r: "one_spaced c = one_spaced p @ CHR '' '' # r" by (auto simp: has_prefix_iff)
      then have "string_fields c \<noteq> []" using one_spaced_Nil [of c] by auto
      then have "string_fields c = split_on CHR '' '' (one_spaced p @ CHR '' '' # r)"
        using split_one_spaced [of c] r by simp
      then show ?thesis using split_one_spaced [OF False] False by (simp add: split_on_sep)
    qed (use one_spaced_eq in \<open>simp add: False\<close>)
  next
    assume "if string_fields p = [] then string_fields c = [] else \<exists>ws. string_fields c = string_fields p @ ws"
    then obtain ws where "string_fields c = string_fields p @ ws" using False by auto
    then show "one_spaced c = one_spaced p \<or> has_prefix (one_spaced c) (one_spaced p @ '' '')"
      using False join_append_space [of ws "string_fields p"]
      by (cases "ws = []") (simp_all add: one_spaced_def has_prefix_iff)
  qed
qed

lemma command_rules_by_words_text:
  "command_matches spec cmd \<longleftrightarrow>
     (if spec = ''*'' then string_fields cmd \<noteq> []
      else case cut_suffix spec '':*'' of
        (pre, True) \<Rightarrow> if string_fields pre = [] then string_fields cmd = []
                       else \<exists>ws. string_fields cmd = string_fields pre @ ws
      | (_, False) \<Rightarrow> string_fields cmd = string_fields spec)"
proof -
  obtain a b where "cut_suffix spec '':*'' = (a, b)" by (cases "cut_suffix spec '':*''")
  then show ?thesis
    using one_spaced_Nil [of cmd] one_spaced_eq [of cmd spec] one_spaced_prefix [of cmd a]
    by (cases b) (simp_all add: command_matches_def Let_def)
qed

text \<open>
  command rules compare words. A pattern that ends in \<open>:*\<close> matches the commands whose words start with
  the pattern's words (an empty pattern, only the empty command), a star matches every command, and any other
  pattern matches the commands of exactly its words: spacing never matters, and no word matches in part.
\<close>

theorem command_rules_by_words:
  "command_matches spec cmd \<longleftrightarrow>
     (if spec = ''*'' then string_fields cmd \<noteq> []
      else case cut_suffix spec '':*'' of
        (pre, True) \<Rightarrow> if string_fields pre = [] then string_fields cmd = []
                       else \<exists>ws. string_fields cmd = string_fields pre @ ws
      | (_, False) \<Rightarrow> string_fields cmd = string_fields spec)"
  by (rule command_rules_by_words_text)

section \<open>What allow rules let through\<close>

lemma fields_func_single:
  assumes "s \<noteq> []" "list_all (\<lambda>c. \<not> p c) s"
  shows "fields_func p s = [s]"
proof -
  obtain c cs where s: "s = c # cs" "\<not> p c" "\<forall>x\<in>set cs. \<not> p x"
    using assms by (cases s) (auto simp: list_all_iff)
  then have t: "takeWhile (\<lambda>x. \<not> p x) cs = cs" and d: "dropWhile (\<lambda>x. \<not> p x) cs = []" by simp_all
  have e: "fields_func p [] = []" by (simp add: fields_func.simps)
  show ?thesis unfolding s(1) fields_func.simps [of p "c # cs"] by (simp add: s(2) t d e)
qed

lemma trim_space_twice [simp]: "trim_space (trim_space s) = trim_space s"
proof -
  have e: "dropWhile is_space t = t" if "t = [] \<or> \<not> is_space (hd t)" for t
    using that by (cases t) auto
  define a where "a = dropWhile is_space s"
  define b where "b = dropWhile is_space (rev a)"
  have a: "a = [] \<or> \<not> is_space (hd a)" unfolding a_def using hd_dropWhile by blast
  have b: "b = [] \<or> \<not> is_space (hd b)" unfolding b_def using hd_dropWhile by blast
  have "\<exists>w. rev a = w @ b" unfolding b_def by (metis takeWhile_dropWhile_id)
  then obtain w where "a = rev b @ rev w" by (metis rev_append rev_rev_ident)
  then have "rev b = [] \<or> \<not> is_space (hd (rev b))" using a by (cases "rev b") auto
  then show ?thesis
    unfolding trim_space_def a_def [symmetric] b_def [symmetric] using e b by simp
qed

lemma command_arg_trimmed [simp]: "trim_space (command_arg args) = command_arg args"
  by (simp add: command_arg_def split: option.split json.split)

lemma split_simple_command:
  "simple_command cmd \<Longrightarrow> trim_space cmd = cmd \<Longrightarrow> split_commands cmd = [cmd]"
  using fields_func_single [of cmd "\<lambda>c. c \<in> set shell_operators"]
  by (simp add: simple_command_def split_commands_def)

text \<open>
  what a rule allows, the same rule would deny: a rule that matches a call as an allow rule also matches it
  as an ask or a deny rule, so repeating it there always takes the permission back.
\<close>

theorem allow_match_is_deny_match:
  assumes "rule_matches lib r tool args True"
  shows "rule_matches lib r tool args False"
  using assms split_simple_command [of "command_arg args"]
  by (auto simp: rule_matches_def Let_def split: if_splits spec_kind.splits)

lemma find_None: "List.find P xs = None \<Longrightarrow> x \<in> set xs \<Longrightarrow> \<not> P x"
  by (auto simp: find_None_iff)

text \<open>
  C40: a call runs without asking only when no deny and no ask rule matches it, and an allow rule does, or the
  tool only delegates, or it carried no marker and its capability class is allowed. A command an allow rule
  lets through is a single one, free of shell operators.
\<close>

theorem allowed_calls_are_cleared:
  assumes "gd_outcome (approval_check lib g def args) = GateAllow"
  shows "(\<forall>r \<in> set (ag_deny g) \<union> set (ag_ask g). \<not> rule_matches lib r (td_name def) (map_args args) False) \<and>
    ((\<exists>r \<in> set (ag_allow g). rule_matches lib r (td_name def) (map_args args) True \<and>
        (ru_has_spec r \<and> rule_kind r = SpecCommand \<longrightarrow>
           (\<forall>c \<in> set (command_arg (map_args args)). c \<notin> set shell_operators) \<and>
           command_matches (ru_spec r) (command_arg (map_args args)))) \<or>
     td_name def \<in> set (ag_free g) \<or>
     map_of (ag_marked g) (td_name def) = None \<and>
       policy_outcome (ag_caps g) (effective (td_capability def)) = GateAllow)"
proof -
  let ?m = "\<lambda>strict r. rule_matches lib r (td_name def) (map_args args) strict"
  have d: "List.find (?m False) (ag_deny g) = None"
    using assms by (auto simp: approval_check_def Let_def deny_def split: option.splits)
  have k: "List.find (?m False) (ag_ask g) = None"
    using assms d by (auto simp: approval_check_def Let_def require_approval_def split: option.splits)
  have rest: "list_ex (?m True) (ag_allow g) \<or> td_name def \<in> set (ag_free g) \<or>
     map_of (ag_marked g) (td_name def) = None \<and> policy_outcome (ag_caps g) (effective (td_capability def)) = GateAllow"
    using assms d k
    by (auto simp: approval_check_def Let_def require_approval_def deny_def split: if_splits option.splits gate_outcome.splits)
  have cmd: "(\<forall>c \<in> set (command_arg a). c \<notin> set shell_operators) \<and> command_matches (ru_spec r) (command_arg a)"
    if "rule_matches lib r t a True" "ru_has_spec r" "rule_kind r = SpecCommand" for r t a
    using that by (auto simp: rule_matches_def Let_def simple_command_def list_all_iff split: if_splits)
  show ?thesis
  proof (intro conjI ballI)
    show "\<not> ?m False r" if "r \<in> set (ag_deny g) \<union> set (ag_ask g)" for r
      using that find_None [OF d] find_None [OF k] by blast
    show "(\<exists>r \<in> set (ag_allow g). ?m True r \<and> (ru_has_spec r \<and> rule_kind r = SpecCommand \<longrightarrow>
           (\<forall>c \<in> set (command_arg (map_args args)). c \<notin> set shell_operators) \<and>
           command_matches (ru_spec r) (command_arg (map_args args)))) \<or>
     td_name def \<in> set (ag_free g) \<or>
     map_of (ag_marked g) (td_name def) = None \<and>
       policy_outcome (ag_caps g) (effective (td_capability def)) = GateAllow"
      using rest cmd by (auto simp: list_ex_iff)
  qed
qed

section \<open>Rules and their text\<close>

lemma tool_chars: "tool_name_ok t \<Longrightarrow> c \<in> set t \<Longrightarrow> \<not> is_space c \<and> c \<noteq> CHR ''(''"
proof (induction t)
  case (Cons d ds)
  have n: "\<not> is_space d \<and> d \<noteq> CHR ''(''" if "name_char d \<or> d = CHR ''*''"
    using that by (auto simp: name_char_def is_digit_def is_alpha_or_dash_def is_space_def less_eq_char_def)
  show ?case using Cons n by auto
qed simp

lemma trim_space_ends:
  "s \<noteq> [] \<Longrightarrow> \<not> is_space (hd s) \<Longrightarrow> \<not> is_space (last s) \<Longrightarrow> trim_space s = s"
proof -
  have e: "dropWhile is_space t = t" if "t \<noteq> []" "\<not> is_space (hd t)" for t using that by (cases t) auto
  assume "s \<noteq> []" "\<not> is_space (hd s)" "\<not> is_space (last s)"
  then show ?thesis using e [of s] e [of "rev s"] by (simp add: trim_space_def hd_rev)
qed

lemma trim_suffix_append [simp]: "trim_suffix (s @ p) p = s"
  by (simp add: trim_suffix_def has_suffix_def)

text \<open>
  A rule survives printing: whatever text a rule was parsed from, the text of the rule parses to the same
  rule.
\<close>

theorem rule_print_parse:
  assumes "parse_rule lib s = Inr r"
  shows "parse_rule lib (rule_string r) = Inr r"
proof -
  obtain name spec has where c: "cut CHR ''('' (trim_space s) = (name, spec, has)"
    by (cases "cut CHR ''('' (trim_space s)")
  have tool: "ru_tool r \<noteq> []" "tool_name_ok (ru_tool r)" and h: "ru_has_spec r = has"
    using assms by (auto simp: parse_rule_def c Let_def split: if_splits option.splits)
  have first: "\<not> is_space (hd (ru_tool r))" "\<not> is_space (last (ru_tool r))" "CHR ''('' \<notin> set (ru_tool r)"
    using tool_chars [OF tool(2)] tool(1) by auto
  have trim: "trim_space (ru_tool r) = ru_tool r" by (rule trim_space_ends [OF tool(1) first(1,2)])
  show ?thesis
  proof (cases has)
    case False
    then have "r = \<lparr>ru_tool = ru_tool r, ru_spec = [], ru_has_spec = False\<rparr>"
      using assms by (auto simp: parse_rule_def c Let_def split: if_splits)
    then show ?thesis
      using tool first(3) trim h False by (simp add: parse_rule_def rule_string_def Let_def)
  next
    case True
    have sp: "ru_spec r \<noteq> []" "trim_space (ru_spec r) = ru_spec r" "check_specifier lib r = None"
      using assms True by (auto simp: parse_rule_def c Let_def split: if_splits option.splits)
    have s: "is_space CHR '')'' = False" by (simp add: is_space_def)
    have t: "trim_space (ru_tool r @ CHR ''('' # ru_spec r @ '')'') = ru_tool r @ CHR ''('' # ru_spec r @ '')''"
      using tool(1) first(1) s by (intro trim_space_ends) auto
    have suf: "has_suffix (ru_spec r @ '')'') '')''" by (auto simp: has_suffix_iff)
    obtain tl st where r: "r = \<lparr>ru_tool = tl, ru_spec = st, ru_has_spec = True\<rparr>" using h True by (cases r) simp
    show ?thesis
      using tool first(3) trim sp suf t trim_suffix_append [of st "'')''"]
      unfolding r by (simp add: parse_rule_def rule_string_def)
  qed
qed

section \<open>Examples\<close>

definition demo_libs :: rule_libs where
  "demo_libs = \<lparr>rl_valid_glob = (\<lambda>s. True), rl_glob = (\<lambda>a b. a = b), rl_host = (\<lambda>s. None)\<rparr>"

definition demo_rule :: rule where
  "demo_rule = \<lparr>ru_tool = ''Bash'', ru_spec = ''git status:*'', ru_has_spec = True\<rparr>"

definition demo_args :: "string \<Rightarrow> tool_args" where
  "demo_args c = [(''command'', JStr c)]"

lemma demo_rule_parsed: "parse_rule demo_libs '' Bash( git status:* )'' = Inr demo_rule"
  by code_simp

theorem rule_print_parse_witness: "parse_rule demo_libs ''Bash(git status:*)'' = Inr demo_rule"
proof -
  have "rule_string demo_rule = ''Bash(git status:*)''" by code_simp
  then show ?thesis using rule_print_parse [OF demo_rule_parsed] by simp
qed

theorem allow_match_is_deny_match_witness:
  "rule_matches demo_libs demo_rule ''bash'' (demo_args ''git  status -s'') False"
proof -
  have "rule_matches demo_libs demo_rule ''bash'' (demo_args ''git  status -s'') True" by code_simp
  then show ?thesis by (rule allow_match_is_deny_match)
qed

definition demo_gate :: approval_gate where
  "demo_gate = \<lparr>ag_allow = [demo_rule], ag_ask = [], ag_deny = [], ag_caps = default_capabilities,
     ag_marked = [], ag_free = []\<rparr>"

definition demo_bash :: tool_def where
  "demo_bash = \<lparr>td_name = ''bash'', td_description = [], td_capability = CapDestructive\<rparr>"

theorem allowed_calls_are_cleared_witness:
  "rule_matches demo_libs demo_rule ''bash'' (demo_args ''git status -s'') True \<and>
   gd_outcome (approval_check demo_libs demo_gate demo_bash (Some (demo_args ''git status; rm -rf x''))) \<noteq> GateAllow"
proof -
  have a: "gd_outcome (approval_check demo_libs demo_gate demo_bash (Some (demo_args ''git status -s''))) = GateAllow"
    by code_simp
  have no: "\<not> rule_matches demo_libs demo_rule ''bash'' (demo_args ''git status; rm -rf x'') True"
    "policy_outcome default_capabilities (effective CapDestructive) \<noteq> GateAllow" by code_simp+
  show ?thesis
    using allowed_calls_are_cleared [OF a]
      allowed_calls_are_cleared [of demo_libs demo_gate demo_bash "Some (demo_args ''git status; rm -rf x'')"] no
    by (auto simp: demo_gate_def demo_bash_def map_args_def)
qed

section \<open>Rules that match nothing\<close>

lemma fields_func_Cons:
  "dropWhile p s = c # cs \<Longrightarrow> fields_func p s =
   (c # takeWhile (\<lambda>x. \<not> p x) cs) # fields_func p (dropWhile (\<lambda>x. \<not> p x) cs)"
  by (simp add: fields_func.simps [of p s])

lemma fields_func_Nil: "dropWhile p s = [] \<Longrightarrow> fields_func p s = []"
  by (subst fields_func.simps) (simp only: list.case)

lemma fields_chars:
  "(\<Union>w \<in> set (fields_func p s). set w) = {c \<in> set s. \<not> p c}"
proof (induction p s rule: fields_func.induct)
  case (1 p s)
  show ?case
  proof (cases "dropWhile p s")
    case Nil
    then have "\<forall>x \<in> set s. p x" by simp
    then show ?thesis using fields_func_Nil [OF Nil] by auto
  next
    case (Cons c cs)
    let ?t = "takeWhile (\<lambda>x. \<not> p x) cs" and ?d = "dropWhile (\<lambda>x. \<not> p x) cs"
    have "\<not> p c" using Cons by (metis hd_dropWhile list.distinct(1) list.sel(1))
    moreover have "s = takeWhile p s @ c # ?t @ ?d" using Cons by (metis takeWhile_dropWhile_id)
    then have "set s = set (takeWhile p s) \<union> {c} \<union> set ?t \<union> set ?d"
      by (metis set_append list.simps(15) Un_insert_right Un_insert_left sup_bot_right sup_assoc)
    moreover have "\<forall>x \<in> set (takeWhile p s). p x" "\<forall>x \<in> set ?t. \<not> p x" by (auto dest: set_takeWhileD)
    ultimately have "{x \<in> set s. \<not> p x} = insert c (set ?t \<union> {x \<in> set ?d. \<not> p x})" by auto
    then show ?thesis using 1 [OF Cons] fields_func_Cons [OF Cons] by simp
  qed
qed

lemma part_chars:
  assumes "part \<in> set (split_commands cmd)"
  shows "part \<noteq> []" "trim_space part = part" "c \<in> set part \<Longrightarrow> c \<notin> set shell_operators"
proof -
  obtain w where w: "w \<in> set (fields_func (\<lambda>c. c \<in> set shell_operators) cmd)" "part = trim_space w"
    using assms by (auto simp: split_commands_def)
  show "part \<noteq> []" "trim_space part = part" using assms w(2) by (auto simp: split_commands_def)
  show "c \<in> set part \<Longrightarrow> c \<notin> set shell_operators"
    using fields_func_parts [OF w(1)] set_trim_space [of w] w(2) by blast
qed

lemma fields_nonempty: "trim_space s = s \<Longrightarrow> s \<noteq> [] \<Longrightarrow> string_fields s \<noteq> []"
proof
  assume "trim_space s = s" "s \<noteq> []" "string_fields s = []"
  then have e: "dropWhile is_space s = []" using fields_func_Cons [of is_space s] by (cases "dropWhile is_space s") simp_all
  have "trim_space s = []" unfolding trim_space_def e by simp
  then show False using \<open>trim_space s = s\<close> \<open>s \<noteq> []\<close> by simp
qed

text \<open>An empty command prefix is accepted, but matches no command, not even as a deny rule.\<close>

definition empty_prefix_rule :: rule where
  "empty_prefix_rule = \<lparr>ru_tool = ''Bash'', ru_spec = '':*'', ru_has_spec = True\<rparr>"

lemma empty_prefix_rule_is_inert:
  "parse_rule demo_libs ''Bash(:*)'' = Inr empty_prefix_rule \<and>
   \<not> rule_matches lib empty_prefix_rule tool args False"
proof
  show "parse_rule demo_libs ''Bash(:*)'' = Inr empty_prefix_rule" by code_simp
  have k: "rule_kind empty_prefix_rule = SpecCommand" "ru_has_spec empty_prefix_rule"
    "ru_spec empty_prefix_rule = '':*''" "cut_suffix '':*'' '':*'' = ([], True)" by code_simp+
  have "\<not> command_matches '':*'' part" if "part \<in> set (split_commands cmd)" for part cmd
    using fields_nonempty [OF part_chars(2,1) [OF that]] k(4)
    by (simp add: command_rules_by_words_text fields_func.simps [of is_space "[]"])
  then show "\<not> rule_matches lib empty_prefix_rule tool args False"
    using k by (auto simp: rule_matches_def list_ex_iff)
qed

text \<open>A rule that spells out a compound command is accepted, but no part of a command matches it.\<close>

lemma compound_rule_is_inert:
  assumes "c \<in> set spec" "c \<in> set shell_operators" "\<not> is_space c"
    and "cut_suffix spec '':*'' = (spec, False)" "part \<in> set (split_commands cmd)"
  shows "\<not> command_matches spec part"
proof
  assume m: "command_matches spec part"
  have "spec \<noteq> ''*''" using assms(1,2) by (auto simp: shell_operators_def)
  then have "string_fields part = string_fields spec"
    using m assms(4) by (simp add: command_rules_by_words_text)
  then have "c \<in> set part"
    using fields_chars [of is_space part] fields_chars [of is_space spec] assms(1,3) by auto
  then show False using part_chars(3) [OF assms(5)] assms(2) by blast
qed

end
