(* ===== verification/Route_State.thy ===== *)
theory Route_State
  imports Conversation Pricing
begin

text \<open>
  A session's routing state, \<open>agent/provider/router/state.go\<close>: route locks, the state a request leaves, its
  restoration, and the policy \<open>Affinity\<close>. Usage deltas and their merging are those of
  \<open>agent/types/delta.go\<close>. Of a candidate the model keeps what routing reads: its context window, its vendor,
  its price and the estimate of the request's tokens.
\<close>

type_synonym profile_id = string

section \<open>Usage\<close>

record usage_delta =
  ud_accounting :: string
  ud_cumulative :: bool
  ud_prompt :: int
  ud_cached :: int
  ud_cache_write :: int
  ud_completion :: int
  ud_total :: int
  ud_latency :: int
  ud_prompt_mod :: "(modality, int) gomap"
  ud_completion_mod :: "(modality, int) gomap"
  ud_requests :: int
  ud_model :: string
  ud_response :: string
  ud_finish :: "string list"
  ud_cache_hit :: bool

definition empty_usage :: usage_delta where
  "empty_usage = \<lparr>ud_accounting = [], ud_cumulative = False, ud_prompt = 0, ud_cached = 0, ud_cache_write = 0,
     ud_completion = 0, ud_total = 0, ud_latency = 0, ud_prompt_mod = [], ud_completion_mod = [], ud_requests = 0,
     ud_model = [], ud_response = [], ud_finish = [], ud_cache_hit = False\<rparr>"

definition merge_count :: "bool \<Rightarrow> int \<Rightarrow> int \<Rightarrow> int" where
  "merge_count cumulative a b = (if cumulative then max a b else wrap64 (a + b))"

definition merge_modalities ::
  "(modality, int) gomap \<Rightarrow> (modality, int) gomap \<Rightarrow> bool \<Rightarrow> (modality, int) gomap" where
  "merge_modalities a b cumulative =
     (if b = [] then a
      else foldl (\<lambda>out (m, n). AList.update m (merge_count cumulative (count_of out m) n) out) a b)"

definition usage_merge :: "usage_delta \<Rightarrow> usage_delta \<Rightarrow> usage_delta" where
  "usage_merge u v =
     (let c = ud_cumulative v; p = merge_count c (ud_prompt u) (ud_prompt v);
          k = merge_count c (ud_completion u) (ud_completion v) in
      \<lparr>ud_accounting = (if ud_accounting v \<noteq> [] then ud_accounting v else ud_accounting u),
       ud_cumulative = ud_cumulative u,
       ud_prompt = p,
       ud_cached = merge_count c (ud_cached u) (ud_cached v),
       ud_cache_write = merge_count c (ud_cache_write u) (ud_cache_write v),
       ud_completion = k,
       ud_total = wrap64 (p + k),
       ud_latency = (if ud_latency v \<noteq> 0 then ud_latency v else ud_latency u),
       ud_prompt_mod = merge_modalities (ud_prompt_mod u) (ud_prompt_mod v) c,
       ud_completion_mod = merge_modalities (ud_completion_mod u) (ud_completion_mod v) c,
       ud_requests = max (ud_requests u) (ud_requests v),
       ud_model = (if ud_model v \<noteq> [] then ud_model v else ud_model u),
       ud_response = (if ud_response v \<noteq> [] then ud_response v else ud_response u),
       ud_finish = (if ud_finish v \<noteq> [] then ud_finish v else ud_finish u),
       ud_cache_hit = (ud_cache_hit v \<or> ud_cache_hit u)\<rparr>)"

section \<open>Locks\<close>

definition "LockToolLoop = ''tool_loop''"
definition "LockSignedReasoning = ''signed_reasoning''"

definition has_hard_lock :: "string list \<Rightarrow> bool" where
  "has_hard_lock locks = (LockSignedReasoning \<in> set locks)"

definition tool_loop_active :: "message list \<Rightarrow> bool" where
  "tool_loop_active ms =
     (if ms = [] then False
      else (case last ms of
          UserMessage ps \<Rightarrow> list_ex is_tool_result ps
        | SystemMessage ps \<Rightarrow> list_ex is_tool_result ps
        | AssistantMessage ps \<Rightarrow> False))"

definition is_signed :: "part \<Rightarrow> bool" where
  "is_signed p = (case p of ThinkingPart text sig \<Rightarrow> sig \<noteq> [] | _ \<Rightarrow> False)"

text \<open>The loop from the last message back to the latest assistant turn.\<close>

fun signed_turn :: "message list \<Rightarrow> bool" where
  "signed_turn [] = False"
| "signed_turn (AssistantMessage ps # ms) = list_ex is_signed ps"
| "signed_turn (m # ms) = signed_turn ms"

definition signed_reasoning :: "message list \<Rightarrow> bool" where
  "signed_reasoning ms = signed_turn (rev ms)"

text \<open>\<open>reported\<close> are the locks the previous provider reports (\<open>RouteLocks\<close>), if it reports any.\<close>

definition detect_locks :: "message list \<Rightarrow> string list \<Rightarrow> string list" where
  "detect_locks ms reported =
     foldl (\<lambda>ls l. if l \<in> set ls then ls else ls @ [l])
       (if tool_loop_active ms then LockToolLoop # (if signed_reasoning ms then [LockSignedReasoning] else []) else [])
       reported"

section \<open>The state\<close>

record route_state =
  rs_profile :: profile_id
  rs_pin :: string
  rs_last :: profile_id
  rs_last_failed :: bool
  rs_revision :: string
  rs_switches :: int
  rs_turns :: int
  rs_streak :: int
  rs_warm :: int
  rs_warm_at :: time
  rs_messages :: int
  rs_locks :: "string list"

definition new_route_state :: "string \<Rightarrow> route_state" where
  "new_route_state revision = \<lparr>rs_profile = [], rs_pin = [], rs_last = [], rs_last_failed = False, rs_revision = revision,
     rs_switches = 0, rs_turns = 0, rs_streak = 0, rs_warm = 0, rs_warm_at = 0, rs_messages = 0, rs_locks = []\<rparr>"

text \<open>What a policy sees: a prefix that expired, or was written for a longer conversation, is cold.\<close>

definition effective_state :: "int \<Rightarrow> time \<Rightarrow> route_state \<Rightarrow> int \<Rightarrow> route_state" where
  "effective_state ttl now st messages =
     (if 0 < rs_warm st \<and> (rs_warm_at st = 0 \<or> ttl < now - rs_warm_at st \<or> messages < rs_messages st)
      then st\<lparr>rs_warm := 0\<rparr> else st)"

definition switch_to :: "profile_id \<Rightarrow> route_state \<Rightarrow> route_state" where
  "switch_to i st =
     (if i = [] \<or> i = rs_profile st then st
      else st\<lparr>rs_switches := (if rs_profile st \<noteq> [] then wrap64 (rs_switches st + 1) else rs_switches st),
              rs_profile := i, rs_streak := 0, rs_turns := 0, rs_warm := 0, rs_warm_at := 0, rs_messages := 0\<rparr>)"

section \<open>Policies\<close>

record candidate =
  cd_id :: profile_id
  cd_window :: int
  cd_provider :: string
  cd_pricing :: pricing
  cd_estimated :: int

record route_context =
  rx_candidates :: "candidate list"
  rx_estimated :: int
  rx_pinned :: string
  rx_locks :: "string list"

record route_decision =
  rd_order :: "profile_id list"
  rd_reason :: string
  rd_profile :: profile_id
  rd_probe :: profile_id

datatype route_error =
    ErrSessionBusy | ErrUnknownProfile profile_id | ErrOutsideOrder profile_id | ErrNoEligibleProfile "string list"
  | ErrRouterConfig string | ErrPolicy string

definition switch_cost :: "route_state \<Rightarrow> candidate \<Rightarrow> candidate \<Rightarrow> cost" where
  "switch_cost st a b =
     (if rs_warm st \<le> 0 \<or> cd_id a = cd_id b then 0
      else
        let stay = pricing_cost (cd_pricing a) (no_usage\<lparr>tu_cached := rs_warm st\<rparr>);
            move = pricing_cost (cd_pricing b) (no_usage\<lparr>tu_cache_write := rs_warm st\<rparr>)
        in if move \<le> stay then 0 else wrap64 (move - stay))"

definition rotate_order :: "candidate list \<Rightarrow> nat \<Rightarrow> profile_id list" where
  "rotate_order c start = map (\<lambda>i. cd_id (c ! ((start + i) mod length c))) [0..<length c]"

record affinity =
  af_threshold :: int
  af_reprobe :: int
  af_max_cost :: cost

definition fits_window :: "route_context \<Rightarrow> candidate \<Rightarrow> bool" where
  "fits_window rx x =
     (let n = (if cd_estimated x = 0 then rx_estimated rx else cd_estimated x)
      in cd_window x = 0 \<or> n \<le> cd_window x)"

text \<open>The first fitting index from \<open>start\<close> on, cycling, without the index \<open>skip\<close>.\<close>

definition first_fit :: "route_context \<Rightarrow> nat \<Rightarrow> nat option \<Rightarrow> nat option" where
  "first_fit rx start skip =
     (let c = rx_candidates rx in
      List.find (\<lambda>i. Some i \<noteq> skip \<and> fits_window rx (c ! i)) (map (\<lambda>k. (start + k) mod length c) [0..<length c]))"

fun index_where :: "('a \<Rightarrow> bool) \<Rightarrow> 'a list \<Rightarrow> nat option" where
  "index_where p [] = None"
| "index_where p (x # xs) = (if p x then Some 0 else map_option Suc (index_where p xs))"

definition or_index :: "nat option \<Rightarrow> nat \<Rightarrow> nat" where
  "or_index m d = (case m of Some i \<Rightarrow> i | None \<Rightarrow> d)"

definition stay_on :: "candidate list \<Rightarrow> nat \<Rightarrow> route_decision" where
  "stay_on c i = \<lparr>rd_order = rotate_order c i, rd_reason = [], rd_profile = [], rd_probe = []\<rparr>"

definition move_to :: "candidate list \<Rightarrow> nat \<Rightarrow> string \<Rightarrow> route_decision" where
  "move_to c i reason = \<lparr>rd_order = rotate_order c i, rd_reason = reason, rd_profile = cd_id (c ! i), rd_probe = []\<rparr>"

definition probe_order :: "candidate list \<Rightarrow> nat \<Rightarrow> nat \<Rightarrow> route_decision" where
  "probe_order c i pos =
     \<lparr>rd_order = cd_id (c ! i) # cd_id (c ! pos) #
        map cd_id (filter (\<lambda>x. cd_id x \<noteq> cd_id (c ! i) \<and> cd_id x \<noteq> cd_id (c ! pos)) c),
      rd_reason = ''reprobe'', rd_profile = [], rd_probe = cd_id (c ! i)\<rparr>"

definition reprobe_due :: "affinity \<Rightarrow> route_context \<Rightarrow> route_state \<Rightarrow> nat \<Rightarrow> bool" where
  "reprobe_due a rx st pos =
     (0 < af_reprobe a \<and> 0 < pos \<and> af_reprobe a \<le> rs_turns st \<and> rx_locks rx = [])"

definition affinity_select :: "affinity \<Rightarrow> route_context \<Rightarrow> route_state \<Rightarrow> route_error + route_decision" where
  "affinity_select a rx st =
     (let c = rx_candidates rx; n = length c in
      if c = [] then Inl (ErrNoEligibleProfile [])
      else
        (case index_where (\<lambda>x. cd_id x = rs_profile st) c of
          None \<Rightarrow>
            let i = or_index (first_fit rx 0 None) 0
            in Inr (if rs_profile st \<noteq> [] then stay_on c i else move_to c i [])
        | Some pos \<Rightarrow>
            if max 1 (af_threshold a) \<le> rs_streak st \<and> 1 < n then
              Inr (move_to c (or_index (first_fit rx (pos + 1) (Some pos)) ((pos + 1) mod n)) ''sustained_failure'')
            else
              (case (if fits_window rx (c ! pos) then None else first_fit rx (pos + 1) (Some pos)) of
                Some i \<Rightarrow> Inr (move_to c i ''context_window'')
              | None \<Rightarrow>
                  (case (if reprobe_due a rx st pos then first_fit rx 0 None else None) of
                    Some i \<Rightarrow>
                      if i < pos \<and> switch_cost st (c ! pos) (c ! i) \<le> af_max_cost a then Inr (probe_order c i pos)
                      else Inr (stay_on c pos)
                  | None \<Rightarrow> Inr (stay_on c pos)))))"

text \<open>\<open>Sticky\<close>, the default policy of \<open>agent/provider/router/router.go\<close>.\<close>

definition sticky_order :: "candidate list \<Rightarrow> profile_id \<Rightarrow> bool \<Rightarrow> profile_id list" where
  "sticky_order c previous failed =
     rotate_order c
       (case index_where (\<lambda>x. cd_id x = previous) c of
          None \<Rightarrow> 0 | Some i \<Rightarrow> if failed then i + 1 else i)"

end
