(* ===== verification/Router.thy ===== *)
theory Router
  imports Route_State
begin

text \<open>
  The model router, \<open>agent/provider/router/router.go\<close>: the configuration, the plan of a request (which profiles
  to try in which order), the relay that tries them and fails over, and the session around it. Of a provider
  the model keeps what one attempt sends: an error at once or a stream of deltas. What \<open>eligible\<close> finds for
  each profile (missing capabilities, options, dials) is an argument, and so are the policies, the tests
  \<open>IsContextLength\<close>, \<open>IsContentFilter\<close> and \<open>FailoverOn\<close> of an error, and the clock.
\<close>

section \<open>Configuration\<close>

record router_config =
  cf_profiles :: "profile_id list"
  cf_groups :: "(string, profile_id list) gomap"
  cf_default :: string
  cf_revision :: string
  cf_ttl :: int

fun profiles_ok :: "profile_id list \<Rightarrow> profile_id list \<Rightarrow> route_error option" where
  "profiles_ok [] seen = None"
| "profiles_ok (i # is) seen = (if i = [] \<or> i \<in> set seen then Some (ErrRouterConfig i) else profiles_ok is (i # seen))"

fun members_ok :: "profile_id list \<Rightarrow> profile_id list \<Rightarrow> profile_id list \<Rightarrow> route_error option" where
  "members_ok names [] seen = None"
| "members_ok names (i # is) seen =
     (if i \<notin> set names \<or> i \<in> set seen then Some (ErrRouterConfig i) else members_ok names is (i # seen))"

fun groups_ok :: "profile_id list \<Rightarrow> (string \<times> profile_id list) list \<Rightarrow> route_error option" where
  "groups_ok names [] = None"
| "groups_ok names ((g, ms) # gs) =
     (if g = [] \<or> g \<in> set names \<and> (length ms \<noteq> 1 \<or> ms ! 0 \<noteq> g) then Some (ErrRouterConfig g)
      else if ms = [] then Some (ErrRouterConfig g)
      else (case members_ok names ms [] of Some e \<Rightarrow> Some e | None \<Rightarrow> groups_ok names gs))"

definition new_router :: "router_config \<Rightarrow> route_error + router_config" where
  "new_router cf =
     (if cf_profiles cf = [] then Inl (ErrRouterConfig [])
      else (case profiles_ok (cf_profiles cf) [] of Some e \<Rightarrow> Inl e | None \<Rightarrow>
           (case groups_ok (cf_profiles cf) (cf_groups cf) of Some e \<Rightarrow> Inl e | None \<Rightarrow>
              if cf_default cf \<noteq> [] \<and> map_of (cf_groups cf) (cf_default cf) = None
              then Inl (ErrRouterConfig (cf_default cf))
              else Inr (if cf_ttl cf \<le> 0 then cf\<lparr>cf_ttl := 300000000000\<rparr> else cf))))"

definition has_profile :: "router_config \<Rightarrow> profile_id \<Rightarrow> bool" where
  "has_profile cf i = (i \<in> set (cf_profiles cf))"

definition has_target :: "router_config \<Rightarrow> string \<Rightarrow> bool" where
  "has_target cf n = (has_profile cf n \<or> map_of (cf_groups cf) n \<noteq> None)"

text \<open>The profiles a request may use, \<open>None\<close> for all of them, and the name of the group.\<close>

definition group_members :: "router_config \<Rightarrow> string \<Rightarrow> profile_id list option \<times> string" where
  "group_members cf pin =
     (case map_of (cf_groups cf) pin of
        Some g \<Rightarrow> (Some g, pin)
      | None \<Rightarrow>
          if pin = [] \<and> cf_default cf \<noteq> [] then (map_of (cf_groups cf) (cf_default cf), cf_default cf)
          else (None, []))"

section \<open>The plan of a request\<close>

record plan =
  pl_order :: "profile_id list"
  pl_reason :: string
  pl_cands :: "(profile_id, candidate) gomap"
  pl_home :: profile_id
  pl_switch :: profile_id
  pl_probe :: profile_id
  pl_follow :: bool
  pl_hard :: bool
  pl_messages :: int
  pl_locks :: "string list"

text \<open>A configured profile as a request finds it: its candidate, and why it cannot serve, if so.\<close>

type_synonym offer = "candidate \<times> string option"

record collected =
  cl_cands :: "(profile_id, candidate) gomap"
  cl_list :: "candidate list"
  cl_estimated :: int
  cl_skipped :: bool
  cl_reasons :: "string list"

definition collect_one :: "profile_id list option \<Rightarrow> profile_id \<Rightarrow> collected \<Rightarrow> offer \<Rightarrow> collected" where
  "collect_one members prev acc off =
     (case off of (c, bad) \<Rightarrow>
        if members \<noteq> None \<and> cd_id c \<notin> set (the members) then
          (if cd_id c = prev \<and> bad = None then acc\<lparr>cl_cands := AList.update (cd_id c) c (cl_cands acc)\<rparr> else acc)
        else (case bad of
            Some why \<Rightarrow> acc\<lparr>cl_reasons := cl_reasons acc @ [why],
              cl_skipped := cl_skipped acc \<or> members \<noteq> None \<and> the members ! 0 = cd_id c\<rparr>
          | None \<Rightarrow> acc\<lparr>cl_estimated := max (cl_estimated acc) (cd_estimated c), cl_list := cl_list acc @ [c],
              cl_cands := AList.update (cd_id c) c (cl_cands acc)\<rparr>))"

definition collect_candidates :: "profile_id list option \<Rightarrow> profile_id \<Rightarrow> offer list \<Rightarrow> collected" where
  "collect_candidates members prev offers =
     foldl (collect_one members prev)
       \<lparr>cl_cands = [], cl_list = [], cl_estimated = 0, cl_skipped = False, cl_reasons = []\<rparr> offers"

fun order_ok :: "(profile_id, candidate) gomap \<Rightarrow> profile_id list \<Rightarrow> profile_id list \<Rightarrow> route_error option" where
  "order_ok cands [] seen = None"
| "order_ok cands (i # is) seen =
     (if map_of cands i = None \<or> i \<in> set seen then Some (ErrUnknownProfile i) else order_ok cands is (i # seen))"

definition decision_error :: "collected \<Rightarrow> route_error + route_decision \<Rightarrow> route_error + route_decision" where
  "decision_error cl d =
     (case d of Inl e \<Rightarrow> Inl e
      | Inr rd \<Rightarrow>
          if rd_order rd = [] then Inl (ErrNoEligibleProfile (if cl_list cl = [] then cl_reasons cl else []))
          else (case order_ok (cl_cands cl) (rd_order rd) [] of Some e \<Rightarrow> Inl e | None \<Rightarrow>
            if rd_profile rd \<noteq> [] \<and> rd_profile rd \<notin> set (rd_order rd) then Inl (ErrOutsideOrder (rd_profile rd))
            else if rd_probe rd \<noteq> [] \<and> rd_probe rd \<notin> set (rd_order rd) then Inl (ErrOutsideOrder (rd_probe rd))
            else Inr rd))"

definition group_order :: "profile_id list \<Rightarrow> profile_id list \<Rightarrow> profile_id list" where
  "group_order order members = filter (\<lambda>i. i \<in> set members) order"

definition move_first :: "profile_id list \<Rightarrow> profile_id \<Rightarrow> profile_id list" where
  "move_first order i = i # filter (\<lambda>j. j \<noteq> i) order"

text \<open>Reading the first element of an empty order panics.\<close>

definition apply_pins_and_locks :: "route_state \<Rightarrow> string list \<Rightarrow> string \<Rightarrow> plan \<Rightarrow> plan effect" where
  "apply_pins_and_locks st locks grp p =
     (if has_hard_lock locks then
        Returned (p\<lparr>pl_order := [rs_last st], pl_reason := ''locked'', pl_switch := rs_last st, pl_probe := [],
                    pl_hard := True\<rparr>)
      else if rs_pin st \<noteq> [] \<and> map_of (pl_cands p) (rs_pin st) \<noteq> None then
        Returned (p\<lparr>pl_order := move_first (pl_order p) (rs_pin st), pl_reason := ''pinned'',
                    pl_switch := rs_pin st, pl_probe := []\<rparr>)
      else if grp \<noteq> [] \<and> grp = rs_pin st then
        (if pl_order p = [] then Panicked
         else Returned (p\<lparr>pl_reason := ''pinned'', pl_switch := hd (pl_order p), pl_probe := []\<rparr>))
      else if locks \<noteq> [] \<and> \<not> rs_last_failed st then
        (if pl_order p = [] then Panicked
         else if hd (pl_order p) \<noteq> rs_last st \<and> map_of (pl_cands p) (rs_last st) \<noteq> None then
           Returned (p\<lparr>pl_order := move_first (pl_order p) (rs_last st), pl_reason := ''locked'',
                       pl_switch := rs_last st, pl_probe := []\<rparr>)
         else Returned p)
      else Returned p)"

text \<open>A policy per request, or a session policy; a plain policy gives only an order.\<close>

datatype router_policy =
    PlainPolicy "candidate list \<Rightarrow> profile_id \<Rightarrow> bool \<Rightarrow> route_error + profile_id list"
  | SessionPolicy "route_context \<Rightarrow> route_state \<Rightarrow> route_error + route_decision"

fun ask_policy :: "router_policy \<Rightarrow> route_context \<Rightarrow> route_state \<Rightarrow> route_error + route_decision" where
  "ask_policy (SessionPolicy f) rx st = f rx st"
| "ask_policy (PlainPolicy f) rx st =
     (case f (rx_candidates rx) (rs_last st) (rs_last_failed st) of
        Inl e \<Rightarrow> Inl e
      | Inr order \<Rightarrow> Inr \<lparr>rd_order = order, rd_reason = [], rd_profile = [], rd_probe = []\<rparr>)"

record route_request =
  rq_messages :: "message list"
  rq_has_options :: bool
  rq_offers :: "offer list"
  rq_flat_estimate :: int
  rq_reported_locks :: "string list"

definition follows :: "router_policy \<Rightarrow> bool" where
  "follows pol = (case pol of PlainPolicy f \<Rightarrow> True | SessionPolicy f \<Rightarrow> False)"

text \<open>The end of \<open>plan\<close>, after the decision: group, reason, home, pins and locks.\<close>

definition finish_plan ::
  "router_config \<Rightarrow> router_policy \<Rightarrow> route_state \<Rightarrow> route_request \<Rightarrow> collected \<Rightarrow> string list \<Rightarrow>
   profile_id list option \<times> string \<Rightarrow> route_decision \<Rightarrow> plan effect" where
  "finish_plan cf pol st q cl locks gm rd =
     (let order = (case fst gm of Some ms \<Rightarrow> group_order (rd_order rd) ms | None \<Rightarrow> rd_order rd);
          reason = (if cl_skipped cl \<and> rd_reason rd = [] \<and> rq_has_options q then ''options'' else rd_reason rd);
          first = (rd_profile rd = [] \<and> rs_profile st = [] \<and> \<not> follows pol) in
      if first \<and> order = [] then Panicked
      else
        (case apply_pins_and_locks st locks (snd gm)
             \<lparr>pl_order = order, pl_reason = reason, pl_cands = cl_cands cl, pl_home = rs_profile st,
              pl_switch = (if first then hd order else rd_profile rd), pl_probe = rd_probe rd,
              pl_follow = follows pol, pl_hard = False, pl_messages = int (length (rq_messages q)), pl_locks = locks\<rparr> of
           Returned p \<Rightarrow>
             let p = (if pl_switch p \<noteq> [] then p\<lparr>pl_home := pl_switch p\<rparr> else p)
             in Returned (if pl_follow p then p\<lparr>pl_switch := []\<rparr> else p)
         | Panicked \<Rightarrow> Panicked | Blocked \<Rightarrow> Blocked))"

definition make_plan ::
  "router_config \<Rightarrow> router_policy \<Rightarrow> time \<Rightarrow> route_state \<Rightarrow> route_request \<Rightarrow> (route_error + plan) effect" where
  "make_plan cf pol now st0 q =
     (let gm = group_members cf (rs_pin st0);
          cl = collect_candidates (fst gm) (rs_last st0) (rq_offers q);
          locks = (if map_of (cl_cands cl) (rs_last st0) \<noteq> None
                   then detect_locks (rq_messages q) (rq_reported_locks q) else []);
          rx = \<lparr>rx_candidates = cl_list cl,
                rx_estimated = (if cl_list cl = [] then rq_flat_estimate q else cl_estimated cl),
                rx_pinned = rs_pin st0, rx_locks = locks\<rparr>;
          st = effective_state (cf_ttl cf) now st0 (int (length (rq_messages q)))
      in case decision_error cl (ask_policy pol rx st) of
           Inl e \<Rightarrow> Returned (Inl e)
         | Inr rd \<Rightarrow>
             (case finish_plan cf pol st q cl locks gm rd of
                Returned p \<Rightarrow> Returned (Inr p) | Panicked \<Rightarrow> Panicked | Blocked \<Rightarrow> Blocked))"

section \<open>The relay\<close>

record provider_failure =
  pf_text :: string
  pf_context_length :: bool
  pf_content_filter :: bool

text \<open>What an attempt's stream carries; every other delta is output.\<close>

datatype route_delta =
    Usage usage_delta | NestedRoute string | ConversionDone string | Finished | Failure provider_failure | Output string

text \<open>What the caller sees. \<open>Attempt\<close> is the router's own \<open>RouteDelta\<close>.\<close>

datatype sent =
    Attempt profile_id string | Forward profile_id route_delta | Errored "provider_failure list" | Exhausted "provider_failure list"

record route_outcome =
  ro_served :: profile_id
  ro_last :: profile_id
  ro_last_failed :: bool
  ro_home_failed :: bool
  ro_usage :: usage_delta

definition no_outcome :: route_outcome where
  "no_outcome = \<lparr>ro_served = [], ro_last = [], ro_last_failed = False, ro_home_failed = False, ro_usage = empty_usage\<rparr>"

text \<open>
  The channel to the caller: what it took, and how many more deltas it takes before it cancels the request
  (\<open>None\<close>: it never does). Once it has cancelled, the relay sees the context done.
\<close>

record wire =
  wi_out :: "sent list"
  wi_room :: "nat option"

definition cancelled :: "wire \<Rightarrow> bool" where
  "cancelled w = (wi_room w = Some 0)"

definition wire_send :: "sent \<Rightarrow> wire \<Rightarrow> wire \<times> bool" where
  "wire_send d w =
     (case wi_room w of
        Some 0 \<Rightarrow> (w, False)
      | Some (Suc n) \<Rightarrow> (w\<lparr>wi_out := wi_out w @ [d], wi_room := Some n\<rparr>, True)
      | None \<Rightarrow> (w\<lparr>wi_out := wi_out w @ [d]\<rparr>, True))"

fun wire_flush :: "sent list \<Rightarrow> wire \<Rightarrow> wire \<times> bool" where
  "wire_flush [] w = (w, True)"
| "wire_flush (d # ds) w = (case wire_send d w of (w', ok) \<Rightarrow> if ok then wire_flush ds w' else (w', False))"

datatype attempt_end = Served | Stopped | Failed provider_failure

record attempt =
  at_end :: attempt_end
  at_wire :: wire
  at_committed :: bool
  at_held :: "sent list"
  at_usage :: usage_delta

text \<open>Reading one attempt's stream to its end, an error or the cancellation.\<close>

fun read_attempt ::
  "profile_id \<Rightarrow> route_delta list \<Rightarrow> wire \<Rightarrow> bool \<Rightarrow> sent list \<Rightarrow> usage_delta \<Rightarrow> attempt" where
  "read_attempt i ds w committed held usage =
     (if cancelled w then
        \<lparr>at_end = Stopped, at_wire = w, at_committed = committed, at_held = held, at_usage = usage\<rparr>
      else
      (case ds of
        [] \<Rightarrow> \<lparr>at_end = Served, at_wire = fst (wire_flush held w), at_committed = committed, at_held = [], at_usage = usage\<rparr>
      | Failure e # ds \<Rightarrow>
          \<lparr>at_end = Failed e, at_wire = w, at_committed = committed, at_held = held, at_usage = usage\<rparr>
      | Finished # ds \<Rightarrow> read_attempt i ds w committed held usage
      | ConversionDone c # ds \<Rightarrow>
          (case wire_send (Forward i (ConversionDone c)) w of
             (w', True) \<Rightarrow> read_attempt i ds w' committed held usage
           | (w', False) \<Rightarrow>
               \<lparr>at_end = Stopped, at_wire = w', at_committed = committed, at_held = held, at_usage = usage\<rparr>)
      | d # ds \<Rightarrow>
          let usage = (case d of Usage u \<Rightarrow> usage_merge usage u | _ \<Rightarrow> usage);
              meta = (case d of Usage u \<Rightarrow> True | NestedRoute r \<Rightarrow> True | _ \<Rightarrow> False) in
          if meta \<and> \<not> committed then read_attempt i ds w committed (held @ [Forward i d]) usage
          else
            (case wire_flush (held @ [Forward i d]) w of
               (w', True) \<Rightarrow> read_attempt i ds w' True [] usage
             | (w', False) \<Rightarrow>
                 \<lparr>at_end = Stopped, at_wire = w', at_committed = True, at_held = [], at_usage = usage\<rparr>)))"

declare read_attempt.simps [simp del]

definition window_of :: "(profile_id, candidate) gomap \<Rightarrow> profile_id \<Rightarrow> int" where
  "window_of cands i = (case map_of cands i of Some c \<Rightarrow> cd_window c | None \<Rightarrow> 0)"

definition vendor_of :: "(profile_id, candidate) gomap \<Rightarrow> profile_id \<Rightarrow> string" where
  "vendor_of cands i = (case map_of cands i of Some c \<Rightarrow> cd_provider c | None \<Rightarrow> [])"

definition reroute ::
  "profile_id list \<Rightarrow> profile_id \<Rightarrow> (profile_id, candidate) gomap \<Rightarrow> provider_failure \<Rightarrow> profile_id list \<times> string" where
  "reroute order failed cands e =
     (if pf_context_length e then
        (let window = window_of cands failed in
         (sort_key (\<lambda>i. - window_of cands i) (filter (\<lambda>i. 0 < window \<and> window < window_of cands i) order), ''context_length''))
      else if pf_content_filter e then
        (filter (\<lambda>i. vendor_of cands i \<noteq> vendor_of cands failed) order, ''content_filter'')
      else (order, ''failover''))"

lemma length_reroute: "length (fst (reroute order i cands e)) \<le> length order"
  by (simp add: reroute_def Let_def)

text \<open>\<open>calls\<close> is what a profile answers: an error before any stream, or the deltas of its stream.\<close>

definition run_attempt ::
  "(profile_id \<Rightarrow> provider_failure + route_delta list) \<Rightarrow> profile_id \<Rightarrow> wire \<Rightarrow> attempt" where
  "run_attempt calls i w =
     (case calls i of
        Inl e \<Rightarrow> \<lparr>at_end = Failed e, at_wire = w, at_committed = False, at_held = [], at_usage = empty_usage\<rparr>
      | Inr ds \<Rightarrow> read_attempt i ds w False [] empty_usage)"

definition note_failure :: "plan \<Rightarrow> profile_id \<Rightarrow> bool \<Rightarrow> route_outcome \<Rightarrow> route_outcome" where
  "note_failure p i ok res =
     res\<lparr>ro_last_failed := ok,
         ro_home_failed := (if i = pl_home p then ro_home_failed res \<or> ok else ro_home_failed res)\<rparr>"

function relay ::
  "(provider_failure \<Rightarrow> bool) \<Rightarrow> (profile_id \<Rightarrow> provider_failure + route_delta list) \<Rightarrow> plan \<Rightarrow>
   profile_id list \<Rightarrow> string \<Rightarrow> wire \<Rightarrow> route_outcome \<Rightarrow> provider_failure list \<Rightarrow> wire \<times> route_outcome" where
  "relay failover calls p [] reason w res failures = (fst (wire_send (Exhausted failures) w), res)"
| "relay failover calls p (i # is) reason w res failures =
     (if cancelled w then (w, res)
      else
        let res = res\<lparr>ro_last := i\<rparr> in
        (case wire_send (Attempt i reason) w of
           (w, False) \<Rightarrow> (w, res)
         | (w, True) \<Rightarrow>
             let a = run_attempt calls i w in
             (case at_end a of
                Served \<Rightarrow> (at_wire a, res\<lparr>ro_served := i, ro_last_failed := False, ro_usage := at_usage a\<rparr>)
              | Stopped \<Rightarrow> (at_wire a, res)
              | Failed e \<Rightarrow>
                  if cancelled (at_wire a) then (at_wire a, res)
                  else
                    let ok = failover e; res = note_failure p i ok res; failures = failures @ [e] in
                    if at_committed a \<or> \<not> ok \<or> pl_hard p then
                      (case wire_flush (at_held a) (at_wire a) of
                         (w, True) \<Rightarrow> (fst (wire_send (Errored [e]) w), res)
                       | (w, False) \<Rightarrow> (w, res))
                    else
                      (case reroute is i (pl_cands p) e of
                         (is', reason') \<Rightarrow> relay failover calls p is' reason' (at_wire a) res failures))))"
  by pat_completeness auto
termination
proof (relation "measure (\<lambda>(f, c, p, is, r, w, res, fs). length is)", goal_cases)
  case 1 then show ?case by simp
next
  case prems: (2 failover calls p i "is" reason w res failures)
  then show ?case using length_reroute [of "is" i "pl_cands p"] by (metis (no_types, lifting) case_prod_conv fst_conv in_measure le_imp_less_Suc length_Cons)
qed

declare relay.simps [simp del]

section \<open>The session\<close>

definition apply_plan :: "plan \<Rightarrow> route_state \<Rightarrow> route_state" where
  "apply_plan p st = (switch_to (pl_switch p) st)\<lparr>rs_locks := pl_locks p\<rparr>"

text \<open>Counting the outcome, following the profile that served, and keeping its warm prefix.\<close>

definition count_outcome :: "route_outcome \<Rightarrow> route_state \<Rightarrow> route_state" where
  "count_outcome res st =
     (let st = st\<lparr>rs_last := ro_last res, rs_last_failed := ro_last_failed res\<rparr>;
          st = (if ro_home_failed res then st\<lparr>rs_streak := wrap64 (rs_streak st + 1)\<rparr>
                else if ro_served res \<noteq> [] \<and> ro_served res = rs_profile st then st\<lparr>rs_streak := 0\<rparr> else st)
      in if ro_served res \<noteq> [] then st\<lparr>rs_turns := wrap64 (rs_turns st + 1)\<rparr> else st)"

definition follow_outcome :: "plan \<Rightarrow> route_outcome \<Rightarrow> route_state \<Rightarrow> route_state" where
  "follow_outcome p res st =
     (if pl_follow p then switch_to (ro_served res) st
      else if pl_probe p \<noteq> [] \<and> ro_served res = pl_probe p then switch_to (pl_probe p) st
      else if pl_probe p \<noteq> [] then st\<lparr>rs_turns := 0\<rparr> else st)"

definition record_outcome :: "time \<Rightarrow> plan \<Rightarrow> route_outcome \<Rightarrow> route_state \<Rightarrow> route_state" where
  "record_outcome now p res st0 =
     (let st = follow_outcome p res (count_outcome res st0); u = ro_usage res
      in if ro_served res \<noteq> [] \<and> ro_served res = rs_profile st \<and> \<not> ud_cache_hit u
         then st\<lparr>rs_warm := wrap64 (ud_cached u + ud_cache_write u), rs_warm_at := now, rs_messages := pl_messages p\<rparr>
         else st)"

record route_session =
  se_busy :: bool
  se_state :: route_state

definition new_session :: "router_config \<Rightarrow> route_session" where
  "new_session cf = \<lparr>se_busy = False, se_state = new_route_state (cf_revision cf)\<rparr>"

definition current_pin :: "string \<Rightarrow> route_session \<Rightarrow> string" where
  "current_pin pin s = (if pin \<noteq> [] then pin else rs_pin (se_state s))"

definition child_session :: "router_config \<Rightarrow> string \<Rightarrow> route_session \<Rightarrow> route_session" where
  "child_session cf pin s = \<lparr>se_busy = False, se_state = (new_route_state (cf_revision cf))\<lparr>rs_pin := current_pin pin s\<rparr>\<rparr>"

definition unpin :: "route_session \<Rightarrow> route_session" where
  "unpin s = s\<lparr>se_state := (se_state s)\<lparr>rs_pin := []\<rparr>\<rparr>"

text \<open>A target names a profile, a preset group, or a model; \<open>models\<close> is the model of each profile.\<close>

datatype target = ProfileTarget profile_id | PresetTarget string | ModelTarget string

fun resolve_target :: "router_config \<Rightarrow> (profile_id \<Rightarrow> string) \<Rightarrow> target \<Rightarrow> string option" where
  "resolve_target cf models (ProfileTarget i) = (if has_profile cf i then Some i else None)"
| "resolve_target cf models (PresetTarget g) = (if map_of (cf_groups cf) g \<noteq> None then Some g else None)"
| "resolve_target cf models (ModelTarget m) =
     (if has_target cf m then Some m else List.find (\<lambda>i. models i = m) (cf_profiles cf))"

text \<open>The two halves of \<open>stream\<close>: planning under the session's lock, and the end of the relay.\<close>

definition begin_request ::
  "router_config \<Rightarrow> router_policy \<Rightarrow> string \<Rightarrow> time \<Rightarrow> route_request \<Rightarrow> route_session \<Rightarrow>
   (route_session \<times> (route_error + plan)) effect" where
  "begin_request cf pol pin now q s =
     (if se_busy s then Returned (s, Inl ErrSessionBusy)
      else
        let st = (if pin \<noteq> [] then (se_state s)\<lparr>rs_pin := pin\<rparr> else se_state s) in
        case make_plan cf pol now st q of
          Returned (Inl e) \<Rightarrow> Returned (\<lparr>se_busy = False, se_state = st\<rparr>, Inl e)
        | Returned (Inr p) \<Rightarrow> Returned (\<lparr>se_busy = True, se_state = apply_plan p st\<rparr>, Inr p)
        | Panicked \<Rightarrow> Panicked | Blocked \<Rightarrow> Blocked)"

definition end_request :: "time \<Rightarrow> plan \<Rightarrow> wire \<Rightarrow> route_outcome \<Rightarrow> route_session \<Rightarrow> route_session" where
  "end_request now p w res s =
     \<lparr>se_busy = False,
      se_state = (if ro_last res = [] \<or> cancelled w \<and> ro_served res = [] then se_state s
                  else record_outcome now p res (se_state s))\<rparr>"

text \<open>Restoring a state drops the names the router no longer defines.\<close>

definition drop_unknown :: "router_config \<Rightarrow> route_state \<Rightarrow> route_state" where
  "drop_unknown cf st =
     (let last = (if rs_last st \<noteq> [] \<and> \<not> has_profile cf (rs_last st) then [] else rs_last st) in
      st\<lparr>rs_pin := (if rs_pin st \<noteq> [] \<and> \<not> has_target cf (rs_pin st) then [] else rs_pin st),
         rs_profile := (if rs_profile st \<noteq> [] \<and> \<not> has_profile cf (rs_profile st) then [] else rs_profile st),
         rs_last := last, rs_last_failed := (last \<noteq> [] \<and> rs_last_failed st)\<rparr>)"

definition restore_route_state :: "router_config \<Rightarrow> route_state \<Rightarrow> route_session \<Rightarrow> route_session \<times> route_error option" where
  "restore_route_state cf st s =
     (if se_busy s then (s, Some ErrSessionBusy)
      else
        let known = drop_unknown cf st in
        (s\<lparr>se_state :=
             (if rs_revision known \<noteq> cf_revision cf
              then (new_route_state (cf_revision cf))\<lparr>rs_profile := rs_profile known, rs_pin := rs_pin known,
                     rs_last := rs_last known, rs_last_failed := rs_last_failed known\<rparr>
              else known)\<rparr>, None))"

end
