(* ===== verification/Relay.thy ===== *)
theory Relay
  imports Router
begin

text \<open>
  Lemmas on the relay of a request (\<open>agent/provider/router/router.go\<close>), whatever the providers answer and
  whenever the caller cancels: what one attempt sends, the cases of one turn of the loop, where the deltas come
  from, which profiles are tried, and what a caller that does not cancel receives.
\<close>

section \<open>Sending\<close>

lemma wire_send_cases:
  assumes "wire_send d w = (w', ok)"
  obtains (sent) "ok" "wi_out w' = wi_out w @ [d]" "\<not> cancelled w"
  | (dropped) "\<not> ok" "w' = w" "cancelled w"
  using assms by (auto simp: wire_send_def cancelled_def split: option.splits nat.splits)

lemma wire_flush_out:
  assumes "wire_flush ds w = (w', ok)"
  shows "\<exists>n. wi_out w' = wi_out w @ take n ds \<and> (ok \<longrightarrow> take n ds = ds) \<and> (\<not> ok \<longrightarrow> cancelled w')"
  using assms
proof (induction ds arbitrary: w)
  case (Cons d ds)
  obtain w1 k where s: "wire_send d w = (w1, k)" by (cases "wire_send d w")
  from s show ?case
  proof (cases rule: wire_send_cases)
    case sent
    then obtain n where "wi_out w' = wi_out w1 @ take n ds \<and> (ok \<longrightarrow> take n ds = ds) \<and> (\<not> ok \<longrightarrow> cancelled w')"
      using Cons.IH [of w1] Cons.prems s by fastforce
    then show ?thesis using sent by (intro exI [of _ "Suc n"]) auto
  next
    case dropped
    then show ?thesis using Cons.prems s by (intro exI [of _ 0]) auto
  qed
qed simp

lemma take_Forward: "list_all P ds \<Longrightarrow> list_all P (take n ds)"
  by (auto simp: list_all_iff dest: in_set_takeD)

section \<open>One attempt\<close>

definition from_attempt :: "profile_id \<Rightarrow> sent \<Rightarrow> bool" where
  "from_attempt i x = (\<exists>d. x = Forward i d)"

definition conversion :: "profile_id \<Rightarrow> sent \<Rightarrow> bool" where
  "conversion i x = (\<exists>c. x = Forward i (ConversionDone c))"

lemma from_conversion: "conversion i x \<Longrightarrow> from_attempt i x"
  by (auto simp: conversion_def from_attempt_def)

text \<open>One iteration of the loop over the stream, by the kind of delta it receives.\<close>

definition meta_delta :: "route_delta \<Rightarrow> bool" where
  "meta_delta d = (case d of Usage u \<Rightarrow> True | NestedRoute r \<Rightarrow> True | _ \<Rightarrow> False)"

definition content_delta :: "route_delta \<Rightarrow> bool" where
  "content_delta d = (case d of Finished \<Rightarrow> False | Failure e \<Rightarrow> False | ConversionDone c \<Rightarrow> False | _ \<Rightarrow> True)"

definition add_usage :: "usage_delta \<Rightarrow> route_delta \<Rightarrow> usage_delta" where
  "add_usage u d = (case d of Usage v \<Rightarrow> usage_merge u v | _ \<Rightarrow> u)"

lemma read_cancelled: "cancelled w \<Longrightarrow> read_attempt i ds w c h u =
    \<lparr>at_end = Stopped, at_wire = w, at_committed = c, at_held = h, at_usage = u\<rparr>"
  by (subst read_attempt.simps) simp

lemma read_end: "\<not> cancelled w \<Longrightarrow> read_attempt i [] w c h u =
    \<lparr>at_end = Served, at_wire = fst (wire_flush h w), at_committed = c, at_held = [], at_usage = u\<rparr>"
  by (subst read_attempt.simps) simp

lemma read_failure: "\<not> cancelled w \<Longrightarrow> read_attempt i (Failure e # ds) w c h u =
    \<lparr>at_end = Failed e, at_wire = w, at_committed = c, at_held = h, at_usage = u\<rparr>"
  by (subst read_attempt.simps) simp

lemma read_finished: "\<not> cancelled w \<Longrightarrow> read_attempt i (Finished # ds) w c h u = read_attempt i ds w c h u"
  by (subst read_attempt.simps) simp

lemma read_conversion: "\<not> cancelled w \<Longrightarrow> read_attempt i (ConversionDone x # ds) w c h u =
    (case wire_send (Forward i (ConversionDone x)) w of
       (w', True) \<Rightarrow> read_attempt i ds w' c h u
     | (w', False) \<Rightarrow> \<lparr>at_end = Stopped, at_wire = w', at_committed = c, at_held = h, at_usage = u\<rparr>)"
  by (subst read_attempt.simps) simp

lemma read_held: "\<not> cancelled w \<Longrightarrow> meta_delta d \<Longrightarrow> \<not> c \<Longrightarrow>
    read_attempt i (d # ds) w c h u = read_attempt i ds w c (h @ [Forward i d]) (add_usage u d)"
  by (subst read_attempt.simps) (auto simp: meta_delta_def add_usage_def split: route_delta.splits)

lemma read_content: "\<not> cancelled w \<Longrightarrow> content_delta d \<Longrightarrow> \<not> meta_delta d \<or> c \<Longrightarrow>
    read_attempt i (d # ds) w c h u =
      (case wire_flush (h @ [Forward i d]) w of
         (w', True) \<Rightarrow> read_attempt i ds w' True [] (add_usage u d)
       | (w', False) \<Rightarrow> \<lparr>at_end = Stopped, at_wire = w', at_committed = True, at_held = [], at_usage = add_usage u d\<rparr>)"
  by (subst read_attempt.simps)
    (auto simp: meta_delta_def content_delta_def add_usage_def split: route_delta.splits prod.splits bool.splits)

lemma delta_cases:
  obtains (failure) e where "d = Failure e" | (finished) "d = Finished" | (conversion) x where "d = ConversionDone x"
  | (meta) "meta_delta d" "content_delta d" | (emits) "\<not> meta_delta d" "content_delta d"
  by (cases d) (auto simp: meta_delta_def content_delta_def)

text \<open>Before the attempt commits it sends conversions only, and what it holds is its own.\<close>

definition attempt_sends :: "profile_id \<Rightarrow> wire \<Rightarrow> bool \<Rightarrow> attempt \<Rightarrow> bool" where
  "attempt_sends i w c a =
     (\<exists>ys. wi_out (at_wire a) = wi_out w @ ys \<and> list_all (from_attempt i) ys \<and> list_all (from_attempt i) (at_held a) \<and>
        (\<not> at_committed a \<longrightarrow> at_end a \<noteq> Served \<longrightarrow> list_all (conversion i) ys) \<and> (c \<longrightarrow> at_committed a))"

lemma attempt_sends_step:
  assumes "attempt_sends i w' c' a" "wi_out w' = wi_out w @ xs" "list_all (from_attempt i) xs"
    and "c \<longrightarrow> c'" "c' \<or> list_all (conversion i) xs"
  shows "attempt_sends i w c a"
proof -
  obtain ys where ys: "wi_out (at_wire a) = wi_out w' @ ys" "list_all (from_attempt i) ys"
      "list_all (from_attempt i) (at_held a)" "c' \<longrightarrow> at_committed a"
      "\<not> at_committed a \<longrightarrow> at_end a \<noteq> Served \<longrightarrow> list_all (conversion i) ys"
    using assms(1) by (auto simp: attempt_sends_def)
  then show ?thesis unfolding attempt_sends_def using assms(2-) by (intro exI [of _ "xs @ ys"]) auto
qed

lemma flush_forwards:
  assumes "wire_flush h w = (w', ok)" "list_all (from_attempt i) h"
  obtains xs where "wi_out w' = wi_out w @ xs" "list_all (from_attempt i) xs"
  using wire_flush_out [OF assms(1)] take_Forward [OF assms(2)] by metis

lemma read_attempt_sends:
  assumes "list_all (from_attempt i) h"
  shows "attempt_sends i w c (read_attempt i ds w c h u)"
  using assms
proof (induction ds arbitrary: w c h u)
  case Nil
  obtain w' ok where f: "wire_flush h w = (w', ok)" by (cases "wire_flush h w")
  obtain xs where "wi_out w' = wi_out w @ xs" "list_all (from_attempt i) xs" by (rule flush_forwards [OF f Nil])
  then show ?case
    using Nil f by (cases "cancelled w") (auto simp: read_cancelled read_end attempt_sends_def)
next
  case (Cons d ds)
  have flushed: "attempt_sends i w c (read_attempt i (d # ds) w c h u)"
    if live: "\<not> cancelled w" and d: "content_delta d" "\<not> meta_delta d \<or> c"
  proof -
    obtain w' ok where f: "wire_flush (h @ [Forward i d]) w = (w', ok)" by (cases "wire_flush (h @ [Forward i d]) w")
    obtain xs where xs: "wi_out w' = wi_out w @ xs" "list_all (from_attempt i) xs"
      by (rule flush_forwards [OF f]) (use Cons.prems in \<open>auto simp: from_attempt_def list_all_iff\<close>)
    have "attempt_sends i w' True (read_attempt i ds w' True [] (add_usage u d))" by (rule Cons.IH) simp
    from attempt_sends_step [OF this xs, of c] show ?thesis
      using xs f live d by (cases ok) (auto simp: read_content attempt_sends_def)
  qed
  show ?case
  proof (cases "cancelled w")
    case True
    then show ?thesis using Cons.prems by (simp add: read_cancelled attempt_sends_def)
  next
    case live: False
    show ?thesis
    proof (cases d rule: delta_cases)
      case (failure e)
      then show ?thesis using live Cons.prems by (simp add: read_failure attempt_sends_def)
    next
      case finished
      then show ?thesis using live Cons by (simp add: read_finished)
    next
      case (conversion x)
      obtain w' ok where s: "wire_send (Forward i (ConversionDone x)) w = (w', ok)"
        by (cases "wire_send (Forward i (ConversionDone x)) w")
      have c1: "conversion i (Forward i (ConversionDone x))" by (auto simp: conversion_def)
      from s show ?thesis
      proof (cases rule: wire_send_cases)
        case sent
        have "attempt_sends i w' c (read_attempt i ds w' c h u)" by (rule Cons.IH [OF Cons.prems])
        from attempt_sends_step [OF this sent(2)] have "attempt_sends i w c (read_attempt i ds w' c h u)"
          using c1 from_conversion by simp
        then show ?thesis using sent s live conversion by (simp add: read_conversion)
      next
        case dropped
        then show ?thesis using live by simp
      qed
    next
      case meta
      show ?thesis
      proof (cases c)
        case False
        then show ?thesis using live meta Cons.IH [of "h @ [Forward i d]"] Cons.prems
          by (simp add: read_held from_attempt_def)
      next
        case True
        then show ?thesis using flushed live meta by simp
      qed
    next
      case emits
      then show ?thesis using flushed live by simp
    qed
  qed
qed

section \<open>The relay, attempt by attempt\<close>

lemma relay_cases:
  assumes "relay failover calls p (i # is) reason w res fs = (w', res')"
  obtains (quiet) "cancelled w" "w' = w" "res' = res"
  | (served) w1 a where "wire_send (Attempt i reason) w = (w1, True)" "a = run_attempt calls i w1" "at_end a = Served"
      "w' = at_wire a" "res' = res\<lparr>ro_last := i, ro_served := i, ro_last_failed := False, ro_usage := at_usage a\<rparr>"
  | (stopped) w1 a where "wire_send (Attempt i reason) w = (w1, True)" "a = run_attempt calls i w1"
      "at_end a = Stopped \<or> at_end a \<noteq> Served \<and> cancelled (at_wire a)" "w' = at_wire a" "res' = res\<lparr>ro_last := i\<rparr>"
  | (ended) w1 a e w2 ok where "wire_send (Attempt i reason) w = (w1, True)" "a = run_attempt calls i w1"
      "at_end a = Failed e" "at_committed a \<or> \<not> failover e \<or> pl_hard p" "wire_flush (at_held a) (at_wire a) = (w2, ok)"
      "w' = (if ok then fst (wire_send (Errored [e]) w2) else w2)"
      "res' = note_failure p i (failover e) (res\<lparr>ro_last := i\<rparr>)"
  | (moved) w1 a e is' reason' where "wire_send (Attempt i reason) w = (w1, True)" "a = run_attempt calls i w1"
      "at_end a = Failed e" "\<not> at_committed a" "failover e" "\<not> pl_hard p" "reroute is i (pl_cands p) e = (is', reason')"
      "relay failover calls p is' reason' (at_wire a) (note_failure p i True (res\<lparr>ro_last := i\<rparr>)) (fs @ [e]) = (w', res')"
proof (cases "cancelled w")
  case True
  then show ?thesis by (rule quiet) (use assms True in \<open>simp_all add: relay.simps\<close>)
next
  case live: False
  then obtain w1 where s: "wire_send (Attempt i reason) w = (w1, True)"
    by (cases "wire_send (Attempt i reason) w") (auto elim!: wire_send_cases)
  define a where "a = run_attempt calls i w1"
  show ?thesis
  proof (cases "at_end a")
    case Served
    show ?thesis by (rule served [OF s a_def Served]) (use assms live s Served in \<open>simp_all add: relay.simps a_def Let_def\<close>)
  next
    case Stopped
    show ?thesis by (rule stopped [OF s a_def]) (use assms live s Stopped in \<open>simp_all add: relay.simps a_def Let_def\<close>)
  next
    case (Failed e)
    obtain w2 ok where f: "wire_flush (at_held a) (at_wire a) = (w2, ok)" by (cases "wire_flush (at_held a) (at_wire a)")
    obtain is' reason' where r: "reroute is i (pl_cands p) e = (is', reason')" by (cases "reroute is i (pl_cands p) e")
    consider "cancelled (at_wire a)" | "\<not> cancelled (at_wire a)" "at_committed a \<or> \<not> failover e \<or> pl_hard p"
      | "\<not> cancelled (at_wire a)" "\<not> at_committed a" "failover e" "\<not> pl_hard p" by blast
    then show ?thesis
    proof cases
      case 1
      then show ?thesis
        by (intro stopped [OF s a_def]) (use assms live s Failed in \<open>simp_all add: relay.simps a_def Let_def\<close>)
    next
      case 2
      then show ?thesis
        by (intro ended [OF s a_def Failed _ f])
          (use assms live s Failed f in \<open>auto simp: relay.simps a_def Let_def split: bool.splits\<close>)
    next
      case 3
      then show ?thesis
        by (intro moved [OF s a_def Failed _ _ _ r])
          (use assms live s Failed r in \<open>simp_all add: relay.simps a_def Let_def\<close>)
    qed
  qed
qed

lemma reroute_subset: "reroute is i cands e = (is', reason) \<Longrightarrow> set is' \<subseteq> set is \<and> (distinct is \<longrightarrow> distinct is')"
  by (auto simp: reroute_def Let_def split: if_splits)

lemma run_attempt_sends: "attempt_sends i w False (run_attempt calls i w)"
  by (cases "calls i") (simp_all add: run_attempt_def read_attempt_sends, simp add: attempt_sends_def)

definition overhead :: "sent \<Rightarrow> bool" where
  "overhead x = ((\<exists>i r. x = Attempt i r) \<or> (\<exists>i. conversion i x))"

definition closing :: "sent \<Rightarrow> bool" where
  "closing x = (\<exists>es. x = Errored es \<or> x = Exhausted es)"

definition single_source :: "sent list \<Rightarrow> profile_id \<Rightarrow> sent list \<Rightarrow> bool" where
  "single_source out served out' =
     (\<exists>xs i ys zs. out' = out @ xs @ ys @ zs \<and> list_all overhead xs \<and> list_all (from_attempt i) ys \<and>
        list_all closing zs \<and> length zs \<le> 1 \<and> (served \<noteq> [] \<longrightarrow> zs = [] \<and> served = i))"

lemma single_source_more:
  assumes "single_source (out @ xs) served out'" "list_all overhead xs"
  shows "single_source out served out'"
proof -
  obtain as i ys zs where "out' = (out @ xs) @ as @ ys @ zs" "list_all overhead as" "list_all (from_attempt i) ys"
      "list_all closing zs" "length zs \<le> 1" "served \<noteq> [] \<longrightarrow> zs = [] \<and> served = i"
    using assms(1) unfolding single_source_def by blast
  then show ?thesis unfolding single_source_def using assms(2)
    by (intro exI [of _ "xs @ as"] exI [of _ i] exI [of _ ys] exI [of _ zs]) simp
qed

lemma single_source_one:
  assumes "list_all (from_attempt i) ys" "list_all closing zs" "length zs \<le> 1" "served \<noteq> [] \<longrightarrow> zs = [] \<and> served = i"
  shows "single_source out served (out @ ys @ zs)"
  unfolding single_source_def using assms by (intro exI [of _ "[]"] exI [of _ i] exI [of _ ys] exI [of _ zs]) simp

lemma conversions_overhead: "list_all (conversion i) xs \<Longrightarrow> list_all overhead xs"
  by (auto simp: list_all_iff overhead_def)

lemma send_closing:
  assumes "closing x"
  obtains zs where "wi_out (fst (wire_send x w)) = wi_out w @ zs" "list_all closing zs" "length zs \<le> 1"
proof (cases "wire_send x w")
  case (Pair w' ok)
  then show ?thesis
  proof (cases rule: wire_send_cases)
    case sent
    then show ?thesis using that [of "[x]"] Pair assms by simp
  next
    case dropped
    then show ?thesis using that [of "[]"] Pair by simp
  qed
qed

lemma ended_sends:
  assumes "attempt_sends i w1 False a" "wire_flush (at_held a) (at_wire a) = (w2, ok)"
    and "w' = (if ok then fst (wire_send (Errored [e]) w2) else w2)"
  shows "single_source (wi_out w1) [] (wi_out w')"
proof -
  obtain ys where ys: "wi_out (at_wire a) = wi_out w1 @ ys" "list_all (from_attempt i) ys"
      "list_all (from_attempt i) (at_held a)"
    using assms(1) by (auto simp: attempt_sends_def)
  obtain hs where hs: "wi_out w2 = wi_out (at_wire a) @ hs" "list_all (from_attempt i) hs"
    by (rule flush_forwards [OF assms(2) ys(3)])
  obtain zs where zs: "wi_out (fst (wire_send (Errored [e]) w2)) = wi_out w2 @ zs" "list_all closing zs" "length zs \<le> 1"
    by (rule send_closing [of "Errored [e]" w2]) (auto simp: closing_def)
  have "single_source (wi_out w1) [] (wi_out w1 @ (ys @ hs) @ (if ok then zs else []))"
    by (rule single_source_one) (use ys hs zs in auto)
  then show ?thesis using assms(3) ys hs zs by (simp split: if_splits)
qed

lemma relay_sends:
  assumes "relay failover calls p is reason w res fs = (w', res')" "ro_served res = []"
  shows "single_source (wi_out w) (ro_served res') (wi_out w')"
  using assms
proof (induction "is" arbitrary: reason w res fs rule: length_induct)
  case (1 "is")
  show ?case
  proof (cases "is")
    case Nil
    obtain zs where "wi_out (fst (wire_send (Exhausted fs) w)) = wi_out w @ zs" "list_all closing zs" "length zs \<le> 1"
      by (rule send_closing [of "Exhausted fs" w]) (auto simp: closing_def)
    then show ?thesis using single_source_one [of _ "[]" zs "[]" "wi_out w"] 1(2,3) Nil by (auto simp: relay.simps)
  next
    case (Cons i is1)
    have first: "single_source (wi_out w) s out" if "wire_send (Attempt i reason) w = (w1, True)"
      "single_source (wi_out w1) s out" for w1 s out
      using single_source_more [of "wi_out w" "[Attempt i reason]" s out] that
      by (auto simp: overhead_def elim!: wire_send_cases)
    have sends: "\<exists>ys. wi_out (at_wire a) = wi_out w1 @ ys \<and> list_all (from_attempt i) ys"
      if "a = run_attempt calls i w1" for a w1
      using run_attempt_sends [of i w1 calls] that by (auto simp: attempt_sends_def)
    from 1(2) [unfolded Cons] show ?thesis
    proof (cases rule: relay_cases)
      case quiet
      then show ?thesis using single_source_one [of i "[]" "[]" "[]" "wi_out w"] 1(3) by simp
    next
      case (served w1 a)
      then obtain ys where "wi_out (at_wire a) = wi_out w1 @ ys" "list_all (from_attempt i) ys" using sends by blast
      then have "single_source (wi_out w1) i (wi_out (at_wire a))"
        using single_source_one [of i ys "[]" i "wi_out w1"] by simp
      then show ?thesis using first served by simp
    next
      case (stopped w1 a)
      then obtain ys where "wi_out (at_wire a) = wi_out w1 @ ys" "list_all (from_attempt i) ys" using sends by blast
      then have "single_source (wi_out w1) [] (wi_out (at_wire a))"
        using single_source_one [of i ys "[]" "[]" "wi_out w1"] by simp
      then show ?thesis using first stopped 1(3) by simp
    next
      case (ended w1 a e w2 ok)
      then show ?thesis
        using first ended_sends [OF run_attempt_sends [of i w1 calls], of w2 ok w' e] 1(3) by (simp add: note_failure_def)
    next
      case (moved w1 a e is' reason')
      obtain ys where ys: "wi_out (at_wire a) = wi_out w1 @ ys" "list_all (conversion i) ys"
        using run_attempt_sends [of i w1 calls] moved(2,3,4) by (auto simp: attempt_sends_def)
      have "length is' < length is"
        using length_reroute [of is1 i "pl_cands p" e] moved(7) Cons by simp
      then have "single_source (wi_out (at_wire a)) (ro_served res') (wi_out w')"
        using 1(1) [rule_format, OF _ moved(8)] 1(3) by (simp add: note_failure_def)
      then have "single_source (wi_out w1) (ro_served res') (wi_out w')"
        using single_source_more ys conversions_overhead by metis
      then show ?thesis using first moved(1) by blast
    qed
  qed
qed

section \<open>Which profiles are tried\<close>

fun attempts :: "sent list \<Rightarrow> profile_id list" where
  "attempts [] = []"
| "attempts (Attempt i r # xs) = i # attempts xs"
| "attempts (x # xs) = attempts xs"

lemma attempts_append [simp]: "attempts (xs @ ys) = attempts xs @ attempts ys"
  by (induction xs rule: attempts.induct) auto

lemma attempts_forwards [simp]: "list_all (from_attempt i) ys \<Longrightarrow> attempts ys = []"
  by (induction ys) (auto simp: from_attempt_def)

lemma attempts_closing [simp]: "list_all closing zs \<Longrightarrow> attempts zs = []"
  by (induction zs) (auto simp: closing_def)

lemma attempts_of_attempt: "attempts (wi_out (at_wire (run_attempt calls i w))) = attempts (wi_out w)"
  using run_attempt_sends [of i w calls] by (auto simp: attempt_sends_def)

lemma attempts_ended:
  assumes "wire_flush (at_held (run_attempt calls i w)) (at_wire (run_attempt calls i w)) = (w2, ok)"
  shows "attempts (wi_out w2) = attempts (wi_out w)"
    "attempts (wi_out (fst (wire_send (Errored es) w2))) = attempts (wi_out w)"
proof -
  have held: "list_all (from_attempt i) (at_held (run_attempt calls i w))"
    using run_attempt_sends [of i w calls] by (auto simp: attempt_sends_def)
  obtain hs where hs: "wi_out w2 = wi_out (at_wire (run_attempt calls i w)) @ hs" "list_all (from_attempt i) hs"
    by (rule flush_forwards [OF assms held])
  obtain zs where zs: "wi_out (fst (wire_send (Errored es) w2)) = wi_out w2 @ zs" "list_all closing zs"
    by (rule send_closing [of "Errored es" w2]) (auto simp: closing_def)
  show "attempts (wi_out w2) = attempts (wi_out w)" using hs by (simp add: attempts_of_attempt)
  then show "attempts (wi_out (fst (wire_send (Errored es) w2))) = attempts (wi_out w)" using zs by simp
qed

lemma relay_attempts:
  assumes "relay failover calls p is reason w res fs = (w', res')"
  shows "\<exists>bs. attempts (wi_out w') = attempts (wi_out w) @ bs \<and> set bs \<subseteq> set is \<and>
    (distinct is \<longrightarrow> distinct bs) \<and> (pl_hard p \<longrightarrow> length bs \<le> 1)"
  using assms
proof (induction "is" arbitrary: reason w res fs rule: length_induct)
  case (1 "is")
  show ?case
  proof (cases "is")
    case Nil
    obtain zs where "wi_out (fst (wire_send (Exhausted fs) w)) = wi_out w @ zs" "list_all closing zs"
      by (rule send_closing [of "Exhausted fs" w]) (auto simp: closing_def)
    then show ?thesis using 1(2) Nil by (intro exI [of _ "[]"]) (auto simp: relay.simps)
  next
    case (Cons i is1)
    have sent: "attempts (wi_out w1) = attempts (wi_out w) @ [i]" if "wire_send (Attempt i reason) w = (w1, True)" for w1
      using that by (auto elim!: wire_send_cases)
    from 1(2) [unfolded Cons] show ?thesis
    proof (cases rule: relay_cases)
      case quiet
      then show ?thesis by (intro exI [of _ "[]"]) simp
    next
      case (served w1 a)
      then show ?thesis using sent Cons by (intro exI [of _ "[i]"]) (simp add: attempts_of_attempt)
    next
      case (stopped w1 a)
      then show ?thesis using sent Cons by (intro exI [of _ "[i]"]) (simp add: attempts_of_attempt)
    next
      case (ended w1 a e w2 ok)
      then show ?thesis using sent Cons attempts_ended [of calls i w1 w2 ok]
        by (intro exI [of _ "[i]"]) (auto split: if_splits)
    next
      case (moved w1 a e is' reason')
      have "length is' < length is" using length_reroute [of is1 i "pl_cands p" e] moved(7) Cons by simp
      then obtain bs where bs: "attempts (wi_out w') = attempts (wi_out (at_wire a)) @ bs" "set bs \<subseteq> set is'"
          "distinct is' \<longrightarrow> distinct bs"
        using 1(1) [rule_format, OF _ moved(8)] by blast
      then show ?thesis using sent [OF moved(1)] moved(2,6) Cons reroute_subset [OF moved(7)]
        by (intro exI [of _ "i # bs"]) (auto simp: attempts_of_attempt)
    qed
  qed
qed

section \<open>What the caller receives when it does not cancel\<close>

fun is_content :: "sent \<Rightarrow> bool" where
  "is_content (Forward i d) = content_delta d"
| "is_content x = False"

fun is_failure :: "route_delta \<Rightarrow> bool" where
  "is_failure (Failure e) = True"
| "is_failure d = False"

lemma flush_all: "wi_room w = None \<Longrightarrow> wire_flush h w = (w\<lparr>wi_out := wi_out w @ h\<rparr>, True)"
  by (induction h arbitrary: w) (simp_all add: wire_send_def)

lemma send_open: "wi_room w = None \<Longrightarrow> wire_send x w = (w\<lparr>wi_out := wi_out w @ [x]\<rparr>, True)"
  by (simp add: wire_send_def)

definition delivered :: "profile_id \<Rightarrow> route_delta list \<Rightarrow> wire \<Rightarrow> sent list \<Rightarrow> usage_delta \<Rightarrow> attempt \<Rightarrow> bool" where
  "delivered i ds w h u a =
     (at_end a \<noteq> Stopped \<and> wi_room (at_wire a) = None \<and>
      (at_end a = Served \<longrightarrow> list_all (\<lambda>d. \<not> is_failure d) ds \<and> at_usage a = foldl add_usage u ds \<and>
        filter is_content (wi_out (at_wire a)) =
          filter is_content (wi_out w) @ filter is_content h @ map (Forward i) (filter content_delta ds)))"

lemma read_delivers: "wi_room w = None \<Longrightarrow> delivered i ds w h u (read_attempt i ds w c h u)"
proof (induction ds arbitrary: w c h u)
  case Nil
  then show ?case by (simp add: read_end cancelled_def flush_all delivered_def)
next
  case (Cons d ds)
  then have live: "\<not> cancelled w" by (simp add: cancelled_def)
  have flushed: ?case if d: "content_delta d" "\<not> meta_delta d \<or> c"
  proof -
    have "\<not> is_failure d" using d by (cases d) (auto simp: content_delta_def)
    then show ?thesis
      using Cons.IH [of "w\<lparr>wi_out := wi_out w @ h @ [Forward i d]\<rparr>" "[]" "add_usage u d" True] Cons.prems live d
      by (simp add: read_content flush_all delivered_def)
  qed
  show ?case
  proof (cases d rule: delta_cases)
    case (failure e)
    then show ?thesis using live Cons.prems by (simp add: read_failure delivered_def)
  next
    case finished
    then show ?thesis using live Cons by (simp add: read_finished delivered_def content_delta_def add_usage_def)
  next
    case (conversion x)
    then show ?thesis
      using live Cons.prems Cons.IH [of "w\<lparr>wi_out := wi_out w @ [Forward i (ConversionDone x)]\<rparr>" h u c]
      by (simp add: read_conversion send_open delivered_def content_delta_def add_usage_def)
  next
    case meta
    have "\<not> is_failure d" using meta by (cases d) (auto simp: content_delta_def)
    then show ?thesis using flushed live meta Cons.prems Cons.IH [of w "h @ [Forward i d]" "add_usage u d" c]
      by (cases c) (simp_all add: read_held delivered_def)
  next
    case emits
    then show ?thesis using flushed by simp
  qed
qed

definition answered :: "(profile_id \<Rightarrow> provider_failure + route_delta list) \<Rightarrow> profile_id list \<Rightarrow> sent list \<Rightarrow>
    sent list \<Rightarrow> route_outcome \<Rightarrow> bool" where
  "answered calls is out out' res =
     ((\<exists>i ds. i \<in> set is \<and> calls i = Inr ds \<and> list_all (\<lambda>d. \<not> is_failure d) ds \<and> ro_served res = i \<and>
        ro_usage res = foldl add_usage empty_usage ds \<and> list_all (\<lambda>x. \<not> closing x) out' \<and>
        filter is_content out' = filter is_content out @ map (Forward i) (filter content_delta ds)) \<or>
      (ro_served res = [] \<and> (\<exists>xs x. out' = xs @ [x] \<and> closing x \<and> list_all (\<lambda>x. \<not> closing x) xs)))"

lemma not_closing: "list_all (from_attempt i) ys \<Longrightarrow> list_all (\<lambda>x. \<not> closing x) ys"
  by (auto simp: list_all_iff from_attempt_def closing_def)

lemma no_content: "list_all (conversion i) ys \<Longrightarrow> filter is_content ys = []"
  by (induction ys) (auto simp: conversion_def content_delta_def)

lemma answered_error:
  assumes "ro_served res = []" "closing x" "list_all (\<lambda>x. \<not> closing x) xs"
  shows "answered calls is out (xs @ [x]) res"
  unfolding answered_def using assms by blast

lemma answered_error_wire:
  assumes "wi_room w = None" "ro_served res = []" "closing x" "list_all (\<lambda>x. \<not> closing x) (wi_out w)"
  shows "answered calls is out (wi_out (fst (wire_send x w))) res"
  using answered_error [OF assms(2-4)] assms(1) by (simp add: send_open)

lemma answered_moved:
  assumes "answered calls is' out out' res" "set is' \<subseteq> set is" "filter is_content out = filter is_content out0"
  shows "answered calls is out0 out' res"
  using assms unfolding answered_def by auto

lemma run_attempt_open:
  assumes "wi_room w = None" "a = run_attempt calls i w"
  shows "wi_room (at_wire a) = None" "at_end a \<noteq> Stopped"
    "at_end a = Served \<Longrightarrow> \<exists>ds. calls i = Inr ds \<and> delivered i ds w [] empty_usage a"
    "list_all (\<lambda>x. \<not> closing x) (wi_out w) \<Longrightarrow> list_all (\<lambda>x. \<not> closing x) (wi_out (at_wire a))"
    "\<lbrakk>at_end a \<noteq> Served; \<not> at_committed a\<rbrakk> \<Longrightarrow> filter is_content (wi_out (at_wire a)) = filter is_content (wi_out w)"
proof -
  have d: "delivered i ds w [] empty_usage a" if "calls i = Inr ds" for ds
    using read_delivers [OF assms(1)] assms(2) that by (simp add: run_attempt_def)
  show "wi_room (at_wire a) = None" "at_end a \<noteq> Stopped"
    "at_end a = Served \<Longrightarrow> \<exists>ds. calls i = Inr ds \<and> delivered i ds w [] empty_usage a"
    using d assms by (cases "calls i"; force simp: run_attempt_def delivered_def)+
  show "list_all (\<lambda>x. \<not> closing x) (wi_out w) \<Longrightarrow> list_all (\<lambda>x. \<not> closing x) (wi_out (at_wire a))"
    "\<lbrakk>at_end a \<noteq> Served; \<not> at_committed a\<rbrakk> \<Longrightarrow> filter is_content (wi_out (at_wire a)) = filter is_content (wi_out w)"
    using run_attempt_sends [of i w calls] not_closing no_content by (auto simp: attempt_sends_def assms(2))
qed

lemma relay_answers:
  assumes "relay failover calls p is reason w res fs = (w', res')" "ro_served res = []" "[] \<notin> set is"
    and "wi_room w = None" "list_all (\<lambda>x. \<not> closing x) (wi_out w)"
  shows "answered calls is (wi_out w) (wi_out w') res'"
  using assms
proof (induction "is" arbitrary: reason w res fs rule: length_induct)
  case (1 "is")
  show ?case
  proof (cases "is")
    case Nil
    then show ?thesis using 1 answered_error_wire [of w res "Exhausted fs"] by (auto simp: relay.simps closing_def)
  next
    case (Cons i is1)
    have live: "\<not> cancelled w" using 1(5) by (simp add: cancelled_def)
    define w1 where "w1 = w\<lparr>wi_out := wi_out w @ [Attempt i reason]\<rparr>"
    have w1: "wire_send (Attempt i reason) w = (w1, True)" "wi_room w1 = None"
        "list_all (\<lambda>x. \<not> closing x) (wi_out w1)" "filter is_content (wi_out w1) = filter is_content (wi_out w)"
      using 1(5,6) by (simp_all add: send_open w1_def closing_def)
    from 1(2) [unfolded Cons] show ?thesis
    proof (cases rule: relay_cases)
      case quiet
      then show ?thesis using live by simp
    next
      case (served w2 a)
      then have "w2 = w1" using w1 by simp
      note a = run_attempt_open [OF w1(2) served(2) [unfolded this]]
      obtain ds where "calls i = Inr ds" "delivered i ds w1 [] empty_usage a" using a(3) served(3) by blast
      then show ?thesis
        unfolding answered_def using served a(4) w1(3,4) Cons by (intro disjI1 exI [of _ i] exI [of _ ds]) (simp add: delivered_def)
    next
      case (stopped w2 a)
      then have "w2 = w1" using w1 by simp
      note a = run_attempt_open [OF w1(2) stopped(2) [unfolded this]]
      show ?thesis using a(1,2) stopped(3) by (simp add: cancelled_def)
    next
      case (ended w2 a e w3 ok)
      then have "w2 = w1" using w1 by simp
      note a = run_attempt_open [OF w1(2) ended(2) [unfolded this]]
      have held: "list_all (from_attempt i) (at_held a)"
        using run_attempt_sends [of i w2 calls] ended(2) by (auto simp: attempt_sends_def)
      have "wi_room w3 = None" "ok" "list_all (\<lambda>x. \<not> closing x) (wi_out w3)"
        using ended(5) a(1,4) w1(3) not_closing [OF held] by (auto simp: flush_all)
      then show ?thesis using ended(6,7) 1(3) answered_error_wire [of w3 res' "Errored [e]"]
        by (simp add: note_failure_def closing_def)
    next
      case (moved w2 a e is' reason')
      then have "w2 = w1" using w1 by simp
      note a = run_attempt_open [OF w1(2) moved(2) [unfolded this]]
      have "length is' < length is" using length_reroute [of is1 i "pl_cands p" e] moved(7) Cons by simp
      moreover have sub: "set is' \<subseteq> set is" using reroute_subset [OF moved(7)] Cons by auto
      ultimately have "answered calls is' (wi_out (at_wire a)) (wi_out w') res'"
        using 1(1) [rule_format, OF _ moved(8)] 1(3,4) a(1,4) w1(3) by (auto simp: note_failure_def)
      then show ?thesis using answered_moved sub a(5) moved(3,4) w1(4) by auto
    qed
  qed
qed

end
