(* ===== verification/Route_Plan.thy ===== *)
theory Route_Plan
  imports Router
begin

text \<open>
  Lemmas on the plan of a request (\<open>agent/provider/router/router.go\<close> and \<open>state.go\<close>): which profiles it
  may name, what a pin and a lock do to the order, and that the policies \<open>Affinity\<close> and \<open>Sticky\<close> order
  every candidate exactly once.
\<close>

section \<open>Candidates\<close>

definition eligible_offer :: "offer list \<Rightarrow> candidate \<Rightarrow> bool" where
  "eligible_offer offers c = ((c, None) \<in> set offers)"

definition may_serve :: "profile_id list option \<Rightarrow> profile_id \<Rightarrow> bool" where
  "may_serve members i = (case members of None \<Rightarrow> True | Some ms \<Rightarrow> i \<in> set ms)"

lemma collect_append:
  "collect_candidates members prev (os @ [x]) = collect_one members prev (collect_candidates members prev os) x"
  by (simp add: collect_candidates_def)

lemma collected_list:
  "cl_list (collect_candidates members prev offers) =
     map fst (filter (\<lambda>(c, bad). may_serve members (cd_id c) \<and> bad = None) offers)"
proof (induction offers rule: rev_induct)
  case (snoc x xs)
  then show ?case
    by (cases x; cases "snd x"; cases members)
      (auto simp: collect_append collect_one_def may_serve_def)
qed (simp add: collect_candidates_def)

lemma collected_cands:
  "map_of (cl_cands (collect_candidates members prev offers)) i = Some c \<Longrightarrow>
     cd_id c = i \<and> eligible_offer offers c \<and> (may_serve members i \<or> i = prev)"
proof (induction offers rule: rev_induct)
  case (snoc x xs)
  then show ?case
    by (cases x; cases "snd x"; cases members)
      (auto simp: collect_append collect_one_def may_serve_def eligible_offer_def update_conv split: if_splits)
qed (simp add: collect_candidates_def)

lemma collected_has:
  "eligible_offer offers c \<Longrightarrow> may_serve members (cd_id c) \<or> cd_id c = prev \<Longrightarrow>
     map_of (cl_cands (collect_candidates members prev offers)) (cd_id c) \<noteq> None"
proof (induction offers rule: rev_induct)
  case (snoc x xs)
  then show ?case
    by (cases x; cases "snd x"; cases members)
      (auto simp: collect_append collect_one_def may_serve_def eligible_offer_def update_conv split: if_splits)
qed (simp add: eligible_offer_def)

lemma order_ok_iff:
  "order_ok cands is seen = None \<longleftrightarrow>
     distinct is \<and> set is \<inter> set seen = {} \<and> (\<forall>i \<in> set is. map_of cands i \<noteq> None)"
  by (induction "is" arbitrary: seen) auto

lemma decision_ok:
  assumes "decision_error cl d = Inr rd"
  shows "d = Inr rd" "rd_order rd \<noteq> []" "distinct (rd_order rd)"
    "\<And>i. i \<in> set (rd_order rd) \<Longrightarrow> map_of (cl_cands cl) i \<noteq> None"
    "rd_profile rd = [] \<or> rd_profile rd \<in> set (rd_order rd)"
    "rd_probe rd = [] \<or> rd_probe rd \<in> set (rd_order rd)"
  using assms by (auto simp: decision_error_def order_ok_iff split: sum.splits if_splits option.splits)

section \<open>Pins and locks\<close>

lemma set_move_first: "set (move_first order i) = insert i (set order)"
  by (auto simp: move_first_def)

lemma distinct_move_first: "distinct order \<Longrightarrow> distinct (move_first order i)"
  by (simp add: move_first_def)

lemma hd_move_first [simp]: "hd (move_first order i) = i" "move_first order i \<noteq> []"
  by (simp_all add: move_first_def)

text \<open>What the pins and locks leave of a plan, whichever of the cases applies.\<close>

definition plan_within :: "profile_id set \<Rightarrow> plan \<Rightarrow> bool" where
  "plan_within S p = (distinct (pl_order p) \<and> set (pl_order p) \<subseteq> S \<and> pl_switch p \<in> insert [] S \<and> pl_probe p \<in> insert [] S)"

lemma pins_and_locks:
  assumes "apply_pins_and_locks st locks grp p = Returned p'" "plan_within S p"
    and last: "locks = [] \<or> rs_last st \<in> S" and cands: "dom (map_of (pl_cands p)) \<subseteq> S"
  shows "plan_within S p' \<and> pl_cands p' = pl_cands p \<and> pl_follow p' = pl_follow p"
proof -
  have pin: "rs_pin st \<in> S" if "map_of (pl_cands p) (rs_pin st) \<noteq> None"
    using that cands by blast
  have prior: "rs_last st \<in> S" if "map_of (pl_cands p) (rs_last st) \<noteq> None"
    using that cands by blast
  have first: "hd (pl_order p) \<in> S" if "pl_order p \<noteq> []"
    using that assms(2) hd_in_set [OF that] by (auto simp: plan_within_def)
  show ?thesis
  proof (cases "has_hard_lock locks")
    case True
    then have "locks \<noteq> []" by (auto simp: has_hard_lock_def)
    then show ?thesis using True assms(1) last by (auto simp: apply_pins_and_locks_def plan_within_def)
  next
    case False
    then show ?thesis using assms(1,2) pin prior first unfolding apply_pins_and_locks_def plan_within_def
      by (simp split: if_splits) (auto simp: set_move_first distinct_move_first)
  qed
qed

lemma hard_lock_order:
  assumes "apply_pins_and_locks st locks grp p = Returned p'" "has_hard_lock locks"
  shows "pl_order p' = [rs_last st]" "pl_hard p'"
  using assms by (auto simp: apply_pins_and_locks_def)

section \<open>The whole plan\<close>

lemma make_plan_unfold:
  assumes gm: "gm = group_members cf (rs_pin st)"
    and cl: "cl = collect_candidates (fst gm) (rs_last st) (rq_offers q)"
    and locks: "locks = (if map_of (cl_cands cl) (rs_last st) \<noteq> None
        then detect_locks (rq_messages q) (rq_reported_locks q) else [])"
    and rx: "rx = \<lparr>rx_candidates = cl_list cl,
        rx_estimated = (if cl_list cl = [] then rq_flat_estimate q else cl_estimated cl), rx_pinned = rs_pin st, rx_locks = locks\<rparr>"
    and st': "st' = effective_state (cf_ttl cf) now st (int (length (rq_messages q)))"
  shows "make_plan cf pol now st q = (case decision_error cl (ask_policy pol rx st') of
      Inl e \<Rightarrow> Returned (Inl e)
    | Inr rd \<Rightarrow> (case finish_plan cf pol st' q cl locks gm rd of
        Returned p \<Rightarrow> Returned (Inr p) | Panicked \<Rightarrow> Panicked | Blocked \<Rightarrow> Blocked))"
  unfolding make_plan_def Let_def
  unfolding gm [symmetric]
  unfolding cl [symmetric]
  unfolding locks [symmetric]
  unfolding rx [symmetric] st' [symmetric] ..

lemma make_plan_cases:
  assumes "make_plan cf pol now st q = Returned (Inr p)"
    and cl: "cl = collect_candidates (fst (group_members cf (rs_pin st))) (rs_last st) (rq_offers q)"
    and locks: "locks = (if map_of (cl_cands cl) (rs_last st) \<noteq> None
        then detect_locks (rq_messages q) (rq_reported_locks q) else [])"
  obtains rx st' rd p0 p1 where
    "decision_error cl (ask_policy pol rx st') = Inr rd" "rx_candidates rx = cl_list cl" "rx_locks rx = locks"
    "rs_last st' = rs_last st" "rs_pin st' = rs_pin st" "rs_profile st' = rs_profile st"
    "pl_order p0 = (case fst (group_members cf (rs_pin st)) of Some ms \<Rightarrow> group_order (rd_order rd) ms | None \<Rightarrow> rd_order rd)"
    "pl_cands p0 = cl_cands cl" "pl_probe p0 = rd_probe rd" "pl_follow p0 = follows pol" "\<not> pl_hard p0"
    "pl_switch p0 \<noteq> [] \<longrightarrow> pl_switch p0 = rd_profile rd \<or> pl_order p0 \<noteq> [] \<and> pl_switch p0 = hd (pl_order p0)"
    "apply_pins_and_locks st' locks (snd (group_members cf (rs_pin st))) p0 = Returned p1"
    "pl_order p = pl_order p1" "pl_hard p = pl_hard p1" "pl_probe p = pl_probe p1" "pl_cands p = pl_cands p1"
    "pl_follow p = pl_follow p1" "pl_switch p = [] \<or> pl_switch p = pl_switch p1" "pl_locks p = pl_locks p1" "pl_reason p = pl_reason p1"
proof -
  define gm where "gm = group_members cf (rs_pin st)"
  define rx where "rx = \<lparr>rx_candidates = cl_list cl,
      rx_estimated = (if cl_list cl = [] then rq_flat_estimate q else cl_estimated cl), rx_pinned = rs_pin st, rx_locks = locks\<rparr>"
  define st' where "st' = effective_state (cf_ttl cf) now st (int (length (rq_messages q)))"
  have keeps: "rs_last st' = rs_last st" "rs_pin st' = rs_pin st" "rs_profile st' = rs_profile st"
    by (simp_all add: st'_def effective_state_def)
  obtain rd where rd: "decision_error cl (ask_policy pol rx st') = Inr rd"
      and fin: "finish_plan cf pol st' q cl locks gm rd = Returned p"
    using assms(1)
    unfolding make_plan_unfold [OF gm_def cl [folded gm_def] locks rx_def st'_def]
    by (auto split: sum.splits effect.splits)
  define order where "order = (case fst gm of Some ms \<Rightarrow> group_order (rd_order rd) ms | None \<Rightarrow> rd_order rd)"
  define first where "first = (rd_profile rd = [] \<and> rs_profile st' = [] \<and> \<not> follows pol)"
  define p0 where "p0 = \<lparr>pl_order = order,
      pl_reason = (if cl_skipped cl \<and> rd_reason rd = [] \<and> rq_has_options q then ''options'' else rd_reason rd),
      pl_cands = cl_cands cl, pl_home = rs_profile st', pl_switch = (if first then hd order else rd_profile rd),
      pl_probe = rd_probe rd, pl_follow = follows pol, pl_hard = False, pl_messages = int (length (rq_messages q)),
      pl_locks = locks\<rparr>"
  have ne: "\<not> (first \<and> order = [])"
    using fin unfolding finish_plan_def Let_def order_def [symmetric] first_def [symmetric] by (auto split: if_splits)
  obtain p1 where p1: "apply_pins_and_locks st' locks (snd gm) p0 = Returned p1"
      and p: "p = (let p = (if pl_switch p1 \<noteq> [] then p1\<lparr>pl_home := pl_switch p1\<rparr> else p1)
               in if pl_follow p then p\<lparr>pl_switch := []\<rparr> else p)"
    using fin ne unfolding finish_plan_def Let_def order_def [symmetric] first_def [symmetric] p0_def [symmetric]
    by (auto split: effect.splits if_splits)
  show ?thesis
    by (rule that [OF rd, of p0 p1]) (use keeps ne p1 p in \<open>simp_all add: rx_def p0_def order_def gm_def Let_def\<close>)
qed

section \<open>Policies\<close>

lemma rotate_order_rotate: "rotate_order c s = map cd_id (rotate s c)"
  by (rule nth_equalityI) (simp_all add: rotate_order_def nth_rotate)

lemma rotate_order_set: "set (rotate_order c s) = cd_id ` set c" "distinct (rotate_order c s) = distinct (map cd_id c)"
  by (simp_all add: rotate_order_rotate flip: rotate_map)

lemma rotate_order_hd: "s < length c \<Longrightarrow> rotate_order c s \<noteq> [] \<and> hd (rotate_order c s) = cd_id (c ! s)"
  by (cases c) (auto simp: rotate_order_def hd_map upt_rec)

lemma index_where_Some: "index_where P xs = Some n \<Longrightarrow> n < length xs \<and> P (xs ! n)"
  by (induction xs arbitrary: n) (auto split: if_splits)

lemma index_where_None: "index_where P xs = None \<longleftrightarrow> (\<forall>x \<in> set xs. \<not> P x)"
  by (induction xs) auto

lemma first_fit_Some: "first_fit rx s skip = Some n \<Longrightarrow> n < length (rx_candidates rx)"
proof -
  assume "first_fit rx s skip = Some n"
  then have "n \<in> (\<lambda>k. (s + k) mod length (rx_candidates rx)) ` {0..<length (rx_candidates rx)}"
    by (auto simp: first_fit_def Let_def find_Some_iff)
  then show ?thesis by (cases "rx_candidates rx") auto
qed

text \<open>A decision that orders every candidate once and moves the session only to the profile it tries first.\<close>

definition full_decision :: "candidate list \<Rightarrow> route_decision \<Rightarrow> bool" where
  "full_decision c rd =
     (rd_order rd \<noteq> [] \<and> distinct (rd_order rd) \<and> set (rd_order rd) = cd_id ` set c \<and>
      (rd_profile rd \<noteq> [] \<longrightarrow> rd_profile rd = hd (rd_order rd)) \<and>
      (rd_probe rd \<noteq> [] \<longrightarrow> rd_probe rd = hd (rd_order rd)))"

lemma full_stay_on: "distinct (map cd_id c) \<Longrightarrow> i < length c \<Longrightarrow> full_decision c (stay_on c i)"
  using rotate_order_hd [of i c] by (simp add: full_decision_def stay_on_def rotate_order_set)

lemma full_move_to: "distinct (map cd_id c) \<Longrightarrow> i < length c \<Longrightarrow> full_decision c (move_to c i r)"
  using rotate_order_hd [of i c] by (simp add: full_decision_def move_to_def rotate_order_set)

lemma full_probe:
  assumes "distinct (map cd_id c)" "i < length c" "pos < length c" "i \<noteq> pos"
  shows "full_decision c (probe_order c i pos)"
proof -
  have "cd_id (c ! i) \<noteq> cd_id (c ! pos)" using assms by (auto simp: distinct_conv_nth)
  moreover have "distinct (map cd_id (filter P c))" for P using assms(1) by (simp add: distinct_map_filter)
  ultimately show ?thesis using assms(2,3) by (auto simp: full_decision_def probe_order_def)
qed

lemma affinity_full:
  assumes "distinct (map cd_id (rx_candidates rx))" "rx_candidates rx \<noteq> []"
  shows "\<exists>rd. affinity_select a rx st = Inr rd \<and> full_decision (rx_candidates rx) rd"
proof (cases "index_where (\<lambda>x. cd_id x = rs_profile st) (rx_candidates rx)")
  case None
  have "or_index (first_fit rx 0 None) 0 < length (rx_candidates rx)"
    using assms(2) first_fit_Some by (auto simp: or_index_def split: option.splits)
  then show ?thesis using None assms full_stay_on full_move_to by (simp add: affinity_select_def Let_def)
next
  case (Some pos)
  have pos: "pos < length (rx_candidates rx)" using index_where_Some [OF Some] by simp
  have after: "or_index (first_fit rx (pos + 1) (Some pos)) ((pos + 1) mod length (rx_candidates rx)) < length (rx_candidates rx)"
    using assms(2) first_fit_Some by (auto simp: or_index_def split: option.splits)
  show ?thesis
    using Some assms pos after full_stay_on full_move_to full_probe first_fit_Some
    by (auto simp: affinity_select_def Let_def split: option.splits)
qed

lemma sticky_full:
  assumes "distinct (map cd_id c)"
  shows "distinct (sticky_order c prev failed)" "set (sticky_order c prev failed) = cd_id ` set c"
  using assms by (simp_all add: sticky_order_def rotate_order_set)

lemma apply_pins_total:
  assumes "pl_order p \<noteq> []" "distinct (pl_order p)"
  shows "\<exists>p'. apply_pins_and_locks st locks grp p = Returned p' \<and>
    (has_hard_lock locks \<and> pl_hard p' \<and> pl_order p' = [rs_last st] \<or>
     \<not> has_hard_lock locks \<and> pl_hard p' = pl_hard p \<and> distinct (pl_order p') \<and> set (pl_order p) \<subseteq> set (pl_order p') \<and>
     set (pl_order p') \<subseteq> set (pl_order p) \<union> dom (map_of (pl_cands p)) \<and>
     (rs_pin st \<noteq> [] \<and> map_of (pl_cands p) (rs_pin st) \<noteq> None \<longrightarrow> hd (pl_order p') = rs_pin st))"
  using assms by (auto simp: apply_pins_and_locks_def set_move_first distinct_move_first)

text \<open>The policies of the package, and the profiles that can serve a request.\<close>

definition package_policy :: "router_policy \<Rightarrow> bool" where
  "package_policy pol =
     ((\<exists>a. pol = SessionPolicy (affinity_select a)) \<or> pol = PlainPolicy (\<lambda>c prev failed. Inr (sticky_order c prev failed)))"

definition servable :: "router_config \<Rightarrow> route_state \<Rightarrow> route_request \<Rightarrow> profile_id set" where
  "servable cf st q =
     {cd_id c | c. eligible_offer (rq_offers q) c \<and> may_serve (fst (group_members cf (rs_pin st))) (cd_id c)}"

lemma servable_list:
  "servable cf st q = cd_id ` set (cl_list (collect_candidates (fst (group_members cf (rs_pin st))) prev (rq_offers q)))"
  by (auto simp: servable_def collected_list eligible_offer_def image_iff)

lemma package_decides:
  assumes "package_policy pol" "distinct (map cd_id (rx_candidates rx))" "rx_candidates rx \<noteq> []"
  shows "\<exists>rd. ask_policy pol rx st = Inr rd \<and> full_decision (rx_candidates rx) rd"
proof (cases "\<exists>a. pol = SessionPolicy (affinity_select a)")
  case True
  then show ?thesis using affinity_full [OF assms(2,3)] by auto
next
  case False
  have "sticky_order (rx_candidates rx) p f \<noteq> []" for p f
    using sticky_full(2) [OF assms(2), of p f] assms(3) by (metis image_is_empty set_empty)
  then show ?thesis using False assms(1) sticky_full [OF assms(2)] by (auto simp: package_policy_def full_decision_def)
qed

lemma package_no_candidates:
  assumes "package_policy pol" "rx_candidates rx = []"
  shows "ask_policy pol rx st = Inl (ErrNoEligibleProfile []) \<or>
    (\<exists>rd. ask_policy pol rx st = Inr rd \<and> rd_order rd = [])"
  using assms by (auto simp: package_policy_def affinity_select_def sticky_order_def rotate_order_def)

lemma group_order_all: "set order \<subseteq> set ms \<Longrightarrow> group_order order ms = order"
  by (auto simp: group_order_def filter_id_conv)

lemma finish_full:
  assumes full: "full_decision (cl_list cl) rd" and grp: "\<And>ms. fst gm = Some ms \<Longrightarrow> cd_id ` set (cl_list cl) \<subseteq> set ms"
  shows "\<exists>p. finish_plan cf pol st q cl locks gm rd = Returned p \<and>
    (has_hard_lock locks \<and> pl_hard p \<and> pl_order p = [rs_last st] \<or>
     \<not> has_hard_lock locks \<and> \<not> pl_hard p \<and> distinct (pl_order p) \<and> cd_id ` set (cl_list cl) \<subseteq> set (pl_order p) \<and>
     set (pl_order p) \<subseteq> cd_id ` set (cl_list cl) \<union> dom (map_of (cl_cands cl)) \<and>
     (rs_pin st \<noteq> [] \<and> map_of (cl_cands cl) (rs_pin st) \<noteq> None \<longrightarrow> hd (pl_order p) = rs_pin st))"
proof -
  have order: "(case fst gm of Some ms \<Rightarrow> group_order (rd_order rd) ms | None \<Rightarrow> rd_order rd) = rd_order rd"
    using full grp group_order_all by (auto simp: full_decision_def split: option.splits)
  define first where "first = (rd_profile rd = [] \<and> rs_profile st = [] \<and> \<not> follows pol)"
  define p0 where "p0 = \<lparr>pl_order = rd_order rd,
      pl_reason = (if cl_skipped cl \<and> rd_reason rd = [] \<and> rq_has_options q then ''options'' else rd_reason rd),
      pl_cands = cl_cands cl, pl_home = rs_profile st, pl_switch = (if first then hd (rd_order rd) else rd_profile rd),
      pl_probe = rd_probe rd, pl_follow = follows pol, pl_hard = False, pl_messages = int (length (rq_messages q)),
      pl_locks = locks\<rparr>"
  have p0: "pl_order p0 \<noteq> []" "distinct (pl_order p0)" "set (pl_order p0) = cd_id ` set (cl_list cl)"
      "pl_hard p0 = False" "pl_cands p0 = cl_cands cl"
    using full by (simp_all add: p0_def full_decision_def)
  obtain p1 where p1: "apply_pins_and_locks st locks (snd gm) p0 = Returned p1"
      "has_hard_lock locks \<and> pl_hard p1 \<and> pl_order p1 = [rs_last st] \<or>
       \<not> has_hard_lock locks \<and> pl_hard p1 = pl_hard p0 \<and> distinct (pl_order p1) \<and> set (pl_order p0) \<subseteq> set (pl_order p1) \<and>
       set (pl_order p1) \<subseteq> set (pl_order p0) \<union> dom (map_of (pl_cands p0)) \<and>
       (rs_pin st \<noteq> [] \<and> map_of (pl_cands p0) (rs_pin st) \<noteq> None \<longrightarrow> hd (pl_order p1) = rs_pin st)"
    using apply_pins_total [OF p0(1,2)] by blast
  have "rd_order rd \<noteq> []" using full by (simp add: full_decision_def)
  then have "finish_plan cf pol st q cl locks gm rd = Returned (let p = (if pl_switch p1 \<noteq> [] then p1\<lparr>pl_home := pl_switch p1\<rparr> else p1)
      in if pl_follow p then p\<lparr>pl_switch := []\<rparr> else p)"
    unfolding finish_plan_def Let_def order first_def [symmetric] p0_def [symmetric] p1(1) by simp
  then show ?thesis using p1(2) p0(3-5) by (simp add: Let_def)
qed

lemma package_plan:
  assumes pol: "package_policy pol" and ids: "distinct (map (cd_id \<circ> fst) (rq_offers q))"
  shows "if servable cf st q = {} then \<exists>why. make_plan cf pol now st q = Returned (Inl (ErrNoEligibleProfile why))
    else \<exists>p. make_plan cf pol now st q = Returned (Inr p) \<and>
      (pl_hard p \<and> pl_order p = [rs_last st] \<or>
       \<not> pl_hard p \<and> distinct (pl_order p) \<and> servable cf st q \<subseteq> set (pl_order p) \<and>
       set (pl_order p) \<subseteq> insert (rs_last st) (servable cf st q) \<and>
       (rs_pin st \<in> servable cf st q - {[]} \<longrightarrow> hd (pl_order p) = rs_pin st))"
proof -
  define gm where "gm = group_members cf (rs_pin st)"
  define cl where "cl = collect_candidates (fst gm) (rs_last st) (rq_offers q)"
  define locks where "locks = (if map_of (cl_cands cl) (rs_last st) \<noteq> None
      then detect_locks (rq_messages q) (rq_reported_locks q) else [])"
  define rx where "rx = \<lparr>rx_candidates = cl_list cl,
      rx_estimated = (if cl_list cl = [] then rq_flat_estimate q else cl_estimated cl), rx_pinned = rs_pin st, rx_locks = locks\<rparr>"
  define st' where "st' = effective_state (cf_ttl cf) now st (int (length (rq_messages q)))"
  note plan = make_plan_unfold [OF gm_def cl_def locks_def rx_def st'_def]
  have keeps: "rs_last st' = rs_last st" "rs_pin st' = rs_pin st" by (simp_all add: st'_def effective_state_def)
  have serv: "servable cf st q = cd_id ` set (cl_list cl)"
    unfolding servable_list [where prev = "rs_last st"] by (simp add: cl_def gm_def)
  have cands: "map_of (cl_cands cl) (cd_id c) \<noteq> None" if "c \<in> set (cl_list cl)" for c
    using that collected_has [of "rq_offers q" c "fst gm" "rs_last st"]
    by (auto simp: cl_def collected_list eligible_offer_def)
  have dom: "dom (map_of (cl_cands cl)) \<subseteq> insert (rs_last st) (servable cf st q)"
    using collected_cands [of "fst gm" "rs_last st" "rq_offers q"] by (auto simp: cl_def gm_def servable_def)
  show ?thesis
  proof (cases "cl_list cl = []")
    case True
    then show ?thesis using package_no_candidates [OF pol, of rx st'] plan serv by (auto simp: rx_def decision_error_def)
  next
    case False
    have "distinct (map (cd_id \<circ> fst) (filter P (rq_offers q)))" for P using ids by (rule distinct_map_filter)
    then have "distinct (map cd_id (rx_candidates rx))" by (simp add: rx_def cl_def collected_list)
    from package_decides [OF pol this, of st'] False
    obtain rd where rd: "ask_policy pol rx st' = Inr rd" "full_decision (cl_list cl) rd" by (auto simp: rx_def)
    then have "order_ok (cl_cands cl) (rd_order rd) [] = None"
      using cands by (auto simp: order_ok_iff full_decision_def)
    then have "decision_error cl (ask_policy pol rx st') = Inr rd"
      using rd by (auto simp: decision_error_def full_decision_def)
    moreover have "cd_id ` set (cl_list cl) \<subseteq> set ms" if "fst gm = Some ms" for ms
      using that by (auto simp: cl_def collected_list may_serve_def)
    moreover have "S \<subseteq> cd_id ` set (cl_list cl) \<union> dom (map_of (cl_cands cl)) \<Longrightarrow> S \<subseteq> insert (rs_last st) (servable cf st q)" for S
      using dom serv by blast
    ultimately show ?thesis
      using finish_full [OF rd(2), of gm cf pol st' q locks] plan serv keeps cands False by fastforce
  qed
qed

end
