(* ===== verification/Router_Properties.thy ===== *)
theory Router_Properties
  imports Relay Route_Plan
begin

text \<open>
  The properties of the model router (\<open>agent/provider/router\<close>): what a request tries and what its caller
  receives, whatever policy, providers and moment of cancellation, and what a session keeps between requests.
\<close>

section \<open>Plans name eligible profiles\<close>

definition nameable :: "router_config \<Rightarrow> route_state \<Rightarrow> route_request \<Rightarrow> profile_id set" where
  "nameable cf st q =
     {cd_id c | c. eligible_offer (rq_offers q) c \<and>
        (may_serve (fst (group_members cf (rs_pin st))) (cd_id c) \<or> cd_id c = rs_last st)}"

lemma plan_names:
  assumes "make_plan cf pol now st q = Returned (Inr p)"
  shows "plan_within (nameable cf st q) p"
proof -
  define cl where "cl = collect_candidates (fst (group_members cf (rs_pin st))) (rs_last st) (rq_offers q)"
  define locks where "locks = (if map_of (cl_cands cl) (rs_last st) \<noteq> None
      then detect_locks (rq_messages q) (rq_reported_locks q) else [])"
  have dom: "dom (map_of (cl_cands cl)) \<subseteq> nameable cf st q"
    using collected_cands [of "fst (group_members cf (rs_pin st))" "rs_last st" "rq_offers q"]
    by (auto simp: cl_def nameable_def)
  show ?thesis
  proof (cases rule: make_plan_cases [OF assms cl_def locks_def])
    case (1 rx st' rd p0 p1)
    note rd = decision_ok [OF 1(1)]
    have order: "set (rd_order rd) \<subseteq> nameable cf st q" using rd(4) dom by blast
    have sub: "set (pl_order p0) \<subseteq> set (rd_order rd)" "distinct (pl_order p0)"
      using 1(7) rd(3) by (auto simp: group_order_def split: option.splits)
    have "pl_order p0 \<noteq> [] \<Longrightarrow> hd (pl_order p0) \<in> nameable cf st q"
      using hd_in_set [of "pl_order p0"] sub(1) order by blast
    then have "pl_switch p0 \<in> insert [] (nameable cf st q)" using 1(12) rd(5) order by auto
    then have "plan_within (nameable cf st q) p0" using 1(9) rd(6) order sub by (auto simp: plan_within_def)
    moreover have "locks = [] \<or> rs_last st' \<in> nameable cf st q"
      using dom 1(4) by (auto simp: locks_def)
    moreover have "dom (map_of (pl_cands p0)) \<subseteq> nameable cf st q" using dom 1(8) by simp
    ultimately have "plan_within (nameable cf st q) p1" using pins_and_locks [OF 1(13)] by blast
    then show ?thesis using 1(14-19) by (auto simp: plan_within_def)
  qed
qed

lemma hard_lock_plan:
  assumes "make_plan cf pol now st q = Returned (Inr p)"
    and "tool_loop_active (rq_messages q)" "signed_reasoning (rq_messages q)"
    and c: "eligible_offer (rq_offers q) c" "cd_id c = rs_last st"
  shows "pl_order p = [rs_last st]" "pl_hard p"
proof -
  define cl where "cl = collect_candidates (fst (group_members cf (rs_pin st))) (rs_last st) (rq_offers q)"
  define locks where "locks = (if map_of (cl_cands cl) (rs_last st) \<noteq> None
      then detect_locks (rq_messages q) (rq_reported_locks q) else [])"
  have "map_of (cl_cands cl) (rs_last st) \<noteq> None" using collected_has [OF c(1)] c(2) by (simp add: cl_def)
  moreover have "x \<in> set ls \<Longrightarrow> x \<in> set (foldl (\<lambda>ls l. if l \<in> set ls then ls else ls @ [l]) ls more')" for x :: string and ls more'
    by (induction more' arbitrary: ls) auto
  ultimately have hard: "has_hard_lock locks"
    using assms(2,3) by (auto simp: locks_def detect_locks_def has_hard_lock_def)
  show "pl_order p = [rs_last st]" "pl_hard p"
    by (cases rule: make_plan_cases [OF assms(1) cl_def locks_def]; use hard_lock_order [OF _ hard] in force)+
qed

lemma relay_outcome:
  assumes "relay failover calls p is reason w res fs = (w', res')"
  shows "ro_last res' \<in> insert (ro_last res) (set is) \<and> ro_served res' \<in> insert (ro_served res) (set is)"
  using assms
proof (induction "is" arbitrary: reason w res fs rule: length_induct)
  case (1 "is")
  show ?case
  proof (cases "is")
    case Nil
    then show ?thesis using 1(2) by (auto simp: relay.simps)
  next
    case (Cons i is1)
    from 1(2) [unfolded Cons] show ?thesis
    proof (cases rule: relay_cases)
      case (moved w1 a e is' reason')
      have "length is' < length is" using length_reroute [of is1 i "pl_cands p" e] moved(7) Cons by simp
      from 1(1) [rule_format, OF this moved(8)] show ?thesis
        using reroute_subset [OF moved(7)] Cons by (auto simp: note_failure_def)
    qed (auto simp: Cons note_failure_def)
  qed
qed

section \<open>Sessions\<close>

text \<open>
  A run of a session: requests begin and end, one at a time, and between or during them the session may refuse
  requests, be unpinned, or be restored. The second component is the plan in flight.
\<close>

definition request_of :: "router_config \<Rightarrow> string \<Rightarrow> route_request \<Rightarrow> bool" where
  "request_of cf pin q = ((pin = [] \<or> has_target cf pin) \<and> map (cd_id \<circ> fst) (rq_offers q) = cf_profiles cf)"

inductive session_run :: "router_config \<Rightarrow> router_policy \<Rightarrow> route_session \<Rightarrow> plan option \<Rightarrow> bool"
  for cf pol where
  run_start: "session_run cf pol (new_session cf) None"
| run_child: "session_run cf pol s fl \<Longrightarrow> pin = [] \<or> has_target cf pin \<Longrightarrow> session_run cf pol (child_session cf pin s) None"
| run_begin: "session_run cf pol s fl \<Longrightarrow> request_of cf pin q \<Longrightarrow>
    begin_request cf pol pin now q s = Returned (s', Inr p) \<Longrightarrow> session_run cf pol s' (Some p)"
| run_refuse: "session_run cf pol s fl \<Longrightarrow> request_of cf pin q \<Longrightarrow>
    begin_request cf pol pin now q s = Returned (s', Inl e) \<Longrightarrow> session_run cf pol s' fl"
| run_finish: "session_run cf pol s (Some p) \<Longrightarrow>
    relay failover calls p (pl_order p) (pl_reason p) w no_outcome [] = (w', res) \<Longrightarrow>
    session_run cf pol (end_request now p w' res s) None"
| run_unpin: "session_run cf pol s fl \<Longrightarrow> session_run cf pol (unpin s) fl"
| run_restore: "session_run cf pol s fl \<Longrightarrow> session_run cf pol (fst (restore_route_state cf st s)) fl"

definition names_ok :: "router_config \<Rightarrow> profile_id \<Rightarrow> bool" where
  "names_ok cf i = (i = [] \<or> i \<in> set (cf_profiles cf))"

definition state_ok :: "router_config \<Rightarrow> route_state \<Rightarrow> bool" where
  "state_ok cf st = (names_ok cf (rs_profile st) \<and> names_ok cf (rs_last st) \<and>
     (rs_pin st = [] \<or> has_target cf (rs_pin st)) \<and> (rs_last st = [] \<longrightarrow> \<not> rs_last_failed st) \<and>
     rs_revision st = cf_revision cf)"

definition plan_ok :: "router_config \<Rightarrow> plan \<Rightarrow> bool" where
  "plan_ok cf p = plan_within (set (cf_profiles cf)) p"

lemma names_ok_Nil [simp]: "names_ok cf []"
  by (simp add: names_ok_def)

lemma switch_to_ok: "state_ok cf st \<Longrightarrow> names_ok cf i \<Longrightarrow> state_ok cf (switch_to i st)"
  by (auto simp: switch_to_def state_ok_def)

lemma switch_to_keeps [simp]: "rs_last (switch_to i st) = rs_last st" "rs_last_failed (switch_to i st) = rs_last_failed st"
  by (simp_all add: switch_to_def)

lemma request_plan_ok:
  assumes "make_plan cf pol now st q = Returned (Inr p)" "request_of cf pin q"
  shows "plan_ok cf p"
proof -
  have "cd_id c \<in> set (cf_profiles cf)" if "eligible_offer (rq_offers q) c" for c
    using imageI [OF that [unfolded eligible_offer_def], of "cd_id \<circ> fst"] assms(2)
    by (metis comp_apply fst_conv request_of_def set_map)
  then have "nameable cf st q \<subseteq> set (cf_profiles cf)" by (auto simp: nameable_def)
  then show ?thesis using plan_names [OF assms(1)] by (auto simp: plan_ok_def plan_within_def)
qed

lemma begin_ok:
  assumes "begin_request cf pol pin now q s = Returned (s', r)" "state_ok cf (se_state s)" "request_of cf pin q"
  shows "state_ok cf (se_state s') \<and> (\<forall>p. r = Inr p \<longrightarrow> plan_ok cf p \<and> \<not> se_busy s \<and> se_busy s') \<and>
    (\<forall>e. r = Inl e \<longrightarrow> se_busy s' = se_busy s)"
proof (cases "se_busy s")
  case True
  then show ?thesis using assms by (auto simp: begin_request_def)
next
  case idle: False
  define st where "st = (if pin \<noteq> [] then (se_state s)\<lparr>rs_pin := pin\<rparr> else se_state s)"
  have st: "state_ok cf st" using assms(2,3) by (auto simp: st_def state_ok_def request_of_def)
  show ?thesis
  proof (cases "make_plan cf pol now st q")
    case (Returned x)
    show ?thesis
    proof (cases x)
      case (Inl e)
      then show ?thesis using assms(1) Returned idle st by (auto simp: begin_request_def st_def)
    next
      case (Inr p)
      have p: "plan_ok cf p" by (rule request_plan_ok [OF _ assms(3)]) (use Returned Inr in simp)
      then have "state_ok cf (switch_to (pl_switch p) st)"
        using switch_to_ok [OF st] by (auto simp: plan_ok_def plan_within_def names_ok_def)
      then have "state_ok cf (apply_plan p st)" by (simp add: apply_plan_def state_ok_def)
      then show ?thesis using assms(1) Returned Inr idle p by (auto simp: begin_request_def st_def)
    qed
  qed (use assms(1) idle in \<open>auto simp: begin_request_def st_def\<close>)
qed

lemma count_ok:
  assumes "state_ok cf st" "names_ok cf (ro_last res)" "ro_last res \<noteq> []"
  shows "state_ok cf (count_outcome res st)"
  using assms by (simp add: count_outcome_def state_ok_def Let_def)

lemma record_ok:
  assumes "state_ok cf st" "plan_ok cf p" "names_ok cf (ro_last res)" "ro_last res \<noteq> []" "names_ok cf (ro_served res)"
  shows "state_ok cf (record_outcome now p res st)"
proof -
  define st1 where "st1 = count_outcome res st"
  have "state_ok cf st1" using count_ok [OF assms(1,3,4)] by (simp add: st1_def)
  moreover have "names_ok cf (pl_probe p)" using assms(2) by (auto simp: plan_ok_def plan_within_def names_ok_def)
  ultimately have "state_ok cf (follow_outcome p res st1)"
    using switch_to_ok [of cf st1] assms(5) by (auto simp: follow_outcome_def state_ok_def)
  then show ?thesis by (simp add: record_outcome_def st1_def state_ok_def Let_def)
qed

lemma end_ok:
  assumes "state_ok cf (se_state s)" "plan_ok cf p"
    and "relay failover calls p (pl_order p) (pl_reason p) w no_outcome [] = (w', res)"
  shows "state_ok cf (se_state (end_request now p w' res s)) \<and> \<not> se_busy (end_request now p w' res s)"
proof -
  have "names_ok cf (ro_last res)" "names_ok cf (ro_served res)"
    using relay_outcome [OF assms(3)] assms(2) by (auto simp: plan_ok_def plan_within_def names_ok_def no_outcome_def)
  then show ?thesis using record_ok [OF assms(1,2)] assms(1) by (simp add: end_request_def)
qed

lemma drop_unknown_ok:
  "names_ok cf (rs_profile (drop_unknown cf st)) \<and> names_ok cf (rs_last (drop_unknown cf st)) \<and>
   (rs_pin (drop_unknown cf st) = [] \<or> has_target cf (rs_pin (drop_unknown cf st))) \<and>
   (rs_last (drop_unknown cf st) = [] \<longrightarrow> \<not> rs_last_failed (drop_unknown cf st))"
  by (simp add: drop_unknown_def names_ok_def has_profile_def Let_def)

lemma drop_unknown_same: "state_ok cf st \<Longrightarrow> drop_unknown cf st = st"
  by (cases st) (simp add: drop_unknown_def state_ok_def names_ok_def has_profile_def Let_def, blast)

lemma restore_ok:
  assumes "state_ok cf (se_state s)"
  shows "state_ok cf (se_state (fst (restore_route_state cf st s))) \<and> se_busy (fst (restore_route_state cf st s)) = se_busy s"
  using assms drop_unknown_ok [of cf st]
  by (auto simp: restore_route_state_def state_ok_def new_route_state_def Let_def)

lemma session_run_ok:
  assumes "session_run cf pol s fl"
  shows "state_ok cf (se_state s) \<and> se_busy s = (fl \<noteq> None) \<and> (\<forall>p. fl = Some p \<longrightarrow> plan_ok cf p)"
  using assms
proof (induction rule: session_run.induct)
  case run_start
  then show ?case by (simp add: new_session_def new_route_state_def state_ok_def)
next
  case (run_child s fl pin)
  then show ?case by (auto simp: child_session_def current_pin_def new_route_state_def state_ok_def)
next
  case (run_begin s fl pin q now s' p)
  then show ?case using begin_ok [OF run_begin.hyps(3)] by auto
next
  case (run_refuse s fl pin q now s' e)
  then show ?case using begin_ok [OF run_refuse.hyps(3)] by auto
next
  case (run_finish s p failover calls w w' res now)
  then show ?case using end_ok [OF _ _ run_finish.hyps(2)] by auto
next
  case (run_unpin s fl)
  then show ?case by (auto simp: unpin_def state_ok_def)
next
  case (run_restore s fl st)
  then show ?case using restore_ok [of cf s st] by auto
qed

lemma restore_same:
  assumes "state_ok cf st" "\<not> se_busy s"
  shows "restore_route_state cf st s = (s\<lparr>se_state := st\<rparr>, None)"
  using assms drop_unknown_same [OF assms(1)] by (simp add: restore_route_state_def state_ok_def)

section \<open>A small router\<close>

definition demo_profile :: "profile_id \<Rightarrow> int \<Rightarrow> candidate" where
  "demo_profile i window = \<lparr>cd_id = i, cd_window = window, cd_provider = ''lab'', cd_pricing = demo_card, cd_estimated = 10\<rparr>"

definition demo_router :: router_config where
  "demo_router = \<lparr>cf_profiles = [''a'', ''b''], cf_groups = [(''g'', [''b''])], cf_default = [], cf_revision = ''1'', cf_ttl = 300\<rparr>"

definition demo_request :: "message list \<Rightarrow> string option \<Rightarrow> route_request" where
  "demo_request ms bad = \<lparr>rq_messages = ms, rq_has_options = False,
     rq_offers = [(demo_profile ''a'' 100, bad), (demo_profile ''b'' 200, None)], rq_flat_estimate = 10, rq_reported_locks = []\<rparr>"

definition demo_loop :: "message list" where
  "demo_loop = [AssistantMessage [ThinkingPart ''x'' ''sig'', ToolCallPart ''c'' ''t''], UserMessage [ToolResultPart ''c'' ''ok'']]"

definition demo_policy :: router_policy where
  "demo_policy = SessionPolicy (affinity_select \<lparr>af_threshold = 1, af_reprobe = 0, af_max_cost = 0\<rparr>)"

definition demo_state :: route_state where
  "demo_state = (new_route_state ''1'')\<lparr>rs_profile := ''a'', rs_last := ''a''\<rparr>"

definition demo_calls :: "profile_id \<Rightarrow> provider_failure + route_delta list" where
  "demo_calls i = (if i = ''a'' then Inr [NestedRoute ''r'', Failure \<lparr>pf_text = ''503'', pf_context_length = False, pf_content_filter = False\<rparr>]
     else Inr [Output ''hi'', Finished])"

definition plan_of :: "(route_error + plan) effect \<Rightarrow> plan" where
  "plan_of r = (case r of Returned (Inr p) \<Rightarrow> p)"

definition demo_plan :: plan where
  "demo_plan = plan_of (make_plan demo_router demo_policy 0 demo_state (demo_request [] None))"

lemma demo_plan_made: "make_plan demo_router demo_policy 0 demo_state (demo_request [] None) = Returned (Inr demo_plan)"
  by code_simp

definition demo_wire :: wire where
  "demo_wire = \<lparr>wi_out = [], wi_room = None\<rparr>"

definition demo_run :: "wire \<times> route_outcome" where
  "demo_run = relay (\<lambda>e. True) demo_calls demo_plan (pl_order demo_plan) (pl_reason demo_plan) demo_wire no_outcome []"

lemma demo_run_out: "wi_out (fst demo_run) = [Attempt ''a'' [], Attempt ''b'' ''failover'', Forward ''b'' (Output ''hi'')]"
    "ro_served (snd demo_run) = ''b''"
  unfolding demo_run_def by code_simp+

definition demo_locked :: plan where
  "demo_locked = plan_of (make_plan demo_router demo_policy 0 demo_state (demo_request demo_loop None))"

lemma demo_locked_made: "make_plan demo_router demo_policy 0 demo_state (demo_request demo_loop None) = Returned (Inr demo_locked)"
  by code_simp

lemma demo_wire_fields: "wi_out demo_wire = []" "wi_room demo_wire = None"
  by (simp_all add: demo_wire_def)

section \<open>One request\<close>

text \<open>
  C14: A caller never sees two answers mixed. Whatever the providers send and whenever the caller cancels, what it
  receives is first attempt notices and conversion costs, then deltas of a single profile, then at most one
  error; if the request was served, there is no error and that profile is the one recorded as having served.
\<close>

theorem relay_single_source:
  assumes "relay failover calls p (pl_order p) (pl_reason p) w no_outcome [] = (w', res)" and "wi_out w = []"
  shows "\<exists>xs i ys zs. wi_out w' = xs @ ys @ zs \<and> list_all overhead xs \<and> list_all (from_attempt i) ys \<and>
     list_all closing zs \<and> length zs \<le> 1 \<and> (ro_served res \<noteq> [] \<longrightarrow> zs = [] \<and> ro_served res = i)"
  using relay_sends [OF assms(1)] assms(2) by (auto simp: single_source_def no_outcome_def)

theorem relay_single_source_witness:
  "\<exists>xs i ys zs. wi_out (fst demo_run) = xs @ ys @ zs \<and> list_all overhead xs \<and> list_all (from_attempt i) ys \<and>
     list_all closing zs \<and> length zs \<le> 1 \<and> (ro_served (snd demo_run) \<noteq> [] \<longrightarrow> zs = [] \<and> ro_served (snd demo_run) = i)"
  by (rule relay_single_source [of "\<lambda>e. True" demo_calls demo_plan demo_wire "fst demo_run" "snd demo_run"])
    (simp_all add: demo_run_def demo_wire_def)

text \<open>
  C16: Every request is answered. A caller that does not cancel receives either the whole output and usage of one
  profile of the order, in order and free of errors, with the usage recorded for the session, or a single error
  that ends the stream, and then no profile is recorded as having served.
\<close>

theorem request_answered:
  assumes "relay failover calls p (pl_order p) (pl_reason p) w no_outcome [] = (w', res)"
    and "wi_out w = []" "wi_room w = None" "[] \<notin> set (pl_order p)"
  shows "(\<exists>i ds. i \<in> set (pl_order p) \<and> calls i = Inr ds \<and> list_all (\<lambda>d. \<not> is_failure d) ds \<and> ro_served res = i \<and>
        ro_usage res = foldl add_usage empty_usage ds \<and> list_all (\<lambda>x. \<not> closing x) (wi_out w') \<and>
        filter is_content (wi_out w') = map (Forward i) (filter content_delta ds)) \<or>
     (ro_served res = [] \<and> (\<exists>xs x. wi_out w' = xs @ [x] \<and> closing x \<and> list_all (\<lambda>x. \<not> closing x) xs))"
  using relay_answers [OF assms(1)] assms(2-4) by (simp add: answered_def no_outcome_def)

theorem request_answered_witness:
  "filter is_content (wi_out (fst demo_run)) = [Forward ''b'' (Output ''hi'')]"
proof -
  have "[] \<notin> set (pl_order demo_plan)" by code_simp
  then show ?thesis
    using request_answered [of "\<lambda>e. True" demo_calls demo_plan demo_wire "fst demo_run" "snd demo_run"] demo_run_out(2)
    by (auto simp: demo_run_def [symmetric] demo_wire_fields demo_calls_def content_delta_def)
qed

text \<open>
  Whatever its policy, a request tries each profile at most once, and only profiles that can serve it: each is
  eligible and, when a group applies, a member of the group or the previous profile.
\<close>

theorem tried_profiles_eligible:
  assumes "make_plan cf pol now st q = Returned (Inr p)"
    and "relay failover calls p (pl_order p) (pl_reason p) w no_outcome [] = (w', res)" and "wi_out w = []"
  shows "distinct (attempts (wi_out w')) \<and>
     (\<forall>i \<in> set (attempts (wi_out w')). \<exists>c. eligible_offer (rq_offers q) c \<and> cd_id c = i \<and>
        (may_serve (fst (group_members cf (rs_pin st))) i \<or> i = rs_last st))"
  using plan_names [OF assms(1)] relay_attempts [OF assms(2)] assms(3)
  by (fastforce simp: plan_within_def nameable_def)

theorem tried_profiles_eligible_witness:
  "attempts (wi_out (fst demo_run)) = [''a'', ''b''] \<and> distinct (attempts (wi_out (fst demo_run)))"
  using tried_profiles_eligible [OF demo_plan_made, of "\<lambda>e. True" demo_calls demo_wire "fst demo_run" "snd demo_run"]
    demo_run_out(1) by (simp add: demo_run_def [symmetric] demo_wire_def)

text \<open>
  C15: Signed reasoning is never sent to another model: in a tool loop that continues signed reasoning, while the
  previous profile can serve the request, only that profile is tried, whatever the policy, the pin and the
  failures.
\<close>

theorem hard_lock_keeps_profile:
  assumes "make_plan cf pol now st q = Returned (Inr p)"
    and "tool_loop_active (rq_messages q)" "signed_reasoning (rq_messages q)"
    and "eligible_offer (rq_offers q) c" "cd_id c = rs_last st"
    and "relay failover calls p (pl_order p) (pl_reason p) w no_outcome [] = (w', res)" and "wi_out w = []"
  shows "set (attempts (wi_out w')) \<subseteq> {rs_last st} \<and> length (attempts (wi_out w')) \<le> 1"
  using hard_lock_plan [OF assms(1-5)] relay_attempts [OF assms(6)] assms(7) by auto

theorem hard_lock_keeps_profile_witness:
  "\<exists>w' res. relay (\<lambda>e. True) demo_calls demo_locked (pl_order demo_locked) (pl_reason demo_locked) demo_wire no_outcome [] = (w', res) \<and>
     set (attempts (wi_out w')) \<subseteq> {''a''}"
proof -
  obtain w' res where r: "relay (\<lambda>e. True) demo_calls demo_locked (pl_order demo_locked) (pl_reason demo_locked) demo_wire no_outcome [] = (w', res)"
    by (meson surj_pair)
  have "tool_loop_active (rq_messages (demo_request demo_loop None))" "signed_reasoning (rq_messages (demo_request demo_loop None))"
    by code_simp+
  moreover have "eligible_offer (rq_offers (demo_request demo_loop None)) (demo_profile ''a'' 100)"
    "cd_id (demo_profile ''a'' 100) = rs_last demo_state"
    by (simp_all add: demo_request_def eligible_offer_def demo_profile_def demo_state_def)
  ultimately have "set (attempts (wi_out w')) \<subseteq> {rs_last demo_state}"
    using hard_lock_keeps_profile [OF demo_locked_made _ _ _ _ r, of "demo_profile ''a'' 100"] by (simp add: demo_wire_def)
  then show ?thesis using r by (auto simp: demo_state_def)
qed






section \<open>Sessions\<close>

text \<open>
  C18: In any run of a session, requests, refusals, unpinning and restores in any order, the state names only
  profiles and targets the router defines, the session is busy exactly while a request is in flight, and a
  second request is then refused and changes nothing.
\<close>

theorem session_single_flight:
  assumes "session_run cf pol s fl"
  shows "names_ok cf (rs_profile (se_state s)) \<and> names_ok cf (rs_last (se_state s)) \<and>
    (rs_pin (se_state s) = [] \<or> has_target cf (rs_pin (se_state s))) \<and> (se_busy s \<longleftrightarrow> fl \<noteq> None) \<and>
    (fl \<noteq> None \<longrightarrow> begin_request cf pol pin now q s = Returned (s, Inl ErrSessionBusy) \<and>
       restore_route_state cf st s = (s, Some ErrSessionBusy))"
  using session_run_ok [OF assms] by (simp add: state_ok_def begin_request_def restore_route_state_def)

definition demo_begun :: route_session where
  "demo_begun = (case begin_request demo_router demo_policy [] 0 (demo_request [] None) (new_session demo_router) of Returned (s, r) \<Rightarrow> s)"

definition demo_begun_plan :: plan where
  "demo_begun_plan = (case begin_request demo_router demo_policy [] 0 (demo_request [] None) (new_session demo_router) of Returned (s, Inr p) \<Rightarrow> p)"

lemma demo_begun_run: "session_run demo_router demo_policy demo_begun (Some demo_begun_plan)"
proof -
  have "begin_request demo_router demo_policy [] 0 (demo_request [] None) (new_session demo_router) = Returned (demo_begun, Inr demo_begun_plan)"
    by code_simp
  moreover have "request_of demo_router [] (demo_request [] None)" by code_simp
  ultimately show ?thesis using run_begin run_start by blast
qed

theorem session_single_flight_witness:
  "begin_request demo_router demo_policy [] 5 (demo_request [] None) demo_begun = Returned (demo_begun, Inl ErrSessionBusy)"
  using session_single_flight [OF demo_begun_run, of "[]" 5 "demo_request [] None"] by simp

text \<open>
  The routing state survives a restart: the state of any session of a router, restored into any idle session of
  it, is kept exactly.
\<close>

theorem saved_state_restores:
  assumes "session_run cf pol s fl" and "\<not> se_busy s'"
  shows "restore_route_state cf (se_state s) s' = (s'\<lparr>se_state := se_state s\<rparr>, None)"
  using restore_same session_run_ok [OF assms(1)] assms(2) by blast

theorem saved_state_restores_witness:
  "snd (restore_route_state demo_router (se_state demo_begun) (new_session demo_router)) = None \<and>
   se_state (fst (restore_route_state demo_router (se_state demo_begun) (new_session demo_router))) = se_state demo_begun"
  using saved_state_restores [OF demo_begun_run, of "new_session demo_router"] by (simp add: new_session_def)

section \<open>Where the router falls short\<close>

text \<open>
  A policy may name the previous profile, which passes validation also when the pinned group does not contain it.
  Restricting the order to the group leaves nothing, and reading its first element panics.
\<close>

lemma foreign_order_panics:
  "make_plan demo_router (PlainPolicy (\<lambda>c prev failed. Inr [prev])) 0 (demo_state\<lparr>rs_pin := ''g''\<rparr>) (demo_request [] None) = Panicked"
  by code_simp

text \<open>
  A hard lock is looked for only while the previous profile is eligible. When it is not, a request that continues
  signed reasoning is sent to another profile instead of failing.
\<close>

lemma ineligible_profile_drops_lock:
  "case make_plan demo_router demo_policy 0 demo_state (demo_request demo_loop (Some ''no tools'')) of
     Returned (Inr p) \<Rightarrow> pl_order p = [''b''] \<and> \<not> pl_hard p | _ \<Rightarrow> False"
  by code_simp

end
