(* ===== verification/Assemble.thy ===== *)
theory Assemble
  imports Gates
begin

text \<open>
  The part assembler of \<open>agent/types/assemble.go\<close>, the engine of \<open>agent/aggregator.go\<close>: a model's output streams
  as part deltas, whose indices may interleave, and the assembler builds the parts of the turn. Decoding the text
  of tool arguments (\<open>DecodeToolArguments\<close>, JSON) is the argument \<open>decode\<close>. A part that a provider only ever
  sends whole, such as a citation, is \<open>WholePart\<close> with its kind and content.
\<close>

section \<open>Parts and deltas\<close>

datatype part_kind =
    KindText | KindThinking | KindToolCall | KindServerToolCall | KindServerToolResult | KindRefusal
  | KindAudioOut | KindImageOut | KindVideoOut | KindOther string

record media_source =
  so_media :: string
  so_data :: string

datatype turn_part =
    TurnText string
  | TurnThinking string string
  | TurnToolCall string string "tool_args option" string
  | TurnServerCall string string "tool_args option"
  | TurnServerResult string string
  | TurnRefusal string
  | TurnAudio media_source string
  | TurnImage media_source
  | TurnVideo media_source
  | WholePart string string

fun kind_of :: "turn_part \<Rightarrow> part_kind" where
  "kind_of (TurnText t) = KindText"
| "kind_of (TurnThinking t s) = KindThinking"
| "kind_of (TurnToolCall i n a e) = KindToolCall"
| "kind_of (TurnServerCall i n a) = KindServerToolCall"
| "kind_of (TurnServerResult i t) = KindServerToolResult"
| "kind_of (TurnRefusal t) = KindRefusal"
| "kind_of (TurnAudio s t) = KindAudioOut"
| "kind_of (TurnImage s) = KindImageOut"
| "kind_of (TurnVideo s) = KindVideoOut"
| "kind_of (WholePart k c) = KindOther k"

record part_start =
  ps_kind :: part_kind
  ps_media :: string
  ps_id :: string
  ps_name :: string

record part_fragment =
  pf_words :: string
  pf_thinking :: string
  pf_signature :: string
  pf_args :: string
  pf_refusal :: string
  pf_data :: string
  pf_transcript :: string

definition no_fragment :: part_fragment where
  "no_fragment = \<lparr>pf_words = [], pf_thinking = [], pf_signature = [], pf_args = [], pf_refusal = [], pf_data = [],
     pf_transcript = []\<rparr>"

datatype part_delta =
    PartStart int part_start
  | PartDelta int part_fragment
  | PartEnd int "turn_part option"
  | OtherDelta

text \<open>\<open>Validate\<close>: an index that is not negative and exactly one payload.\<close>

definition fragment_valid :: "int \<Rightarrow> part_fragment \<Rightarrow> bool" where
  "fragment_valid i f =
     (0 \<le> i \<and> length (filter (\<lambda>p. p \<noteq> [])
        [pf_words f, pf_thinking f, pf_signature f, pf_args f, pf_refusal f, pf_data f, pf_transcript f]) = 1)"

section \<open>The assembler\<close>

record open_part =
  op_kind :: part_kind
  op_media :: string
  op_id :: string
  op_name :: string
  op_text :: string
  op_sig :: string
  op_args :: string
  op_refusal :: string
  op_trans :: string
  op_data :: string

record assembler =
  am_open :: "(int, open_part) gomap"
  am_closed :: "(int, turn_part) gomap"
  am_violations :: int

definition new_assembler :: assembler where
  "new_assembler = \<lparr>am_open = [], am_closed = [], am_violations = 0\<rparr>"

definition started :: "part_start \<Rightarrow> open_part" where
  "started s = \<lparr>op_kind = ps_kind s, op_media = ps_media s, op_id = ps_id s, op_name = ps_name s, op_text = [],
     op_sig = [], op_args = [], op_refusal = [], op_trans = [], op_data = []\<rparr>"

definition extend_part :: "part_fragment \<Rightarrow> open_part \<Rightarrow> open_part" where
  "extend_part f p = p\<lparr>op_text := op_text p @ pf_words f @ pf_thinking f, op_sig := op_sig p @ pf_signature f,
     op_args := op_args p @ pf_args f, op_refusal := op_refusal p @ pf_refusal f,
     op_trans := op_trans p @ pf_transcript f, op_data := op_data p @ pf_data f\<rparr>"

definition source_of :: "open_part \<Rightarrow> media_source" where
  "source_of p = \<lparr>so_media = op_media p, so_data = op_data p\<rparr>"

definition build_part :: "(string \<Rightarrow> tool_args option \<times> string) \<Rightarrow> open_part \<Rightarrow> turn_part option" where
  "build_part decode p =
     (case op_kind p of
        KindText \<Rightarrow> Some (TurnText (op_text p))
      | KindThinking \<Rightarrow> Some (TurnThinking (op_text p) (op_sig p))
      | KindToolCall \<Rightarrow> (case decode (op_args p) of (args, e) \<Rightarrow> Some (TurnToolCall (op_id p) (op_name p) args e))
      | KindServerToolCall \<Rightarrow> Some (TurnServerCall (op_id p) (op_name p) (fst (decode (op_args p))))
      | KindServerToolResult \<Rightarrow> Some (TurnServerResult (op_id p) (op_text p))
      | KindRefusal \<Rightarrow> Some (TurnRefusal (op_refusal p))
      | KindAudioOut \<Rightarrow> Some (TurnAudio (source_of p) (op_trans p))
      | KindImageOut \<Rightarrow> Some (TurnImage (source_of p))
      | KindVideoOut \<Rightarrow> Some (TurnVideo (source_of p))
      | KindOther k \<Rightarrow> None)"

definition violation :: "assembler \<Rightarrow> assembler" where
  "violation a = a\<lparr>am_violations := wrap64 (am_violations a + 1)\<rparr>"

fun push_delta :: "(string \<Rightarrow> tool_args option \<times> string) \<Rightarrow> assembler \<Rightarrow> part_delta \<Rightarrow> assembler" where
  "push_delta decode a (PartStart i s) =
     (if map_of (am_closed a) i \<noteq> None then violation a
      else a\<lparr>am_open := AList.update i (started s) (am_open a)\<rparr>)"
| "push_delta decode a (PartDelta i f) =
     (case map_of (am_open a) i of
        None \<Rightarrow> violation a
      | Some p \<Rightarrow> a\<lparr>am_open := AList.update i (extend_part f p) (am_open a)\<rparr>)"
| "push_delta decode a (PartEnd i whole) =
     (case map_of (am_open a) i of
        None \<Rightarrow> violation a
      | Some p \<Rightarrow>
          let a = a\<lparr>am_open := AList.delete i (am_open a)\<rparr> in
          (case (case whole of Some q \<Rightarrow> Some q | None \<Rightarrow> build_part decode p) of
             None \<Rightarrow> violation a
           | Some q \<Rightarrow> a\<lparr>am_closed := AList.update i q (am_closed a)\<rparr>))"
| "push_delta decode a OtherDelta = a"

definition push_all :: "(string \<Rightarrow> tool_args option \<times> string) \<Rightarrow> assembler \<Rightarrow> part_delta list \<Rightarrow> assembler" where
  "push_all decode = foldl (push_delta decode)"

section \<open>The turn so far\<close>

definition streaming_text :: "open_part \<Rightarrow> bool" where
  "streaming_text p = (op_kind p = KindText \<and> op_text p \<noteq> [])"

definition part_indices :: "assembler \<Rightarrow> int list" where
  "part_indices a = sort (map fst (am_closed a) @ map fst (filter (\<lambda>(i, p). streaming_text p) (am_open a)))"

definition part_at :: "assembler \<Rightarrow> int \<Rightarrow> turn_part" where
  "part_at a i =
     (case map_of (am_closed a) i of
        Some q \<Rightarrow> q
      | None \<Rightarrow> TurnText (case map_of (am_open a) i of Some p \<Rightarrow> op_text p | None \<Rightarrow> []))"

definition turn_parts :: "assembler \<Rightarrow> turn_part list" where
  "turn_parts a = map (part_at a) (part_indices a)"

definition truncated_turn :: "assembler \<Rightarrow> bool" where
  "truncated_turn a = (am_open a \<noteq> [])"

definition open_tool_calls :: "assembler \<Rightarrow> string list" where
  "open_tool_calls a =
     (let calls = filter (\<lambda>(i, p). op_kind p = KindToolCall) (am_open a)
      in map (\<lambda>i. op_id (the (map_of (am_open a) i))) (sort (map fst calls)))"

text \<open>The loop of \<open>Flush\<close> over the open indices: what it closes, and the kinds it drops.\<close>

fun flush_open :: "(int, open_part) gomap \<Rightarrow> int list \<Rightarrow> (int, turn_part) gomap \<Rightarrow> part_kind list \<Rightarrow>
    (int, turn_part) gomap \<times> part_kind list" where
  "flush_open ps [] closed dropped = (closed, dropped)"
| "flush_open ps (i # is) closed dropped =
     (case map_of ps i of
        None \<Rightarrow> flush_open ps is closed dropped
      | Some p \<Rightarrow>
          if op_kind p = KindText then
            flush_open ps is (if op_text p \<noteq> [] then AList.update i (TurnText (op_text p)) closed else closed) dropped
          else flush_open ps is closed (dropped @ [op_kind p]))"

definition flush_turn :: "assembler \<Rightarrow> assembler \<times> turn_part list \<times> bool \<times> part_kind list" where
  "flush_turn a =
     (case flush_open (am_open a) (sort (map fst (am_open a))) (am_closed a) [] of
        (closed, dropped) \<Rightarrow>
          let a' = a\<lparr>am_open := [], am_closed := closed\<rparr>
          in (a', turn_parts a', truncated_turn a, dropped))"

definition reset_assembler :: "assembler \<Rightarrow> assembler" where
  "reset_assembler a = new_assembler"

section \<open>A finished turn as a stream\<close>

fun part_media :: "turn_part \<Rightarrow> string" where
  "part_media (TurnAudio s t) = so_media s"
| "part_media (TurnImage s) = so_media s"
| "part_media (TurnVideo s) = so_media s"
| "part_media p = []"

definition start_of :: "turn_part \<Rightarrow> part_start" where
  "start_of p =
     (let s = \<lparr>ps_kind = kind_of p, ps_media = part_media p, ps_id = [], ps_name = []\<rparr> in
      case p of
        TurnToolCall i n a e \<Rightarrow> s\<lparr>ps_id := i, ps_name := n\<rparr>
      | TurnServerCall i n a \<Rightarrow> s\<lparr>ps_id := i, ps_name := n\<rparr>
      | TurnServerResult i t \<Rightarrow> s\<lparr>ps_id := i\<rparr>
      | _ \<Rightarrow> s)"

definition part_deltas :: "int \<Rightarrow> turn_part \<Rightarrow> part_delta list" where
  "part_deltas i p =
     PartStart i (start_of p) #
     (case p of
        TurnText t \<Rightarrow> (if t \<noteq> [] then [PartDelta i (no_fragment\<lparr>pf_words := t\<rparr>)] else [])
      | TurnThinking t s \<Rightarrow> (if t \<noteq> [] then [PartDelta i (no_fragment\<lparr>pf_thinking := t\<rparr>)] else [])
      | _ \<Rightarrow> []) @
     [PartEnd i (Some p)]"

fun deltas_from :: "int \<Rightarrow> turn_part list \<Rightarrow> part_delta list" where
  "deltas_from i [] = []"
| "deltas_from i (p # ps) = part_deltas i p @ deltas_from (i + 1) ps"

definition message_deltas :: "turn_part list \<Rightarrow> part_delta list" where
  "message_deltas ps = deltas_from 0 ps"

text \<open>The aggregator's message: none while there is nothing.\<close>

definition aggregated :: "assembler \<Rightarrow> turn_part list option" where
  "aggregated a = (if turn_parts a = [] then None else Some (turn_parts a))"

end
