(* ===== verification/Assemble_Properties.thy ===== *)
theory Assemble_Properties
  imports Assemble
begin

text \<open>
  Properties of the part assembler (\<open>agent/types/assemble.go\<close>): a finished turn streamed out assembles to itself,
  the order in which parts of different indices interleave never matters, and a flush commits exactly what the
  turn showed, without open tool calls.
\<close>

section \<open>One index at a time\<close>

type_synonym slot = "open_part option \<times> turn_part option"

definition slot_of :: "assembler \<Rightarrow> int \<Rightarrow> slot" where
  "slot_of a i = (map_of (am_open a) i, map_of (am_closed a) i)"

fun at_index :: "int \<Rightarrow> part_delta \<Rightarrow> bool" where
  "at_index i (PartStart j s) = (i = j)"
| "at_index i (PartDelta j f) = (i = j)"
| "at_index i (PartEnd j w) = (i = j)"
| "at_index i OtherDelta = False"

definition end_part :: "(string \<Rightarrow> tool_args option \<times> string) \<Rightarrow> turn_part option \<Rightarrow> open_part \<Rightarrow> turn_part option" where
  "end_part decode whole p = (case whole of Some q \<Rightarrow> Some q | None \<Rightarrow> build_part decode p)"

fun slot_push :: "(string \<Rightarrow> tool_args option \<times> string) \<Rightarrow> slot \<Rightarrow> part_delta \<Rightarrow> slot" where
  "slot_push decode (p, q) (PartStart i s) = (if q \<noteq> None then (p, q) else (Some (started s), q))"
| "slot_push decode (p, q) (PartDelta i f) = (map_option (extend_part f) p, q)"
| "slot_push decode (p, q) (PartEnd i w) =
     (case p of None \<Rightarrow> (p, q) | Some x \<Rightarrow> (None, case end_part decode w x of None \<Rightarrow> q | Some y \<Rightarrow> Some y))"
| "slot_push decode (p, q) OtherDelta = (p, q)"

lemma violation_fields [simp]: "am_open (violation a) = am_open a" "am_closed (violation a) = am_closed a"
  by (simp_all add: violation_def)

lemma slot_push_delta:
  "slot_of (push_delta decode a d) i = (if at_index i d then slot_push decode (slot_of a i) d else slot_of a i)"
  by (cases d) (auto simp: slot_of_def end_part_def Let_def split: option.splits)

lemma slot_push_all:
  "slot_of (push_all decode a ds) i = foldl (slot_push decode) (slot_of a i) (filter (at_index i) ds)"
  by (induction ds arbitrary: a) (auto simp: push_all_def slot_push_delta)

section \<open>Well-formed assemblers\<close>

definition assembler_ok :: "assembler \<Rightarrow> bool" where
  "assembler_ok a = (distinct (map fst (am_open a)) \<and> distinct (map fst (am_closed a)) \<and>
     (\<forall>i. map_of (am_open a) i = None \<or> map_of (am_closed a) i = None))"

lemma new_assembler_ok: "assembler_ok new_assembler"
  by (simp add: assembler_ok_def new_assembler_def)

lemma push_delta_ok: "assembler_ok a \<Longrightarrow> assembler_ok (push_delta decode a d)"
  by (cases d) (auto simp: assembler_ok_def Let_def distinct_keys_update distinct_keys_delete
      simp del: map_of_eq_Some_iff split: option.splits, metis option.distinct(1))

lemma push_all_ok: "assembler_ok a \<Longrightarrow> assembler_ok (push_all decode a ds)"
  by (induction ds arbitrary: a) (auto simp: push_all_def push_delta_ok)

definition shown :: "assembler \<Rightarrow> int set" where
  "shown a = {i. map_of (am_closed a) i \<noteq> None \<or> (\<exists>p. map_of (am_open a) i = Some p \<and> streaming_text p)}"

lemma keys_where:
  assumes "distinct (map fst m)"
  shows "set (map fst (filter (\<lambda>(k, v). P v) m)) = {k. \<exists>v. map_of m k = Some v \<and> P v}"
proof -
  have "k \<in> set (map fst (filter (\<lambda>(k, v). P v) m)) \<longleftrightarrow> (\<exists>v. (k, v) \<in> set m \<and> P v)" for k
    by force
  then show ?thesis using map_of_in_set [OF assms] by blast
qed

lemma part_indices_shown:
  assumes "assembler_ok a"
  shows "part_indices a = sorted_list_of_set (shown a)"
proof -
  let ?is = "map fst (am_closed a) @ map fst (filter (\<lambda>(i, p). streaming_text p) (am_open a))"
  have closed: "set (map fst (am_closed a)) = dom (map_of (am_closed a))" by (simp add: dom_map_of_conv_image_fst)
  have streaming: "set (map fst (filter (\<lambda>(i, p). streaming_text p) (am_open a))) =
      {i. \<exists>p. map_of (am_open a) i = Some p \<and> streaming_text p}"
    using assms by (intro keys_where) (simp add: assembler_ok_def)
  have "dom (map_of (am_closed a)) \<inter> {i. \<exists>p. map_of (am_open a) i = Some p \<and> streaming_text p} = {}"
    using assms by (auto simp: assembler_ok_def dom_def simp del: map_of_eq_Some_iff) (metis option.distinct(1))
  moreover have "distinct (map fst (am_closed a))" "distinct (map fst (filter (\<lambda>(i, p). streaming_text p) (am_open a)))"
    using assms by (simp_all add: assembler_ok_def distinct_map_filter)
  ultimately have "distinct ?is" unfolding distinct_append closed streaming by blast
  moreover have "set ?is = shown a" unfolding set_append closed streaming by (auto simp: shown_def)
  ultimately show ?thesis by (metis part_indices_def sorted_list_of_set_sort_remdups distinct_remdups_id)
qed

lemma same_slots_same_turn:
  assumes "assembler_ok a" "assembler_ok b" "\<And>i. slot_of a i = slot_of b i"
  shows "turn_parts a = turn_parts b" "truncated_turn a = truncated_turn b"
proof -
  have same: "map_of (am_open a) = map_of (am_open b)" "map_of (am_closed a) = map_of (am_closed b)"
    using assms(3) by (auto simp: slot_of_def fun_eq_iff)
  have "part_at a = part_at b" by (rule ext) (simp only: part_at_def same)
  moreover have "shown a = shown b" by (simp only: shown_def same)
  ultimately show "turn_parts a = turn_parts b" using assms(1,2) by (simp add: turn_parts_def part_indices_shown)
  have "am_open a = [] \<longleftrightarrow> am_open b = []" using same(1) by (metis map_of_eq_empty_iff)
  then show "truncated_turn a = truncated_turn b"
    by (simp add: truncated_turn_def)
qed

section \<open>A finished turn streamed out\<close>

lemma push_part:
  assumes "am_open a = []" "map_of (am_closed a) i = None"
  shows "push_all decode a (part_deltas i p) = a\<lparr>am_closed := am_closed a @ [(i, p)]\<rparr>"
  using assms by (cases p) (auto simp: push_all_def part_deltas_def Let_def update_fresh)

lemma push_message:
  assumes "am_open a = []" "\<forall>j \<in> set (map fst (am_closed a)). j < i"
  shows "push_all decode a (deltas_from i ps) =
     a\<lparr>am_closed := am_closed a @ zip (map (\<lambda>n. i + int n) [0..<length ps]) ps\<rparr>"
  using assms
proof (induction ps arbitrary: a i)
  case (Cons p ps)
  have fresh: "map_of (am_closed a) i = None" using Cons.prems(2) by (force simp: map_of_eq_None_iff)
  have "push_all decode a (deltas_from i (p # ps)) =
      push_all decode (a\<lparr>am_closed := am_closed a @ [(i, p)]\<rparr>) (deltas_from (i + 1) ps)"
    using push_part [OF Cons.prems(1) fresh, of decode p] by (simp add: push_all_def)
  also have "\<dots> = a\<lparr>am_closed := (am_closed a @ [(i, p)]) @ zip (map (\<lambda>n. i + 1 + int n) [0..<length ps]) ps\<rparr>"
    using Cons.prems by (subst Cons.IH) auto
  also have "map (\<lambda>n. i + 1 + int n) [0..<length ps] = map (\<lambda>n. i + int n) [Suc 0..<Suc (length ps)]"
    by (simp add: map_Suc_upt [symmetric] del: upt_Suc)
  finally show ?case by (simp add: upt_conv_Cons del: upt_Suc)
qed (simp add: push_all_def)

lemma message_assembles:
  "push_all decode new_assembler (message_deltas ps) =
     \<lparr>am_open = [], am_closed = zip (map int [0..<length ps]) ps, am_violations = 0\<rparr>"
  using push_message [of new_assembler 0 decode ps] by (simp add: message_deltas_def new_assembler_def)

lemma enumerated_parts:
  "turn_parts \<lparr>am_open = [], am_closed = zip (map int [0..<length ps]) ps, am_violations = v\<rparr> = ps"
proof -
  let ?a = "\<lparr>am_open = [], am_closed = zip (map int [0..<length ps]) ps, am_violations = v\<rparr>"
  have "part_indices ?a = map int [0..<length ps]"
    by (simp add: part_indices_def sorted_sort_id sorted_map sorted_wrt_iff_nth_less)
  moreover have "part_at ?a (int n) = ps ! n" if "n < length ps" for n
  proof -
    have "map_of (zip (map int [0..<length ps]) ps) ((map int [0..<length ps]) ! n) = Some (ps ! n)"
      using that by (intro map_of_zip_nth) (auto simp: distinct_map)
    then show ?thesis using that by (simp add: part_at_def)
  qed
  ultimately show ?thesis by (auto simp: turn_parts_def intro: nth_equalityI)
qed

text \<open>
  C28: A finished turn turned into a stream and assembled again is the same turn, for parts of every kind, with no
  protocol violation and nothing left open.
\<close>

theorem stream_round_trip:
  "turn_parts (push_all decode new_assembler (message_deltas ps)) = ps \<and>
   \<not> truncated_turn (push_all decode new_assembler (message_deltas ps)) \<and>
   am_violations (push_all decode new_assembler (message_deltas ps)) = 0"
  by (simp add: message_assembles enumerated_parts truncated_turn_def)

text \<open>
  The turn does not depend on how the deltas of different parts interleave: two streams with the same deltas for
  each index, in the same order per index, assemble to the same turn.
\<close>

theorem interleaving_irrelevant:
  assumes "\<And>i. filter (at_index i) ds = filter (at_index i) ds'"
  shows "turn_parts (push_all decode new_assembler ds) = turn_parts (push_all decode new_assembler ds') \<and>
    truncated_turn (push_all decode new_assembler ds) = truncated_turn (push_all decode new_assembler ds')"
proof -
  have "slot_of (push_all decode new_assembler ds) i = slot_of (push_all decode new_assembler ds') i" for i
    unfolding slot_push_all assms ..
  from same_slots_same_turn [OF push_all_ok [OF new_assembler_ok] push_all_ok [OF new_assembler_ok] this]
  show ?thesis by blast
qed

definition demo_decode :: "string \<Rightarrow> tool_args option \<times> string" where
  "demo_decode s = (None, s)"

definition demo_start :: "part_kind \<Rightarrow> part_start" where
  "demo_start k = \<lparr>ps_kind = k, ps_media = [], ps_id = ''c'', ps_name = ''t''\<rparr>"

definition demo_stream :: "part_delta list" where
  "demo_stream = [PartStart 0 (demo_start KindText), PartStart 1 (demo_start KindToolCall),
     PartDelta 1 (no_fragment\<lparr>pf_args := ''{''\<rparr>), PartDelta 0 (no_fragment\<lparr>pf_words := ''hi''\<rparr>), PartEnd 0 None,
     PartDelta 1 (no_fragment\<lparr>pf_args := ''}''\<rparr>), PartEnd 1 None]"

definition demo_parallel :: "part_delta list" where
  "demo_parallel = [PartStart 1 (demo_start KindToolCall), PartDelta 1 (no_fragment\<lparr>pf_args := ''{''\<rparr>),
     PartDelta 1 (no_fragment\<lparr>pf_args := ''}''\<rparr>), PartEnd 1 None,
     PartStart 0 (demo_start KindText), PartDelta 0 (no_fragment\<lparr>pf_words := ''hi''\<rparr>), PartEnd 0 None]"

lemma demo_same: "filter (at_index i) demo_stream = filter (at_index i) demo_parallel"
  by (simp add: demo_stream_def demo_parallel_def)

theorem interleaving_irrelevant_witness:
  "turn_parts (push_all demo_decode new_assembler demo_stream) = turn_parts (push_all demo_decode new_assembler demo_parallel)"
  using interleaving_irrelevant [OF demo_same] by blast

section \<open>Flushing\<close>

definition dropped_kinds :: "assembler \<Rightarrow> part_kind set" where
  "dropped_kinds a = {op_kind p | i p. map_of (am_open a) i = Some p \<and> op_kind p \<noteq> KindText}"

lemma flush_open_closed:
  "flush_open ps is closed dropped = (closed', dropped') \<Longrightarrow>
     map_of closed' j = (if j \<in> set is \<and> (\<exists>p. map_of ps j = Some p \<and> streaming_text p)
        then Some (TurnText (op_text (the (map_of ps j)))) else map_of closed j) \<and>
     (distinct (map fst closed) \<longrightarrow> distinct (map fst closed')) \<and>
     set dropped' = set dropped \<union> {op_kind p | i p. i \<in> set is \<and> map_of ps i = Some p \<and> op_kind p \<noteq> KindText}"
proof (induction "is" arbitrary: closed dropped)
  case (Cons i "is")
  then show ?case
    by (cases "map_of ps i") (auto simp: streaming_text_def distinct_keys_update split: if_splits)
qed simp

lemma flush_commits:
  assumes ok: "assembler_ok a" and f: "flush_turn a = (a', ps, short, dropped)"
  shows "turn_parts a = ps \<and> turn_parts a' = ps \<and> \<not> truncated_turn a' \<and> (short \<longleftrightarrow> truncated_turn a) \<and> set dropped = dropped_kinds a"
proof -
  obtain closed where c: "flush_open (am_open a) (sort (map fst (am_open a))) (am_closed a) [] = (closed, dropped)"
      and a': "a' = a\<lparr>am_open := [], am_closed := closed\<rparr>" and ps: "ps = turn_parts a'" and short: "short = truncated_turn a"
    using f by (auto simp: flush_turn_def Let_def split: prod.splits)
  have dom: "i \<in> set (sort (map fst (am_open a)))" if "map_of (am_open a) i = Some p" for i p
    using that by (metis domI dom_map_of_conv_image_fst list.set_map set_sort)
  note flushed = flush_open_closed [OF c]
  have closed: "map_of closed i = (if \<exists>p. map_of (am_open a) i = Some p \<and> streaming_text p
      then Some (TurnText (op_text (the (map_of (am_open a) i)))) else map_of (am_closed a) i)" for i
    using flushed [of i] dom by auto
  have ok': "assembler_ok a'" using ok flushed by (simp add: a' assembler_ok_def)
  have shown: "shown a' = shown a" by (auto simp: shown_def closed a')
  have "part_at a' i = part_at a i" if "i \<in> shown a" for i
  proof (cases "map_of (am_closed a) i")
    case None
    then obtain p where "map_of (am_open a) i = Some p" "streaming_text p" using \<open>i \<in> shown a\<close> by (auto simp: shown_def)
    then show ?thesis using None by (simp add: part_at_def a' closed)
  next
    case (Some q)
    then have "map_of (am_open a) i = None" using ok by (metis assembler_ok_def option.distinct(1))
    then show ?thesis using Some by (simp add: part_at_def a' closed)
  qed
  moreover have "finite (shown a)"
    by (rule finite_subset [of _ "fst ` set (am_closed a) \<union> fst ` set (am_open a)"])
      (auto simp: shown_def dest: map_of_SomeD intro: rev_image_eqI)
  ultimately have "turn_parts a' = turn_parts a"
    by (simp add: turn_parts_def part_indices_shown [OF ok'] part_indices_shown [OF ok] shown)
  moreover have "set dropped = {op_kind p | i p. i \<in> set (sort (map fst (am_open a))) \<and> map_of (am_open a) i = Some p \<and>
      op_kind p \<noteq> KindText}" using flushed [of 0] by (simp del: set_sort)
  moreover have "\<dots> = dropped_kinds a" unfolding dropped_kinds_def using dom by blast
  ultimately show ?thesis using ps short by (simp add: a' truncated_turn_def)
qed

lemma slot_push_closed:
  "snd (foldl (slot_push decode) s ds) = Some q \<Longrightarrow> snd s = Some q \<or>
     (\<exists>i w. PartEnd i w \<in> set ds \<and> w \<in> {None, Some q})"
proof (induction ds arbitrary: s)
  case (Cons d ds)
  from Cons.IH [of "slot_push decode s d"] Cons.prems show ?case
    by (cases s; cases d) (auto simp: end_part_def split: option.splits if_splits)
qed simp

lemma closed_ended:
  assumes "map_of (am_closed (push_all decode new_assembler ds)) i = Some q"
  shows "\<exists>w. PartEnd i w \<in> set ds \<and> w \<in> {None, Some q}"
proof -
  have "snd (slot_of (push_all decode new_assembler ds) i) = Some q" using assms by (simp add: slot_of_def)
  then have "snd (slot_of new_assembler i) = Some q \<or> (\<exists>j w. PartEnd j w \<in> set (filter (at_index i) ds) \<and> w \<in> {None, Some q})"
    unfolding slot_push_all by (rule slot_push_closed)
  then show ?thesis by (auto simp: slot_of_def new_assembler_def)
qed

text \<open>
  C29: Flushing an interrupted turn commits exactly what the turn showed: the turn after it is the same and nothing is
  open. A tool call in it is one whose end arrived, so arguments short off in the middle never reach a tool; calls
  that were open are reported as dropped.
\<close>

theorem flush_commits_finished_calls:
  assumes "flush_turn (push_all decode new_assembler ds) = (a, ps, short, dropped)"
  shows "turn_parts (push_all decode new_assembler ds) = ps \<and> turn_parts a = ps \<and> \<not> truncated_turn a \<and>
    (short \<longleftrightarrow> truncated_turn (push_all decode new_assembler ds)) \<and>
    (TurnToolCall c n args e \<in> set ps \<longrightarrow> (\<exists>i w. PartEnd i w \<in> set ds \<and> w \<in> {None, Some (TurnToolCall c n args e)})) \<and>
    (open_tool_calls (push_all decode new_assembler ds) \<noteq> [] \<longrightarrow> KindToolCall \<in> set dropped)"
proof -
  define s where "s = push_all decode new_assembler ds"
  have ok: "assembler_ok s" unfolding s_def by (rule push_all_ok [OF new_assembler_ok])
  note flush = flush_commits [OF ok assms [folded s_def]]
  have "\<exists>i w. PartEnd i w \<in> set ds \<and> w \<in> {None, Some (TurnToolCall c n args e)}" if "TurnToolCall c n args e \<in> set ps"
  proof -
    have "turn_parts s = ps" using flush by blast
    then obtain i where "part_at s i = TurnToolCall c n args e" using \<open>TurnToolCall c n args e \<in> set ps\<close> by (auto simp: turn_parts_def dest: sym)
    then have "map_of (am_closed s) i = Some (TurnToolCall c n args e)" by (auto simp: part_at_def split: option.splits)
    then show ?thesis using closed_ended unfolding s_def by blast
  qed
  moreover have "KindToolCall \<in> set dropped" if "open_tool_calls s \<noteq> []"
  proof -
    have "filter (\<lambda>(i, p). op_kind p = KindToolCall) (am_open s) \<noteq> []"
      using \<open>open_tool_calls s \<noteq> []\<close> by (auto simp: open_tool_calls_def Let_def)
    then obtain i p where "(i, p) \<in> set (am_open s)" "op_kind p = KindToolCall" by (auto simp: filter_empty_conv)
    moreover from this(1) have "map_of (am_open s) i = Some p" using ok by (simp add: assembler_ok_def)
    ultimately have "KindToolCall \<in> dropped_kinds s"
      unfolding dropped_kinds_def by (intro CollectI exI [of _ i] exI [of _ p]) simp
    then show ?thesis using flush by simp
  qed
  ultimately show ?thesis using flush unfolding s_def by blast
qed

definition demo_flushed :: "assembler \<times> turn_part list \<times> bool \<times> part_kind list" where
  "demo_flushed = flush_turn (push_all demo_decode new_assembler (take 6 demo_stream))"

theorem flush_commits_finished_calls_witness:
  "fst (snd demo_flushed) = [TurnText ''hi''] \<and> KindToolCall \<in> set (snd (snd (snd demo_flushed)))"
proof -
  have f: "flush_turn (push_all demo_decode new_assembler (take 6 demo_stream)) =
      (fst demo_flushed, fst (snd demo_flushed), fst (snd (snd demo_flushed)), snd (snd (snd demo_flushed)))"
    by (simp add: demo_flushed_def)
  have "turn_parts (push_all demo_decode new_assembler (take 6 demo_stream)) = [TurnText ''hi'']"
    "open_tool_calls (push_all demo_decode new_assembler (take 6 demo_stream)) \<noteq> []" by code_simp+
  then show ?thesis using flush_commits_finished_calls [OF f] by simp
qed

end
