(* ===== verification/Tool_Args.thy ===== *)
theory Tool_Args
  imports Gates Float64
begin

text \<open>
  Tool arguments against a tool's declared parameters, \<open>ValidateToolArgs\<close> of \<open>agent/types/toolargs.go\<close>. A number
  is the text of a JSON number, whose value is the nearest float64; a number beyond the range of float64 is not
  a number there. The result is the list of properties that fail, whose message the code joins.
\<close>

record property_schema =
  py_type :: string
  py_nullable :: bool

record param_schema =
  sc_type :: string
  sc_required :: "string list"
  sc_props :: "(string, property_schema) gomap"

definition "SchemaObject = ''object''"
definition "SchemaArray = ''array''"
definition "SchemaString = ''string''"
definition "SchemaBoolean = ''boolean''"
definition "SchemaNumber = ''number''"
definition "SchemaInteger = ''integer''"
definition "SchemaNull = ''null''"

lemmas schema_types = SchemaObject_def SchemaArray_def SchemaString_def SchemaBoolean_def SchemaNumber_def
  SchemaInteger_def SchemaNull_def

text \<open>The value of a decimal: an optional sign, digits, an optional fraction and an optional exponent.\<close>

definition unsigned_decimal :: "string \<Rightarrow> rat option" where
  "unsigned_decimal s =
     (case cut (CHR ''.'') s of (whole, part, dot) \<Rightarrow>
        if whole = [] \<or> dot \<and> part = [] \<or> \<not> list_all is_digit (whole @ part) then None
        else Some (of_int (digits_val 0 (whole @ part)) / 10 ^ length part))"

definition exponent_of :: "string \<Rightarrow> int option" where
  "exponent_of s = atoi s"

definition decimal_value :: "string \<Rightarrow> rat option" where
  "decimal_value s =
     (let neg = has_prefix s ''-''; body = map (\<lambda>c. if c = CHR ''E'' then CHR ''e'' else c) (trim_prefix s ''-'') in
      case cut (CHR ''e'') body of (mant, e, found) \<Rightarrow>
        (case (unsigned_decimal mant, if found then exponent_of e else Some 0) of
           (Some m, Some k) \<Rightarrow> Some ((if neg then - m else m) * 10 powi k)
         | _ \<Rightarrow> None))"

definition number_value :: "json \<Rightarrow> rat option" where
  "number_value v =
     (case v of
        JNum s \<Rightarrow>
          (case decimal_value s of
             None \<Rightarrow> None
           | Some x \<Rightarrow> let f = rnd64 x in if 2 ^ 1024 \<le> \<bar>f\<bar> then None else Some f)
      | _ \<Rightarrow> None)"

definition is_integral :: "rat \<Rightarrow> bool" where
  "is_integral x = (of_int \<lfloor>x\<rfloor> = x)"

definition matches_json_type :: "string \<Rightarrow> json \<Rightarrow> bool" where
  "matches_json_type typ v =
     (if typ = [] \<or> typ = ''any'' then True
      else if typ = SchemaString then (case v of JStr s \<Rightarrow> True | _ \<Rightarrow> False)
      else if typ = SchemaBoolean then (case v of JBool b \<Rightarrow> True | _ \<Rightarrow> False)
      else if typ = SchemaNumber then number_value v \<noteq> None
      else if typ = SchemaInteger then (case number_value v of Some x \<Rightarrow> is_integral x | None \<Rightarrow> False)
      else if typ = SchemaNull then v = JNull
      else if typ = SchemaObject then (case v of JObj m \<Rightarrow> True | _ \<Rightarrow> False)
      else if typ = SchemaArray then (case v of JArr xs \<Rightarrow> True | _ \<Rightarrow> False)
      else True)"

definition property_problem :: "param_schema \<Rightarrow> string \<Rightarrow> json \<Rightarrow> bool" where
  "property_problem sc name v =
     (case map_of (sc_props sc) name of
        None \<Rightarrow> False
      | Some p \<Rightarrow>
          if v = JNull then
            \<not> (py_nullable p \<or> py_type p = [] \<or> py_type p = SchemaNull \<or> name \<notin> set (sc_required sc))
          else \<not> matches_json_type (py_type p) v)"

definition validate_tool_args :: "param_schema \<Rightarrow> tool_args \<Rightarrow> string list" where
  "validate_tool_args sc args =
     (if sc_type sc \<noteq> [] \<and> sc_type sc \<noteq> SchemaObject then []
      else filter (\<lambda>n. map_of args n = None) (sc_required sc) @
           map fst (filter (\<lambda>(n, v). property_problem sc n v) args))"

lemma valid_args_iff:
  assumes "distinct (map fst args)" "sc_type sc = [] \<or> sc_type sc = SchemaObject"
  shows "validate_tool_args sc args = [] \<longleftrightarrow>
     set (sc_required sc) \<subseteq> dom (map_of args) \<and> (\<forall>n v. map_of args n = Some v \<longrightarrow> \<not> property_problem sc n v)"
  using assms by (auto simp: validate_tool_args_def filter_empty_conv map_of_in_set [symmetric] simp del: map_of_eq_Some_iff)
    (auto simp: dom_def subset_iff)

end
