(* ===== verification/Tool_Call.thy ===== *)
theory Tool_Call
  imports Tool_Args Approval Budget
begin

text \<open>
  One tool call of a turn, \<open>executeOneTool\<close> of \<open>agent/agent.go\<close> with the steps it calls: the argument check, the
  gate, the approval of a person and the recheck of edited arguments, the markers, the hooks, the quota and the
  run of the tool; and \<open>executeToolsConcurrently\<close> on its sequential path. What surrounds the call is an
  argument: the registry, the gate, the approval policy, what a person answers, hooks and tools, and where a
  stop request or a panic strikes.
\<close>

section \<open>Calls and what surrounds them\<close>

text \<open>
  What the dispatch finds a tool to be: a plain one, a handoff to an agent, a question to the user, a child agent
  run in the background or in place (its name), or the agent of a custom invoker.
\<close>

datatype tool_kind = PlainTool | HandoffTool string | ClarifyTool | SpawnTool string | DelegateTool string | InvokerTool

record tool_entry =
  te_def :: tool_def
  te_params :: param_schema
  te_markers :: "marker list"
  te_kind :: tool_kind

record tool_call =
  tc_id :: string
  tc_name :: string
  tc_args :: "tool_args option"
  tc_error :: string

record tool_result =
  tr_call :: string
  tr_text :: string
  tr_err :: string
  tr_refused :: bool
  tr_approvals :: "approval_part list"
  tr_handoff :: string
  tr_handoff_reason :: string
  tr_handoff_message :: string
  tr_handoff_context :: string

definition no_result :: "string \<Rightarrow> tool_result" where
  "no_result i = \<lparr>tr_call = i, tr_text = [], tr_err = [], tr_refused = False, tr_approvals = [],
     tr_handoff = [], tr_handoff_reason = [], tr_handoff_message = [], tr_handoff_context = []\<rparr>"

datatype exec_delta = ExecStart string string | ExecEnd string string string

text \<open>
  What running a tool gives: text and an error text, a panic inside it, or a failure of the step runner. Hooks
  give new arguments or abort. The points where code of the caller may panic, and the moments a stop is looked at.
\<close>

datatype tool_outcome = ToolReturns string string | ToolPanics string | StepFails string

datatype call_point = AtGate | AtRecheck | AtMarkers | AtHooks | AtTransfer

datatype stop_moment = AtStart | AtDispatch | AtSlot | AtFailure | AtFinish

record tool_env =
  ev_tools :: "(string, tool_entry) gomap"
  ev_gate :: gate
  ev_policy :: "approval_policy option"
  ev_runner :: step_runner
  ev_digest :: "string \<Rightarrow> string"
  ev_answer :: "string \<Rightarrow> tool_call \<Rightarrow> decision \<times> bool"
  ev_hooks :: "(tool_call \<Rightarrow> string + tool_args option) option"
  ev_run :: "tool_call \<Rightarrow> tool_outcome"
  ev_after :: "tool_call \<Rightarrow> string \<Rightarrow> string \<Rightarrow> string + string \<times> string"
  ev_inline :: bool
  ev_spawns :: bool
  ev_call_path :: "string list"
  ev_child_hook :: "tool_call \<Rightarrow> string option"
  ev_child_history :: "tool_call \<Rightarrow> string option"
  ev_child_start :: "tool_call \<Rightarrow> string option"
  ev_child :: "tool_call \<Rightarrow> string \<times> string \<times> string option"
  ev_slot :: "string \<Rightarrow> string option"
  ev_stop :: "string \<Rightarrow> stop_moment \<Rightarrow> string option"
  ev_panic :: "string \<Rightarrow> call_point \<Rightarrow> string option"
  ev_now :: time

text \<open>
  The run the call belongs to: what its stream received, the budget, the approval state and the error that stops
  it. The last field is not in the code: it records the calls whose tool was started.
\<close>

record tool_run =
  tn_deltas :: "exec_delta list"
  tn_budget :: "budget option"
  tn_approvals :: "approval_state option"
  tn_error :: "string option"
  tn_started :: "tool_call list"

definition send_delta :: "exec_delta \<Rightarrow> tool_run \<Rightarrow> tool_run" where
  "send_delta d r = r\<lparr>tn_deltas := tn_deltas r @ [d]\<rparr>"

definition stop_run :: "string \<Rightarrow> tool_run \<Rightarrow> tool_run" where
  "stop_run e r = (if tn_error r = None then r\<lparr>tn_error := Some e\<rparr> else r)"

definition stopped_result :: "string option \<Rightarrow> tool_result \<Rightarrow> tool_result" where
  "stopped_result stop res =
     (if tr_err res = [] then res
      else (case stop of
          None \<Rightarrow> res
        | Some why \<Rightarrow> (no_result (tr_call res))\<lparr>tr_err := ''stopped before this call finished: '' @ why,
                          tr_approvals := tr_approvals res\<rparr>))"

section \<open>Steps of a call\<close>

text \<open>A step gives the finished result or a value to go on with, and the run.\<close>

type_synonym 'a call_step = "(tool_result + 'a) \<times> tool_run"

fun and_step :: "'a call_step \<Rightarrow> ('a \<Rightarrow> tool_run \<Rightarrow> 'b call_step) \<Rightarrow> 'b call_step" where
  "and_step (Inl res, r) f = (Inl res, r)"
| "and_step (Inr a, r) f = f a r"

definition failed_call :: "tool_env \<Rightarrow> tool_call \<Rightarrow> string \<Rightarrow> tool_run \<Rightarrow> tool_result \<times> tool_run" where
  "failed_call ev tc msg r =
     (let res = stopped_result (ev_stop ev (tc_id tc) AtFailure) ((no_result (tc_id tc))\<lparr>tr_err := msg\<rparr>)
      in (res, send_delta (ExecEnd (tc_id tc) (tc_name tc) (tr_err res)) r))"

definition refused_call :: "tool_env \<Rightarrow> tool_call \<Rightarrow> string \<Rightarrow> tool_run \<Rightarrow> tool_result \<times> tool_run" where
  "refused_call ev tc msg r = (case failed_call ev tc msg r of (res, r) \<Rightarrow> (res\<lparr>tr_refused := True\<rparr>, r))"

definition failed_tool :: "tool_env \<Rightarrow> tool_call \<Rightarrow> string \<Rightarrow> tool_run \<Rightarrow> 'a call_step" where
  "failed_tool ev tc msg r = (case failed_call ev tc msg r of (res, r) \<Rightarrow> (Inl res, r))"

definition refused_tool :: "tool_env \<Rightarrow> tool_call \<Rightarrow> string \<Rightarrow> tool_run \<Rightarrow> 'a call_step" where
  "refused_tool ev tc msg r = (case refused_call ev tc msg r of (res, r) \<Rightarrow> (Inl res, r))"

text \<open>Code of the caller at a point: a panic there is the call's error.\<close>

definition guarded :: "tool_env \<Rightarrow> tool_call \<Rightarrow> call_point \<Rightarrow> (tool_run \<Rightarrow> 'a call_step) \<Rightarrow> tool_run \<Rightarrow> 'a call_step" where
  "guarded ev tc pt f r =
     (case ev_panic ev (tc_id tc) pt of
        Some v \<Rightarrow> failed_tool ev tc (''tool '' @ tc_name tc @ '' panicked: '' @ v) r
      | None \<Rightarrow> f r)"

definition tool_gate :: "tool_env \<Rightarrow> gate" where
  "tool_gate ev = (case ev_policy ev of
       Some p \<Rightarrow> if po_risk_defaults p then gates [ev_gate ev, risk_gate] else ev_gate ev
     | None \<Rightarrow> ev_gate ev)"

definition args_list :: "tool_args option \<Rightarrow> tool_args" where
  "args_list a = (case a of None \<Rightarrow> [] | Some m \<Rightarrow> m)"

definition with_args :: "tool_args option \<Rightarrow> tool_call \<Rightarrow> tool_call" where
  "with_args a tc = (if a \<noteq> None then tc\<lparr>tc_args := a\<rparr> else tc)"

definition check_args :: "tool_env \<Rightarrow> tool_entry \<Rightarrow> tool_call \<Rightarrow> tool_run \<Rightarrow> unit call_step" where
  "check_args ev te tc r =
     (if validate_tool_args (te_params te) (args_list (tc_args tc)) = [] then (Inr (), r)
      else failed_tool ev tc ''invalid tool arguments'' r)"

definition deny_text :: "gate_decision \<Rightarrow> string" where
  "deny_text d = ''refused: '' @ (if gd_reason d = [] then ''denied by policy'' else gd_reason d)"

text \<open>Arguments a person edited are validated and gated again, without a second question.\<close>

definition recheck_edited_args ::
  "tool_env \<Rightarrow> tool_entry \<Rightarrow> tool_args option \<Rightarrow> tool_call \<Rightarrow> tool_run \<Rightarrow> tool_call call_step" where
  "recheck_edited_args ev te args tc r =
     (let tc = tc\<lparr>tc_args := args\<rparr> in
      and_step (check_args ev te tc r) (\<lambda>_. guarded ev tc AtRecheck (\<lambda>r.
        let d = tool_gate ev (te_def te) args; tc' = with_args (gd_args d) tc in
        if gd_outcome d = GateDeny then refused_tool ev tc' (deny_text d) r else (Inr tc', r))))"

text \<open>Asking for approval: the state and the call's records keep what was decided.\<close>

definition ask_approval ::
  "tool_env \<Rightarrow> tool_entry \<Rightarrow> string \<Rightarrow> tool_call \<Rightarrow> approval_part list \<Rightarrow> tool_run \<Rightarrow>
   request_result \<times> approval_part list \<times> tool_run" where
  "ask_approval ev te phase tc recs r =
     (let q = request_approval (ev_runner ev) (ev_policy ev) (ev_digest ev) (ev_answer ev phase tc) (tn_approvals r)
                (tc_id tc) (args_list (tc_args tc)) (te_def te) phase (ev_now ev);
          r = r\<lparr>tn_approvals := rr_state q\<rparr>
      in (q, recs @ rr_records q, (case rr_stop q of Some e \<Rightarrow> stop_run e r | None \<Rightarrow> r)))"

definition gate_tool ::
  "tool_env \<Rightarrow> tool_entry \<Rightarrow> tool_call \<Rightarrow> tool_run \<Rightarrow> tool_call call_step \<times> approval_part list" where
  "gate_tool ev te tc r =
     (let d = tool_gate ev (te_def te) (tc_args tc); tc' = with_args (gd_args d) tc in
      case gd_outcome d of
        GateAllow \<Rightarrow> ((Inr tc', r), [])
      | GateDeny \<Rightarrow> (refused_tool ev tc' (deny_text d) r, [])
      | GateRequireApproval \<Rightarrow>
          (case ask_approval ev te ''gate'' tc' [] r of
             (q, recs, r) \<Rightarrow>
               (if \<not> rr_ok q then refused_tool ev tc' (dc_message (rr_decision q)) r
                else if dc_args (rr_decision q) \<noteq> None then recheck_edited_args ev te (dc_args (rr_decision q)) tc' r
                else (Inr tc', r), recs)))"

definition resolve_markers ::
  "tool_env \<Rightarrow> tool_entry \<Rightarrow> tool_call \<Rightarrow> approval_part list \<Rightarrow> tool_run \<Rightarrow> tool_call call_step \<times> approval_part list" where
  "resolve_markers ev te tc recs r =
     (if te_markers te = [] then ((Inr tc, r), recs)
      else (case ask_approval ev te ''marker'' tc recs r of
          (q, recs, r) \<Rightarrow>
            (if \<not> rr_ok q then refused_tool ev tc (dc_message (rr_decision q)) r
             else if dc_args (rr_decision q) \<noteq> None then recheck_edited_args ev te (dc_args (rr_decision q)) tc r
             else (Inr tc, r), recs)))"

definition before_tool_hooks :: "tool_env \<Rightarrow> tool_entry \<Rightarrow> tool_call \<Rightarrow> tool_run \<Rightarrow> tool_call call_step" where
  "before_tool_hooks ev te tc r =
     (case ev_hooks ev of
        None \<Rightarrow> (Inr tc, r)
      | Some hook \<Rightarrow>
          (case hook tc of
             Inl e \<Rightarrow> failed_tool ev tc e (stop_run e r)
           | Inr args \<Rightarrow> let tc = tc\<lparr>tc_args := args\<rparr> in and_step (check_args ev te tc r) (\<lambda>_ r. (Inr tc, r))))"

definition charge_quota :: "tool_env \<Rightarrow> tool_call \<Rightarrow> tool_run \<Rightarrow> unit call_step" where
  "charge_quota ev tc r =
     (case tn_budget r of
        None \<Rightarrow> (Inr (), r)
      | Some b \<Rightarrow>
          (case reserve_tool_call b (tc_name tc) of
             (b', None) \<Rightarrow> (Inr (), r\<lparr>tn_budget := Some b'\<rparr>)
           | (b', Some e) \<Rightarrow> failed_tool ev tc ''tool quota exceeded'' (r\<lparr>tn_budget := Some b'\<rparr>)))"

section \<open>Clearing a call\<close>

text \<open>The stages of a call: the gate, the markers, and from the hooks to the quota. Records of approvals go along.\<close>

fun and_stage :: "'a call_step \<times> approval_part list \<Rightarrow>
    ('a \<Rightarrow> tool_run \<Rightarrow> approval_part list \<Rightarrow> 'b call_step \<times> approval_part list) \<Rightarrow> 'b call_step \<times> approval_part list" where
  "and_stage ((Inl res, r), recs) f = ((Inl res, r), recs)"
| "and_stage ((Inr a, r), recs) f = f a r recs"

definition gate_stage :: "tool_env \<Rightarrow> tool_entry \<Rightarrow> tool_call \<Rightarrow> tool_run \<Rightarrow> tool_call call_step \<times> approval_part list" where
  "gate_stage ev te tc r =
     (if ev_panic ev (tc_id tc) AtGate \<noteq> None then (guarded ev tc AtGate (\<lambda>r. (Inr tc, r)) r, []) else gate_tool ev te tc r)"

definition marker_stage ::
  "tool_env \<Rightarrow> tool_entry \<Rightarrow> tool_call \<Rightarrow> approval_part list \<Rightarrow> tool_run \<Rightarrow> tool_call call_step \<times> approval_part list" where
  "marker_stage ev te tc recs r =
     (if ev_panic ev (tc_id tc) AtMarkers \<noteq> None then (guarded ev tc AtMarkers (\<lambda>r. (Inr tc, r)) r, recs)
      else resolve_markers ev te tc recs r)"

definition quota_stage :: "tool_env \<Rightarrow> tool_call \<Rightarrow> tool_run \<Rightarrow> tool_call call_step" where
  "quota_stage ev tc r =
     (case ev_stop ev (tc_id tc) AtDispatch of
        Some why \<Rightarrow> failed_tool ev tc ''context canceled'' r
      | None \<Rightarrow> and_step (charge_quota ev tc r) (\<lambda>_ r. (Inr tc, r)))"

definition clear_call ::
  "tool_env \<Rightarrow> tool_entry \<Rightarrow> tool_call \<Rightarrow> tool_run \<Rightarrow> tool_call call_step \<times> approval_part list" where
  "clear_call ev te tc r =
     and_stage (gate_stage ev te tc r) (\<lambda>tc r recs. and_stage (marker_stage ev te tc recs r) (\<lambda>tc r recs.
       (and_step (guarded ev tc AtHooks (before_tool_hooks ev te tc) r) (quota_stage ev), recs)))"

section \<open>Running the tool\<close>

definition start_tool :: "tool_call \<Rightarrow> tool_run \<Rightarrow> tool_run" where
  "start_tool tc r = r\<lparr>tn_started := tn_started r @ [tc]\<rparr>"

definition finish_tool :: "tool_env \<Rightarrow> tool_call \<Rightarrow> tool_result \<Rightarrow> tool_run \<Rightarrow> tool_result \<times> tool_run" where
  "finish_tool ev tc res r =
     (let res = stopped_result (ev_stop ev (tc_id tc) AtFailure) res
      in (res, send_delta (ExecEnd (tc_id tc) (tc_name tc) (tr_err res)) r))"

definition run_tool_step :: "tool_env \<Rightarrow> tool_call \<Rightarrow> tool_run \<Rightarrow> tool_result \<times> tool_run" where
  "run_tool_step ev tc r0 =
     (let r = start_tool tc r0; res = no_result (tc_id tc) in
      case ev_run ev tc of
        ToolPanics v \<Rightarrow>
          let e = ''tool '' @ tc_name tc @ '' panicked: '' @ v
          in finish_tool ev tc (res\<lparr>tr_err := e\<rparr>) (if ev_inline ev then r else stop_run e r)
      | StepFails e \<Rightarrow> finish_tool ev tc (res\<lparr>tr_err := e\<rparr>) (stop_run e r)
      | ToolReturns text err \<Rightarrow>
          (case ev_after ev tc text err of
             Inl e \<Rightarrow> finish_tool ev tc (res\<lparr>tr_text := text, tr_err := err\<rparr>) (stop_run e r)
           | Inr (text, err) \<Rightarrow> finish_tool ev tc (res\<lparr>tr_text := text, tr_err := err\<rparr>) r))"

definition string_arg :: "tool_args option \<Rightarrow> string \<Rightarrow> string" where
  "string_arg args name = (case map_of (args_list args) name of Some (JStr s) \<Rightarrow> s | _ \<Rightarrow> [])"

text \<open>A question to the user waits for a person, like an approval; its tool runs nothing.\<close>

definition ask_clarification :: "tool_env \<Rightarrow> tool_call \<Rightarrow> tool_run \<Rightarrow> tool_result \<times> tool_run" where
  "ask_clarification ev tc r =
     (if trim_space (string_arg (tc_args tc) ''question'') = [] then failed_call ev tc ''question is empty'' r
      else (case ev_answer ev ''clarification'' tc of
          (d, ok) \<Rightarrow>
            if \<not> ok then refused_call ev tc (dc_message d) r
            else if trim_space (dc_message d) = [] then refused_call ev tc ''the user gave no answer'' r
            else ((no_result (tc_id tc))\<lparr>tr_text := dc_message d\<rparr>, send_delta (ExecEnd (tc_id tc) (tc_name tc) []) r)))"

text \<open>An agent that is already on the call path is never called again.\<close>

definition check_ancestor :: "tool_env \<Rightarrow> string \<Rightarrow> string option" where
  "check_ancestor ev name =
     (if name \<noteq> [] \<and> name \<in> set (ev_call_path ev)
      then Some (''delegation to an ancestor refused: '' @ name @ '' is already on the call path'') else None)"

text \<open>A background child: the call is answered once the child runs, with a receipt.\<close>

definition spawn_sub_agent :: "tool_env \<Rightarrow> tool_call \<Rightarrow> string \<Rightarrow> tool_run \<Rightarrow> tool_result \<times> tool_run" where
  "spawn_sub_agent ev tc name r =
     (if \<not> ev_spawns ev \<or> \<not> ev_inline ev then failed_call ev tc ''spawned sub-agents need an inline agent loop'' r
      else (case check_ancestor ev name of
          Some e \<Rightarrow> refused_call ev tc (''refused: '' @ e) r
        | None \<Rightarrow> (case ev_child_history ev tc of
          Some e \<Rightarrow> failed_call ev tc e r
        | None \<Rightarrow> (case ev_child_hook ev tc of
          Some e \<Rightarrow> failed_call ev tc e (stop_run e r)
        | None \<Rightarrow> (case ev_child_start ev tc of
          Some e \<Rightarrow> failed_call ev tc (''spawn refused: '' @ e) r
        | None \<Rightarrow> ((no_result (tc_id tc))\<lparr>tr_text := fst (ev_child ev tc)\<rparr>,
            send_delta (ExecEnd (tc_id tc) (tc_name tc) []) (start_tool tc r)))))))"

text \<open>
  A child that runs in place: its text and error, and the error that stops the parent run with it. The checks
  of a native sub-agent come before its start; a custom invoker has none.
\<close>

definition delegation_check :: "tool_env \<Rightarrow> tool_call \<Rightarrow> string \<Rightarrow> tool_run \<Rightarrow> (tool_result \<times> tool_run) option" where
  "delegation_check ev tc name r =
     (case check_ancestor ev name of
        Some e \<Rightarrow> Some (refused_call ev tc (''refused: '' @ e) r)
      | None \<Rightarrow> (case ev_child_history ev tc of
        Some e \<Rightarrow> Some (failed_call ev tc e r)
      | None \<Rightarrow> (case ev_child_start ev tc of
        Some e \<Rightarrow> Some (failed_call ev tc e r)
      | None \<Rightarrow> None)))"

definition delegate_to_sub_agent :: "tool_env \<Rightarrow> tool_call \<Rightarrow> string option \<Rightarrow> tool_run \<Rightarrow> tool_result \<times> tool_run" where
  "delegate_to_sub_agent ev tc native r =
     (case ev_child_hook ev tc of
        Some e \<Rightarrow> failed_call ev tc e (stop_run e r)
      | None \<Rightarrow> (case (case native of Some name \<Rightarrow> delegation_check ev tc name r | None \<Rightarrow> None) of
        Some ended \<Rightarrow> ended
      | None \<Rightarrow> (case ev_child ev tc of
        (words, err, stop) \<Rightarrow>
          let r = start_tool tc r; r = (case stop of Some e \<Rightarrow> stop_run e r | None \<Rightarrow> r)
          in finish_tool ev tc ((no_result (tc_id tc))\<lparr>tr_text := words, tr_err := err\<rparr>) r)))"

definition hand_off :: "tool_env \<Rightarrow> tool_call \<Rightarrow> string \<Rightarrow> tool_run \<Rightarrow> tool_result \<times> tool_run" where
  "hand_off ev tc agent r =
     (let words = (case ev_run ev tc of ToolReturns t err \<Rightarrow> t | _ \<Rightarrow> [])
      in ((no_result (tc_id tc))\<lparr>tr_text := words, tr_handoff := agent,
            tr_handoff_reason := string_arg (tc_args tc) ''reason'', tr_handoff_message := string_arg (tc_args tc) ''message'',
            tr_handoff_context := string_arg (tc_args tc) ''context''\<rparr>,
          send_delta (ExecEnd (tc_id tc) (tc_name tc) []) (start_tool tc r)))"

text \<open>The dispatch on what the tool is. A panic before the end was reported fails the call.\<close>

definition dispatch_tool :: "tool_env \<Rightarrow> tool_entry \<Rightarrow> tool_call \<Rightarrow> tool_run \<Rightarrow> tool_result \<times> tool_run" where
  "dispatch_tool ev te tc r =
     (case (if te_kind te = PlainTool then None else ev_panic ev (tc_id tc) AtTransfer) of
        Some v \<Rightarrow> failed_call ev tc (''tool '' @ tc_name tc @ '' panicked: '' @ v) r
      | None \<Rightarrow>
          (case te_kind te of
             HandoffTool agent \<Rightarrow> hand_off ev tc agent r
           | ClarifyTool \<Rightarrow> ask_clarification ev tc r
           | SpawnTool name \<Rightarrow> spawn_sub_agent ev tc name r
           | DelegateTool name \<Rightarrow> delegate_to_sub_agent ev tc (Some name) r
           | InvokerTool \<Rightarrow> delegate_to_sub_agent ev tc None r
           | PlainTool \<Rightarrow>
               (case ev_slot ev (tc_id tc) of
                  Some why \<Rightarrow> failed_call ev tc why r
                | None \<Rightarrow> if ev_stop ev (tc_id tc) AtSlot \<noteq> None then failed_call ev tc ''context canceled'' r
                          else run_tool_step ev tc r)))"

definition attempt_call :: "tool_env \<Rightarrow> tool_call \<Rightarrow> tool_run \<Rightarrow> (tool_result \<times> tool_run) \<times> approval_part list" where
  "attempt_call ev tc r =
     (if ev_stop ev (tc_id tc) AtStart \<noteq> None then (failed_call ev tc ''context canceled'' r, [])
      else (case map_of (ev_tools ev) (tc_name tc) of
          None \<Rightarrow> (failed_call ev tc (''tool not found: '' @ tc_name tc) r, [])
        | Some te \<Rightarrow>
            if tc_error tc \<noteq> [] then (failed_call ev tc (''invalid tool arguments: '' @ tc_error tc) r, [])
            else (case check_args ev te tc r of
                (Inl res, r) \<Rightarrow> ((res, r), [])
              | (Inr _, r) \<Rightarrow>
                  (case clear_call ev te tc r of
                     ((Inl res, r), recs) \<Rightarrow> ((res, r), recs)
                   | ((Inr tc, r), recs) \<Rightarrow> (dispatch_tool ev te tc r, recs)))))"

definition execute_one_tool :: "tool_env \<Rightarrow> tool_call \<Rightarrow> tool_run \<Rightarrow> tool_result \<times> tool_run" where
  "execute_one_tool ev tc r =
     (case attempt_call ev tc (send_delta (ExecStart (tc_id tc) (tc_name tc)) r) of
        ((res, r), recs) \<Rightarrow> (stopped_result (ev_stop ev (tc_id tc) AtFinish) (res\<lparr>tr_approvals := recs\<rparr>), r))"

section \<open>The calls of a turn\<close>

definition is_handoff :: "tool_env \<Rightarrow> tool_call \<Rightarrow> bool" where
  "is_handoff ev tc = (case map_of (ev_tools ev) (tc_name tc) of
       Some te \<Rightarrow> (case te_kind te of HandoffTool t \<Rightarrow> True | _ \<Rightarrow> False) | None \<Rightarrow> False)"

fun execute_in_order :: "(tool_call \<Rightarrow> tool_run \<Rightarrow> tool_result \<times> tool_run) \<Rightarrow> tool_call list \<Rightarrow> tool_run \<Rightarrow>
    tool_result list \<times> tool_run" where
  "execute_in_order f [] r = ([], r)"
| "execute_in_order f (tc # tcs) r =
     (case f tc r of (res, r) \<Rightarrow> (case execute_in_order f tcs r of (rs, r) \<Rightarrow> (res # rs, r)))"

definition execute_tools :: "tool_env \<Rightarrow> tool_call list \<Rightarrow> tool_run \<Rightarrow> tool_result list \<times> tool_run" where
  "execute_tools ev tcs r =
     (if 1 < length (filter (is_handoff ev) tcs) then
        execute_in_order (\<lambda>tc. failed_call ev tc ''ambiguous handoff: request one control transfer per turn'') tcs r
      else execute_in_order (execute_one_tool ev) tcs r)"

text \<open>Results that answer the calls a panic or a guard left open, without running them.\<close>

definition answer_open_calls :: "string \<Rightarrow> message list \<Rightarrow> (message list) option" where
  "answer_open_calls reason ms =
     (if ms = [] then None
      else (case last ms of
          AssistantMessage ps \<Rightarrow>
            (case [i. ToolCallPart i n \<leftarrow> ps] of
               [] \<Rightarrow> None
             | ids \<Rightarrow> Some (ms @ [UserMessage (map (\<lambda>i. ToolResultPart i reason) ids)]))
        | _ \<Rightarrow> None))"

end
