(* ===== verification/Tool_Properties.thy ===== *)
theory Tool_Properties
  imports Tool_Call Budget_Ledger
begin

text \<open>
  Properties of a tool call (\<open>executeOneTool\<close> of \<open>agent/agent.go\<close>): a tool starts only when every check cleared its
  call, every call is reported and answered exactly once, and a quota bounds how often a tool starts.
\<close>

section \<open>What a step leaves of the run\<close>

definition same_call :: "tool_call \<Rightarrow> tool_call \<Rightarrow> bool" where
  "same_call a b = (tc_id a = tc_id b \<and> tc_name a = tc_name b)"

lemma same_call_args [simp]: "same_call (c\<lparr>tc_args := a\<rparr>) d = same_call c d" "same_call c c"
    "same_call (with_args a c) d = same_call c d"
  by (simp_all add: same_call_def with_args_def)

text \<open>A step starts nothing. If it finishes the call, it reports one end; otherwise it reports nothing.\<close>

definition step_ok :: "tool_call \<Rightarrow> tool_run \<Rightarrow> 'a call_step \<Rightarrow> bool" where
  "step_ok tc r s =
     (tn_started (snd s) = tn_started r \<and>
      (case fst s of
         Inl res \<Rightarrow> tr_call res = tc_id tc \<and> tn_deltas (snd s) = tn_deltas r @ [ExecEnd (tc_id tc) (tc_name tc) (tr_err res)]
       | Inr a \<Rightarrow> tn_deltas (snd s) = tn_deltas r))"

definition quiet_step :: "tool_call \<Rightarrow> tool_run \<Rightarrow> 'a call_step \<Rightarrow> bool" where
  "quiet_step tc r s = (step_ok tc r s \<and> tn_budget (snd s) = tn_budget r)"

lemma stopped_result_call [simp]: "tr_call (stopped_result stop res) = tr_call res"
  by (simp add: stopped_result_def no_result_def split: option.splits)

lemma no_result_call [simp]: "tr_call (no_result i) = i" "tr_refused (no_result i) = False" "tr_err (no_result i) = []"
  by (simp_all add: no_result_def)

lemma failed_tool_quiet: "same_call tc' tc \<Longrightarrow> quiet_step tc r (failed_tool ev tc' msg r)"
  by (simp add: failed_tool_def failed_call_def quiet_step_def step_ok_def send_delta_def Let_def same_call_def)

lemma refused_tool_quiet: "same_call tc' tc \<Longrightarrow> quiet_step tc r (refused_tool ev tc' msg r)"
  by (simp add: refused_tool_def refused_call_def failed_call_def quiet_step_def step_ok_def send_delta_def Let_def same_call_def)

lemma go_on_quiet [simp]: "quiet_step tc r (Inr a, r)"
  by (simp add: quiet_step_def step_ok_def)

lemma stop_run_fields [simp]: "tn_started (stop_run e r) = tn_started r" "tn_deltas (stop_run e r) = tn_deltas r"
    "tn_budget (stop_run e r) = tn_budget r" "tn_approvals (stop_run e r) = tn_approvals r"
  by (simp_all add: stop_run_def)

definition same_report :: "tool_run \<Rightarrow> tool_run \<Rightarrow> bool" where
  "same_report r r' = (tn_started r' = tn_started r \<and> tn_deltas r' = tn_deltas r \<and> tn_budget r' = tn_budget r)"

lemma quiet_step_move: "same_report r r' \<Longrightarrow> quiet_step tc r' s \<Longrightarrow> quiet_step tc r s"
  by (cases "fst s") (simp_all add: quiet_step_def step_ok_def same_report_def)

lemma quiet_step_went_on: "quiet_step tc r (Inr a, r') \<Longrightarrow> same_report r r'"
  by (simp add: quiet_step_def step_ok_def same_report_def)

lemma and_step_quiet:
  assumes "quiet_step tc r s" "\<And>a r'. s = (Inr a, r') \<Longrightarrow> quiet_step tc r' (f a r')"
  shows "quiet_step tc r (and_step s f)"
proof (cases s)
  case (Pair x r')
  show ?thesis
  proof (cases x)
    case (Inl res)
    then show ?thesis using assms(1) Pair by (simp add: quiet_step_def step_ok_def)
  next
    case (Inr a)
    then show ?thesis using assms Pair quiet_step_move quiet_step_went_on by fastforce
  qed
qed

lemma guarded_quiet:
  assumes "same_call tc' tc" "quiet_step tc r (f r)"
  shows "quiet_step tc r (guarded ev tc' pt f r)"
  using assms(2) by (simp add: guarded_def failed_tool_quiet [OF assms(1)] split: option.splits)

lemma check_args_quiet: "same_call tc' tc \<Longrightarrow> quiet_step tc r (check_args ev te tc' r)"
  by (simp add: check_args_def failed_tool_quiet)

lemma recheck_quiet:
  assumes "same_call tc' tc"
  shows "quiet_step tc r (recheck_edited_args ev te args tc' r)"
  unfolding recheck_edited_args_def Let_def
  by (intro and_step_quiet guarded_quiet check_args_quiet) (use assms in \<open>simp_all add: refused_tool_quiet\<close>)

lemma ask_approval_report: "ask_approval ev te phase tc recs r = (q, recs', r') \<Longrightarrow> same_report r r'"
  by (auto simp: ask_approval_def Let_def same_report_def split: option.splits)

lemma gate_tool_quiet:
  assumes "same_call tc' tc"
  shows "quiet_step tc r (fst (gate_tool ev te tc' r))"
proof -
  obtain q recs r' where q: "ask_approval ev te ''gate'' (with_args (gd_args (tool_gate ev (te_def te) (tc_args tc'))) tc') [] r = (q, recs, r')"
    by (metis prod_cases3)
  note moved = quiet_step_move [OF ask_approval_report [OF q]]
  show ?thesis
    using assms q by (simp add: gate_tool_def Let_def refused_tool_quiet recheck_quiet moved split: gate_outcome.splits)
qed

lemma resolve_markers_quiet:
  assumes "same_call tc' tc"
  shows "quiet_step tc r (fst (resolve_markers ev te tc' recs r))"
proof -
  obtain q recs' r' where q: "ask_approval ev te ''marker'' tc' recs r = (q, recs', r')" by (metis prod_cases3)
  note moved = quiet_step_move [OF ask_approval_report [OF q]]
  show ?thesis using assms q by (simp add: resolve_markers_def refused_tool_quiet recheck_quiet moved)
qed

lemma hooks_quiet:
  assumes "same_call tc' tc"
  shows "quiet_step tc r (before_tool_hooks ev te tc' r)"
proof -
  have "quiet_step tc r (failed_tool ev tc' e (stop_run e r) :: tool_call call_step)" for e
    by (rule quiet_step_move [OF _ failed_tool_quiet [OF assms]]) (simp add: same_report_def)
  moreover have "quiet_step tc r (and_step (check_args ev te (tc'\<lparr>tc_args := a\<rparr>) r) (\<lambda>_ r. (Inr (tc'\<lparr>tc_args := a\<rparr>), r)))" for a
    by (intro and_step_quiet check_args_quiet) (use assms in simp_all)
  ultimately show ?thesis by (simp add: before_tool_hooks_def Let_def split: option.splits sum.splits)
qed

text \<open>A step that goes on with a call goes on with the same call, up to its arguments.\<close>

definition keeps_call :: "tool_call \<Rightarrow> tool_call call_step \<Rightarrow> bool" where
  "keeps_call tc s = (\<forall>c. fst s = Inr c \<longrightarrow> same_call c tc)"

lemma keeps_call_simps [simp]: "keeps_call tc (Inr c, r) = same_call c tc" "keeps_call tc (Inl res, r)"
  by (simp_all add: keeps_call_def)

lemma failed_keeps [simp]: "keeps_call tc (failed_tool ev c msg r)" "keeps_call tc (refused_tool ev c msg r)"
  by (simp_all add: keeps_call_def failed_tool_def refused_tool_def refused_call_def failed_call_def Let_def)

lemma and_step_keeps: "(\<And>a r'. s = (Inr a, r') \<Longrightarrow> keeps_call tc (f a r')) \<Longrightarrow> keeps_call tc (and_step s f)"
  by (cases s; cases "fst s") auto

lemma guarded_keeps: "keeps_call tc (f r) \<Longrightarrow> keeps_call tc (guarded ev c pt f r)"
  by (simp add: guarded_def split: option.splits)

lemma recheck_keeps: "same_call tc' tc \<Longrightarrow> keeps_call tc (recheck_edited_args ev te args tc' r)"
  unfolding recheck_edited_args_def Let_def by (intro and_step_keeps guarded_keeps) simp

lemma gate_tool_keeps: "same_call tc' tc \<Longrightarrow> keeps_call tc (fst (gate_tool ev te tc' r))"
  by (simp add: gate_tool_def Let_def recheck_keeps split: gate_outcome.splits prod.splits)

lemma resolve_markers_keeps: "same_call tc' tc \<Longrightarrow> keeps_call tc (fst (resolve_markers ev te tc' recs r))"
  by (simp add: resolve_markers_def recheck_keeps split: prod.splits)

lemma hooks_keep: "same_call tc' tc \<Longrightarrow> keeps_call tc (before_tool_hooks ev te tc' r)"
  by (auto simp: before_tool_hooks_def Let_def intro: and_step_keeps split: option.splits sum.splits)

section \<open>Clearing a call\<close>

lemma gate_stage_ok:
  assumes "same_call tc' tc"
  shows "quiet_step tc r (fst (gate_stage ev te tc' r)) \<and> keeps_call tc (fst (gate_stage ev te tc' r))"
  using assms by (simp add: gate_stage_def gate_tool_quiet gate_tool_keeps guarded_quiet guarded_keeps)

lemma marker_stage_ok:
  assumes "same_call tc' tc"
  shows "quiet_step tc r (fst (marker_stage ev te tc' recs r)) \<and> keeps_call tc (fst (marker_stage ev te tc' recs r))"
  using assms by (simp add: marker_stage_def resolve_markers_quiet resolve_markers_keeps guarded_quiet guarded_keeps)

lemma hook_stage_ok:
  assumes "same_call tc' tc"
  shows "quiet_step tc r (guarded ev tc' AtHooks (before_tool_hooks ev te tc') r) \<and>
    keeps_call tc (guarded ev tc' AtHooks (before_tool_hooks ev te tc') r)"
  using assms by (simp add: guarded_quiet guarded_keeps hooks_quiet hooks_keep)

lemma stage_cases:
  assumes "and_stage x f = (s, recs)" "quiet_step tc r (fst x)" "keeps_call tc (fst x)"
  obtains (finished) res r' where "s = (Inl res, r')" "x = ((Inl res, r'), recs)" "quiet_step tc r (Inl res :: tool_result + tool_call, r')"
  | (passed) c r1 recs1 where "x = ((Inr c, r1), recs1)" "f c r1 recs1 = (s, recs)" "same_call c tc" "same_report r r1"
proof -
  obtain y r1 recs1 where x: "x = ((y, r1), recs1)" by (cases x; cases "fst x") auto
  show ?thesis
  proof (cases y)
    case (Inl res)
    then show ?thesis using assms x by (intro finished [of res r1]) auto
  next
    case (Inr c)
    then show ?thesis using assms x quiet_step_went_on by (intro passed [of c r1 recs1]) auto
  qed
qed

lemma reserve_refused: "reserve_tool_call b n = (b', Some e) \<Longrightarrow> b' = b"
  by (auto simp: reserve_tool_call_def Let_def split: option.splits if_splits)

lemma charge_quota_cases:
  assumes "charge_quota ev tc r = s"
  obtains (refused) res r' where "s = (Inl res, r')" "quiet_step tc r s"
  | (charged) r' where "s = (Inr (), r')" "tn_started r' = tn_started r" "tn_deltas r' = tn_deltas r"
      "tn_budget r' = map_option (\<lambda>b. fst (reserve_tool_call b (tc_name tc))) (tn_budget r)"
      "\<And>b. tn_budget r = Some b \<Longrightarrow> snd (reserve_tool_call b (tc_name tc)) = None"
proof (cases "tn_budget r")
  case None
  show ?thesis by (rule charged [of r]) (use None assms in \<open>simp_all add: charge_quota_def\<close>)
next
  case b: (Some b)
  obtain b' e where q: "reserve_tool_call b (tc_name tc) = (b', e)" by (cases "reserve_tool_call b (tc_name tc)")
  show ?thesis
  proof (cases e)
    case None
    show ?thesis by (rule charged [of "r\<lparr>tn_budget := Some b'\<rparr>"]) (use None b assms q in \<open>simp_all add: charge_quota_def\<close>)
  next
    case (Some e')
    then have same: "r\<lparr>tn_budget := Some b'\<rparr> = r" using reserve_refused [of b "tc_name tc" b' e'] q b by (cases r) simp
    have s: "s = failed_tool ev tc ''tool quota exceeded'' r" using assms q Some b same by (simp add: charge_quota_def)
    show ?thesis by (rule refused) (simp_all add: s failed_tool_quiet, simp add: failed_tool_def failed_call_def Let_def)
  qed
qed

text \<open>How clearing a call ends: finished at some check, or cleared, with its quota charged.\<close>

definition cleared_by :: "tool_env \<Rightarrow> tool_entry \<Rightarrow> tool_call \<Rightarrow> tool_run \<Rightarrow> tool_call \<Rightarrow> tool_run \<Rightarrow> bool" where
  "cleared_by ev te tc r c r' =
     (\<exists>c1 r1 recs1 c2 r2 recs2 r3. gate_stage ev te tc r = ((Inr c1, r1), recs1) \<and>
        marker_stage ev te c1 recs1 r1 = ((Inr c2, r2), recs2) \<and>
        guarded ev c2 AtHooks (before_tool_hooks ev te c2) r2 = (Inr c, r3) \<and> ev_stop ev (tc_id c) AtDispatch = None \<and>
        charge_quota ev c r3 = (Inr (), r') \<and> same_call c1 tc \<and> same_call c2 tc \<and> same_call c tc \<and> same_report r r3)"

lemma same_report_trans: "same_report a b \<Longrightarrow> same_report b c \<Longrightarrow> same_report a c"
  by (simp add: same_report_def)

lemma quiet_same: "same_call c tc \<Longrightarrow> quiet_step c r s \<Longrightarrow> quiet_step tc r s"
  by (cases "fst s") (simp_all add: quiet_step_def step_ok_def same_call_def)

lemma quiet_finished: "quiet_step tc r (Inl res :: tool_result + 'a, r') = quiet_step tc r (Inl res :: tool_result + 'b, r')"
  by (simp add: quiet_step_def step_ok_def)

lemma quota_stage_cases:
  assumes "quota_stage ev tc r = s"
  obtains (refused) res r' where "s = (Inl res, r')" "quiet_step tc r s"
  | (charged) r' where "s = (Inr tc, r')" "ev_stop ev (tc_id tc) AtDispatch = None" "charge_quota ev tc r = (Inr (), r')"
proof (cases "ev_stop ev (tc_id tc) AtDispatch")
  case (Some why)
  then have s: "s = failed_tool ev tc ''context canceled'' r" using assms by (simp add: quota_stage_def)
  show ?thesis by (rule refused) (simp_all add: s failed_tool_quiet, simp add: failed_tool_def failed_call_def Let_def)
next
  case None
  then have s: "s = and_step (charge_quota ev tc r) (\<lambda>_ r. (Inr tc, r))" using assms by (simp add: quota_stage_def)
  show ?thesis
  proof (cases rule: charge_quota_cases [OF refl, of ev tc r, case_names refused charged])
    case r: (refused res r')
    have "quiet_step tc r (Inl res :: tool_result + tool_call, r')"
      using r quiet_finished [where 'a = unit and 'b = tool_call] by simp
    then show ?thesis by (intro refused [of res r']) (use r in \<open>simp_all add: s\<close>)
  next
    case c: (charged r')
    show ?thesis by (rule charged [of r']) (use c None in \<open>simp_all add: s\<close>)
  qed
qed

lemma clear_call_cases:
  assumes "clear_call ev te tc r = (s, recs)"
  obtains (finished) res r' where "s = (Inl res, r')" "quiet_step tc r s"
  | (cleared) c r' where "s = (Inr c, r')" "cleared_by ev te tc r c r'"
proof -
  have g: "quiet_step tc r (fst (gate_stage ev te tc r))" "keeps_call tc (fst (gate_stage ev te tc r))"
    using gate_stage_ok [of tc tc] by simp_all
  show ?thesis
  proof (cases rule: stage_cases [OF assms [unfolded clear_call_def] g, case_names finished passed])
    case f: (finished res r')
    show ?thesis by (rule finished [of res r']) (use f in simp_all)
  next
    case p1: (passed c1 r1 recs1)
    have m: "quiet_step tc r (fst (marker_stage ev te c1 recs1 r1))" "keeps_call tc (fst (marker_stage ev te c1 recs1 r1))"
      using marker_stage_ok [OF p1(3), of r1 ev te recs1] by (simp_all add: quiet_step_move [OF p1(4)])
    show ?thesis
    proof (cases rule: stage_cases [OF p1(2) m, case_names finished passed])
      case f: (finished res r')
      show ?thesis by (rule finished [of res r']) (use f in simp_all)
    next
      case p2: (passed c2 r2 recs2)
      obtain h r3 where h: "guarded ev c2 AtHooks (before_tool_hooks ev te c2) r2 = (h, r3)"
        by (cases "guarded ev c2 AtHooks (before_tool_hooks ev te c2) r2")
      have ok: "quiet_step tc r (h, r3)" "keeps_call tc (h, r3)"
        using hook_stage_ok [OF p2(3), of r2 ev te] h by (simp_all add: quiet_step_move [OF p2(4)])
      have s: "s = and_step (h, r3) (quota_stage ev)" using p2(2) h by simp
      show ?thesis
      proof (cases h)
        case (Inl res)
        show ?thesis by (rule finished [of res r3]) (use Inl s ok in simp_all)
      next
        case (Inr c)
        have c: "same_call c tc" "same_report r r3" using ok Inr quiet_step_went_on [of tc r c r3] by simp_all
        have s': "quota_stage ev c r3 = s" using s Inr by simp
        show ?thesis
        proof (cases rule: quota_stage_cases [OF s', case_names refused charged])
          case q: (refused res r')
          show ?thesis
            by (rule finished [OF q(1)]) (rule quiet_step_move [OF c(2) quiet_same [OF c(1) q(2)]])
        next
          case q: (charged r')
          have "cleared_by ev te tc r c r'"
            unfolding cleared_by_def using p1 p2 h Inr q c by blast
          then show ?thesis using cleared q(1) by blast
        qed
      qed
    qed
  qed
qed

section \<open>Dispatching a call\<close>

text \<open>What every way of running a tool keeps: one end is reported, the budget stays, at most this call starts.\<close>

definition dispatch_ok :: "tool_call \<Rightarrow> tool_run \<Rightarrow> tool_result \<times> tool_run \<Rightarrow> bool" where
  "dispatch_ok c r x =
     (tr_call (fst x) = tc_id c \<and> (tr_refused (fst x) \<longrightarrow> tn_started (snd x) = tn_started r) \<and> tn_budget (snd x) = tn_budget r \<and>
      (\<exists>e. tn_deltas (snd x) = tn_deltas r @ [ExecEnd (tc_id c) (tc_name c) e]) \<and>
      (tn_started (snd x) = tn_started r \<or> tn_started (snd x) = tn_started r @ [c]))"

lemma stopped_not_refused [simp]: "\<not> tr_refused res \<Longrightarrow> \<not> tr_refused (stopped_result stop res)"
  by (simp add: stopped_result_def split: option.splits)

lemma start_tool_fields [simp]: "tn_started (start_tool c r) = tn_started r @ [c]" "tn_deltas (start_tool c r) = tn_deltas r"
    "tn_budget (start_tool c r) = tn_budget r"
  by (simp_all add: start_tool_def)

lemma failed_dispatch: "dispatch_ok c r (failed_call ev c msg r)" "dispatch_ok c r (failed_call ev c msg (stop_run e r))"
  by (simp_all add: dispatch_ok_def failed_call_def send_delta_def Let_def)

lemma refused_dispatch: "dispatch_ok c r (refused_call ev c msg r)"
  by (simp add: dispatch_ok_def refused_call_def failed_call_def send_delta_def Let_def)

lemma succeeded_dispatch:
  assumes "tr_call res = tc_id c" "\<not> tr_refused res" "r' = r \<or> r' = start_tool c r"
  shows "dispatch_ok c r (res, send_delta (ExecEnd (tc_id c) (tc_name c) []) r')"
  using assms by (auto simp: dispatch_ok_def send_delta_def)

lemma finish_tool_ok:
  assumes "tr_call res = tc_id c" "\<not> tr_refused res" "tn_started r' = tn_started r @ [c]" "tn_deltas r' = tn_deltas r"
    "tn_budget r' = tn_budget r"
  shows "dispatch_ok c r (finish_tool ev c res r')"
  using assms by (simp add: dispatch_ok_def finish_tool_def send_delta_def Let_def)

lemma run_tool_step_ok: "dispatch_ok c r (run_tool_step ev c r)"
  by (simp add: run_tool_step_def Let_def finish_tool_ok split: tool_outcome.splits sum.splits)

lemma ask_clarification_ok: "dispatch_ok c r (ask_clarification ev c r)"
  by (simp add: ask_clarification_def failed_dispatch refused_dispatch succeeded_dispatch split: prod.splits)

lemma spawn_sub_agent_ok: "dispatch_ok c r (spawn_sub_agent ev c name r)"
  by (simp add: spawn_sub_agent_def failed_dispatch refused_dispatch succeeded_dispatch split: option.splits)

lemma delegation_check_ok: "delegation_check ev c name r = Some x \<Longrightarrow> dispatch_ok c r x"
  by (auto simp: delegation_check_def failed_dispatch refused_dispatch split: option.splits)

lemma delegate_ok: "dispatch_ok c r (delegate_to_sub_agent ev c native r)"
  by (auto simp: delegate_to_sub_agent_def failed_dispatch finish_tool_ok delegation_check_ok Let_def
      split: option.splits prod.splits)

lemma dispatch_tool_ok: "dispatch_ok c r (dispatch_tool ev te c r)"
  by (simp add: dispatch_tool_def hand_off_def Let_def failed_dispatch run_tool_step_ok ask_clarification_ok
      spawn_sub_agent_ok delegate_ok succeeded_dispatch split: tool_kind.splits option.splits)

text \<open>Only a question or a child agent is refused once its quota was charged.\<close>

definition asks_elsewhere :: "tool_entry \<Rightarrow> bool" where
  "asks_elsewhere te = (case te_kind te of ClarifyTool \<Rightarrow> True | SpawnTool n \<Rightarrow> True | DelegateTool n \<Rightarrow> True | _ \<Rightarrow> False)"

lemma failed_call_not_refused [simp]: "\<not> tr_refused (fst (failed_call ev c msg r))"
  by (simp add: failed_call_def Let_def)

lemma finish_tool_not_refused [simp]: "\<not> tr_refused res \<Longrightarrow> \<not> tr_refused (fst (finish_tool ev c res r))"
  by (simp add: finish_tool_def Let_def)

lemma refused_dispatch_kind: "tr_refused (fst (dispatch_tool ev te c r)) \<Longrightarrow> asks_elsewhere te"
  by (simp add: dispatch_tool_def asks_elsewhere_def hand_off_def run_tool_step_def delegate_to_sub_agent_def Let_def
      split: tool_kind.splits option.splits if_splits tool_outcome.splits sum.splits prod.splits)

section \<open>A call as a whole\<close>

text \<open>A call ends without its tool, having charged nothing, or is cleared, charged and dispatched.\<close>

definition dispatched :: "tool_env \<Rightarrow> tool_call \<Rightarrow> tool_run \<Rightarrow> tool_entry \<Rightarrow> tool_call \<Rightarrow> tool_run \<Rightarrow> bool" where
  "dispatched ev tc r te c r1 =
     (map_of (ev_tools ev) (tc_name tc) = Some te \<and> tc_error tc = [] \<and> ev_stop ev (tc_id tc) AtStart = None \<and>
      validate_tool_args (te_params te) (args_list (tc_args tc)) = [] \<and> cleared_by ev te tc r c r1)"

lemma check_args_cases:
  obtains (valid) "validate_tool_args (te_params te) (args_list (tc_args tc)) = []" "check_args ev te tc r = (Inr (), r)"
  | (invalid) res r' where "check_args ev te tc r = (Inl res, r')" "quiet_step tc r (Inl res :: tool_result + tool_call, r')"
proof (cases "validate_tool_args (te_params te) (args_list (tc_args tc)) = []")
  case True
  then show ?thesis by (intro valid) (simp_all add: check_args_def)
next
  case False
  obtain res r' where f: "(failed_tool ev tc ''invalid tool arguments'' r :: unit call_step) = (Inl res, r')"
    by (simp add: failed_tool_def failed_call_def Let_def)
  have "quiet_step tc r (Inl res :: tool_result + unit, r')"
    using failed_tool_quiet [of tc tc r ev "''invalid tool arguments''", where 'a = unit] f by simp
  then show ?thesis
    using False f quiet_finished [where 'a = unit and 'b = tool_call] by (intro invalid) (simp_all add: check_args_def)
qed

lemma failed_finished:
  "\<exists>res r'. failed_call ev tc msg r = (res, r') \<and> quiet_step tc r (Inl res :: tool_result + tool_call, r')"
  by (simp add: failed_call_def quiet_step_def step_ok_def send_delta_def Let_def)

lemma attempt_cases:
  assumes "attempt_call ev tc r = ((res, r'), recs)"
  obtains (finished) "quiet_step tc r (Inl res :: tool_result + tool_call, r')"
  | (dispatched) te c r1 where "dispatched ev tc r te c r1" "dispatch_tool ev te c r1 = (res, r')"
proof -
  have fail: thesis if "attempt_call ev tc r = (failed_call ev tc msg r, [])" for msg
    using failed_finished [of ev tc msg r] that assms by (intro finished) auto
  show ?thesis
  proof (cases "ev_stop ev (tc_id tc) AtStart")
    case (Some why)
    then show ?thesis by (intro fail) (simp add: attempt_call_def)
  next
    case start: None
    show ?thesis
    proof (cases "map_of (ev_tools ev) (tc_name tc)")
      case None
      then show ?thesis by (intro fail) (simp add: attempt_call_def start)
    next
      case te: (Some te)
      show ?thesis
      proof (cases "tc_error tc = []")
        case False
        then show ?thesis by (intro fail) (simp add: attempt_call_def start te Let_def)
      next
        case e: True
        note attempt = assms [unfolded attempt_call_def Let_def, simplified start te e, simplified]
        show ?thesis
        proof (cases rule: check_args_cases [of te tc ev r, case_names valid invalid])
          case (invalid res1 r1)
          then show ?thesis using attempt by (intro finished) simp
        next
          case v: valid
          obtain s recs1 where s: "clear_call ev te tc r = (s, recs1)" by (cases "clear_call ev te tc r")
          show ?thesis
          proof (cases rule: clear_call_cases [OF s, case_names finished cleared])
            case (finished res1 r1)
            then show ?thesis using attempt v s by (intro \<open>quiet_step tc r (Inl res, r') \<Longrightarrow> thesis\<close>) simp
          next
            case (cleared c r1)
            show ?thesis
              by (rule dispatched [of te c r1]) (use attempt v s cleared start te e in \<open>simp_all add: dispatched_def\<close>)
          qed
        qed
      qed
    qed
  qed
qed

text \<open>The effect of a call on its run, whatever happens inside.\<close>

lemma dispatched_report:
  assumes "dispatched ev tc r te c r1"
  shows "same_call c tc" "tn_started r1 = tn_started r" "tn_deltas r1 = tn_deltas r"
    "tn_budget r1 = map_option (\<lambda>b. fst (reserve_tool_call b (tc_name tc))) (tn_budget r)"
    "\<And>b. tn_budget r = Some b \<Longrightarrow> snd (reserve_tool_call b (tc_name tc)) = None"
proof -
  obtain r3 where c: "same_call c tc" "same_report r r3" and q: "charge_quota ev c r3 = (Inr (), r1)"
    using assms by (auto simp: dispatched_def cleared_by_def)
  have "tn_started r1 = tn_started r3 \<and> tn_deltas r1 = tn_deltas r3 \<and>
      tn_budget r1 = map_option (\<lambda>b. fst (reserve_tool_call b (tc_name c))) (tn_budget r3) \<and>
      (\<forall>b. tn_budget r3 = Some b \<longrightarrow> snd (reserve_tool_call b (tc_name c)) = None)"
    by (cases rule: charge_quota_cases [OF q]) simp_all
  then show "same_call c tc" "tn_started r1 = tn_started r" "tn_deltas r1 = tn_deltas r"
    "tn_budget r1 = map_option (\<lambda>b. fst (reserve_tool_call b (tc_name tc))) (tn_budget r)"
    "\<And>b. tn_budget r = Some b \<Longrightarrow> snd (reserve_tool_call b (tc_name tc)) = None"
    using c by (simp_all add: same_report_def same_call_def)
qed

definition opened :: "tool_call \<Rightarrow> tool_run \<Rightarrow> tool_run" where
  "opened tc r = send_delta (ExecStart (tc_id tc) (tc_name tc)) r"

lemma opened_fields [simp]: "tn_started (opened tc r) = tn_started r" "tn_budget (opened tc r) = tn_budget r"
    "tn_deltas (opened tc r) = tn_deltas r @ [ExecStart (tc_id tc) (tc_name tc)]"
  by (simp_all add: opened_def send_delta_def)

definition reported :: "tool_call \<Rightarrow> tool_run \<Rightarrow> tool_result \<times> tool_run \<Rightarrow> bool" where
  "reported tc r x =
     (tr_call (fst x) = tc_id tc \<and>
      (\<exists>e. tn_deltas (snd x) = tn_deltas r @ [ExecStart (tc_id tc) (tc_name tc), ExecEnd (tc_id tc) (tc_name tc) e]))"

lemma execute_cases:
  assumes "execute_one_tool ev tc r = (res, r')"
  obtains (finished) "reported tc r (res, r')" "tn_started r' = tn_started r" "tn_budget r' = tn_budget r"
  | (dispatched) te c r1 where "reported tc r (res, r')" "dispatched ev tc (opened tc r) te c r1"
      "tr_refused res \<longrightarrow> tn_started r' = tn_started r \<and> asks_elsewhere te"
      "tn_started r' \<in> {tn_started r, tn_started r @ [c]}" "tn_budget r' = tn_budget r1"
proof -
  obtain res1 recs where a: "attempt_call ev tc (opened tc r) = ((res1, r'), recs)"
    and res: "res = stopped_result (ev_stop ev (tc_id tc) AtFinish) (res1\<lparr>tr_approvals := recs\<rparr>)"
    using assms by (auto simp: execute_one_tool_def opened_def split: prod.splits)
  show ?thesis
  proof (cases rule: attempt_cases [OF a, case_names finished dispatched])
    case finished
    then show ?thesis
      by (intro \<open>reported tc r (res, r') \<Longrightarrow> tn_started r' = tn_started r \<Longrightarrow> tn_budget r' = tn_budget r \<Longrightarrow> thesis\<close>)
        (simp_all add: reported_def quiet_step_def step_ok_def res)
  next
    case d: (dispatched te c r1)
    note r1 = dispatched_report [OF d(1)]
    have ok: "dispatch_ok c r1 (res1, r')" using dispatch_tool_ok [of c r1 ev te] d(2) by simp
    have "asks_elsewhere te" if "tr_refused res1" using refused_dispatch_kind [of ev te c r1] that d(2) by simp
    moreover have "tr_refused res1" if "tr_refused res"
      using that stopped_not_refused [of "res1\<lparr>tr_approvals := recs\<rparr>"] unfolding res by (cases res1) fastforce
    ultimately show ?thesis using r1 d(1) ok
      by (intro dispatched [of te c r1]) (auto simp: reported_def dispatch_ok_def same_call_def res)
  qed
qed

section \<open>What clearing a call guarantees\<close>







lemma failed_not_passed [simp]: "failed_tool ev c msg r \<noteq> (Inr a, r')" "refused_tool ev c msg r \<noteq> (Inr a, r')"
  by (simp_all add: failed_tool_def refused_tool_def refused_call_def failed_call_def Let_def)











section \<open>The properties\<close>



text \<open>
  A refused call starts nothing; and unless it was a question to the user or a delegation, which are refused at
  their dispatch, it charges no quota.
\<close>

theorem refused_call_is_free:
  assumes "execute_one_tool ev tc r = (res, r')" "tr_refused res"
  shows "tn_started r' = tn_started r \<and>
    (tn_budget r' = tn_budget r \<or> (\<exists>te. map_of (ev_tools ev) (tc_name tc) = Some te \<and> asks_elsewhere te))"
  using assms(2) by (cases rule: execute_cases [OF assms(1)]) (auto simp: dispatched_def)

section \<open>The calls of a turn\<close>

text \<open>What one call leaves of a quota: starts of the tool plus the room left never grow.\<close>

definition starts_of :: "string \<Rightarrow> tool_run \<Rightarrow> nat" where
  "starts_of name r = length (filter (\<lambda>c. tc_name c = name) (tn_started r))"

definition has_quota :: "string \<Rightarrow> int \<Rightarrow> tool_run \<Rightarrow> bool" where
  "has_quota name limit r =
     (\<exists>b. tn_budget r = Some b \<and> map_of (bg_quotas b) name = Some limit \<and> 0 \<le> tool_calls b name \<and> limit \<le> max_int64)"

definition quota_room :: "string \<Rightarrow> int \<Rightarrow> tool_run \<Rightarrow> nat" where
  "quota_room name limit r = (case tn_budget r of None \<Rightarrow> 0 | Some b \<Rightarrow> nat (limit - tool_calls b name))"

lemma reserve_tool_call_counts:
  assumes "map_of (bg_quotas b) name = Some limit" "0 \<le> tool_calls b name" "limit \<le> max_int64"
    "snd (reserve_tool_call b n) = None"
  shows "map_of (bg_quotas (fst (reserve_tool_call b n))) name = Some limit"
    "0 \<le> tool_calls (fst (reserve_tool_call b n)) name"
    "nat (limit - tool_calls (fst (reserve_tool_call b n)) name) + (if n = name then 1 else 0) = nat (limit - tool_calls b name)"
  using assms by (auto simp: reserve_tool_call_def tool_calls_def Let_def update_conv count_of_def wrap64_small max_int64_def
      split: option.splits if_splits)

lemma call_within_quota:
  assumes "has_quota name limit r" "execute_one_tool ev tc r = (res, r')"
  shows "has_quota name limit r' \<and> starts_of name r' + quota_room name limit r' \<le> starts_of name r + quota_room name limit r"
proof (cases rule: execute_cases [OF assms(2), case_names finished dispatched])
  case finished
  then show ?thesis using assms(1) by (simp add: has_quota_def starts_of_def quota_room_def)
next
  case (dispatched te c r1)
  obtain b where b: "tn_budget r = Some b" "map_of (bg_quotas b) name = Some limit" "0 \<le> tool_calls b name" "limit \<le> max_int64"
    using assms(1) by (auto simp: has_quota_def)
  note d = dispatched_report [OF dispatched(2), simplified]
  note counts = reserve_tool_call_counts [OF b(2-4) d(5) [OF b(1)]]
  have b': "tn_budget r' = Some (fst (reserve_tool_call b (tc_name tc)))" using d(4) b(1) dispatched(5) by simp
  have "starts_of name r' \<le> starts_of name r + (if tc_name tc = name then 1 else 0)"
    using dispatched(4) d(1) by (auto simp: starts_of_def same_call_def)
  then show ?thesis using counts b b' by (simp add: has_quota_def quota_room_def)
qed

lemma calls_in_order:
  assumes "\<And>tc r. tr_call (fst (f tc r)) = tc_id tc"
  shows "map tr_call (fst (execute_in_order f tcs r)) = map tc_id tcs"
proof (induction tcs arbitrary: r)
  case (Cons tc tcs)
  then show ?case using assms [of tc r] by (simp split: prod.splits) (metis fst_conv)
qed simp

lemma calls_within_quota:
  assumes "has_quota name limit r"
  shows "has_quota name limit (snd (execute_in_order (execute_one_tool ev) tcs r)) \<and>
    starts_of name (snd (execute_in_order (execute_one_tool ev) tcs r)) +
      quota_room name limit (snd (execute_in_order (execute_one_tool ev) tcs r)) \<le> starts_of name r + quota_room name limit r"
  using assms
proof (induction tcs arbitrary: r)
  case (Cons tc tcs)
  obtain res r1 where one: "execute_one_tool ev tc r = (res, r1)" by (cases "execute_one_tool ev tc r")
  note step = call_within_quota [OF Cons.prems one]
  obtain rs r2 where rest: "execute_in_order (execute_one_tool ev) tcs r1 = (rs, r2)"
    by (cases "execute_in_order (execute_one_tool ev) tcs r1")
  from Cons.IH [OF conjunct1 [OF step]] show ?case using step by (simp add: one rest)
qed simp

lemma failing_calls_start_nothing:
  assumes "\<And>tc r. tr_call (fst (f tc r)) = tc_id tc \<and> tn_started (snd (f tc r)) = tn_started r \<and> tn_budget (snd (f tc r)) = tn_budget r"
  shows "tn_started (snd (execute_in_order f tcs r)) = tn_started r \<and> tn_budget (snd (execute_in_order f tcs r)) = tn_budget r"
proof (induction tcs arbitrary: r)
  case (Cons tc tcs)
  then show ?case using assms [of tc r] by (simp split: prod.splits) (metis snd_conv)
qed simp

lemma failed_call_fields:
  "tr_call (fst (failed_call ev tc msg r)) = tc_id tc" "tn_started (snd (failed_call ev tc msg r)) = tn_started r"
  "tn_budget (snd (failed_call ev tc msg r)) = tn_budget r"
  by (simp_all add: failed_call_def send_delta_def Let_def)

text \<open>
  The results of a turn answer its calls one to one, in their order; and a turn that asks for more than one
  handoff starts no tool and charges nothing.
\<close>

theorem turn_answers_every_call:
  "map tr_call (fst (execute_tools ev tcs r)) = map tc_id tcs \<and>
   (length (filter (is_handoff ev) tcs) \<le> 1 \<or>
      tn_started (snd (execute_tools ev tcs r)) = tn_started r \<and> tn_budget (snd (execute_tools ev tcs r)) = tn_budget r)"
proof -
  have "tr_call (fst (execute_one_tool ev tc r)) = tc_id tc" for tc r
  proof (cases "execute_one_tool ev tc r")
    case (Pair res r')
    have "reported tc r (res, r')" by (cases rule: execute_cases [OF Pair])
    then show ?thesis using Pair by (simp add: reported_def)
  qed
  then show ?thesis unfolding execute_tools_def
    by (auto simp: calls_in_order failed_call_fields failing_calls_start_nothing)
qed

text \<open>
  C21: A tool's quota bounds its starts: in the calls of a turn, whatever happens to each, a tool with a quota starts
  at most as often as the quota still allows.
\<close>

theorem starts_within_quota:
  assumes "tn_budget r = Some b" "map_of (bg_quotas b) name = Some limit" "0 \<le> tool_calls b name" "limit \<le> max_int64"
  shows "length (filter (\<lambda>c. tc_name c = name) (tn_started (snd (execute_tools ev tcs r)))) \<le>
    length (filter (\<lambda>c. tc_name c = name) (tn_started r)) + nat (limit - tool_calls b name)"
proof (cases "length (filter (is_handoff ev) tcs) \<le> 1")
  case True
  have "has_quota name limit r" using assms by (simp add: has_quota_def)
  from conjunct2 [OF calls_within_quota [OF this, of ev tcs]] show ?thesis
    using True assms(1) by (simp add: execute_tools_def starts_of_def quota_room_def)
next
  case False
  then have "tn_started (snd (execute_tools ev tcs r)) = tn_started r"
    by (simp add: execute_tools_def failing_calls_start_nothing failed_call_fields)
  then show ?thesis by simp
qed

section \<open>Concrete calls\<close>

definition rm_tool :: tool_entry where
  "rm_tool = \<lparr>te_def = \<lparr>td_name = ''rm'', td_description = [], td_capability = CapWrite\<rparr>,
     te_params = \<lparr>sc_type = ''object'', sc_required = [''path''], sc_props = [(''path'', \<lparr>py_type = ''string'', py_nullable = False\<rparr>)]\<rparr>,
     te_markers = [], te_kind = PlainTool\<rparr>"

definition edited_args :: tool_args where
  "edited_args = [(''path'', JStr ''/tmp'')]"

text \<open>A person allows a call of \<open>rm\<close> with another path; the gate denies the root and asks about the rest.\<close>

definition rm_env :: tool_env where
  "rm_env = \<lparr>ev_tools = [(''rm'', rm_tool)],
     ev_gate = (\<lambda>def args. if args = Some [(''path'', JStr ''/'')] then deny ''root'' else allow\<lparr>gd_outcome := GateRequireApproval\<rparr>),
     ev_policy = None, ev_runner = None, ev_digest = (\<lambda>s. s),
     ev_answer = (\<lambda>phase tc. (automatic\<lparr>dc_args := Some edited_args\<rparr>, True)), ev_hooks = None,
     ev_run = (\<lambda>tc. ToolReturns ''ok'' []), ev_after = (\<lambda>tc t e. Inr (t, e)), ev_inline = True,
     ev_spawns = True, ev_call_path = [], ev_child_hook = (\<lambda>tc. None), ev_child_history = (\<lambda>tc. None),
     ev_child_start = (\<lambda>tc. None), ev_child = (\<lambda>tc. ([], [], None)), ev_slot = (\<lambda>i. None),
     ev_stop = (\<lambda>i m. None), ev_panic = (\<lambda>i p. None), ev_now = 0\<rparr>"

definition rm_run :: tool_run where
  "rm_run = \<lparr>tn_deltas = [], tn_budget = Some (tool_quota (new_budget
       \<lparr>bp_call_cost = 0, bp_call_tokens = 0, bp_limit = 0, bp_warn_at = 0, bp_on_exceed = BudgetStop, bp_approval_grant = 0,
        bp_max_requests = 0, bp_max_tokens = 0, bp_allow_unpriced = True\<rparr>) ''rm'' 1),
     tn_approvals = None, tn_error = None, tn_started = []\<rparr>"

definition rm_call :: "string \<Rightarrow> string \<Rightarrow> tool_call" where
  "rm_call i path = \<lparr>tc_id = i, tc_name = ''rm'', tc_args = Some [(''path'', JStr path)], tc_error = []\<rparr>"


theorem refused_call_is_free_witness:
  "tn_started (snd (execute_one_tool rm_env (rm_call ''c1'' ''/'') rm_run)) = []"
proof -
  obtain res r' where x: "execute_one_tool rm_env (rm_call ''c1'' ''/'') rm_run = (res, r')"
    by (cases "execute_one_tool rm_env (rm_call ''c1'' ''/'') rm_run")
  have "tr_refused (fst (execute_one_tool rm_env (rm_call ''c1'' ''/'') rm_run))" by code_simp
  then have "tr_refused res" by (simp add: x)
  from refused_call_is_free [OF x this] have "tn_started r' = tn_started rm_run" by blast
  then show ?thesis by (simp add: x) (simp add: rm_run_def)
qed

theorem starts_within_quota_witness:
  "length (filter (\<lambda>c. tc_name c = ''rm'')
     (tn_started (snd (execute_tools rm_env [rm_call ''c1'' ''/var'', rm_call ''c2'' ''/opt''] rm_run)))) \<le> 1"
proof -
  have b: "tn_budget rm_run = Some (the (tn_budget rm_run))" "map_of (bg_quotas (the (tn_budget rm_run))) ''rm'' = Some 1"
    "tool_calls (the (tn_budget rm_run)) ''rm'' = 0" by code_simp+
  have "0 \<le> tool_calls (the (tn_budget rm_run)) ''rm''" "(1::int) \<le> max_int64" using b(3) by (simp_all add: max_int64_def)
  from starts_within_quota [OF b(1,2) this, of rm_env "[rm_call ''c1'' ''/var'', rm_call ''c2'' ''/opt'']"]
  show ?thesis using b(3) by (simp add: rm_run_def)
qed

end
