(* ===== verification/Run_State.thy ===== *)
theory Run_State
  imports Tool_Call Assemble
begin

text \<open>
  The state of an agent run and the pieces its loop is built of (\<open>agent/agent.go\<close>, \<open>forcing.go\<close>, \<open>submit.go\<close>,
  \<open>overflow.go\<close>, \<open>subagent_budget.go\<close>, \<open>guardrail.go\<close>): the transcript of its branch, the inbox of submitted
  messages, the loop guards, the compaction state of a turn and the charge of a model call. What happens around
  one iteration of the loop is a \<open>moment\<close>: an argument of the iteration.
\<close>

section \<open>The transcript\<close>

text \<open>
  A message of the run's branch. A user message carries the id of the submission it came from, empty for input
  and notes of the run; a turn carries its truncation marker.
\<close>

datatype run_msg =
    RunSystem string
  | RunUser string string
  | RunTurn "turn_part list" "string option"
  | RunResults "tool_result list"
  | RunHandoff string string

datatype run_error =
    RunCanceled | RunMaxIter | RunToolErrors nat | RunRepeated nat | RunHandoffLimit | RunTruncated
  | RunSchemaInvalid nat | RunStopped | RunTripped string | RunBudget budget_error | RunSuspended
  | RunPanicked string | RunWrite string | RunFailed string

fun call_of :: "turn_part \<Rightarrow> tool_call list" where
  "call_of (TurnToolCall i n a e) = [\<lparr>tc_id = i, tc_name = n, tc_args = a, tc_error = e\<rparr>]"
| "call_of p = []"

definition turn_calls :: "turn_part list \<Rightarrow> tool_call list" where
  "turn_calls ps = concat (map call_of ps)"

definition without_tool_calls :: "turn_part list \<Rightarrow> turn_part list" where
  "without_tool_calls ps = filter (\<lambda>p. call_of p = []) ps"

fun part_text :: "turn_part \<Rightarrow> string" where
  "part_text (TurnText t) = t"
| "part_text p = []"

definition content_text :: "turn_part list \<Rightarrow> string" where
  "content_text ps = concat (map part_text ps)"

text \<open>One text block in place of the text blocks, where the first was; other blocks stay.\<close>

fun rewrite_from :: "bool \<Rightarrow> string \<Rightarrow> turn_part list \<Rightarrow> turn_part list" where
  "rewrite_from placed t [] = (if placed then [] else [TurnText t])"
| "rewrite_from placed t (TurnText u # ps) = (if placed then rewrite_from True t ps else TurnText t # rewrite_from True t ps)"
| "rewrite_from placed t (p # ps) = p # rewrite_from placed t ps"

definition rewrite_text :: "turn_part list \<Rightarrow> string \<Rightarrow> turn_part list" where
  "rewrite_text ps t = rewrite_from False t ps"

section \<open>Submitted messages\<close>

datatype submit_mode = SubmitQueue | SubmitSteer | SubmitInterrupt

record submission =
  sb_id :: string
  sb_mode :: submit_mode
  sb_text :: string

record inbox =
  ib_pending :: "submission list"
  ib_closed :: bool

text \<open>A submission is accepted until the run has passed its last safe point. \<open>take\<close> is what a safe point removes.\<close>

definition submit :: "inbox \<Rightarrow> submission \<Rightarrow> inbox" where
  "submit b s = (if ib_closed b then b else b\<lparr>ib_pending := ib_pending b @ [s]\<rparr>)"

definition take_inbox :: "bool \<Rightarrow> inbox \<Rightarrow> submission list \<times> inbox" where
  "take_inbox finishing b =
     (if finishing then (ib_pending b, b\<lparr>ib_pending := [], ib_closed := ib_closed b \<or> ib_pending b = []\<rparr>)
      else (filter (\<lambda>s. sb_mode s \<noteq> SubmitQueue) (ib_pending b),
            b\<lparr>ib_pending := filter (\<lambda>s. sb_mode s = SubmitQueue) (ib_pending b)\<rparr>))"

definition take_open :: "inbox \<Rightarrow> submission list \<times> inbox" where
  "take_open b = (ib_pending b, b\<lparr>ib_pending := []\<rparr>)"

section \<open>Loop guards\<close>

record loop_guards =
  lg_failed :: nat
  lg_repeats :: nat
  lg_last :: string
  lg_tripped :: "run_error option"

definition no_guards :: loop_guards where
  "no_guards = \<lparr>lg_failed = 0, lg_repeats = 0, lg_last = [], lg_tripped = None\<rparr>"

definition call_signature :: "tool_call list \<Rightarrow> string" where
  "call_signature calls = concat (map (\<lambda>c. tc_name c @ [CHR 0x00] @
     (case tc_args c of None \<Rightarrow> ''null'' | Some a \<Rightarrow> marshal (JObj a)) @ [CHR 0x0A]) calls)"

definition count_repeat :: "tool_call list \<Rightarrow> loop_guards \<Rightarrow> loop_guards" where
  "count_repeat calls g =
     (if call_signature calls = lg_last g then g\<lparr>lg_repeats := lg_repeats g + 1\<rparr>
      else g\<lparr>lg_last := call_signature calls, lg_repeats := 1\<rparr>)"

definition repeated :: "int \<Rightarrow> tool_call list \<Rightarrow> loop_guards \<Rightarrow> bool \<times> loop_guards" where
  "repeated limit calls g =
     (let g = count_repeat calls g in
      if 0 < limit \<and> limit < int (lg_repeats g) then (True, g\<lparr>lg_tripped := Some (RunRepeated (lg_repeats g))\<rparr>)
      else (False, g))"

definition record_results :: "int \<Rightarrow> tool_result list \<Rightarrow> loop_guards \<Rightarrow> loop_guards" where
  "record_results limit rs g =
     (let limit = (if limit = 0 then 2 else limit);
          refused = length (filter tr_refused rs);
          failed = length (filter (\<lambda>r. \<not> tr_refused r \<and> tr_err r \<noteq> []) rs)
      in if refused = length rs then g
         else if failed + refused < length rs then g\<lparr>lg_failed := 0\<rparr>
         else let g = g\<lparr>lg_failed := lg_failed g + 1\<rparr> in
              if 0 < limit \<and> limit \<le> int (lg_failed g) then g\<lparr>lg_tripped := Some (RunToolErrors (lg_failed g))\<rparr> else g)"

section \<open>Context pressure of a turn\<close>

record overflow =
  ov_last :: int
  ov_retries :: nat
  ov_original :: "run_error option"
  ov_compacted :: bool
  ov_pressure :: bool
  ov_size :: int
  ov_rounds :: nat

definition no_overflow :: overflow where
  "no_overflow = \<lparr>ov_last = 0, ov_retries = 0, ov_original = None, ov_compacted = False, ov_pressure = False,
     ov_size = 0, ov_rounds = 0\<rparr>"

definition turn_succeeded :: "usage_delta option \<Rightarrow> overflow \<Rightarrow> overflow" where
  "turn_succeeded u ov =
     ov\<lparr>ov_retries := 0, ov_original := None, ov_compacted := False, ov_pressure := False, ov_size := 0, ov_rounds := 0,
        ov_last := (case u of Some d \<Rightarrow> if 0 < ud_prompt d \<and> ud_requests d \<le> 1 then ud_prompt d else ov_last ov
                    | None \<Rightarrow> ov_last ov)\<rparr>"

definition can_compact :: "overflow \<Rightarrow> bool" where
  "can_compact ov = (\<not> ov_compacted ov \<or> ov_pressure ov)"

section \<open>The run, its configuration and a moment of it\<close>

record run_state =
  rn_msgs :: "run_msg list"
  rn_inbox :: inbox
  rn_iter :: nat
  rn_turn_start :: nat
  rn_pending :: bool
  rn_wrapped :: bool
  rn_continues :: nat
  rn_repairs :: nat
  rn_handoffs :: nat
  rn_guards :: loop_guards
  rn_overflow :: overflow
  rn_tools :: tool_run
  rn_forced :: bool
  rn_stop_call :: string

text \<open>
  The configuration: limits and policies, the prompts of notes, the tools that end the run, the check of a final
  text answer, whether the provider continues a partial turn, and the outcome of writing a message to the branch.
\<close>

record loop_config =
  lc_max_iter :: int
  lc_wrap_up_at :: int
  lc_wrap_up_note :: "nat \<Rightarrow> int \<Rightarrow> string"
  lc_force_final :: bool
  lc_auto_continue :: int
  lc_max_handoffs :: int
  lc_max_errors :: int
  lc_max_repeats :: int
  lc_stop_tools :: "string list"
  lc_output_tool :: bool
  lc_answer_error :: "turn_part list \<Rightarrow> string option"
  lc_needs_schema :: "turn_part list \<Rightarrow> bool"
  lc_prefill :: bool
  lc_handoff_group :: bool
  lc_compaction :: bool
  lc_max_input :: int
  lc_write :: "run_msg list \<Rightarrow> run_msg \<Rightarrow> string option"

text \<open>
  The usage of a model call: what the provider reported, if anything, the model to charge with its prices, whether the
  output limit cut the call short, and the answer of a person asked about an exceeded budget.
\<close>

record call_usage =
  cu_delta :: "usage_delta option"
  cu_account :: string
  cu_model :: string
  cu_pricing :: pricing
  cu_truncated :: bool
  cu_approved :: "string option"

datatype model_answer =
    Answered "turn_part list option"
  | InterruptedCall "turn_part list option"
  | InterruptedReplay "turn_part list"
  | ModelFails run_error bool

datatype compaction = KeepBranch | NewBranch "run_msg list" | CompactionFails run_error

datatype guard_verdict = VerdictPass | VerdictRewrite string | VerdictBlock string | VerdictFails string

text \<open>A guardrail check of a text: the model calls it made and its verdict.\<close>

type_synonym guard_check = "call_usage list \<times> guard_verdict"

datatype run_point = BeforeCall | AfterTurn

record moment =
  mo_canceled :: bool
  mo_early :: "submission list"
  mo_late :: "submission list"
  mo_spawned :: "(string \<times> string) list"
  mo_awaited :: "(run_error + (string \<times> string) list) list"
  mo_admit :: "string \<Rightarrow> guard_check"
  mo_agent :: string
  mo_setup :: "run_error option"
  mo_size :: int
  mo_compact_now :: bool
  mo_compaction :: compaction
  mo_summaries :: "call_usage list"
  mo_recovery :: compaction
  mo_retry_summaries :: "call_usage list"
  mo_request :: "run_error option"
  mo_answer :: model_answer
  mo_usage :: call_usage
  mo_parallel :: "guard_check option"
  mo_schema :: model_answer
  mo_schema_usage :: call_usage
  mo_final :: model_answer
  mo_final_usage :: call_usage
  mo_guard :: "string \<Rightarrow> guard_check"
  mo_tools :: tool_env
  mo_turn_hook :: "run_error option"
  mo_outcome :: "run_error option"
  mo_suspended :: bool
  mo_dead :: bool
  mo_stop :: "string option"
  mo_stop_call :: bool
  mo_stop_tools :: bool
  mo_panic :: "run_point \<Rightarrow> string option"

section \<open>Results of a step\<close>

text \<open>
  An iteration ends with another one or with the end of the run, its error being \<open>None\<close> for a clean end. A step
  inside it ends the iteration (\<open>Inl\<close>) or goes on with a value.
\<close>

datatype run_end = Again run_state | Over run_state "run_error option"

type_synonym 'a run_step = "run_end + 'a"

fun and_go :: "'a run_step \<Rightarrow> ('a \<Rightarrow> 'b run_step) \<Rightarrow> 'b run_step" where
  "and_go (Inl e) f = Inl e"
| "and_go (Inr a) f = f a"

fun fold_go :: "('a \<Rightarrow> run_state \<Rightarrow> run_state run_step) \<Rightarrow> 'a list \<Rightarrow> run_state \<Rightarrow> run_state run_step" where
  "fold_go f [] s = Inr s"
| "fold_go f (x # xs) s = and_go (f x s) (fold_go f xs)"

definition end_with :: "run_error option \<Rightarrow> run_state \<Rightarrow> run_state run_step" where
  "end_with e s = (case e of Some _ \<Rightarrow> Inl (Over s e) | None \<Rightarrow> Inr s)"

definition append_msg :: "loop_config \<Rightarrow> run_msg \<Rightarrow> run_state \<Rightarrow> run_state run_step" where
  "append_msg c msg s =
     (case lc_write c (rn_msgs s) msg of
        Some e \<Rightarrow> Inl (Over s (Some (RunWrite e)))
      | None \<Rightarrow> Inr (s\<lparr>rn_msgs := rn_msgs s @ [msg]\<rparr>))"

section \<open>Charging a model call\<close>

definition no_delta :: usage_delta where
  "no_delta = \<lparr>ud_prompt = 0, ud_completion = 0, ud_cached_prompt = 0, ud_cache_write = 0, ud_requests = 0,
     ud_cache_hit = False, ud_prompt_mod = [], ud_completion_mod = []\<rparr>"

text \<open>A call that reported no usage is charged as an empty one.\<close>

definition charged_delta :: "call_usage \<Rightarrow> usage_delta" where
  "charged_delta u = (case cu_delta u of Some d \<Rightarrow> d | None \<Rightarrow> no_delta)"

definition charge_budget :: "call_usage \<Rightarrow> budget \<Rightarrow> budget \<times> run_error option" where
  "charge_budget u b =
     (if ud_cache_hit (charged_delta u) then (b, None)
      else (case (if cu_delta u \<noteq> None \<and> cu_account u \<noteq> []
                  then record_once b (cu_account u) (cu_model u) (cu_pricing u) (usage_from_delta (charged_delta u))
                  else budget_record b (cu_model u) (cu_pricing u) (usage_from_delta (charged_delta u))) of
          (b, status, Some e) \<Rightarrow> (b, Some (RunBudget e))
        | (b, status, None) \<Rightarrow>
            if status \<noteq> StatusExceeded then (b, None)
            else if bp_on_exceed (bg_policy b) = BudgetRequireApproval then
              (case cu_approved u of None \<Rightarrow> (budget_grant b 0, None) | Some msg \<Rightarrow> (b, Some (RunFailed msg)))
            else (b, map_option RunBudget (budget_err b))))"

definition report_usage :: "call_usage \<Rightarrow> run_state \<Rightarrow> run_state run_step" where
  "report_usage u s =
     (case tn_budget (rn_tools s) of
        None \<Rightarrow> Inr s
      | Some b \<Rightarrow>
          (case charge_budget u b of (b, e) \<Rightarrow> end_with e (s\<lparr>rn_tools := (rn_tools s)\<lparr>tn_budget := Some b\<rparr>\<rparr>)))"

definition charge_calls :: "call_usage list \<Rightarrow> run_state \<Rightarrow> run_state run_step" where
  "charge_calls = fold_go report_usage"

definition budget_stop :: "run_state \<Rightarrow> run_error option" where
  "budget_stop s = (case tn_budget (rn_tools s) of Some b \<Rightarrow> map_option RunBudget (budget_err b) | None \<Rightarrow> None)"

section \<open>Guardrails\<close>

text \<open>A guardrail block is recorded on the branch, best effort, and ends the run.\<close>

definition trip_guardrail :: "loop_config \<Rightarrow> string \<Rightarrow> run_state \<Rightarrow> run_end" where
  "trip_guardrail c reason s =
     (case append_msg c (RunSystem reason) s of
        Inr s' \<Rightarrow> Over s' (Some (RunTripped reason))
      | Inl _ \<Rightarrow> Over s (Some (RunTripped reason)))"

text \<open>The calls of a check are charged before its verdict counts. A check that fails made none.\<close>

definition guard_words :: "loop_config \<Rightarrow> guard_check \<Rightarrow> run_state \<Rightarrow> (string option \<times> run_state) run_step" where
  "guard_words c g s =
     and_go (charge_calls (fst g) s) (\<lambda>s.
       case snd g of
         VerdictPass \<Rightarrow> Inr (None, s)
       | VerdictRewrite u \<Rightarrow> Inr (Some u, s)
       | VerdictBlock reason \<Rightarrow> Inl (trip_guardrail c reason s)
       | VerdictFails e \<Rightarrow> Inl (Over s (Some (RunFailed e))))"

definition guard_output :: "loop_config \<Rightarrow> moment \<Rightarrow> turn_part list \<Rightarrow> run_state \<Rightarrow> (turn_part list \<times> run_state) run_step" where
  "guard_output c m ps s =
     (if trim_space (content_text ps) = [] then Inr (ps, s)
      else and_go (guard_words c (mo_guard m (content_text ps)) s)
        (\<lambda>(r, s). Inr (case r of None \<Rightarrow> ps | Some u \<Rightarrow> rewrite_text ps u, s)))"

text \<open>
  The parallel guardrails' verdict on the run's input, after its first model call: on a block the call's turn is
  dropped, its usage still charged.
\<close>

definition finish_parallel_guard :: "loop_config \<Rightarrow> moment \<Rightarrow> run_state \<Rightarrow> run_state run_step" where
  "finish_parallel_guard c m s =
     (case mo_parallel m of
        None \<Rightarrow> Inr s
      | Some g \<Rightarrow>
          and_go (charge_calls (fst g) s) (\<lambda>s.
            case snd g of
              VerdictFails e \<Rightarrow> Inl (Over s (Some (RunFailed e)))
            | VerdictBlock reason \<Rightarrow>
                and_go (if cu_delta (mo_usage m) \<noteq> None then report_usage (mo_usage m) s else Inr s)
                  (\<lambda>s. Inl (trip_guardrail c reason s))
            | _ \<Rightarrow> Inr s))"

end
