(* ===== verification/Run_Loop.thy ===== *)
theory Run_Loop
  imports Run_State
begin

text \<open>
  The loop of an agent run, \<open>run\<close> of \<open>agent/agent.go\<close>, one function per stage of an iteration in the order of the
  code, and the wrap-up of \<open>runRecovered\<close>. A run is a list of moments, one for each iteration.
\<close>

section \<open>Safe points\<close>

definition admit_user :: "loop_config \<Rightarrow> moment \<Rightarrow> submission \<Rightarrow> run_state \<Rightarrow> (run_msg \<times> run_state) run_step" where
  "admit_user c m sub s =
     and_go (guard_words c (mo_admit m (sb_text sub)) s)
       (\<lambda>(r, s). Inr (RunUser (sb_id sub) (case r of None \<Rightarrow> sb_text sub | Some u \<Rightarrow> u), s))"

definition inject_one :: "loop_config \<Rightarrow> moment \<Rightarrow> submission \<Rightarrow> run_state \<Rightarrow> run_state run_step" where
  "inject_one c m sub s = and_go (admit_user c m sub s) (\<lambda>(msg, s). append_msg c msg s)"

definition inject_submissions :: "loop_config \<Rightarrow> moment \<Rightarrow> submission list \<Rightarrow> run_state \<Rightarrow> run_state run_step" where
  "inject_submissions c m = fold_go (inject_one c m)"

definition inject_spawned :: "loop_config \<Rightarrow> (string \<times> string) list \<Rightarrow> run_state \<Rightarrow> run_state run_step" where
  "inject_spawned c = fold_go (\<lambda>(i, t). append_msg c (RunUser [] t))"

definition arrive :: "submission list \<Rightarrow> run_state \<Rightarrow> run_state" where
  "arrive subs s = s\<lparr>rn_inbox := foldl submit (rn_inbox s) subs\<rparr>"

text \<open>An interrupting message starts a new user turn with fresh step limits.\<close>

definition restart_turn :: "run_state \<Rightarrow> run_state" where
  "restart_turn s = s\<lparr>rn_turn_start := rn_iter s, rn_pending := False, rn_guards := no_guards, rn_wrapped := False\<rparr>"

definition inject_at_safe_point :: "loop_config \<Rightarrow> moment \<Rightarrow> run_state \<Rightarrow> run_state run_step" where
  "inject_at_safe_point c m s =
     (case take_inbox False (rn_inbox s) of
        (subs, b) \<Rightarrow>
          and_go (inject_submissions c m subs (s\<lparr>rn_inbox := b\<rparr>)) (\<lambda>s.
          and_go (inject_spawned c (mo_spawned m) s) (\<lambda>s.
            Inr (if \<exists>x \<in> set subs. sb_mode x = SubmitInterrupt then restart_turn s else s))))"

text \<open>
  Where the run would end: the results of background children and pending submissions start a new user turn. With
  neither the inbox closes. \<open>mo_awaited\<close> lists what the waits for children give, while some are outstanding.
\<close>

definition drain_inbox :: "loop_config \<Rightarrow> moment \<Rightarrow> run_state \<Rightarrow> (bool \<times> run_state) run_step" where
  "drain_inbox c m s =
     (case take_inbox True (rn_inbox s) of
        (subs, b) \<Rightarrow>
          if subs = [] then Inr (False, s\<lparr>rn_inbox := b\<rparr>)
          else and_go (inject_submissions c m subs (s\<lparr>rn_inbox := b\<rparr>)) (\<lambda>s. Inr (True, s)))"

definition await_spawned :: "loop_config \<Rightarrow> moment \<Rightarrow> run_error + (string \<times> string) list \<Rightarrow> run_state \<Rightarrow> (bool \<times> run_state) run_step" where
  "await_spawned c m w s =
     (case w of
        Inl e \<Rightarrow> Inl (Over s (Some e))
      | Inr results \<Rightarrow>
          (case take_open (rn_inbox s) of
             (subs, b) \<Rightarrow>
               and_go (inject_submissions c m subs (s\<lparr>rn_inbox := b\<rparr>)) (\<lambda>s.
               and_go (inject_spawned c results s) (\<lambda>s.
                 Inr (subs \<noteq> [] \<or> results \<noteq> [], s)))))"

fun await_children :: "loop_config \<Rightarrow> moment \<Rightarrow> (run_error + (string \<times> string) list) list \<Rightarrow> run_state \<Rightarrow> (bool \<times> run_state) run_step" where
  "await_children c m [] s = drain_inbox c m s"
| "await_children c m (w # ws) s =
     and_go (await_spawned c m w s) (\<lambda>(resumed, s). if resumed then Inr (True, s) else await_children c m ws s)"

definition resume_at_finish :: "loop_config \<Rightarrow> moment \<Rightarrow> run_state \<Rightarrow> (bool \<times> run_state) run_step" where
  "resume_at_finish c m s = await_children c m (mo_awaited m) s"

definition finish_run :: "loop_config \<Rightarrow> moment \<Rightarrow> run_state \<Rightarrow> run_end" where
  "finish_run c m s =
     (case resume_at_finish c m s of
        Inl e \<Rightarrow> e
      | Inr (resumed, s) \<Rightarrow> if resumed then Again ((restart_turn s)\<lparr>rn_repairs := 0\<rparr>) else Over s None)"

section \<open>Turns cut short\<close>

definition truncated_marker :: string where
  "truncated_marker = ''max_tokens''"

text \<open>Completed content is kept without its tool calls, which never run; with a dropped call the run ends in error.\<close>

definition handle_truncation :: "loop_config \<Rightarrow> turn_part list option \<Rightarrow> run_state \<Rightarrow> (run_error option \<times> run_state) run_step" where
  "handle_truncation c ps s =
     (let kept = (case ps of Some ps \<Rightarrow> without_tool_calls ps | None \<Rightarrow> []);
          dropped = (case ps of Some ps \<Rightarrow> length ps - length kept | None \<Rightarrow> 0);
          err = (if dropped = 0 then None else Some RunTruncated)
      in if kept = [] then Inr (err, s)
         else and_go (append_msg c (RunTurn kept (Some truncated_marker)) s) (\<lambda>s. Inr (err, s)))"

definition append_continuation :: "loop_config \<Rightarrow> run_state \<Rightarrow> run_state run_step" where
  "append_continuation c s =
     (if lc_prefill c then Inr s else append_msg c (RunUser [] ''Continue exactly where you stopped. Do not repeat what you already wrote.'') s)"

text \<open>What follows a truncated turn: an automatic continuation, the end of the user turn, or an error.\<close>

definition after_truncation :: "loop_config \<Rightarrow> moment \<Rightarrow> run_error option \<Rightarrow> run_state \<Rightarrow> run_end" where
  "after_truncation c m err s =
     (if err \<noteq> None then Over s err
      else if lc_auto_continue c \<le> int (rn_continues s) then finish_run c m s
      else (case append_continuation c (s\<lparr>rn_continues := rn_continues s + 1, rn_pending := True\<rparr>) of
          Inl e \<Rightarrow> e | Inr s \<Rightarrow> Again s))"

definition commit_interrupted :: "loop_config \<Rightarrow> turn_part list option \<Rightarrow> run_state \<Rightarrow> run_end" where
  "commit_interrupted c partial s =
     (let kept = (case partial of Some ps \<Rightarrow> without_tool_calls ps | None \<Rightarrow> []) in
      if kept = [] then Again s
      else (case append_msg c (RunTurn kept (Some ''interrupted'')) s of Inl e \<Rightarrow> e | Inr s \<Rightarrow> Again s))"

text \<open>A stop: completed text is kept once it passed the output guardrails; the loop ends with the stop.\<close>

definition commit_stopped :: "loop_config \<Rightarrow> moment \<Rightarrow> turn_part list option \<Rightarrow> call_usage \<Rightarrow> run_state \<Rightarrow> run_end" where
  "commit_stopped c m partial u s =
     (let s = (if cu_delta u = None then s
               else (case report_usage u s of Inl (Over s e) \<Rightarrow> s | Inl (Again s) \<Rightarrow> s | Inr s \<Rightarrow> s));
          kept = (case partial of Some ps \<Rightarrow> without_tool_calls ps | None \<Rightarrow> [])
      in if trim_space (content_text kept) = [] then Over s (Some RunStopped)
         else (case guard_output c m kept s of
             Inl (Over s e) \<Rightarrow> Over s (Some RunStopped)
           | Inl (Again s) \<Rightarrow> Over s (Some RunStopped)
           | Inr (kept, s) \<Rightarrow>
               (case append_msg c (RunTurn kept (Some ''stopped'')) s of
                  Inl e \<Rightarrow> e | Inr s \<Rightarrow> Over s (Some RunStopped))))"

definition answered_parts :: "model_answer \<Rightarrow> turn_part list option" where
  "answered_parts a = (case a of Answered ps \<Rightarrow> ps | InterruptedCall ps \<Rightarrow> ps | InterruptedReplay ps \<Rightarrow> Some ps | ModelFails e x \<Rightarrow> None)"

definition stop_after_call :: "loop_config \<Rightarrow> moment \<Rightarrow> model_answer \<Rightarrow> call_usage \<Rightarrow> run_state \<Rightarrow> run_state run_step" where
  "stop_after_call c m a u s =
     (if mo_stop_call m \<and> mo_stop m \<noteq> None then Inl (commit_stopped c m (answered_parts a) u s) else Inr s)"

section \<open>Limits\<close>

definition wrap_up_due :: "int \<Rightarrow> int \<Rightarrow> int \<Rightarrow> bool" where
  "wrap_up_due due used max_iter = (0 < due \<and> 0 < max_iter \<and> due < max_iter \<and> due \<le> used \<and> used < max_iter)"

definition turns_used :: "run_state \<Rightarrow> nat" where
  "turns_used s = rn_iter s - rn_turn_start s"

definition truncated_call :: "call_usage \<Rightarrow> bool" where
  "truncated_call u = (cu_delta u \<noteq> None \<and> cu_truncated u)"

text \<open>
  The forced final answer: one call without tools, whose calls are dropped if it makes any. It is not a turn of the
  inbox, so no submission interrupts it.
\<close>

definition final_call :: "loop_config \<Rightarrow> moment \<Rightarrow> run_state \<Rightarrow> (turn_part list option \<times> run_state) run_step" where
  "final_call c m s =
     (let u = mo_final_usage m in
      and_go (stop_after_call c m (mo_final m) u s) (\<lambda>s.
      case mo_final m of
        ModelFails e _ \<Rightarrow> Inl (Over s (Some e))
      | InterruptedCall _ \<Rightarrow> Inl (Over s (Some RunCanceled))
      | a \<Rightarrow>
          and_go (report_usage u s) (\<lambda>s.
          case answered_parts a of
            None \<Rightarrow> Inr (None, s)
          | Some q \<Rightarrow> and_go (guard_output c m q s) (\<lambda>(q, s). Inr (Some q, s)))))"

definition final_answer :: "loop_config \<Rightarrow> run_error \<Rightarrow> call_usage \<Rightarrow> turn_part list option \<Rightarrow> run_state \<Rightarrow> run_end" where
  "final_answer c limit u ps s =
     (if truncated_call u then
        (case handle_truncation c ps s of Inl e \<Rightarrow> e | Inr (err, s) \<Rightarrow> Over s err)
      else
        (let kept = (case ps of Some q \<Rightarrow> without_tool_calls q | None \<Rightarrow> []) in
         if kept = [] then Over s (Some limit)
         else (case append_msg c (RunTurn kept None) s of Inl e \<Rightarrow> e | Inr s \<Rightarrow> Over (s\<lparr>rn_forced := True\<rparr>) None)))"

definition finish_at_limit :: "loop_config \<Rightarrow> moment \<Rightarrow> run_error \<Rightarrow> run_state \<Rightarrow> run_end" where
  "finish_at_limit c m limit s =
     (if \<not> lc_force_final c then Over s (Some limit)
      else if budget_stop s \<noteq> None then Over s (budget_stop s)
      else (case mo_request m of
          Some e \<Rightarrow> Over s (Some e)
        | None \<Rightarrow>
            (case final_call c m s of
               Inl e \<Rightarrow> e | Inr (ps, s) \<Rightarrow> final_answer c limit (mo_final_usage m) ps s)))"

text \<open>The step limits, before a call: the wrap-up note, the cap, the loop guards.\<close>

definition check_limits :: "loop_config \<Rightarrow> moment \<Rightarrow> run_state \<Rightarrow> run_state run_step" where
  "check_limits c m s =
     (let limit = lg_tripped (rn_guards s); used = int (turns_used s) in
      if \<not> rn_wrapped s \<and> rn_pending s \<and> limit = None \<and> wrap_up_due (lc_wrap_up_at c) used (lc_max_iter c) then
        and_go (append_msg c (RunSystem (lc_wrap_up_note c (turns_used s) (lc_max_iter c))) (s\<lparr>rn_wrapped := True\<rparr>))
          (\<lambda>s. Inl (Again s))
      else if 0 < lc_max_iter c \<and> lc_max_iter c \<le> used then
        (if \<not> rn_pending s then Inl (finish_run c m s) else Inl (finish_at_limit c m RunMaxIter s))
      else (case limit of Some e \<Rightarrow> Inl (finish_at_limit c m e s) | None \<Rightarrow> Inr s))"

section \<open>Compaction\<close>

text \<open>The summary calls of a compaction are charged like a turn's; a failed one leaves the branch as it was.\<close>

definition run_compaction :: "call_usage list \<Rightarrow> compaction \<Rightarrow> run_state \<Rightarrow> (bool \<times> run_state) run_step" where
  "run_compaction us k s =
     (case budget_stop s of
        Some e \<Rightarrow> Inl (Over s (Some e))
      | None \<Rightarrow>
          and_go (charge_calls us s) (\<lambda>s. case k of
             KeepBranch \<Rightarrow> Inr (False, s)
           | CompactionFails e \<Rightarrow> Inl (Over s (Some e))
           | NewBranch ms \<Rightarrow> Inr (True, s\<lparr>rn_msgs := ms, rn_overflow := (rn_overflow s)\<lparr>ov_last := 0, ov_compacted := True\<rparr>\<rparr>)))"

definition unpressed :: "run_state \<Rightarrow> run_state" where
  "unpressed s = s\<lparr>rn_overflow := (rn_overflow s)\<lparr>ov_pressure := False\<rparr>\<rparr>"

definition max_pressure_compactions :: nat where
  "max_pressure_compactions = 5"

definition max_overflow_retries :: nat where
  "max_overflow_retries = 3"

definition compact_if_needed :: "loop_config \<Rightarrow> moment \<Rightarrow> run_state \<Rightarrow> (bool \<times> run_state) run_step" where
  "compact_if_needed c m s =
     (let ov = rn_overflow s; size = max (ov_last ov) (mo_size m) in
      if lc_max_input c \<le> 0 then (if \<not> lc_compaction c then Inr (False, s) else run_compaction (mo_summaries m) (mo_compaction m) s)
      else if ov_compacted ov \<and> \<not> ov_pressure ov then Inr (False, s)
      else if ov_pressure ov \<and> (ov_size ov \<le> size \<or> max_pressure_compactions \<le> ov_rounds ov) then Inr (False, unpressed s)
      else if size \<le> lc_max_input c \<and> (ov_pressure ov \<or> \<not> mo_compact_now m) then Inr (False, unpressed s)
      else and_go (run_compaction (mo_summaries m) (mo_compaction m) s) (\<lambda>(ok, s).
        if ok then Inr (True, s\<lparr>rn_overflow := (rn_overflow s)\<lparr>ov_pressure := True, ov_size := size,
             ov_rounds := Suc (ov_rounds ov)\<rparr>\<rparr>)
        else Inr (False, unpressed s)))"

definition compact_branch :: "loop_config \<Rightarrow> moment \<Rightarrow> run_state \<Rightarrow> run_state run_step" where
  "compact_branch c m s =
     (if lc_handoff_group c \<and> lc_compaction c then Inl (Over s (Some (RunFailed ''compaction in a handoff group'')))
      else if can_compact (rn_overflow s) then
        and_go (compact_if_needed c m s) (\<lambda>(compacted, s). if compacted then Inl (Again s) else Inr s)
      else Inr s)"

text \<open>A context-length error is answered by compacting and sending the turn again, a bounded number of times.\<close>

definition recover_overflow :: "loop_config \<Rightarrow> moment \<Rightarrow> run_error \<Rightarrow> bool \<Rightarrow> run_state \<Rightarrow> run_end" where
  "recover_overflow c m e context_length s =
     (if \<not> context_length then Over s (Some e)
      else
        (let ov = rn_overflow s;
             first = (case ov_original ov of None \<Rightarrow> e | Some e' \<Rightarrow> e');
             s = s\<lparr>rn_overflow := ov\<lparr>ov_original := Some first\<rparr>\<rparr>
         in if \<not> lc_compaction c \<or> lc_handoff_group c \<or> max_overflow_retries \<le> ov_retries ov then Over s (Some first)
            else (case run_compaction (mo_retry_summaries m) (mo_recovery m)
                    (s\<lparr>rn_overflow := (rn_overflow s)\<lparr>ov_retries := ov_retries ov + 1\<rparr>\<rparr>) of
                Inl e \<Rightarrow> e
              | Inr (ok, s) \<Rightarrow> if ok then Again s else Over s (Some first))))"

section \<open>A model call and its answer\<close>

text \<open>Usage, guardrails of a truncated text turn, and truncation, after a call that succeeded.\<close>

definition guard_truncated ::
  "loop_config \<Rightarrow> moment \<Rightarrow> call_usage \<Rightarrow> turn_part list option \<Rightarrow> run_state \<Rightarrow> (turn_part list option \<times> run_state) run_step" where
  "guard_truncated c m u ps s =
     (case ps of
        None \<Rightarrow> Inr (None, s)
      | Some q \<Rightarrow>
          if \<not> truncated_call u \<or> int (rn_continues s) < lc_auto_continue c \<or> turn_calls q \<noteq> [] then Inr (ps, s)
          else and_go (guard_output c m q s) (\<lambda>(q, s). Inr (Some q, s)))"

definition settle_answer ::
  "loop_config \<Rightarrow> moment \<Rightarrow> call_usage \<Rightarrow> turn_part list option \<Rightarrow> run_state \<Rightarrow>
   (turn_part list option \<times> run_state) run_step" where
  "settle_answer c m u ps s =
     and_go (report_usage u s) (\<lambda>s.
     and_go (guard_truncated c m u ps s) (\<lambda>(ps, s).
       if truncated_call u then and_go (handle_truncation c ps s) (\<lambda>(err, s). Inl (after_truncation c m err s))
       else Inr (ps, s)))"

text \<open>One call of the turn: a stop, an interrupt, an error or an answer.\<close>

definition count_turn :: "run_state \<Rightarrow> run_state" where
  "count_turn s = s\<lparr>rn_iter := rn_iter s + 1\<rparr>"

definition call_model :: "loop_config \<Rightarrow> moment \<Rightarrow> run_state \<Rightarrow> (turn_part list option \<times> run_state) run_step" where
  "call_model c m s =
     (let u = mo_usage m in
      and_go (finish_parallel_guard c m s) (\<lambda>s.
      and_go (if mo_stop_call m \<and> mo_stop m \<noteq> None then stop_after_call c m (mo_answer m) u (count_turn s) else Inr s) (\<lambda>s.
      case mo_answer m of
        InterruptedCall ps \<Rightarrow> and_go (report_usage u (count_turn s)) (\<lambda>s. Inl (commit_interrupted c ps s))
      | InterruptedReplay ps \<Rightarrow> Inl (commit_interrupted c (Some ps) (count_turn s))
      | ModelFails e context_length \<Rightarrow> Inl (recover_overflow c m e context_length s)
      | Answered ps \<Rightarrow>
          settle_answer c m u ps (count_turn (s\<lparr>rn_overflow := turn_succeeded (cu_delta u) (rn_overflow s)\<rparr>)))))"

text \<open>A draft that ends the run but does not fit the response schema is replaced by a schema-constrained answer.\<close>

definition schema_turn ::
  "loop_config \<Rightarrow> moment \<Rightarrow> turn_part list option \<Rightarrow> run_state \<Rightarrow> (turn_part list option \<times> run_state) run_step" where
  "schema_turn c m ps s =
     (case ps of
        None \<Rightarrow> Inr (ps, s)
      | Some q \<Rightarrow>
          if turn_calls q \<noteq> [] \<or> \<not> lc_needs_schema c q then Inr (ps, s)
          else
            (let u = mo_schema_usage m in
             and_go (stop_after_call c m (mo_schema m) u s) (\<lambda>s.
             case mo_schema m of
               ModelFails e _ \<Rightarrow> Inl (Over s (Some e))
             | InterruptedCall _ \<Rightarrow> Inl (Over s (Some RunCanceled))
             | a \<Rightarrow> settle_answer c m u (answered_parts a) s)))"

section \<open>The turn's tools\<close>

definition skip_tool_calls :: "tool_env \<Rightarrow> tool_call list \<Rightarrow> string \<Rightarrow> tool_run \<Rightarrow> tool_result list \<times> tool_run" where
  "skip_tool_calls ev calls reason =
     execute_in_order (\<lambda>tc r. failed_call ev tc reason (send_delta (ExecStart (tc_id tc) (tc_name tc)) r)) calls"

definition stop_tool_call :: "loop_config \<Rightarrow> tool_call list \<Rightarrow> tool_result list \<Rightarrow> string" where
  "stop_tool_call c calls rs =
     (case filter (\<lambda>(call, r). (tc_name call \<in> set (lc_stop_tools c) \<or> lc_output_tool c \<and> tc_name call = ''final_answer'') \<and>
         tr_err r = []) (zip calls rs) of
        [] \<Rightarrow> [] | (call, r) # _ \<Rightarrow> tc_id call)"

definition apply_handoff :: "loop_config \<Rightarrow> moment \<Rightarrow> tool_result list \<Rightarrow> run_state \<Rightarrow> run_state run_step" where
  "apply_handoff c m rs s =
     (case filter (\<lambda>r. tr_handoff r \<noteq> []) rs of
        [] \<Rightarrow> Inr s
      | r # _ \<Rightarrow>
          if tr_handoff r = mo_agent m then Inr s
          else if lc_max_handoffs c \<le> int (rn_handoffs s) then Inl (Over s (Some RunHandoffLimit))
          else append_msg c (RunHandoff (mo_agent m) (tr_handoff r)) (s\<lparr>rn_handoffs := rn_handoffs s + 1\<rparr>))"

definition persist_results :: "loop_config \<Rightarrow> tool_result list \<Rightarrow> run_state \<Rightarrow> run_state run_step" where
  "persist_results c rs = append_msg c (RunResults rs)"

text \<open>A turn that repeats the previous calls is answered without running them.\<close>

definition skip_repeated :: "loop_config \<Rightarrow> moment \<Rightarrow> tool_call list \<Rightarrow> run_state \<Rightarrow> run_end" where
  "skip_repeated c m calls s =
     (case skip_tool_calls (mo_tools m) calls
        (''not run: repeated identical tool calls: '' @ itoa (int (lg_repeats (rn_guards s))) @ '' turns in a row'')
        (rn_tools s) of
        (rs, r) \<Rightarrow>
          (case persist_results c rs (s\<lparr>rn_tools := r, rn_pending := True\<rparr>) of Inl e \<Rightarrow> e | Inr s \<Rightarrow> Again s))"

text \<open>After the tools ran: their results are recorded whatever happened, except when the run is suspended.\<close>

definition run_tools :: "loop_config \<Rightarrow> moment \<Rightarrow> tool_call list \<Rightarrow> run_state \<Rightarrow> run_end" where
  "run_tools c m calls s =
     (case execute_tools (mo_tools m) calls (rn_tools s) of
        (rs, r) \<Rightarrow>
          (let s = s\<lparr>rn_tools := r\<rparr> in
           if mo_stop_tools m \<and> mo_stop m \<noteq> None then
             (case persist_results c rs s of Inl e \<Rightarrow> e | Inr s \<Rightarrow> Over s (Some RunStopped))
           else (case tn_error r of
             Some e \<Rightarrow>
               if mo_suspended m then Over s (Some RunSuspended)
               else (case persist_results c rs s of Inl _ \<Rightarrow> Over s (Some (RunFailed e)) | Inr s \<Rightarrow> Over s (Some (RunFailed e)))
           | None \<Rightarrow>
               (case
                 and_go (persist_results c rs (s\<lparr>rn_pending := True\<rparr>)) (\<lambda>s.
                 and_go (end_with (mo_turn_hook m) s) (\<lambda>s.
                 let stop = stop_tool_call c calls rs in
                 if stop \<noteq> [] then Inl (Over (s\<lparr>rn_stop_call := stop\<rparr>) None)
                 else and_go (end_with (mo_outcome m) s) (\<lambda>s.
                   apply_handoff c m rs (s\<lparr>rn_guards := record_results (lc_max_errors c) rs (rn_guards s)\<rparr>))))
                of Inl e \<Rightarrow> e | Inr s \<Rightarrow> Again s))))"

section \<open>The answer of a turn\<close>

definition max_output_repairs :: nat where
  "max_output_repairs = 2"

definition text_answer :: "loop_config \<Rightarrow> moment \<Rightarrow> turn_part list \<Rightarrow> run_state \<Rightarrow> run_end" where
  "text_answer c m ps s =
     (case lc_answer_error c ps of
        Some cause \<Rightarrow>
          if max_output_repairs \<le> rn_repairs s then Over s (Some (RunSchemaInvalid (rn_repairs s + 1)))
          else (case append_msg c (RunUser [] cause) (s\<lparr>rn_repairs := rn_repairs s + 1, rn_pending := True\<rparr>) of
              Inl e \<Rightarrow> e | Inr s \<Rightarrow> Again s)
      | None \<Rightarrow> (case end_with (mo_turn_hook m) s of Inl e \<Rightarrow> e | Inr s \<Rightarrow> finish_run c m s))"

definition use_tools :: "loop_config \<Rightarrow> moment \<Rightarrow> tool_call list \<Rightarrow> run_state \<Rightarrow> run_end" where
  "use_tools c m calls s =
     (case repeated (lc_max_repeats c) calls (rn_guards s) of
        (over, g) \<Rightarrow>
          (let s = s\<lparr>rn_guards := g\<rparr> in
           case mo_panic m AfterTurn of
             Some v \<Rightarrow> Over s (Some (RunPanicked v))
           | None \<Rightarrow> if over then skip_repeated c m calls s else run_tools c m calls s))"

definition take_answer :: "loop_config \<Rightarrow> moment \<Rightarrow> turn_part list option \<Rightarrow> run_state \<Rightarrow> run_end" where
  "take_answer c m ps s =
     (case ps of
        None \<Rightarrow> if mo_dead m then Over s (Some RunCanceled) else finish_run c m s
      | Some q \<Rightarrow>
          (case
             and_go (if turn_calls q = [] \<and> lc_answer_error c q = None then guard_output c m q s else Inr (q, s)) (\<lambda>(q, s).
             and_go (append_msg c (RunTurn q None) s) (\<lambda>s. Inr (q, s)))
           of Inl e \<Rightarrow> e
            | Inr (q, s) \<Rightarrow> if turn_calls q = [] then text_answer c m q s else use_tools c m (turn_calls q) s))"

section \<open>An iteration and a run\<close>

definition iteration :: "loop_config \<Rightarrow> moment \<Rightarrow> run_state \<Rightarrow> run_end" where
  "iteration c m s0 =
     (let s = arrive (mo_early m) s0 in
      if mo_canceled m then Over s (Some RunCanceled)
      else (case
          and_go (inject_at_safe_point c m s) (\<lambda>s.
          and_go (end_with (mo_setup m) s) (\<lambda>s.
          and_go (case mo_panic m BeforeCall of Some v \<Rightarrow> Inl (Over s (Some (RunPanicked v))) | None \<Rightarrow> Inr s) (\<lambda>s.
          and_go (check_limits c m s) (\<lambda>s.
          and_go (compact_branch c m s) (\<lambda>s.
          and_go (end_with (budget_stop s) s) (\<lambda>s.
          and_go (end_with (mo_request m) s) (\<lambda>s.
          and_go (call_model c m (arrive (mo_late m) s)) (\<lambda>(ps, s).
            schema_turn c m ps s))))))))
        of Inl e \<Rightarrow> e | Inr (ps, s) \<Rightarrow> take_answer c m ps s))"

text \<open>
  The end of a run: a panic or a stop request answers the calls still open on the branch, and a stop is recorded
  and ends the run cleanly, whatever error the loop ended with.
\<close>

definition open_calls :: "run_msg list \<Rightarrow> tool_call list" where
  "open_calls ms = (if ms = [] then [] else case last ms of RunTurn ps t \<Rightarrow> turn_calls ps | _ \<Rightarrow> [])"

definition answer_calls :: "loop_config \<Rightarrow> string \<Rightarrow> run_state \<Rightarrow> run_state" where
  "answer_calls c reason s =
     (if open_calls (rn_msgs s) = [] then s
      else (case persist_results c (map (\<lambda>tc. (no_result (tc_id tc))\<lparr>tr_err := reason\<rparr>) (open_calls (rn_msgs s))) s of
          Inl _ \<Rightarrow> s | Inr s \<Rightarrow> s))"

definition stop_record :: "string \<Rightarrow> run_msg" where
  "stop_record reason = RunUser [] (''<turn_stopped>'' @ [CHR 0x0A] @
     ''The turn above was stopped before it finished, so its answer and tool results may be incomplete. Reason: '' @
     reason @ [CHR 0x0A] @ ''</turn_stopped>'')"

definition is_panic :: "run_error option \<Rightarrow> bool" where
  "is_panic e = (case e of Some (RunPanicked v) \<Rightarrow> True | _ \<Rightarrow> False)"

definition close_run :: "loop_config \<Rightarrow> moment \<Rightarrow> run_error option \<Rightarrow> run_state \<Rightarrow> run_state \<times> run_error option" where
  "close_run c m e s =
     (let s = (if is_panic e then answer_calls c ''agent run panicked'' s else s) in
      case (e, mo_stop m) of
        (Some err, Some reason) \<Rightarrow>
          if is_panic e then (s, e)
          else (case append_msg c (stop_record reason) (answer_calls c (''stopped before this call finished: '' @ reason) s) of
              Inl _ \<Rightarrow> (answer_calls c (''stopped before this call finished: '' @ reason) s, Some (RunWrite ''record stop''))
            | Inr s \<Rightarrow> (s, None))
      | _ \<Rightarrow> (s, e))"

datatype run_result = RunOpen run_state | RunEnded run_state "run_error option"

fun run_loop :: "loop_config \<Rightarrow> moment list \<Rightarrow> run_state \<Rightarrow> run_result" where
  "run_loop c [] s = RunOpen s"
| "run_loop c (m # ms) s =
     (case iteration c m s of
        Again s' \<Rightarrow> run_loop c ms s'
      | Over s' e \<Rightarrow> (case close_run c m e s' of (s'', e') \<Rightarrow> RunEnded s'' e'))"

definition new_run :: "run_msg list \<Rightarrow> tool_run \<Rightarrow> run_state" where
  "new_run ms r =
     \<lparr>rn_msgs = ms, rn_inbox = \<lparr>ib_pending = [], ib_closed = False\<rparr>, rn_iter = 0, rn_turn_start = 0, rn_pending = False,
      rn_wrapped = False, rn_continues = 0, rn_repairs = 0, rn_handoffs = 0, rn_guards = no_guards,
      rn_overflow = no_overflow, rn_tools = r, rn_forced = False, rn_stop_call = []\<rparr>"

text \<open>The input of a run is appended before the loop, each user message admitted like a submitted one.\<close>

definition start_run :: "loop_config \<Rightarrow> moment \<Rightarrow> submission list \<Rightarrow> run_msg list \<Rightarrow> tool_run \<Rightarrow> run_state run_step" where
  "start_run c m input ms r = inject_submissions c m input (new_run ms r)"

end
