(* ===== verification/Run_Invariant.thy ===== *)
theory Run_Invariant
  imports Run_Loop Tool_Properties
begin

text \<open>
  The invariant of the run loop (\<open>run\<close> of \<open>agent/agent.go\<close>): the transcript of its branch pairs every call with its
  result, and its tallies stay within their limits, at every stage of an iteration.
\<close>

section \<open>Stages as triples\<close>

text \<open>A step goes on to \<open>P\<close> or ends the iteration in \<open>E\<close>.\<close>

definition goes :: "(run_end \<Rightarrow> bool) \<Rightarrow> ('a \<Rightarrow> bool) \<Rightarrow> 'a run_step \<Rightarrow> bool" where
  "goes E P x = (case x of Inl e \<Rightarrow> E e | Inr a \<Rightarrow> P a)"

lemma goes_simps [simp]: "goes E P (Inl e) = E e" "goes E P (Inr a) = P a"
  by (simp_all add: goes_def)

lemma goes_and [simp]: "goes E Q (and_go x f) = goes E (\<lambda>a. goes E Q (f a)) x"
  by (cases x) simp_all

lemma goes_mono: "goes E P x \<Longrightarrow> (\<And>a. P a \<Longrightarrow> Q a) \<Longrightarrow> goes E Q x"
  by (cases x) simp_all

lemma ends_goes: "E (case x of Inl e \<Rightarrow> e | Inr a \<Rightarrow> f a) = goes E (\<lambda>a. E (f a)) x"
  by (cases x) simp_all

lemma goes_fold:
  assumes "I s" "\<And>x s. I s \<Longrightarrow> goes E I (f x s)"
  shows "goes E I (fold_go f xs s)"
  using assms(1)
proof (induction xs arbitrary: s)
  case (Cons x xs)
  then show ?case using assms(2) [of s x] by (auto intro: goes_mono)
qed simp

lemma goes_if: "goes E P (if b then x else y) = (if b then goes E P x else goes E P y)"
  by simp

lemma goes_option: "goes E P (case r of None \<Rightarrow> x | Some a \<Rightarrow> f a) = (case r of None \<Rightarrow> goes E P x | Some a \<Rightarrow> goes E P (f a))"
  by (simp split: option.split)

lemma goes_end_with: "goes E P (end_with e s) = (case e of None \<Rightarrow> P s | Some x \<Rightarrow> E (Over s e))"
  by (simp add: end_with_def split: option.split)

lemma without_calls [simp]: "turn_calls (without_tool_calls ps) = []"
  by (induction ps) (simp_all add: turn_calls_def without_tool_calls_def)

lemma rewrite_from_calls: "turn_calls (rewrite_from placed t ps) = turn_calls ps"
  by (induction placed t ps rule: rewrite_from.induct) (simp_all add: turn_calls_def)

lemma rewrite_calls [simp]: "turn_calls (rewrite_text ps t) = turn_calls ps"
  by (simp add: rewrite_text_def rewrite_from_calls)

section \<open>Charges and guardrails\<close>

text \<open>Charging calls touches the budget only; a check then ends the run or gives a text.\<close>

lemma charges_goes:
  assumes "\<And>r e. E (Over (s\<lparr>rn_tools := r\<rparr>) (Some e))" "\<And>r. P (s\<lparr>rn_tools := r\<rparr>)"
  shows "goes E P (charge_calls us s)"
proof -
  have "goes E (\<lambda>s'. \<exists>r. s' = s\<lparr>rn_tools := r\<rparr>) (charge_calls us s)"
    unfolding charge_calls_def
  proof (rule goes_fold)
    show "\<exists>r. s = s\<lparr>rn_tools := r\<rparr>" by (rule exI [of _ "rn_tools s"]) simp
  qed (auto simp: report_usage_def goes_end_with assms(1) split: option.split prod.split)
  then show ?thesis by (rule goes_mono) (use assms(2) in auto)
qed

lemma report_goes:
  assumes "\<And>r e. E (Over (s\<lparr>rn_tools := r\<rparr>) (Some e))" "\<And>r. P (s\<lparr>rn_tools := r\<rparr>)"
  shows "goes E P (report_usage u s)"
  using assms(2) [of "rn_tools s"] assms by (auto simp: report_usage_def goes_end_with split: option.split prod.split)

lemma guard_words_goes:
  assumes "\<And>r e. E (Over (s\<lparr>rn_tools := r\<rparr>) (Some e))" "\<And>r why. E (trip_guardrail c why (s\<lparr>rn_tools := r\<rparr>))"
    "\<And>r t. P (t, s\<lparr>rn_tools := r\<rparr>)"
  shows "goes E P (guard_words c g s)"
  unfolding guard_words_def goes_and
  by (rule charges_goes) (use assms in \<open>simp_all split: guard_verdict.split\<close>)

lemma guard_output_goes:
  assumes "\<And>r e. E (Over (s\<lparr>rn_tools := r\<rparr>) (Some e))" "\<And>r why. E (trip_guardrail c why (s\<lparr>rn_tools := r\<rparr>))"
    "\<And>r q. turn_calls q = turn_calls ps \<Longrightarrow> P (q, s\<lparr>rn_tools := r\<rparr>)"
  shows "goes E P (guard_output c m ps s)"
proof -
  have "goes E (\<lambda>(r, s). P (case r of None \<Rightarrow> ps | Some u \<Rightarrow> rewrite_text ps u, s)) (guard_words c g s)" for g
    by (rule guard_words_goes) (use assms in \<open>auto split: option.split\<close>)
  moreover have "P (ps, s)" using assms(3) [of ps "rn_tools s"] by simp
  ultimately show ?thesis by (simp add: guard_output_def case_prod_unfold)
qed

lemma parallel_guard_goes:
  assumes "\<And>r e. E (Over (s\<lparr>rn_tools := r\<rparr>) (Some e))" "\<And>r why. E (trip_guardrail c why (s\<lparr>rn_tools := r\<rparr>))"
    "\<And>r. P (s\<lparr>rn_tools := r\<rparr>)"
  shows "goes E P (finish_parallel_guard c m s)"
proof -
  have "goes E (\<lambda>s. E (trip_guardrail c why s)) (report_usage u (s\<lparr>rn_tools := r\<rparr>))" for u r why
    by (rule report_goes) (use assms in simp_all)
  then have "goes E (\<lambda>s. goes E P (case snd g of
       VerdictFails e \<Rightarrow> Inl (Over s (Some (RunFailed e)))
     | VerdictBlock reason \<Rightarrow> and_go (if cu_delta (mo_usage m) \<noteq> None then report_usage (mo_usage m) s else Inr s)
         (\<lambda>s. Inl (trip_guardrail c reason s))
     | _ \<Rightarrow> Inr s)) (charge_calls (fst g) s)" for g
    by (intro charges_goes) (use assms in \<open>simp_all split: guard_verdict.split\<close>)
  moreover have "P s" using assms(3) [of "rn_tools s"] by simp
  ultimately show ?thesis by (simp add: finish_parallel_guard_def split: option.split)
qed

section \<open>Transcripts\<close>

text \<open>
  The ids of the calls a transcript leaves open; none when it is broken: a call not answered by the next message,
  or results that answer no call.
\<close>

definition next_open :: "run_msg \<Rightarrow> string list \<Rightarrow> string list option" where
  "next_open msg ids =
     (if ids \<noteq> [] then (case msg of RunResults rs \<Rightarrow> if map tr_call rs = ids then Some [] else None | _ \<Rightarrow> None)
      else (case msg of RunTurn ps t \<Rightarrow> Some (map tc_id (turn_calls ps)) | RunResults rs \<Rightarrow> None | _ \<Rightarrow> Some []))"

definition open_ids :: "run_msg list \<Rightarrow> string list option" where
  "open_ids ms = foldl (\<lambda>ids msg. Option.bind ids (next_open msg)) (Some []) ms"

definition transcript_ok :: "run_msg list \<Rightarrow> bool" where
  "transcript_ok ms = (open_ids ms = Some [])"

lemma open_ids_append [simp]: "open_ids (ms @ [msg]) = Option.bind (open_ids ms) (next_open msg)"
  by (simp add: open_ids_def)

lemma complete_simps [simp]:
  "transcript_ok ms \<Longrightarrow> transcript_ok (ms @ [RunSystem t])" "transcript_ok ms \<Longrightarrow> transcript_ok (ms @ [RunUser i t])"
  "transcript_ok ms \<Longrightarrow> transcript_ok (ms @ [RunHandoff a b])" "transcript_ok ms \<Longrightarrow> turn_calls ps = [] \<Longrightarrow> transcript_ok (ms @ [RunTurn ps mk])"
  by (simp_all add: transcript_ok_def next_open_def)

lemma results_answer:
  "open_ids ms = Some ids \<Longrightarrow> ids \<noteq> [] \<Longrightarrow> map tr_call rs = ids \<Longrightarrow> transcript_ok (ms @ [RunResults rs])"
  by (simp add: transcript_ok_def next_open_def)

lemma open_turn: "transcript_ok ms \<Longrightarrow> open_ids (ms @ [RunTurn ps t]) = Some (map tc_id (turn_calls ps))"
  by (simp add: transcript_ok_def next_open_def)

section \<open>The invariant of a run\<close>

definition tallies_ok :: "loop_config \<Rightarrow> run_state \<Rightarrow> bool" where
  "tallies_ok c s =
     (rn_turn_start s \<le> rn_iter s \<and> (0 < lc_max_iter c \<longrightarrow> int (turns_used s) \<le> lc_max_iter c) \<and>
      int (rn_handoffs s) \<le> max 0 (lc_max_handoffs c) \<and> rn_repairs s \<le> max_output_repairs \<and>
      int (rn_continues s) \<le> max 0 (lc_auto_continue c))"

definition overflow_ok :: "loop_config \<Rightarrow> overflow \<Rightarrow> bool" where
  "overflow_ok c ov =
     (ov_retries ov \<le> max_overflow_retries \<and> ov_rounds ov \<le> max_pressure_compactions \<and>
      (\<not> ov_compacted ov \<longrightarrow> ov_rounds ov = 0 \<and> \<not> ov_pressure ov) \<and> (ov_pressure ov \<longrightarrow> 0 < lc_max_input c))"

definition limits_ok :: "loop_config \<Rightarrow> run_state \<Rightarrow> bool" where
  "limits_ok c s = (tallies_ok c s \<and> overflow_ok c (rn_overflow s))"

definition run_ok :: "loop_config \<Rightarrow> run_state \<Rightarrow> bool" where
  "run_ok c s = (transcript_ok (rn_msgs s) \<and> limits_ok c s)"

text \<open>A run that is suspended or panics may leave the calls of its last turn open.\<close>

definition left_open :: "run_error option \<Rightarrow> run_msg list \<Rightarrow> bool" where
  "left_open e ms = ((e = Some RunSuspended \<or> (\<exists>v. e = Some (RunPanicked v))) \<and>
     open_ids ms = Some (map tc_id (open_calls ms)))"

fun end_ok :: "loop_config \<Rightarrow> run_end \<Rightarrow> bool" where
  "end_ok c (Again s) = run_ok c s"
| "end_ok c (Over s e) = (limits_ok c s \<and> (transcript_ok (rn_msgs s) \<or> left_open e (rn_msgs s)))"

lemma end_ok_over: "run_ok c s \<Longrightarrow> end_ok c (Over s e)"
  by (simp add: run_ok_def)

text \<open>What the proofs assume of the surroundings: writes succeed, and a compaction keeps calls with their results.\<close>

definition writes_succeed :: "loop_config \<Rightarrow> bool" where
  "writes_succeed c = (\<forall>ms msg. lc_write c ms msg = None)"

definition keeps_pairs :: "compaction \<Rightarrow> bool" where
  "keeps_pairs k = (case k of NewBranch ms \<Rightarrow> transcript_ok ms | _ \<Rightarrow> True)"

definition moment_ok :: "moment \<Rightarrow> bool" where
  "moment_ok m = (keeps_pairs (mo_compaction m) \<and> keeps_pairs (mo_recovery m))"

lemma append_msg_writes: "writes_succeed c \<Longrightarrow> append_msg c msg s = Inr (s\<lparr>rn_msgs := rn_msgs s @ [msg]\<rparr>)"
  by (simp add: append_msg_def writes_succeed_def)

text \<open>Updates that touch neither the transcript nor a limit.\<close>

lemma tallies_ok_simps [simp]:
  "tallies_ok c (s\<lparr>rn_msgs := ms\<rparr>) = tallies_ok c s" "tallies_ok c (s\<lparr>rn_inbox := b\<rparr>) = tallies_ok c s"
  "tallies_ok c (s\<lparr>rn_tools := r\<rparr>) = tallies_ok c s"
  "tallies_ok c (s\<lparr>rn_guards := g\<rparr>) = tallies_ok c s" "tallies_ok c (s\<lparr>rn_pending := p\<rparr>) = tallies_ok c s"
  "tallies_ok c (s\<lparr>rn_wrapped := p\<rparr>) = tallies_ok c s" "tallies_ok c (s\<lparr>rn_stop_call := i\<rparr>) = tallies_ok c s"
  "tallies_ok c (s\<lparr>rn_forced := p\<rparr>) = tallies_ok c s" "tallies_ok c (s\<lparr>rn_overflow := ov\<rparr>) = tallies_ok c s"
  by (simp_all add: tallies_ok_def turns_used_def)

lemma limits_ok_simps [simp]:
  "limits_ok c (s\<lparr>rn_msgs := ms\<rparr>) = limits_ok c s" "limits_ok c (s\<lparr>rn_inbox := b\<rparr>) = limits_ok c s"
  "limits_ok c (s\<lparr>rn_tools := r\<rparr>) = limits_ok c s"
  "limits_ok c (s\<lparr>rn_guards := g\<rparr>) = limits_ok c s" "limits_ok c (s\<lparr>rn_pending := p\<rparr>) = limits_ok c s"
  "limits_ok c (s\<lparr>rn_wrapped := p\<rparr>) = limits_ok c s" "limits_ok c (s\<lparr>rn_stop_call := i\<rparr>) = limits_ok c s"
  "limits_ok c (s\<lparr>rn_forced := p\<rparr>) = limits_ok c s"
  "limits_ok c (s\<lparr>rn_overflow := ov\<rparr>) = (tallies_ok c s \<and> overflow_ok c ov)"
  by (simp_all add: limits_ok_def)

lemma run_ok_simps [simp]:
  "run_ok c (s\<lparr>rn_inbox := b\<rparr>) = run_ok c s" "run_ok c (s\<lparr>rn_tools := r\<rparr>) = run_ok c s"
  "run_ok c (s\<lparr>rn_guards := g\<rparr>) = run_ok c s"
  "run_ok c (s\<lparr>rn_pending := p\<rparr>) = run_ok c s" "run_ok c (s\<lparr>rn_wrapped := p\<rparr>) = run_ok c s"
  "run_ok c (s\<lparr>rn_forced := p\<rparr>) = run_ok c s"
  "run_ok c (s\<lparr>rn_msgs := ms\<rparr>) = (transcript_ok ms \<and> limits_ok c s)"
  "run_ok c (s\<lparr>rn_overflow := ov\<rparr>) = (transcript_ok (rn_msgs s) \<and> tallies_ok c s \<and> overflow_ok c ov)"
  by (simp_all add: run_ok_def)

lemma run_ok_parts: "run_ok c s \<Longrightarrow> transcript_ok (rn_msgs s)" "run_ok c s \<Longrightarrow> limits_ok c s"
    "run_ok c s \<Longrightarrow> tallies_ok c s" "run_ok c s \<Longrightarrow> overflow_ok c (rn_overflow s)"
  by (simp_all add: run_ok_def limits_ok_def)

lemma restart_ok: "run_ok c s \<Longrightarrow> run_ok c (restart_turn s)" "run_ok c s \<Longrightarrow> run_ok c ((restart_turn s)\<lparr>rn_repairs := 0\<rparr>)"
  by (simp_all add: run_ok_def restart_turn_def limits_ok_def tallies_ok_def turns_used_def)

lemma arrive_ok [simp]: "run_ok c (arrive subs s) = run_ok c s"
  by (simp add: arrive_def)

section \<open>Every stage keeps the invariant\<close>

lemma end_with_ok: "run_ok c s \<Longrightarrow> goes (end_ok c) (run_ok c) (end_with e s)"
  by (simp add: goes_end_with run_ok_def split: option.split)

lemma guards_ok:
  assumes "writes_succeed c" "run_ok c s"
  shows "end_ok c (Over (s\<lparr>rn_tools := r\<rparr>) (Some e))" "end_ok c (trip_guardrail c why (s\<lparr>rn_tools := r\<rparr>))"
  using assms by (simp_all add: trip_guardrail_def append_msg_writes run_ok_def)

lemma guard_words_ok:
  assumes "writes_succeed c" "run_ok c s"
  shows "goes (end_ok c) (\<lambda>(t, s'). run_ok c s') (guard_words c g s)"
  by (rule guard_words_goes) (use guards_ok [OF assms] assms(2) in simp_all)

lemma guard_output_ok:
  assumes "writes_succeed c" "run_ok c s"
  shows "goes (end_ok c) (\<lambda>(q, s'). turn_calls q = turn_calls ps \<and> run_ok c s') (guard_output c m ps s)"
  by (rule guard_output_goes) (use guards_ok [OF assms] assms(2) in simp_all)

lemma inject_submissions_ok:
  assumes "writes_succeed c" "run_ok c s"
  shows "goes (end_ok c) (run_ok c) (inject_submissions c m subs s)"
  unfolding inject_submissions_def
proof (rule goes_fold [where I = "run_ok c", OF assms(2)])
  fix sub :: submission and s assume "run_ok c s"
  from guard_words_ok [OF assms(1) this, of "mo_admit m (sb_text sub)"]
  have "goes (end_ok c) (\<lambda>(msg, s). goes (end_ok c) (run_ok c) (append_msg c (RunUser i (case msg of None \<Rightarrow> t | Some u \<Rightarrow> u)) s))
      (guard_words c (mo_admit m (sb_text sub)) s)" for i t
    by (rule goes_mono) (auto simp: append_msg_writes [OF assms(1)] run_ok_parts)
  then show "goes (end_ok c) (run_ok c) (inject_one c m sub s)"
    by (simp add: inject_one_def admit_user_def case_prod_unfold)
qed

lemma inject_spawned_ok:
  assumes "writes_succeed c" "run_ok c s"
  shows "goes (end_ok c) (run_ok c) (inject_spawned c rs s)"
  unfolding inject_spawned_def
  by (rule goes_fold [where I = "run_ok c", OF assms(2)]) (auto simp: append_msg_writes [OF assms(1)] run_ok_parts)

lemma safe_point_ok:
  assumes "writes_succeed c" "run_ok c s"
  shows "goes (end_ok c) (run_ok c) (inject_at_safe_point c m s)"
proof -
  obtain subs b where t: "take_inbox False (rn_inbox s) = (subs, b)" by (cases "take_inbox False (rn_inbox s)")
  have "goes (end_ok c) (run_ok c) (inject_submissions c m subs (s\<lparr>rn_inbox := b\<rparr>))"
    using inject_submissions_ok [OF assms(1)] assms(2) by simp
  then have "goes (end_ok c) (\<lambda>s. goes (end_ok c) (run_ok c) (inject_spawned c (mo_spawned m) s))
      (inject_submissions c m subs (s\<lparr>rn_inbox := b\<rparr>))"
    by (rule goes_mono) (rule inject_spawned_ok [OF assms(1)])
  then show ?thesis
    by (auto simp: inject_at_safe_point_def t restart_ok elim!: goes_mono)
qed

lemma drain_ok:
  assumes "writes_succeed c" "run_ok c s"
  shows "goes (end_ok c) (\<lambda>(resumed, s). run_ok c s) (drain_inbox c m s)"
  using assms(2) inject_submissions_ok [OF assms(1), of "s\<lparr>rn_inbox := b\<rparr>" for b]
  by (auto simp: drain_inbox_def split: prod.split)

lemma await_spawned_ok:
  assumes "writes_succeed c" "run_ok c s"
  shows "goes (end_ok c) (\<lambda>(resumed, s). run_ok c s) (await_spawned c m w s)"
proof -
  have "goes (end_ok c) (\<lambda>s. goes (end_ok c) (run_ok c) (inject_spawned c rs s))
      (inject_submissions c m subs (s\<lparr>rn_inbox := b\<rparr>))" for rs subs b
    by (rule goes_mono [OF inject_submissions_ok [OF assms(1)]]) (use inject_spawned_ok [OF assms(1)] assms(2) in simp_all)
  then show ?thesis using end_ok_over [OF assms(2)]
    by (simp add: await_spawned_def del: end_ok.simps split: sum.split prod.split)
qed

lemma await_children_ok:
  assumes "writes_succeed c" "run_ok c s"
  shows "goes (end_ok c) (\<lambda>(resumed, s). run_ok c s) (await_children c m ws s)"
  using assms(2)
proof (induction ws arbitrary: s)
  case Nil
  then show ?case by (simp add: drain_ok [OF assms(1)])
next
  case (Cons w ws)
  show ?case unfolding await_children.simps goes_and
    by (rule goes_mono [OF await_spawned_ok [OF assms(1) Cons.prems]]) (auto intro: Cons.IH)
qed

lemma resume_ok:
  assumes "writes_succeed c" "run_ok c s"
  shows "goes (end_ok c) (\<lambda>(resumed, s). run_ok c s) (resume_at_finish c m s)"
  unfolding resume_at_finish_def by (rule await_children_ok [OF assms])

lemma finish_ok:
  assumes "writes_succeed c" "run_ok c s"
  shows "end_ok c (finish_run c m s)"
  using resume_ok [OF assms, of m] restart_ok(2)
  by (cases "resume_at_finish c m s") (auto simp: finish_run_def run_ok_def)

lemma report_usage_ok:
  assumes "run_ok c s"
  shows "goes (end_ok c) (run_ok c) (report_usage u s)"
  by (rule report_goes) (use assms in \<open>simp_all add: run_ok_def\<close>)

lemma handle_truncation_ok:
  assumes "writes_succeed c" "run_ok c s"
  shows "goes (end_ok c) (\<lambda>(err, s'). run_ok c s') (handle_truncation c ps s)"
  using assms(2) by (simp add: handle_truncation_def Let_def append_msg_writes [OF assms(1)] run_ok_parts split: option.split)

lemma after_truncation_ok:
  assumes "writes_succeed c" "run_ok c s"
  shows "end_ok c (after_truncation c m err s)"
proof -
  have "run_ok c (s\<lparr>rn_continues := Suc (rn_continues s), rn_pending := True\<rparr>)" if "int (rn_continues s) < lc_auto_continue c"
    using assms(2) that by (auto simp: run_ok_def limits_ok_def tallies_ok_def turns_used_def simp del: of_nat_diff)
  then show ?thesis using assms(2) finish_ok [OF assms, of m] end_ok_over [OF assms(2)]
    by (auto simp: after_truncation_def append_continuation_def append_msg_writes [OF assms(1)] run_ok_parts
)
qed

lemma settle_ok:
  assumes "writes_succeed c" "run_ok c s"
  shows "goes (end_ok c) (\<lambda>(ps, s'). run_ok c s') (settle_answer c m u ps s)"
proof -
  have guard: "goes (end_ok c) (\<lambda>(q, s'). run_ok c s') (guard_truncated c m u ps s')" if "run_ok c s'" for s'
  proof -
    have "goes (end_ok c) (\<lambda>(q, s'). run_ok c s') (guard_output c m q s')" for q
      by (rule goes_mono [OF guard_output_ok [OF assms(1) that]]) auto
    then show ?thesis using that by (simp add: guard_truncated_def case_prod_unfold split: option.split)
  qed
  have trunc: "goes (end_ok c) (\<lambda>a. goes (end_ok c) Q (case a of (err, s) \<Rightarrow> Inl (after_truncation c m err s))) (handle_truncation c ps s')"
    if "run_ok c s'" for s' ps and Q :: "turn_part list option \<times> run_state \<Rightarrow> bool"
    by (rule goes_mono [OF handle_truncation_ok [OF assms(1) that]]) (auto simp: after_truncation_ok [OF assms(1)])
  show ?thesis unfolding settle_answer_def goes_and
    by (rule goes_mono [OF report_usage_ok [OF assms(2)]], rule goes_mono [OF guard]) (auto simp: trunc)
qed

lemma commit_interrupted_ok:
  assumes "writes_succeed c" "run_ok c s"
  shows "end_ok c (commit_interrupted c partial s)"
  using assms(2) by (auto simp: commit_interrupted_def Let_def append_msg_writes [OF assms(1)] run_ok_parts split: option.split)

lemma commit_stopped_ok:
  assumes "writes_succeed c" "run_ok c s"
  shows "end_ok c (commit_stopped c m partial u s)"
proof -
  define s1 where "s1 = (if cu_delta u = None then s else (case report_usage u s of Inl (Over s e) \<Rightarrow> s | Inl (Again s) \<Rightarrow> s | Inr s \<Rightarrow> s))"
  define kept where "kept = (case partial of Some ps \<Rightarrow> without_tool_calls ps | None \<Rightarrow> [])"
  have kept: "turn_calls kept = []" by (simp add: kept_def turn_calls_def [of "[]"] split: option.split)
  have s1: "run_ok c s1"
    using assms(2) by (auto simp: s1_def report_usage_def end_with_def split: option.splits prod.splits)
  have "goes (\<lambda>e. \<exists>s' x. e = Over s' x \<and> run_ok c s') (\<lambda>(q, s'). turn_calls q = [] \<and> run_ok c s') (guard_output c m kept s1)"
    by (rule guard_output_goes)
      (use s1 kept in \<open>auto simp: trip_guardrail_def append_msg_writes [OF assms(1)] run_ok_parts\<close>)
  then have "end_ok c (case guard_output c m kept s1 of Inl (Over s e) \<Rightarrow> Over s (Some RunStopped)
      | Inl (Again s) \<Rightarrow> Over s (Some RunStopped)
      | Inr (q, s) \<Rightarrow> (case append_msg c (RunTurn q (Some ''stopped'')) s of Inl e \<Rightarrow> e | Inr s \<Rightarrow> Over s (Some RunStopped)))"
    by (cases "guard_output c m kept s1") (auto simp: append_msg_writes [OF assms(1)] run_ok_def)
  moreover have "end_ok c (Over s1 (Some RunStopped))" by (rule end_ok_over [OF s1])
  ultimately show ?thesis unfolding commit_stopped_def Let_def s1_def [symmetric] kept_def [symmetric] by simp
qed

lemma stop_after_call_ok:
  assumes "writes_succeed c" "run_ok c s"
  shows "goes (end_ok c) (run_ok c) (stop_after_call c m a u s)"
  using assms by (simp add: stop_after_call_def commit_stopped_ok)

lemma final_call_ok:
  assumes "writes_succeed c" "run_ok c s"
  shows "goes (end_ok c) (\<lambda>(ps, s'). run_ok c s') (final_call c m s)"
proof -
  have guard: "goes (end_ok c) (\<lambda>(ps, s'). run_ok c s') (case a of None \<Rightarrow> Inr (None, s')
      | Some q \<Rightarrow> and_go (guard_output c m q s') (\<lambda>(q, s). Inr (Some q, s)))" if "run_ok c s'" for s' and a :: "turn_part list option"
  proof -
    have "goes (end_ok c) (\<lambda>(q, s'). run_ok c s') (guard_output c m q s')" for q
      by (rule goes_mono [OF guard_output_ok [OF assms(1) that]]) auto
    then show ?thesis using that by (simp add: case_prod_unfold split: option.split)
  qed
  have rest: "goes (end_ok c) (\<lambda>(ps, s'). run_ok c s') (and_go (report_usage u s') (\<lambda>s'. case a of None \<Rightarrow> Inr (None, s')
      | Some q \<Rightarrow> and_go (guard_output c m q s') (\<lambda>(q, s). Inr (Some q, s))))" if "run_ok c s'" for s' u and a :: "turn_part list option"
    unfolding goes_and by (rule goes_mono [OF report_usage_ok [OF that]]) (rule guard)
  show ?thesis unfolding final_call_def Let_def goes_and
    by (rule goes_mono [OF stop_after_call_ok [OF assms]]) (auto simp: end_ok_over simp del: goes_and end_ok.simps intro!: rest split: model_answer.split)
qed

lemma final_answer_ok:
  assumes "writes_succeed c" "run_ok c s"
  shows "end_ok c (final_answer c limit u ps s)"
proof -
  have "end_ok c (case handle_truncation c ps s of Inl e \<Rightarrow> e | Inr (err, s) \<Rightarrow> Over s err)"
    using handle_truncation_ok [OF assms, of ps] by (cases "handle_truncation c ps s") (auto simp: run_ok_def)
  then show ?thesis using assms(2)
    by (simp add: final_answer_def Let_def append_msg_writes [OF assms(1)] run_ok_def split: option.split)
qed

lemma finish_at_limit_ok:
  assumes "writes_succeed c" "run_ok c s"
  shows "end_ok c (finish_at_limit c m limit s)"
proof -
  have "end_ok c (case final_call c m s of
      Inl e \<Rightarrow> e | Inr (ps, s) \<Rightarrow> final_answer c limit (mo_final_usage m) ps s)"
    using final_call_ok [OF assms, of m] final_answer_ok [OF assms(1)]
    by (cases "final_call c m s") auto
  then show ?thesis using end_ok_over [OF assms(2)]
    by (simp add: finish_at_limit_def split: option.split)
qed

text \<open>Room for one more turn under the cap.\<close>

definition has_room :: "loop_config \<Rightarrow> run_state \<Rightarrow> bool" where
  "has_room c s = (0 < lc_max_iter c \<longrightarrow> int (turns_used s) < lc_max_iter c)"

lemma check_limits_ok:
  assumes "writes_succeed c" "run_ok c s"
  shows "goes (end_ok c) (\<lambda>s'. run_ok c s' \<and> has_room c s') (check_limits c m s)"
  using assms(2) finish_ok [OF assms, of m] finish_at_limit_ok [OF assms]
  by (auto simp: check_limits_def Let_def append_msg_writes [OF assms(1)] run_ok_parts has_room_def
      simp del: end_ok.simps(2) split: option.split)

lemma room_simps [simp]:
  "has_room c (s\<lparr>rn_msgs := ms\<rparr>) = has_room c s" "has_room c (s\<lparr>rn_overflow := ov\<rparr>) = has_room c s"
  "has_room c (s\<lparr>rn_tools := r\<rparr>) = has_room c s"
  "has_room c (s\<lparr>rn_inbox := b\<rparr>) = has_room c s"
  by (simp_all add: has_room_def turns_used_def)

lemma overflow_unpressed: "overflow_ok c ov \<Longrightarrow> overflow_ok c (ov\<lparr>ov_pressure := False\<rparr>)"
  by (simp add: overflow_ok_def)

text \<open>What a compaction may do: end the run, keep the branch, or replace the transcript; the charges stay.\<close>

lemma run_compaction_goes:
  assumes "\<And>r e. E (Over (s\<lparr>rn_tools := r\<rparr>) (Some e))" "\<And>r. k = KeepBranch \<Longrightarrow> P (False, s\<lparr>rn_tools := r\<rparr>)"
    "\<And>r ms. k = NewBranch ms \<Longrightarrow> P (True, s\<lparr>rn_tools := r, rn_msgs := ms,
       rn_overflow := (rn_overflow s)\<lparr>ov_last := 0, ov_compacted := True\<rparr>\<rparr>)"
  shows "goes E P (run_compaction us k s)"
proof -
  have "E (Over s (Some e))" for e using assms(1) [of "rn_tools s" e] by simp
  moreover have "goes E (\<lambda>s. goes E P (case k of
       KeepBranch \<Rightarrow> Inr (False, s)
     | CompactionFails e \<Rightarrow> Inl (Over s (Some e))
     | NewBranch ms \<Rightarrow> Inr (True, s\<lparr>rn_msgs := ms, rn_overflow := (rn_overflow s)\<lparr>ov_last := 0, ov_compacted := True\<rparr>\<rparr>)))
     (charge_calls us s)"
    by (rule charges_goes) (use assms in \<open>auto split: compaction.split\<close>)
  ultimately show ?thesis by (simp add: run_compaction_def split: option.split)
qed

lemma compact_if_needed_ok:
  assumes "run_ok c s" "keeps_pairs (mo_compaction m)" "has_room c s"
  shows "goes (end_ok c) (\<lambda>(compacted, s'). run_ok c s' \<and> has_room c s') (compact_if_needed c m s)"
proof -
  define ov where "ov = rn_overflow s"
  have ov: "overflow_ok c ov" and base: "transcript_ok (rn_msgs s)" "tallies_ok c s"
    using assms(1) by (simp_all add: ov_def run_ok_parts)
  have un: "run_ok c (unpressed s)" "has_room c (unpressed s)"
    using base assms(3) overflow_unpressed [OF ov] by (simp_all add: unpressed_def ov_def)
  have over: "end_ok c (Over s e)" for e by (rule end_ok_over [OF assms(1)])
  have kept: "transcript_ok ms" if "mo_compaction m = NewBranch ms" for ms
    using assms(2) that by (simp add: keeps_pairs_def)
  have once: "overflow_ok c (ov\<lparr>ov_last := 0, ov_compacted := True\<rparr>)" using ov by (simp add: overflow_ok_def)
  have again: "overflow_ok c (ov\<lparr>ov_last := 0, ov_compacted := True, ov_pressure := True, ov_size := n, ov_rounds := Suc (ov_rounds ov)\<rparr>)"
    if "\<not> ov_pressure ov \<or> ov_rounds ov < max_pressure_compactions" "\<not> ov_compacted ov \<or> ov_pressure ov" "0 < lc_max_input c" for n
    using ov that by (auto simp: overflow_ok_def max_pressure_compactions_def)
  have two: "goes (end_ok c) (\<lambda>(compacted, s'). run_ok c s' \<and> has_room c s')
      (and_go (run_compaction (mo_summaries m) (mo_compaction m) s) (\<lambda>(ok, s').
         if ok then Inr (True, s'\<lparr>rn_overflow := (rn_overflow s')\<lparr>ov_pressure := True, ov_size := n, ov_rounds := Suc (ov_rounds ov)\<rparr>\<rparr>)
         else Inr (False, unpressed s')))"
    if "\<not> ov_pressure ov \<or> ov_rounds ov < max_pressure_compactions" "\<not> ov_compacted ov \<or> ov_pressure ov" "0 < lc_max_input c" for n
    unfolding goes_and
    by (rule run_compaction_goes)
      (use un over again [OF that] base assms(3) kept in \<open>auto simp: ov_def unpressed_def run_ok_def limits_ok_def\<close>)
  have one: "goes (end_ok c) (\<lambda>(compacted, s'). run_ok c s' \<and> has_room c s') (run_compaction (mo_summaries m) (mo_compaction m) s)"
    by (rule run_compaction_goes) (use once base assms(1,3) kept in \<open>auto simp: ov_def run_ok_def limits_ok_def\<close>)
  show ?thesis
    using two [of "max (ov_last ov) (mo_size m)"] one un assms(1,3)
    by (simp add: compact_if_needed_def Let_def flip: ov_def) (auto simp: not_le)
qed

lemma compact_branch_ok:
  assumes "run_ok c s" "keeps_pairs (mo_compaction m)" "has_room c s"
  shows "goes (end_ok c) (\<lambda>s'. run_ok c s' \<and> has_room c s') (compact_branch c m s)"
proof -
  have "goes (end_ok c) (\<lambda>a. goes (end_ok c) (\<lambda>s'. run_ok c s' \<and> has_room c s')
      (case a of (compacted, s') \<Rightarrow> if compacted then Inl (Again s') else Inr s')) (compact_if_needed c m s)"
    by (rule goes_mono [OF compact_if_needed_ok [OF assms]]) (simp split: prod.split_asm)
  then show ?thesis using end_ok_over [OF assms(1)] assms(1,3)
    by (simp add: compact_branch_def case_prod_unfold del: end_ok.simps)
qed

lemma recover_overflow_ok:
  assumes "run_ok c s" "keeps_pairs (mo_recovery m)"
  shows "end_ok c (recover_overflow c m e cl s)"
proof -
  define ov where "ov = rn_overflow s"
  define first where "first = (case ov_original ov of None \<Rightarrow> e | Some e' \<Rightarrow> e')"
  have ov: "overflow_ok c ov" and base: "transcript_ok (rn_msgs s)" "tallies_ok c s"
    using assms(1) by (simp_all add: ov_def run_ok_parts)
  have kept: "transcript_ok ms" if "mo_recovery m = NewBranch ms" for ms
    using assms(2) that by (simp add: keeps_pairs_def)
  have over: "end_ok c (Over (s\<lparr>rn_overflow := ov\<lparr>ov_original := Some first\<rparr>\<rparr>) x)" for x
    using ov base by (intro end_ok_over) (simp add: overflow_ok_def)
  have retried: "overflow_ok c (ov\<lparr>ov_original := Some first, ov_retries := Suc (ov_retries ov)\<rparr>)"
      "overflow_ok c (ov\<lparr>ov_original := Some first, ov_retries := Suc (ov_retries ov), ov_last := 0, ov_compacted := True\<rparr>)"
    if "ov_retries ov < max_overflow_retries"
    using ov that by (simp_all add: overflow_ok_def)
  have "end_ok c (case run_compaction us (mo_recovery m) (s\<lparr>rn_overflow :=
        ov\<lparr>ov_original := Some first, ov_retries := Suc (ov_retries ov)\<rparr>\<rparr>) of
      Inl e \<Rightarrow> e | Inr (ok, s) \<Rightarrow> if ok then Again s else Over s (Some first))"
    if "ov_retries ov < max_overflow_retries" for us
    unfolding ends_goes [where E = "end_ok c"]
    by (rule run_compaction_goes) (use retried [OF that] base kept in \<open>simp_all add: limits_ok_def\<close>)
  then show ?thesis
    unfolding recover_overflow_def Let_def ov_def [symmetric] first_def [symmetric]
    using over end_ok_over [OF assms(1)] by (simp del: end_ok.simps)
qed

lemma count_turn_ok: "run_ok c s \<Longrightarrow> has_room c s \<Longrightarrow> run_ok c (count_turn s)"
  by (auto simp: run_ok_def limits_ok_def tallies_ok_def has_room_def turns_used_def count_turn_def simp del: of_nat_diff)

lemma turn_succeeded_ok: "overflow_ok c (turn_succeeded u ov)"
  by (simp add: overflow_ok_def turn_succeeded_def)

lemma call_model_ok:
  assumes "writes_succeed c" "moment_ok m" "run_ok c s" "has_room c s"
  shows "goes (end_ok c) (\<lambda>(ps, s'). run_ok c s') (call_model c m s)"
proof -
  have first: "goes (end_ok c) (\<lambda>s'. s' = s1)
      (if mo_stop_call m \<and> mo_stop m \<noteq> None then stop_after_call c m (mo_answer m) (mo_usage m) (count_turn s1) else Inr s1)"
    if "run_ok c s1" "has_room c s1" for s1
    using commit_stopped_ok [OF assms(1) count_turn_ok [OF that]] by (auto simp: stop_after_call_def)
  have interrupted: "goes (end_ok c) (\<lambda>(ps, s'). run_ok c s')
      (and_go (report_usage (mo_usage m) (count_turn s1)) (\<lambda>s. Inl (commit_interrupted c ps s)) :: (turn_part list option \<times> run_state) run_step)"
    if "run_ok c s1" "has_room c s1" for ps s1
    using goes_mono [OF report_usage_ok [OF count_turn_ok [OF that]]] commit_interrupted_ok [OF assms(1)] by (simp del: end_ok.simps)
  have answered: "goes (end_ok c) (\<lambda>(ps, s'). run_ok c s')
      (settle_answer c m (mo_usage m) ps (count_turn (s1\<lparr>rn_overflow := turn_succeeded u (rn_overflow s1)\<rparr>)))"
    if "run_ok c s1" "has_room c s1" for ps u s1
    using that run_ok_parts [OF that(1)] by (intro settle_ok [OF assms(1)] count_turn_ok) (simp_all add: turn_succeeded_ok)
  have recovered: "end_ok c (recover_overflow c m e cl s1)" if "run_ok c s1" for e cl s1
    using recover_overflow_ok [OF that] assms(2) by (simp add: moment_ok_def)
  have replayed: "end_ok c (commit_interrupted c (Some ps) (count_turn s1))" if "run_ok c s1" "has_room c s1" for ps s1
    by (rule commit_interrupted_ok [OF assms(1) count_turn_ok [OF that]])
  have call: "goes (end_ok c) (\<lambda>(ps, s'). run_ok c s')
      (and_go (if mo_stop_call m \<and> mo_stop m \<noteq> None then stop_after_call c m (mo_answer m) (mo_usage m) (count_turn s1) else Inr s1) (\<lambda>s.
      case mo_answer m of
        InterruptedCall ps \<Rightarrow> and_go (report_usage (mo_usage m) (count_turn s)) (\<lambda>s. Inl (commit_interrupted c ps s))
      | InterruptedReplay ps \<Rightarrow> Inl (commit_interrupted c (Some ps) (count_turn s))
      | ModelFails e context_length \<Rightarrow> Inl (recover_overflow c m e context_length s)
      | Answered ps \<Rightarrow> settle_answer c m (mo_usage m) ps
          (count_turn (s\<lparr>rn_overflow := turn_succeeded (cu_delta (mo_usage m)) (rn_overflow s)\<rparr>))))"
    if ok: "run_ok c s1" "has_room c s1" for s1
    unfolding goes_and
    by (rule goes_mono [OF first [OF ok]])
      (auto simp: recovered [OF ok(1)] replayed [OF ok] simp del: goes_and end_ok.simps
        intro!: answered [OF ok] interrupted [OF ok] split: model_answer.split)
  show ?thesis unfolding call_model_def Let_def goes_and [where x = "finish_parallel_guard c m s"]
    by (rule parallel_guard_goes, rule guards_ok [OF assms(1,3)], rule guards_ok [OF assms(1,3)], rule call)
      (use assms(3,4) in simp_all)
qed

lemma schema_turn_ok:
  assumes "writes_succeed c" "run_ok c s"
  shows "goes (end_ok c) (\<lambda>(ps, s'). run_ok c s') (schema_turn c m ps s)"
proof -
  have rest: "goes (end_ok c) (\<lambda>(ps, s'). run_ok c s') (case mo_schema m of
        ModelFails e x \<Rightarrow> Inl (Over s' (Some e)) | InterruptedCall x \<Rightarrow> Inl (Over s' (Some RunCanceled))
      | a \<Rightarrow> settle_answer c m (mo_schema_usage m) (answered_parts a) s')" if "run_ok c s'" for s'
    using settle_ok [OF assms(1) that] end_ok_over [OF that] by (simp del: end_ok.simps split: model_answer.split)
  show ?thesis
    using assms(2) goes_mono [OF stop_after_call_ok [OF assms] rest]
    by (auto simp: schema_turn_def Let_def simp del: end_ok.simps split: option.split)
qed

section \<open>The turn's tools\<close>

lemma execute_answers: "map tr_call (fst (execute_tools ev tcs r)) = map tc_id tcs"
proof -
  have "tr_call (fst (execute_one_tool ev tc r)) = tc_id tc" for tc r
  proof (cases "execute_one_tool ev tc r")
    case (Pair res r')
    have "reported tc r (res, r')" by (cases rule: execute_cases [OF Pair])
    then show ?thesis using Pair by (simp add: reported_def)
  qed
  then show ?thesis unfolding execute_tools_def by (simp add: calls_in_order failed_call_fields)
qed

lemma skip_answers: "map tr_call (fst (skip_tool_calls ev tcs why r)) = map tc_id tcs"
  by (simp add: skip_tool_calls_def calls_in_order failed_call_fields)

text \<open>A turn whose calls are open, as the loop hands it to its tools.\<close>

definition turn_open :: "loop_config \<Rightarrow> tool_call list \<Rightarrow> run_state \<Rightarrow> bool" where
  "turn_open c calls s = (calls \<noteq> [] \<and> open_ids (rn_msgs s) = Some (map tc_id calls) \<and> open_calls (rn_msgs s) = calls \<and> limits_ok c s)"

lemma turn_open_simps [simp]:
  "turn_open c calls (s\<lparr>rn_tools := r\<rparr>) = turn_open c calls s" "turn_open c calls (s\<lparr>rn_guards := g\<rparr>) = turn_open c calls s"
  "turn_open c calls (s\<lparr>rn_pending := p\<rparr>) = turn_open c calls s"
  by (simp_all add: turn_open_def)

lemma persist_ok:
  assumes "writes_succeed c" "turn_open c calls s" "map tr_call rs = map tc_id calls"
  shows "\<exists>s'. persist_results c rs s = Inr s' \<and> run_ok c s' \<and> s' = s\<lparr>rn_msgs := rn_msgs s @ [RunResults rs]\<rparr>"
  using assms by (simp add: persist_results_def append_msg_writes turn_open_def results_answer)

lemma apply_handoff_ok:
  assumes "writes_succeed c" "run_ok c s"
  shows "goes (end_ok c) (run_ok c) (apply_handoff c m rs s)"
proof -
  have "tallies_ok c (s\<lparr>rn_handoffs := Suc (rn_handoffs s)\<rparr>)" if "\<not> lc_max_handoffs c \<le> int (rn_handoffs s)"
    using run_ok_parts(3) [OF assms(2)] that by (auto simp: tallies_ok_def turns_used_def simp del: of_nat_diff)
  then show ?thesis using assms(2) end_ok_over [OF assms(2)] run_ok_parts [OF assms(2)]
    by (auto simp: apply_handoff_def append_msg_writes [OF assms(1)] limits_ok_def simp del: end_ok.simps split: list.split)
qed

lemma run_tools_ok:
  assumes "writes_succeed c" "turn_open c calls s"
  shows "end_ok c (run_tools c m calls s)"
proof -
  obtain rs r where x: "execute_tools (mo_tools m) calls (rn_tools s) = (rs, r)" by (cases "execute_tools (mo_tools m) calls (rn_tools s)")
  have ids: "map tr_call rs = map tc_id calls" using execute_answers [of "mo_tools m" calls "rn_tools s"] x by simp
  obtain s1 where s1: "persist_results c rs (s\<lparr>rn_tools := r\<rparr>) = Inr s1" "run_ok c s1"
    using persist_ok [OF assms(1) _ ids, of "s\<lparr>rn_tools := r\<rparr>"] assms(2) by auto
  obtain s2 where s2: "persist_results c rs (s\<lparr>rn_tools := r, rn_pending := True\<rparr>) = Inr s2" "run_ok c s2"
    using persist_ok [OF assms(1) _ ids, of "s\<lparr>rn_tools := r, rn_pending := True\<rparr>"] assms(2) by auto
  have open_run: "end_ok c (Over (s\<lparr>rn_tools := r\<rparr>) (Some RunSuspended))"
    using assms(2) by (simp add: turn_open_def left_open_def)
  have stop: "end_ok c (Over (s2\<lparr>rn_stop_call := i\<rparr>) None)" for i using s2(2) by (simp add: run_ok_def)
  have handed: "goes (end_ok c) (run_ok c) (apply_handoff c m rs (s2\<lparr>rn_guards := g\<rparr>))" for g
    using apply_handoff_ok [OF assms(1), of "s2\<lparr>rn_guards := g\<rparr>"] s2(2) by simp
  have "goes (end_ok c) (run_ok c) (and_go (persist_results c rs (s\<lparr>rn_tools := r, rn_pending := True\<rparr>)) (\<lambda>s.
      and_go (end_with (mo_turn_hook m) s) (\<lambda>s.
      let stop = stop_tool_call c calls rs in
      if stop \<noteq> [] then Inl (Over (s\<lparr>rn_stop_call := stop\<rparr>) None)
      else and_go (end_with (mo_outcome m) s) (\<lambda>s.
        apply_handoff c m rs (s\<lparr>rn_guards := record_results (lc_max_errors c) rs (rn_guards s)\<rparr>)))))"
    using s2 stop handed end_ok_over [OF s2(2)] by (simp add: Let_def goes_end_with del: end_ok.simps split: option.split)
  then show ?thesis
    using open_run s1 end_ok_over [OF s1(2)]
    by (simp add: run_tools_def x Let_def ends_goes del: end_ok.simps(2) goes_and split: option.split)
qed

lemma skip_repeated_ok:
  assumes "writes_succeed c" "turn_open c calls s"
  shows "end_ok c (skip_repeated c m calls s)"
proof -
  define why where "why = ''not run: repeated identical tool calls: '' @ itoa (int (lg_repeats (rn_guards s))) @ '' turns in a row''"
  obtain rs r where x: "skip_tool_calls (mo_tools m) calls why (rn_tools s) = (rs, r)"
    by (cases "skip_tool_calls (mo_tools m) calls why (rn_tools s)")
  have "map tr_call rs = map tc_id calls" using skip_answers [of "mo_tools m" calls why "rn_tools s"] x by simp
  from persist_ok [OF assms(1) _ this, of "s\<lparr>rn_tools := r, rn_pending := True\<rparr>"] assms(2)
  show ?thesis unfolding skip_repeated_def why_def [symmetric] x by auto
qed

lemma use_tools_ok:
  assumes "writes_succeed c" "turn_open c calls s"
  shows "end_ok c (use_tools c m calls s)"
proof -
  obtain over g where g: "repeated (lc_max_repeats c) calls (rn_guards s) = (over, g)"
    by (cases "repeated (lc_max_repeats c) calls (rn_guards s)")
  have t: "turn_open c calls (s\<lparr>rn_guards := g\<rparr>)" using assms(2) by simp
  then have "end_ok c (Over (s\<lparr>rn_guards := g\<rparr>) (Some (RunPanicked v)))" for v
    by (simp add: turn_open_def left_open_def)
  then show ?thesis using skip_repeated_ok [OF assms(1) t] run_tools_ok [OF assms(1) t]
    by (simp add: use_tools_def g Let_def del: end_ok.simps split: option.split)
qed

lemma text_answer_ok:
  assumes "writes_succeed c" "run_ok c s"
  shows "end_ok c (text_answer c m ps s)"
proof -
  have "tallies_ok c (s\<lparr>rn_repairs := Suc (rn_repairs s)\<rparr>)" if "rn_repairs s < max_output_repairs"
    using run_ok_parts(3) [OF assms(2)] that by (auto simp: tallies_ok_def turns_used_def simp del: of_nat_diff)
  then have repair: "end_ok c (Again (s\<lparr>rn_repairs := Suc (rn_repairs s), rn_pending := True,
      rn_msgs := rn_msgs s @ [RunUser [] e]\<rparr>))" if "rn_repairs s < max_output_repairs" for e
    using run_ok_parts [OF assms(2)] that by (simp add: limits_ok_def)
  have "end_ok c (case end_with (mo_turn_hook m) s of Inl e \<Rightarrow> e | Inr s \<Rightarrow> finish_run c m s)"
    using finish_ok [OF assms, of m] end_ok_over [OF assms(2)] by (simp add: end_with_def del: end_ok.simps split: option.split)
  then show ?thesis using repair end_ok_over [OF assms(2)]
    by (simp add: text_answer_def append_msg_writes [OF assms(1)] del: end_ok.simps split: option.split)
qed

lemma take_answer_ok:
  assumes "writes_succeed c" "run_ok c s"
  shows "end_ok c (take_answer c m ps s)"
proof (cases ps)
  case None
  then show ?thesis using finish_ok [OF assms, of m] end_ok_over [OF assms(2)] by (simp add: take_answer_def del: end_ok.simps)
next
  case (Some q)
  have calls: "turn_open c (turn_calls q') (s'\<lparr>rn_msgs := rn_msgs s' @ [RunTurn q' None]\<rparr>)" if "turn_calls q' \<noteq> []" "run_ok c s'" for q' s'
    using run_ok_parts [OF that(2)] that(1)
    by (simp add: turn_open_def open_turn open_calls_def del: open_ids_append)
  define after where "after = (\<lambda>q' s'. if turn_calls q' = [] then text_answer c m q' s' else use_tools c m (turn_calls q') s')"
  have after: "end_ok c (after q' (s'\<lparr>rn_msgs := rn_msgs s' @ [RunTurn q' None]\<rparr>))" if ok: "run_ok c s'" for q' s'
  proof (cases "turn_calls q' = []")
    case True
    then have "run_ok c (s'\<lparr>rn_msgs := rn_msgs s' @ [RunTurn q' None]\<rparr>)" using run_ok_parts [OF ok] by simp
    then show ?thesis using True text_answer_ok [OF assms(1)] by (simp add: after_def)
  next
    case False
    then show ?thesis using use_tools_ok [OF assms(1) calls [OF _ ok]] by (simp add: after_def)
  qed
  have "goes (end_ok c) (\<lambda>(q', s'). run_ok c s') (guard_output c m q s)"
    by (rule goes_mono [OF guard_output_ok [OF assms]]) auto
  then have "goes (end_ok c) (\<lambda>(q', s'). run_ok c s')
      (if turn_calls q = [] \<and> lc_answer_error c q = None then guard_output c m q s else Inr (q, s))"
    using assms(2) by simp
  then have "goes (end_ok c) (\<lambda>(q', s'). end_ok c (after q' s'))
      (and_go (if turn_calls q = [] \<and> lc_answer_error c q = None then guard_output c m q s else Inr (q, s))
        (\<lambda>(q, s). and_go (append_msg c (RunTurn q None) s) (\<lambda>s. Inr (q, s))))"
    unfolding append_msg_writes [OF assms(1)] goes_and by (rule goes_mono) (auto simp: after simp del: end_ok.simps)
  then show ?thesis
    unfolding take_answer_def Some option.case ends_goes [where E = "end_ok c"] after_def by (simp add: case_prod_unfold)
qed

section \<open>An iteration and a run\<close>

lemma arrive_room [simp]: "has_room c (arrive subs s) = has_room c s"
  by (simp add: arrive_def)

lemma iteration_ok:
  assumes "writes_succeed c" "moment_ok m" "run_ok c s"
  shows "end_ok c (iteration c m s)"
proof -
  define s0 where "s0 = arrive (mo_early m) s"
  have s0: "run_ok c s0" using assms(3) by (simp add: s0_def)
  have prep: "goes (end_ok c) (run_ok c) (and_go (end_with (mo_setup m) s') (\<lambda>s.
      case mo_panic m BeforeCall of Some v \<Rightarrow> Inl (Over s (Some (RunPanicked v))) | None \<Rightarrow> Inr s))" if "run_ok c s'" for s'
    using end_ok_over [OF that] that by (simp add: goes_end_with del: end_ok.simps split: option.split)
  have request: "goes (end_ok c) (\<lambda>s. run_ok c s \<and> has_room c s)
      (and_go (end_with (budget_stop s') s') (end_with (mo_request m)))" if "run_ok c s'" "has_room c s'" for s'
    using end_ok_over [OF that(1)] that by (simp add: goes_end_with del: end_ok.simps split: option.split)
  have call: "goes (end_ok c) (\<lambda>(ps, s). run_ok c s) (and_go (call_model c m (arrive (mo_late m) s')) (\<lambda>(ps, s). schema_turn c m ps s))"
    if "run_ok c s'" "has_room c s'" for s'
    using goes_mono [OF call_model_ok [OF assms(1,2), of "arrive (mo_late m) s'"]] schema_turn_ok [OF assms(1)] that by auto
  have branch: "goes (end_ok c) (\<lambda>s. run_ok c s \<and> has_room c s) (compact_branch c m s')" if "run_ok c s'" "has_room c s'" for s'
    using compact_branch_ok [OF that(1) _ that(2)] assms(2) by (simp add: moment_ok_def)
  have "goes (end_ok c) (\<lambda>(ps, s). run_ok c s)
     (and_go (inject_at_safe_point c m s0) (\<lambda>s.
      and_go (and_go (end_with (mo_setup m) s) (\<lambda>s.
        case mo_panic m BeforeCall of Some v \<Rightarrow> Inl (Over s (Some (RunPanicked v))) | None \<Rightarrow> Inr s)) (\<lambda>s.
      and_go (check_limits c m s) (\<lambda>s.
      and_go (compact_branch c m s) (\<lambda>s.
      and_go (and_go (end_with (budget_stop s) s) (end_with (mo_request m))) (\<lambda>s.
      and_go (call_model c m (arrive (mo_late m) s)) (\<lambda>(ps, s). schema_turn c m ps s)))))))"
    unfolding goes_and [where x = "inject_at_safe_point c m s0"]
    by (rule goes_mono [OF safe_point_ok [OF assms(1) s0]], subst goes_and, rule goes_mono [OF prep], assumption,
        subst goes_and, rule goes_mono [OF check_limits_ok [OF assms(1)]], assumption,
        subst goes_and, rule goes_mono [OF branch], blast, blast,
        subst goes_and, rule goes_mono [OF request], blast, blast, rule call, blast, blast)
  note goes_mono [OF this, of "\<lambda>(ps, s). end_ok c (take_answer c m ps s)"]
  then show ?thesis
    using end_ok_over [OF s0] take_answer_ok [OF assms(1)]
    by (simp add: iteration_def Let_def ends_goes case_prod_unfold flip: s0_def del: end_ok.simps) 
qed

lemma answer_calls_ok:
  assumes "writes_succeed c" "left_open e (rn_msgs s)" "limits_ok c s"
  shows "run_ok c (answer_calls c why s)"
proof (cases "open_calls (rn_msgs s) = []")
  case True
  then show ?thesis using assms by (simp add: answer_calls_def left_open_def run_ok_def transcript_ok_def)
next
  case False
  define rs where "rs = map (\<lambda>tc. (no_result (tc_id tc))\<lparr>tr_err := why\<rparr>) (open_calls (rn_msgs s))"
  have "map tr_call rs = map tc_id (open_calls (rn_msgs s))" by (simp add: rs_def o_def)
  moreover have "turn_open c (open_calls (rn_msgs s)) s" using False assms(2,3) by (simp add: turn_open_def left_open_def)
  ultimately obtain s' where "persist_results c rs s = Inr s'" "run_ok c s'" using persist_ok [OF assms(1)] by blast
  then show ?thesis using False by (simp add: answer_calls_def rs_def)
qed

lemma complete_no_open: "transcript_ok ms \<Longrightarrow> open_calls ms = []"
proof (cases ms rule: rev_cases)
  case (snoc ms' msg)
  assume "transcript_ok ms"
  then show ?thesis
    by (cases "open_ids ms'"; cases msg) (auto simp: snoc transcript_ok_def next_open_def open_calls_def split: if_splits)
qed (simp add: open_calls_def)

lemma answer_calls_closed: "transcript_ok (rn_msgs s) \<Longrightarrow> answer_calls c why s = s"
  by (simp add: answer_calls_def complete_no_open)

lemma is_panic_iff [simp]: "is_panic e = (\<exists>v. e = Some (RunPanicked v))"
  by (simp add: is_panic_def split: option.split run_error.split)

lemma close_run_ok:
  assumes "writes_succeed c" "end_ok c (Over s e)" "close_run c m e s = (s', e')"
  shows "limits_ok c s' \<and> (transcript_ok (rn_msgs s') \<or> e' = Some RunSuspended)"
proof -
  have lim: "limits_ok c s" and or: "transcript_ok (rn_msgs s) \<or> left_open e (rn_msgs s)" using assms(2) by simp_all
  have ans: "run_ok c (answer_calls c why s)" for why
    using or lim answer_calls_ok [OF assms(1) _ lim] answer_calls_closed by (auto simp: run_ok_def)
  show ?thesis
  proof (cases "\<exists>v. e = Some (RunPanicked v)")
    case True
    then have "s' = answer_calls c ''agent run panicked'' s" using assms(3) by (auto simp: close_run_def Let_def split: option.splits)
    then show ?thesis using ans by (simp add: run_ok_def)
  next
    case False
    show ?thesis
    proof (cases "e \<noteq> None \<and> mo_stop m \<noteq> None")
      case True
      then obtain err reason where "e = Some err" "mo_stop m = Some reason" by auto
      then show ?thesis
        using False assms(3) run_ok_parts [OF ans [of "''stopped before this call finished: '' @ reason"]]
        by (auto simp: close_run_def Let_def append_msg_writes [OF assms(1)] stop_record_def)
    next
      case none: False
      then have "s' = s" "e' = e" using False assms(3) by (auto simp: close_run_def Let_def split: option.splits)
      then show ?thesis using or lim False by (auto simp: left_open_def)
    qed
  qed
qed

lemma run_loop_ok:
  assumes "writes_succeed c" "\<And>m. m \<in> set ms \<Longrightarrow> moment_ok m" "run_ok c s"
  shows "case run_loop c ms s of RunOpen s' \<Rightarrow> run_ok c s'
    | RunEnded s' e \<Rightarrow> limits_ok c s' \<and> (transcript_ok (rn_msgs s') \<or> e = Some RunSuspended)"
  using assms(2,3)
proof (induction ms arbitrary: s)
  case (Cons m ms)
  have it: "end_ok c (iteration c m s)" using Cons.prems by (intro iteration_ok [OF assms(1)]) simp_all
  show ?case
  proof (cases "iteration c m s")
    case (Again s')
    then show ?thesis using it Cons by simp
  next
    case (Over s' e)
    obtain s'' e' where "close_run c m e s' = (s'', e')" by (cases "close_run c m e s'")
    then show ?thesis using close_run_ok [OF assms(1)] it Over by simp
  qed
qed simp

end
