(* ===== verification/Run_Ends.thy ===== *)
theory Run_Ends
  imports Run_Invariant
begin

text \<open>
  An iteration that nobody disturbs makes progress: a measure of the turns, notes, retries and compactions left in
  the user turn falls with every iteration that asks for another one.
\<close>

section \<open>After a turn is counted\<close>

text \<open>
  A moment without submissions and without background children waiting at the end. Once the turn is counted, no
  later stage starts a new user turn or compacts.
\<close>

definition quiet_moment :: "moment \<Rightarrow> bool" where
  "quiet_moment m = (mo_early m = [] \<and> mo_late m = [] \<and> mo_awaited m = [])"

definition steady :: "run_state \<Rightarrow> run_state \<Rightarrow> bool" where
  "steady s s' = (rn_iter s' = rn_iter s \<and> rn_turn_start s' = rn_turn_start s \<and> ib_pending (rn_inbox s') = [] \<and>
     rn_overflow s' = rn_overflow s)"

definition ends_steady :: "run_state \<Rightarrow> run_end \<Rightarrow> bool" where
  "ends_steady s e = (case e of Again s' \<Rightarrow> steady s s' | Over s' x \<Rightarrow> True)"

lemma ends_steady_simps [simp]: "ends_steady s (Over s' e)" "ends_steady s (Again s') = steady s s'"
  by (simp_all add: ends_steady_def)

lemma steady_simps [simp]:
  "steady a (s\<lparr>rn_msgs := ms\<rparr>) = steady a s" "steady a (s\<lparr>rn_tools := r\<rparr>) = steady a s"
  "steady a (s\<lparr>rn_guards := g\<rparr>) = steady a s" "steady a (s\<lparr>rn_pending := p\<rparr>) = steady a s"
  "steady a (s\<lparr>rn_continues := n\<rparr>) = steady a s" "steady a (s\<lparr>rn_repairs := n\<rparr>) = steady a s"
  "steady a (s\<lparr>rn_handoffs := n\<rparr>) = steady a s" "steady a (s\<lparr>rn_wrapped := p\<rparr>) = steady a s"
  by (simp_all add: steady_def)

lemma steady_append: "steady a s \<Longrightarrow> goes (ends_steady a) (steady a) (append_msg c msg s)"
  by (simp add: append_msg_def split: option.split)

lemma steady_end_with: "steady a s \<Longrightarrow> goes (ends_steady a) (steady a) (end_with e s)"
  by (simp add: end_with_def split: option.split)

lemma steady_trip [simp]: "ends_steady a (trip_guardrail c why s)"
  by (simp add: trip_guardrail_def split: sum.split)

lemma steady_guard_output: "steady a s \<Longrightarrow> goes (ends_steady a) (\<lambda>(q, s'). steady a s') (guard_output c m ps s)"
  by (rule guard_output_goes) simp_all

lemma steady_finish:
  assumes "quiet_moment m" "steady a s"
  shows "ends_steady b (finish_run c m s)"
  using assms by (simp add: finish_run_def resume_at_finish_def drain_inbox_def quiet_moment_def take_inbox_def steady_def)

lemma steady_report: "steady a s \<Longrightarrow> goes (ends_steady a) (steady a) (report_usage u s)"
  by (rule report_goes) simp_all

lemma steady_truncation: "steady a s \<Longrightarrow> goes (ends_steady a) (\<lambda>(e, s'). steady a s') (handle_truncation c ps s)"
  using steady_append by (auto simp: handle_truncation_def Let_def elim!: goes_mono)

lemma steady_after_truncation:
  assumes "quiet_moment m" "steady a s"
  shows "ends_steady a (after_truncation c m e s)"
proof -
  have "goes (ends_steady a) (steady a) (append_continuation c (s\<lparr>rn_continues := Suc (rn_continues s), rn_pending := True\<rparr>))"
    using steady_append [of a] assms(2) by (simp add: append_continuation_def)
  then show ?thesis using steady_finish [OF assms]
    by (auto simp: after_truncation_def ends_goes elim!: goes_mono)
qed

lemma steady_settle:
  assumes "quiet_moment m" "steady a s"
  shows "goes (ends_steady a) (\<lambda>(ps, s'). steady a s') (settle_answer c m u ps s)"
proof -
  have guard: "goes (ends_steady a) (\<lambda>(q, s'). steady a s') (guard_truncated c m u ps s')" if "steady a s'" for s'
    using steady_guard_output [OF that] that by (simp add: guard_truncated_def case_prod_unfold split: option.split)
  have cut: "goes (ends_steady a) (\<lambda>x. goes (ends_steady a) Q (case x of (err, s) \<Rightarrow> Inl (after_truncation c m err s))) (handle_truncation c qs s')"
    if "steady a s'" for s' qs and Q :: "turn_part list option \<times> run_state \<Rightarrow> bool"
    by (rule goes_mono [OF steady_truncation [OF that]]) (auto simp: steady_after_truncation [OF assms(1)])
  show ?thesis unfolding settle_answer_def goes_and
    by (rule goes_mono [OF steady_report [OF assms(2)]], rule goes_mono [OF guard]) (auto simp: cut)
qed

lemma steady_interrupted: "steady a s \<Longrightarrow> ends_steady a (commit_interrupted c ps s)"
  using steady_append [of a s] by (auto simp: commit_interrupted_def Let_def ends_goes elim!: goes_mono)

lemma steady_stop: "steady a s \<Longrightarrow> goes (ends_steady a) (steady a) (stop_after_call c m x u s)"
proof -
  assume "steady a s"
  moreover have "ends_steady a (commit_stopped c m p u s)" for p
    by (simp add: commit_stopped_def Let_def append_msg_def split: sum.split run_end.split option.split prod.split)
  ultimately show ?thesis by (simp add: stop_after_call_def)
qed

lemma steady_schema:
  assumes "quiet_moment m" "steady a s"
  shows "goes (ends_steady a) (\<lambda>(ps, s'). steady a s') (schema_turn c m ps s)"
proof -
  have "goes (ends_steady a) (\<lambda>(ps, s'). steady a s') (case mo_schema m of
        ModelFails e x \<Rightarrow> Inl (Over s' (Some e)) | InterruptedCall x \<Rightarrow> Inl (Over s' (Some RunCanceled))
      | q \<Rightarrow> settle_answer c m (mo_schema_usage m) (answered_parts q) s')" if "steady a s'" for s'
    using steady_settle [OF assms(1) that] by (simp split: model_answer.split)
  from goes_mono [OF steady_stop [OF assms(2)] this] show ?thesis
    using assms(2) by (auto simp: schema_turn_def Let_def split: option.split)
qed

lemma steady_tools: "steady a s \<Longrightarrow> ends_steady a (use_tools c m calls s)"
proof -
  assume s: "steady a s"
  have persist: "goes (ends_steady a) (steady a) (persist_results c rs s')" if "steady a s'" for rs s'
    unfolding persist_results_def by (rule steady_append [OF that])
  have "ends_steady a (skip_repeated c m calls s')" if "steady a s'" for s'
    using persist that by (simp add: skip_repeated_def ends_goes split: prod.split)
  moreover have "ends_steady a (run_tools c m calls s')" if "steady a s'" for s'
  proof -
    have hand: "goes (ends_steady a) (steady a) (apply_handoff c m rs (s1\<lparr>rn_guards := g\<rparr>))" if "steady a s1" for rs s1 g
      using that steady_append [of a] by (simp add: apply_handoff_def split: list.split)
    have "goes (ends_steady a) (steady a) (and_go (end_with (mo_turn_hook m) s1) (\<lambda>s.
        let stop = stop_tool_call c calls rs in
        if stop \<noteq> [] then Inl (Over (s\<lparr>rn_stop_call := stop\<rparr>) None)
        else and_go (end_with (mo_outcome m) s) (\<lambda>s.
          apply_handoff c m rs (s\<lparr>rn_guards := record_results (lc_max_errors c) rs (rn_guards s)\<rparr>))))" if "steady a s1" for rs s1
      using hand [OF that] by (simp add: Let_def goes_end_with split: option.split)
    then have "goes (ends_steady a) (steady a) (and_go (persist_results c rs s1) (\<lambda>s. and_go (end_with (mo_turn_hook m) s) (\<lambda>s.
        let stop = stop_tool_call c calls rs in
        if stop \<noteq> [] then Inl (Over (s\<lparr>rn_stop_call := stop\<rparr>) None)
        else and_go (end_with (mo_outcome m) s) (\<lambda>s.
          apply_handoff c m rs (s\<lparr>rn_guards := record_results (lc_max_errors c) rs (rn_guards s)\<rparr>)))))" if "steady a s1" for rs s1
      unfolding goes_and [where x = "persist_results c rs s1"] by (rule goes_mono [OF persist [OF that]])
    moreover have "goes (ends_steady a) (\<lambda>s. True) (persist_results c rs s1)" if "steady a s1" for rs s1
      using goes_mono [OF persist [OF that]] by simp
    moreover have "ends_steady a (case persist_results c rs s1 of Inl y \<Rightarrow> Over s2 x | Inr z \<Rightarrow> Over z x)" for rs s1 s2 x
      by (simp split: sum.split)
    ultimately show ?thesis using that
      by (simp add: run_tools_def Let_def ends_goes del: goes_and split: prod.split option.split)
  qed
  ultimately show ?thesis using s by (simp add: use_tools_def Let_def split: prod.split option.split)
qed

lemma steady_take:
  assumes "quiet_moment m" "steady a s"
  shows "ends_steady a (take_answer c m ps s)"
proof -
  have hook: "goes (ends_steady a) (\<lambda>s'. ends_steady a (finish_run c m s')) (end_with (mo_turn_hook m) s')" if "steady a s'" for s'
    by (rule goes_mono [OF steady_end_with [OF that]]) (rule steady_finish [OF assms(1)])
  have repair: "goes (ends_steady a) (steady a) (append_msg c msg (s'\<lparr>rn_repairs := n, rn_pending := True\<rparr>))"
    if "steady a s'" for s' msg n
    using steady_append [of a "s'\<lparr>rn_repairs := n, rn_pending := True\<rparr>"] that by simp
  have reply: "ends_steady a (text_answer c m q s')" if "steady a s'" for q s'
    using hook [OF that] repair [OF that] by (simp add: text_answer_def ends_goes split: option.split)
  define after where "after = (\<lambda>q s'. if turn_calls q = [] then text_answer c m q s' else use_tools c m (turn_calls q) s')"
  have after: "ends_steady a (after q s')" if "steady a s'" for q s'
    using reply [OF that] steady_tools [OF that] by (simp add: after_def)
  have append: "goes (ends_steady a) (\<lambda>s'. ends_steady a (after q s')) (append_msg c (RunTurn q None) s1)" if "steady a s1" for q s1
    by (rule goes_mono [OF steady_append [OF that]]) (rule after)
  have "goes (ends_steady a) (\<lambda>(q, s'). steady a s')
      (if turn_calls q = [] \<and> lc_answer_error c q = None then guard_output c m q s else Inr (q, s))" for q
    using steady_guard_output [OF assms(2)] assms(2) by simp
  then have "goes (ends_steady a) (\<lambda>(q, s'). ends_steady a (after q s'))
      (and_go (if turn_calls q = [] \<and> lc_answer_error c q = None then guard_output c m q s else Inr (q, s))
        (\<lambda>(q, s). and_go (append_msg c (RunTurn q None) s) (\<lambda>s. Inr (q, s))))" for q
    unfolding goes_and by (rule goes_mono) (auto simp: append)
  then show ?thesis using steady_finish [OF assms]
    by (simp add: take_answer_def ends_goes case_prod_unfold after_def del: goes_and split: option.split)
qed

section \<open>The measure of a user turn\<close>

text \<open>
  What is left of a user turn: its turns, and within a turn the wrap-up note, the overflow retries and the
  compactions. The last three amount to at most ten iterations between two counted turns.
\<close>

definition compactions_left :: "overflow \<Rightarrow> nat" where
  "compactions_left ov =
     (if \<not> ov_compacted ov then 6 else if ov_pressure ov then max_pressure_compactions - ov_rounds ov else 0)"

definition slack :: "run_state \<Rightarrow> nat" where
  "slack s = (if rn_wrapped s then 0 else 1) + (max_overflow_retries - ov_retries (rn_overflow s)) + compactions_left (rn_overflow s)"

definition run_measure :: "loop_config \<Rightarrow> run_state \<Rightarrow> nat" where
  "run_measure c s = 11 * (nat (lc_max_iter c) - turns_used s) + slack s"

definition calm :: "loop_config \<Rightarrow> run_state \<Rightarrow> bool" where
  "calm c s = (ib_pending (rn_inbox s) = [] \<and> rn_turn_start s \<le> rn_iter s \<and>
     (ov_pressure (rn_overflow s) \<longrightarrow> 0 < lc_max_input c))"

definition below :: "loop_config \<Rightarrow> run_state \<Rightarrow> run_state \<Rightarrow> bool" where
  "below c s s' = (calm c s' \<and> run_measure c s' < run_measure c s)"

definition ends_below :: "loop_config \<Rightarrow> run_state \<Rightarrow> run_end \<Rightarrow> bool" where
  "ends_below c s e = (case e of Again s' \<Rightarrow> below c s s' | Over s' x \<Rightarrow> True)"

lemma ends_below_simps [simp]: "ends_below c s (Over s' e)" "ends_below c s (Again s') = below c s s'"
  by (simp_all add: ends_below_def)

text \<open>Before the turn is counted only the transcript changes and the pressure of a compacted branch may be dropped.\<close>

definition untouched :: "loop_config \<Rightarrow> run_state \<Rightarrow> run_state \<Rightarrow> bool" where
  "untouched c s s' = (calm c s' \<and> turns_used s' = turns_used s \<and> slack s' \<le> slack s)"

lemma slack_bound: "slack s \<le> 10"
proof -
  have "compactions_left (rn_overflow s) \<le> 6" by (auto simp: compactions_left_def max_pressure_compactions_def)
  then show ?thesis by (auto simp: slack_def max_overflow_retries_def)
qed

lemma untouched_below: "untouched c s s1 \<Longrightarrow> below c s1 s' \<Longrightarrow> below c s s'"
  by (simp add: untouched_def below_def run_measure_def)

lemma ends_untouched: "untouched c s s1 \<Longrightarrow> ends_below c s1 e \<Longrightarrow> ends_below c s e"
  by (cases e) (auto intro: untouched_below)

lemma counted_below:
  assumes "calm c s" "int (turns_used s) < lc_max_iter c"
    "rn_iter a = Suc (rn_iter s)" "rn_turn_start a = rn_turn_start s" "ov_pressure (rn_overflow a) \<longrightarrow> 0 < lc_max_input c"
    "steady a s'"
  shows "below c s s'"
proof -
  have used: "turns_used s' = Suc (turns_used s)" and less: "turns_used s < nat (lc_max_iter c)"
    using assms(1-4,6) by (auto simp: turns_used_def steady_def calm_def)
  moreover have "calm c s'" using assms by (auto simp: calm_def steady_def)
  ultimately show ?thesis using slack_bound [of s'] by (auto simp: below_def run_measure_def)
qed

lemma counted_ends_below:
  assumes "calm c s" "int (turns_used s) < lc_max_iter c"
    "rn_iter a = Suc (rn_iter s)" "rn_turn_start a = rn_turn_start s" "ov_pressure (rn_overflow a) \<longrightarrow> 0 < lc_max_input c"
    "ends_steady a e"
  shows "ends_below c s e"
  using assms counted_below [OF assms(1-5)] by (cases e) simp_all

section \<open>The stages before a turn is counted\<close>

lemma untouched_refl: "calm c s \<Longrightarrow> untouched c s s"
  by (simp add: untouched_def)

lemma untouched_msgs [simp]: "untouched c a (s\<lparr>rn_msgs := ms\<rparr>) = untouched c a s"
  by (simp add: untouched_def calm_def slack_def turns_used_def)

lemma untouched_end_with: "untouched c a s \<Longrightarrow> goes (ends_below c a) (\<lambda>s'. s' = s) (end_with e s)"
  by (simp add: goes_end_with split: option.split)

lemma safe_point_untouched:
  assumes "calm c s"
  shows "goes (ends_below c s) (untouched c s) (inject_at_safe_point c m s)"
proof -
  have "goes (ends_below c s) (untouched c s) (inject_spawned c (mo_spawned m) s)"
    unfolding inject_spawned_def
    by (rule goes_fold [where I = "untouched c s", OF untouched_refl [OF assms]])
      (auto simp: append_msg_def split: option.split)
  moreover have same: "s\<lparr>rn_inbox := (rn_inbox s)\<lparr>ib_pending := []\<rparr>\<rparr> = s" using assms by (simp add: calm_def)
  moreover have "take_inbox False (rn_inbox s) = ([], (rn_inbox s)\<lparr>ib_pending := []\<rparr>)" using assms by (simp add: take_inbox_def calm_def)
  ultimately show ?thesis by (simp only: inject_at_safe_point_def prod.case inject_submissions_def fold_go.simps and_go.simps)
    (auto elim!: goes_mono)
qed

lemma finish_quiet: "quiet_moment m \<Longrightarrow> calm c s \<Longrightarrow> ends_below c a (finish_run c m s)"
  by (simp add: finish_run_def resume_at_finish_def drain_inbox_def quiet_moment_def take_inbox_def calm_def)

lemma trip_over [simp]: "ends_below c a (trip_guardrail c' why s)"
  by (simp add: trip_guardrail_def split: sum.split)

lemma stopped_over: "ends_below c a (commit_stopped c' m p u s)"
  by (simp add: commit_stopped_def Let_def append_msg_def split: sum.split run_end.split option.split prod.split)

lemma limit_over: "ends_below c a (finish_at_limit c m e s)"
proof -
  have guard: "goes (ends_below c a) (\<lambda>r. True) (guard_output c m q s')" for q s'
    by (rule guard_output_goes) simp_all
  have "goes (ends_below c a) (\<lambda>r. True) (final_call c m s')" for s'
  proof -
    have "goes (ends_below c a) (\<lambda>r. True) (and_go (report_usage u s1) (\<lambda>s.
        case x of None \<Rightarrow> Inr (None, s) | Some q \<Rightarrow> and_go (guard_output c m q s) (\<lambda>(q, s). Inr (Some q, s))))" for u s1 x
      unfolding goes_and [where x = "report_usage u s1"]
      by (rule report_goes) (auto split: option.split intro: goes_mono [OF guard])
    then show ?thesis using stopped_over
      by (simp add: final_call_def Let_def stop_after_call_def del: goes_and split: model_answer.split)
  qed
  moreover have "ends_below c a (final_answer c e u ps s')" for u ps s'
    by (simp add: final_answer_def handle_truncation_def append_msg_def Let_def split: option.split)
  ultimately have "goes (ends_below c a) (\<lambda>r. ends_below c a (case r of (ps, s') \<Rightarrow> final_answer c e u ps s')) (final_call c m s')" for u s'
    by (simp add: goes_mono case_prod_unfold)
  then show ?thesis by (simp add: finish_at_limit_def ends_goes split: option.split)
qed

lemma limits_progress:
  assumes "quiet_moment m" "calm c s" "0 < lc_max_iter c"
  shows "goes (ends_below c s) (\<lambda>s'. s' = s \<and> int (turns_used s) < lc_max_iter c) (check_limits c m s)"
proof -
  have "below c s (s\<lparr>rn_wrapped := True, rn_msgs := ms\<rparr>)" if "\<not> rn_wrapped s" for ms
    using assms(2) that by (simp add: below_def calm_def run_measure_def slack_def turns_used_def)
  then show ?thesis using assms finish_quiet [OF assms(1,2)] limit_over [of c s m]
    by (simp add: check_limits_def Let_def append_msg_def split: option.split)
qed

lemma untouched_tools [simp]: "untouched c a (s\<lparr>rn_tools := r\<rparr>) = untouched c a s"
  by (simp add: untouched_def calm_def slack_def turns_used_def)

lemma untouched_unpressed: "calm c s \<Longrightarrow> untouched c s (unpressed (s\<lparr>rn_tools := r\<rparr>))" "calm c s \<Longrightarrow> untouched c s (unpressed s)"
  by (auto simp: untouched_def calm_def unpressed_def slack_def compactions_left_def turns_used_def)

lemma pressed_below:
  assumes "calm c s" "\<not> ov_compacted (rn_overflow s) \<or> ov_pressure (rn_overflow s) \<and> ov_rounds (rn_overflow s) < max_pressure_compactions"
    "0 < lc_max_input c"
  shows "below c s (s\<lparr>rn_tools := r, rn_msgs := ms, rn_overflow := (rn_overflow s)\<lparr>ov_last := 0, ov_compacted := True, ov_pressure := True,
    ov_size := n, ov_rounds := Suc (ov_rounds (rn_overflow s))\<rparr>\<rparr>)"
  using assms by (auto simp: below_def calm_def run_measure_def slack_def compactions_left_def turns_used_def
      max_pressure_compactions_def)

lemma compacted_below:
  assumes "calm c s" "\<not> ov_compacted (rn_overflow s)" "lc_max_input c \<le> 0"
  shows "below c s (s\<lparr>rn_tools := r, rn_msgs := ms, rn_overflow := (rn_overflow s)\<lparr>ov_last := 0, ov_compacted := True\<rparr>\<rparr>)"
  using assms by (auto simp: below_def calm_def run_measure_def slack_def compactions_left_def turns_used_def)

definition compacts :: "loop_config \<Rightarrow> run_state \<Rightarrow> bool \<times> run_state \<Rightarrow> bool" where
  "compacts c s r = (if fst r then below c s (snd r) else untouched c s (snd r))"

lemma compact_if_needed_progress:
  assumes "calm c s" "can_compact (rn_overflow s)"
  shows "goes (ends_below c s) (compacts c s) (compact_if_needed c m s)"
proof (cases "lc_max_input c \<le> 0")
  case True
  then have "\<not> ov_compacted (rn_overflow s)" using assms by (auto simp: can_compact_def calm_def)
  then have "goes (ends_below c s) (compacts c s)
      (run_compaction us k s)" for us k
    by (intro run_compaction_goes)
      (simp_all add: compacts_def untouched_refl [OF assms(1)] compacted_below [OF assms(1) _ True])
  then show ?thesis using True untouched_refl [OF assms(1)] by (simp add: compacts_def compact_if_needed_def Let_def)
next
  case False
  have "goes (ends_below c s) (compacts c s)
     (and_go (run_compaction us k s) (\<lambda>(ok, s').
        if ok then Inr (True, s'\<lparr>rn_overflow := (rn_overflow s')\<lparr>ov_pressure := True, ov_size := n,
             ov_rounds := Suc (ov_rounds (rn_overflow s))\<rparr>\<rparr>)
        else Inr (False, unpressed s')))"
    if "\<not> (ov_pressure (rn_overflow s) \<and> (b \<or> max_pressure_compactions \<le> ov_rounds (rn_overflow s)))" for us k n b
  proof -
    have room: "\<not> ov_compacted (rn_overflow s) \<or> ov_pressure (rn_overflow s) \<and> ov_rounds (rn_overflow s) < max_pressure_compactions"
      using assms(2) that by (auto simp: can_compact_def)
    show ?thesis unfolding goes_and
      by (intro run_compaction_goes)
        (use pressed_below [OF assms(1) room] untouched_unpressed [OF assms(1)] False in \<open>simp_all add: compacts_def\<close>)
  qed
  note go = this [of "ov_size (rn_overflow s) \<le> max (ov_last (rn_overflow s)) (mo_size m)" "mo_summaries m" "mo_compaction m"
      "max (ov_last (rn_overflow s)) (mo_size m)"]
  have "compacts c s (False, unpressed s)" "\<not> (ov_compacted (rn_overflow s) \<and> \<not> ov_pressure (rn_overflow s))"
    using untouched_unpressed [OF assms(1)] assms(2) by (auto simp: compacts_def can_compact_def)
  then show ?thesis using False go
    unfolding compact_if_needed_def Let_def goes_if goes_simps by argo
qed

lemma compact_branch_progress:
  assumes "calm c s"
  shows "goes (ends_below c s) (untouched c s) (compact_branch c m s)"
proof (cases "can_compact (rn_overflow s)")
  case True
  have "goes (ends_below c s) (\<lambda>a. goes (ends_below c s) (untouched c s)
      (case a of (compacted, s') \<Rightarrow> if compacted then Inl (Again s') else Inr s')) (compact_if_needed c m s)"
    by (rule goes_mono [OF compact_if_needed_progress [OF assms True]]) (auto simp: compacts_def split: if_splits)
  then show ?thesis by (simp add: compact_branch_def case_prod_unfold True)
qed (use untouched_refl [OF assms] in \<open>simp add: compact_branch_def\<close>)

lemma recover_progress:
  assumes "calm c s"
  shows "ends_below c s (recover_overflow c m e cl s)"
proof -
  define s1 where "s1 = (\<lambda>first. s\<lparr>rn_overflow := (rn_overflow s)\<lparr>ov_original := first, ov_retries := Suc (ov_retries (rn_overflow s))\<rparr>\<rparr>)"
  have "below c s ((s1 first)\<lparr>rn_tools := r, rn_msgs := ms, rn_overflow := (rn_overflow (s1 first))\<lparr>ov_last := 0, ov_compacted := True\<rparr>\<rparr>)"
    if "ov_retries (rn_overflow s) < max_overflow_retries" for first ms r
    using assms that by (auto simp: s1_def below_def calm_def run_measure_def slack_def compactions_left_def turns_used_def
      max_pressure_compactions_def)
  then have "goes (ends_below c s) (\<lambda>(ok, s'). ends_below c s (if ok then Again s' else Over s' x)) (run_compaction us k (s1 first))"
    if "ov_retries (rn_overflow s) < max_overflow_retries" for us k first x
    using that by (intro run_compaction_goes) simp_all
  then show ?thesis
    by (simp add: recover_overflow_def Let_def ends_goes s1_def case_prod_unfold)
qed

section \<open>An iteration makes progress\<close>

lemma quiet_late: "quiet_moment m \<Longrightarrow> arrive (mo_late m) s = s" "quiet_moment m \<Longrightarrow> arrive (mo_early m) s = s"
  by (simp_all add: quiet_moment_def arrive_def)

lemma call_progress:
  assumes "quiet_moment m" "calm c s" "int (turns_used s) < lc_max_iter c"
  shows "goes (ends_below c s) (\<lambda>(ps, s'). ends_below c s (take_answer c m ps s'))
    (and_go (call_model c m s) (\<lambda>(ps, s'). schema_turn c m ps s'))"
proof -
  have counted: "goes (ends_below c s) (\<lambda>(ps, s'). ends_below c s (take_answer c m ps s'))
      (and_go x (\<lambda>(ps, s'). schema_turn c m ps s'))"
    if a: "rn_iter a = Suc (rn_iter s)" "rn_turn_start a = rn_turn_start s" "ov_pressure (rn_overflow a) \<longrightarrow> 0 < lc_max_input c"
      and x: "goes (ends_steady a) (\<lambda>(ps, s'). steady a s') x" for a x
  proof -
    have "goes (ends_steady a) (\<lambda>(ps, s'). ends_steady a (take_answer c m ps s')) (schema_turn c m ps s')" if "steady a s'" for ps s'
      by (rule goes_mono [OF steady_schema [OF assms(1) that]]) (auto intro: steady_take [OF assms(1)])
    then have "goes (ends_steady a) (\<lambda>(ps, s'). ends_steady a (take_answer c m ps s'))
        (and_go x (\<lambda>(ps, s'). schema_turn c m ps s'))"
      unfolding goes_and by (intro goes_mono [OF x]) auto
    then show ?thesis using counted_ends_below [OF assms(2,3) a]
      by (auto simp: goes_def simp del: goes_and split: sum.splits prod.splits)
  qed
  define s1 where "s1 = (\<lambda>r. s\<lparr>rn_tools := r\<rparr>)"
  define s2 where "s2 = (\<lambda>r. (s1 r)\<lparr>rn_overflow := turn_succeeded (cu_delta (mo_usage m)) (rn_overflow (s1 r))\<rparr>)"
  have refl: "steady (count_turn (s1 r)) (count_turn (s1 r))" "steady (count_turn (s2 r)) (count_turn (s2 r))" for r
    using assms(2) by (simp_all add: s1_def s2_def steady_def calm_def count_turn_def)
  note c1 = counted [of "count_turn (s1 r)" for r] and c2 = counted [of "count_turn (s2 r)" for r]
  have p1: "rn_iter (count_turn (s1 r)) = Suc (rn_iter s)" "rn_turn_start (count_turn (s1 r)) = rn_turn_start s"
    "ov_pressure (rn_overflow (count_turn (s1 r))) \<longrightarrow> 0 < lc_max_input c"
    "rn_iter (count_turn (s2 r)) = Suc (rn_iter s)" "rn_turn_start (count_turn (s2 r)) = rn_turn_start s"
    "ov_pressure (rn_overflow (count_turn (s2 r))) \<longrightarrow> 0 < lc_max_input c" for r
    using assms(2) by (simp_all add: s1_def s2_def calm_def count_turn_def turn_succeeded_def)
  have interrupted: "goes (ends_steady (count_turn (s1 r))) (\<lambda>(ps, s'). steady (count_turn (s1 r)) s')
      (and_go (report_usage u (count_turn (s1 r))) (\<lambda>s. Inl (commit_interrupted c ps s)))" for u ps r
    unfolding goes_and goes_simps
    by (rule goes_mono [OF steady_report [OF refl(1)]]) (rule steady_interrupted)
  have replayed: "goes (ends_steady (count_turn (s1 r))) (\<lambda>(ps, s'). steady (count_turn (s1 r)) s')
      (Inl (commit_interrupted c ps (count_turn (s1 r))))" for ps r
    using steady_interrupted [OF refl(1)] by simp
  have failed: "ends_below c s (recover_overflow c m e cl (s1 r))" for e cl r
    by (rule ends_untouched [OF _ recover_progress]) (use assms(2) in \<open>simp_all add: s1_def untouched_def calm_def slack_def turns_used_def\<close>)
  define call where "call = (\<lambda>r. case mo_answer m of
        InterruptedCall ps \<Rightarrow> and_go (report_usage (mo_usage m) (count_turn (s1 r))) (\<lambda>s. Inl (commit_interrupted c ps s))
      | InterruptedReplay ps \<Rightarrow> Inl (commit_interrupted c (Some ps) (count_turn (s1 r)))
      | ModelFails e context_length \<Rightarrow> Inl (recover_overflow c m e context_length (s1 r))
      | Answered ps \<Rightarrow> settle_answer c m (mo_usage m) ps (count_turn (s2 r)))"
  have call: "goes (ends_below c s) (\<lambda>(ps, s'). ends_below c s (take_answer c m ps s'))
      (and_go (call r) (\<lambda>(ps, s'). schema_turn c m ps s'))" for r
    unfolding call_def
    using c1 [OF p1(1-3) interrupted] c1 [OF p1(1-3) replayed] c2 [OF p1(4-6) steady_settle [OF assms(1) refl(2)]] failed
    by (simp del: goes_and split: model_answer.split)
  define go where "go = (\<lambda>s. and_go (if mo_stop_call m \<and> mo_stop m \<noteq> None
      then stop_after_call c m (mo_answer m) (mo_usage m) (count_turn s) else Inr s) (\<lambda>s.
      case mo_answer m of
        InterruptedCall ps \<Rightarrow> and_go (report_usage (mo_usage m) (count_turn s)) (\<lambda>s. Inl (commit_interrupted c ps s))
      | InterruptedReplay ps \<Rightarrow> Inl (commit_interrupted c (Some ps) (count_turn s))
      | ModelFails e context_length \<Rightarrow> Inl (recover_overflow c m e context_length s)
      | Answered ps \<Rightarrow> settle_answer c m (mo_usage m) ps
          (count_turn (s\<lparr>rn_overflow := turn_succeeded (cu_delta (mo_usage m)) (rn_overflow s)\<rparr>))))"
  have "goes (ends_below c s) (\<lambda>(ps, s'). ends_below c s (take_answer c m ps s'))
      (and_go (go (s1 r)) (\<lambda>(ps, s'). schema_turn c m ps s'))" for r
  proof (cases "mo_stop_call m \<and> mo_stop m \<noteq> None")
    case True
    then show ?thesis by (simp add: go_def stop_after_call_def stopped_over)
  next
    case False
    then have "go (s1 r) = call r" by (auto simp: go_def call_def s2_def split: model_answer.split)
    then show ?thesis using call by simp
  qed
  then have "goes (ends_below c s) (\<lambda>s'. goes (ends_below c s) (\<lambda>(ps, s'). ends_below c s (take_answer c m ps s'))
      (and_go (go s') (\<lambda>(ps, s'). schema_turn c m ps s'))) (finish_parallel_guard c m s)"
    by (intro parallel_guard_goes) (simp_all add: s1_def del: goes_and)
  then have "goes (ends_below c s) (\<lambda>s'. goes (ends_below c s) (\<lambda>a. goes (ends_below c s) (\<lambda>(ps, s'). ends_below c s (take_answer c m ps s'))
      (case a of (ps, s') \<Rightarrow> schema_turn c m ps s')) (go s')) (finish_parallel_guard c m s)"
    by simp
  then show ?thesis unfolding call_model_def Let_def goes_and go_def .
qed

lemma goes_seq: "goes E P x \<Longrightarrow> (\<And>a. P a \<Longrightarrow> goes E Q (f a)) \<Longrightarrow> goes E Q (and_go x f)"
  by (auto intro: goes_mono)

lemma goes_ends: "goes E P x \<Longrightarrow> (\<And>e. E e \<Longrightarrow> E' e) \<Longrightarrow> goes E' P x"
  by (cases x) simp_all

lemma iteration_progress:
  assumes "quiet_moment m" "calm c s" "0 < lc_max_iter c"
  shows "ends_below c s (iteration c m s)"
proof -
  define call where "call = (\<lambda>s'. and_go (call_model c m (arrive (mo_late m) s')) (\<lambda>(ps, s'). schema_turn c m ps s'))"
  have call: "goes (ends_below c s) (\<lambda>(ps, s'). ends_below c s (take_answer c m ps s')) (call s')"
    if "untouched c s s'" "int (turns_used s') < lc_max_iter c" for s'
  proof -
    have "calm c s'" using that(1) by (simp add: untouched_def)
    from call_progress [OF assms(1) this that(2)] show ?thesis
      using ends_untouched [OF that(1)] by (auto simp: call_def quiet_late [OF assms(1)] goes_def simp del: goes_and split: sum.splits)
  qed
  define rest where "rest = (\<lambda>s. and_go (end_with (budget_stop s) s) (\<lambda>s. and_go (end_with (mo_request m) s) call))"
  have rest: "goes (ends_below c s) (\<lambda>(ps, s'). ends_below c s (take_answer c m ps s')) (rest s')"
    if "untouched c s s'" "int (turns_used s') < lc_max_iter c" for s'
    using call [OF that] by (simp add: rest_def goes_end_with split: option.split)
  have branch: "goes (ends_below c s) (\<lambda>(ps, s'). ends_below c s (take_answer c m ps s')) (and_go (compact_branch c m s') rest)"
    if u: "untouched c s s'" and "int (turns_used s') < lc_max_iter c" for s'
  proof -
    have "calm c s'" using u by (simp add: untouched_def)
    moreover have "untouched c s s2 \<and> int (turns_used s2) < lc_max_iter c" if "untouched c s' s2" for s2
      using u that \<open>int (turns_used s') < _\<close> by (simp add: untouched_def)
    ultimately show ?thesis
      by (intro goes_seq [OF goes_ends [OF compact_branch_progress ends_untouched [OF u]]] rest) blast+
  qed
  have limits: "goes (ends_below c s) (\<lambda>(ps, s'). ends_below c s (take_answer c m ps s'))
      (and_go (check_limits c m s') (\<lambda>s. and_go (compact_branch c m s) rest))" if u: "untouched c s s'" for s'
  proof -
    have "calm c s'" using u by (simp add: untouched_def)
    then show ?thesis
      by (intro goes_seq [OF goes_ends [OF limits_progress [OF assms(1) _ assms(3)] ends_untouched [OF u]]])
        (use branch [OF u] in blast)+
  qed
  have "goes (ends_below c s) (\<lambda>(ps, s'). ends_below c s (take_answer c m ps s'))
    (and_go (inject_at_safe_point c m s) (\<lambda>s.
     and_go (end_with (mo_setup m) s) (\<lambda>s.
     and_go (case mo_panic m BeforeCall of Some v \<Rightarrow> Inl (Over s (Some (RunPanicked v))) | None \<Rightarrow> Inr s) (\<lambda>s.
     and_go (check_limits c m s) (\<lambda>s. and_go (compact_branch c m s) rest)))))"
    unfolding goes_and [where x = "inject_at_safe_point c m s"]
    by (rule goes_mono [OF safe_point_untouched [OF assms(2)]])
      (cases "mo_setup m"; cases "mo_panic m BeforeCall"; auto simp: end_with_def limits simp del: goes_and)
  then show ?thesis unfolding rest_def call_def
    by (simp add: iteration_def Let_def quiet_late [OF assms(1)] ends_goes case_prod_unfold del: goes_and)
qed

text \<open>A run of quiet moments ends within as many iterations as its measure.\<close>

lemma quiet_run_ends:
  assumes "0 < lc_max_iter c" "\<And>m. m \<in> set ms \<Longrightarrow> quiet_moment m" "calm c s" "run_measure c s < length ms"
  shows "\<exists>s' e. run_loop c ms s = RunEnded s' e"
  using assms(2-4)
proof (induction ms arbitrary: s)
  case (Cons m ms)
  have it: "ends_below c s (iteration c m s)" using Cons.prems assms(1) by (intro iteration_progress) simp_all
  show ?case
  proof (cases "iteration c m s")
    case (Again s')
    then show ?thesis using it Cons.IH [of s'] Cons.prems by (simp add: below_def)
  next
    case (Over s' e)
    then show ?thesis by (cases "close_run c m e s'") simp
  qed
qed simp

end
