(* ===== verification/Run_Properties.thy ===== *)
theory Run_Properties
  imports Run_Ends
begin

text \<open>
  Properties of the run loop: valid transcripts, limits, termination, the loop guards, the delivery of submitted
  messages and the record of a stop.
\<close>

section \<open>A whole run\<close>

fun state_of :: "run_result \<Rightarrow> run_state" where
  "state_of (RunOpen s) = s"
| "state_of (RunEnded s e) = s"

lemma new_run_ok: "transcript_ok ms \<Longrightarrow> run_ok c (new_run ms r)"
  by (simp add: new_run_def run_ok_def limits_ok_def tallies_ok_def turns_used_def overflow_ok_def no_overflow_def
      max_output_repairs_def max_overflow_retries_def max_pressure_compactions_def)

lemma start_run_ok:
  assumes "writes_succeed c" "transcript_ok ms" "start_run c m input ms r = Inr s"
  shows "run_ok c s"
  using inject_submissions_ok [OF assms(1) new_run_ok [OF assms(2)], of m input r] assms(3) by (simp add: start_run_def)

lemma run_ends_ok:
  assumes "writes_succeed c" "\<forall>m \<in> set moments. moment_ok m" "transcript_ok ms" "start_run c m input ms r = Inr s0"
  shows "limits_ok c (state_of (run_loop c moments s0)) \<and>
    (\<forall>s e. run_loop c moments s0 = RunEnded s e \<longrightarrow> transcript_ok (rn_msgs s) \<or> e = Some RunSuspended)"
  using run_loop_ok [OF assms(1) _ start_run_ok [OF assms(1,3,4)], of moments] assms(2)
  by (auto simp: run_ok_def split: run_result.splits)


text \<open>
  C24: At any point of a run the turns of its user turn stay within the step limit, and handoffs, automatic
  continuations, output repairs, overflow retries and repeated compactions within theirs.
\<close>

theorem run_within_limits:
  assumes "writes_succeed c" "\<forall>m \<in> set moments. moment_ok m" "transcript_ok ms" "start_run c m input ms r = Inr s0"
    "s = state_of (run_loop c moments s0)" "0 < lc_max_iter c"
  shows "int (turns_used s) \<le> lc_max_iter c \<and> int (rn_handoffs s) \<le> max 0 (lc_max_handoffs c) \<and>
    int (rn_continues s) \<le> max 0 (lc_auto_continue c) \<and> rn_repairs s \<le> 2 \<and>
    ov_retries (rn_overflow s) \<le> 3 \<and> ov_rounds (rn_overflow s) \<le> 5"
  using run_ends_ok [OF assms(1-4)] assms(5,6)
  by (simp add: limits_ok_def tallies_ok_def overflow_ok_def max_output_repairs_def max_overflow_retries_def
      max_pressure_compactions_def)

lemma start_run_calm:
  assumes "start_run c m input ms r = Inr s"
  shows "calm c s \<and> turns_used s = 0"
proof -
  have start: "calm c (new_run ms r) \<and> turns_used (new_run ms r) = 0"
    by (simp add: new_run_def calm_def turns_used_def no_overflow_def)
  have one: "goes (\<lambda>e. True) (\<lambda>s. calm c s \<and> turns_used s = 0) (inject_one c m sub s)" if "calm c s \<and> turns_used s = 0" for sub s
  proof -
    have "goes (\<lambda>e. True) (\<lambda>(t, s). goes (\<lambda>e. True) (\<lambda>s. calm c s \<and> turns_used s = 0)
        (append_msg c (RunUser i (case t of None \<Rightarrow> u | Some v \<Rightarrow> v)) s)) (guard_words c g s)" for g i u
      by (rule guard_words_goes) (use that in \<open>auto simp: append_msg_def calm_def turns_used_def split: option.split\<close>)
    then show ?thesis by (simp add: inject_one_def admit_user_def case_prod_unfold)
  qed
  have "goes (\<lambda>e. True) (\<lambda>s. calm c s \<and> turns_used s = 0) (inject_submissions c m input (new_run ms r))"
    unfolding inject_submissions_def
    by (rule goes_fold [where I = "\<lambda>s. calm c s \<and> turns_used s = 0", OF start]) (rule one)
  then show ?thesis using assms by (simp add: start_run_def)
qed

text \<open>
  C23: A run with a step limit ends when nobody submits a message and no background child is awaited, whatever
  models, tools, policies and compactions do: a bounded number of iterations, eleven for each turn, is enough.
\<close>

theorem undisturbed_run_ends:
  assumes "0 < lc_max_iter c" "\<forall>m \<in> set moments. quiet_moment m" "start_run c m input ms r = Inr s0"
    "11 * nat (lc_max_iter c) + 10 < length moments"
  shows "\<exists>s e. run_loop c moments s0 = RunEnded s e"
proof (rule quiet_run_ends [OF assms(1)])
  show "calm c s0" using start_run_calm [OF assms(3)] by simp
  show "run_measure c s0 < length moments"
    using start_run_calm [OF assms(3)] slack_bound [of s0] assms(4) by (simp add: run_measure_def)
qed (use assms(2) in blast)

section \<open>Loop guards\<close>

text \<open>The guards after the turns of a user turn: calls and their results.\<close>

definition guard_turn :: "int \<Rightarrow> int \<Rightarrow> loop_guards \<Rightarrow> tool_call list \<times> tool_result list \<Rightarrow> loop_guards" where
  "guard_turn l e g t = record_results e (snd t) (snd (repeated l (fst t) g))"

definition same_calls :: "tool_call list \<Rightarrow> tool_call list \<times> tool_result list \<Rightarrow> bool" where
  "same_calls calls t = (call_signature (fst t) = call_signature calls)"

lemma record_results_repeats [simp]: "lg_repeats (record_results e rs g) = lg_repeats g" "lg_last (record_results e rs g) = lg_last g"
  by (simp_all add: record_results_def Let_def)

lemma repeated_fields [simp]:
  "lg_last (snd (repeated l calls g)) = call_signature calls"
  "lg_repeats (snd (repeated l calls g)) = (if call_signature calls = lg_last g then Suc (lg_repeats g) else 1)"
  "lg_failed (snd (repeated l calls g)) = lg_failed g"
  by (simp_all add: repeated_def count_repeat_def Let_def)

lemma guard_turn_fields [simp]:
  "lg_last (guard_turn l e g t) = call_signature (fst t)"
  "lg_repeats (guard_turn l e g t) = (if call_signature (fst t) = lg_last g then Suc (lg_repeats g) else 1)"
  by (simp_all add: guard_turn_def)

lemma repeats_length:
  "(if call_signature calls = lg_last (foldl (guard_turn l e) no_guards ts)
    then lg_repeats (foldl (guard_turn l e) no_guards ts) else 0) = length (takeWhile (same_calls calls) (rev ts))"
proof (induction ts arbitrary: calls rule: rev_induct)
  case (snoc t ts)
  show ?case using snoc [of "fst t"] by (auto simp: same_calls_def)
qed (simp add: no_guards_def)

text \<open>
  The repeat guard trips on a turn exactly when it and the unbroken stretch of turns before it with the same
  calls, names and arguments, are more than the limit; another turn in between starts the count again.
\<close>

theorem repeats_counted:
  "fst (repeated l calls (foldl (guard_turn l e) no_guards ts)) =
     (0 < l \<and> l < 1 + int (length (takeWhile (same_calls calls) (rev ts))))"
proof -
  let ?g = "foldl (guard_turn l e) no_guards ts"
  have "lg_repeats (count_repeat calls ?g) = Suc (if call_signature calls = lg_last ?g then lg_repeats ?g else 0)"
    by (simp add: count_repeat_def)
  then show ?thesis unfolding repeats_length [of calls l e ts] by (simp add: repeated_def Let_def)
qed

definition all_refused :: "tool_result list \<Rightarrow> bool" where
  "all_refused rs = (\<forall>r \<in> set rs. tr_refused r)"

definition all_failed :: "tool_result list \<Rightarrow> bool" where
  "all_failed rs = (\<forall>r \<in> set rs. tr_refused r \<or> tr_err r \<noteq> [])"

lemma refused_count: "(length (filter tr_refused rs) = length rs) = all_refused rs"
  using length_filter_less [of _ rs tr_refused] by (fastforce simp: all_refused_def filter_id_conv)

lemma failed_count:
  "length (filter (\<lambda>r. \<not> tr_refused r \<and> tr_err r \<noteq> []) rs) + length (filter tr_refused rs) \<le> length rs \<and>
   (length (filter (\<lambda>r. \<not> tr_refused r \<and> tr_err r \<noteq> []) rs) + length (filter tr_refused rs) = length rs) = all_failed rs"
  by (induction rs) (auto simp: all_failed_def)

lemma record_failed:
  "lg_failed (record_results e rs g) = (if all_refused rs then lg_failed g else if all_failed rs then Suc (lg_failed g) else 0)"
  using failed_count [of rs] by (auto simp: record_results_def Let_def refused_count)

lemma record_tripped:
  "\<not> all_refused rs \<Longrightarrow> all_failed rs \<Longrightarrow> 0 < limit \<Longrightarrow> limit = (if e = 0 then 2 else e) \<Longrightarrow> limit \<le> int (Suc (lg_failed g)) \<Longrightarrow>
   lg_tripped (record_results e rs g) = Some (RunToolErrors (Suc (lg_failed g)))"
  using failed_count [of rs] by (auto simp: record_results_def Let_def refused_count)

lemma failed_length:
  "lg_failed (foldl (guard_turn l e) no_guards ts) =
     length (takeWhile (\<lambda>t. all_failed (snd t)) (filter (\<lambda>t. \<not> all_refused (snd t)) (rev ts)))"
  by (induction ts rule: rev_induct) (auto simp: no_guards_def guard_turn_def record_failed)

text \<open>
  The error guard trips when the unbroken stretch of turns whose calls all failed reaches its limit. A turn whose
  calls were all refused by a person or a gate is not counted and does not break the stretch.
\<close>

theorem failures_counted:
  assumes "\<not> all_refused rs" "all_failed rs" "limit = (if e = 0 then 2 else e)" "0 < limit"
    "n = length (takeWhile (\<lambda>t. all_failed (snd t)) (filter (\<lambda>t. \<not> all_refused (snd t)) (rev (ts @ [(calls, rs)]))))"
    "limit \<le> int n"
  shows "lg_tripped (foldl (guard_turn l e) no_guards (ts @ [(calls, rs)])) = Some (RunToolErrors n)"
proof -
  let ?g = "foldl (guard_turn l e) no_guards ts"
  have n: "n = Suc (lg_failed ?g)" using assms(1,2) by (simp add: assms(5) failed_length)
  then show ?thesis
    using record_tripped [OF assms(1,2,4,3), of "snd (repeated l calls ?g)"] assms(6) by (simp add: guard_turn_def)
qed

section \<open>Submitted messages\<close>





section \<open>A run that ends by itself\<close>

text \<open>
  A clean end of the loop of a run that forces no final answer: its inbox is empty and closed, or a tool of the run
  ended it.
\<close>

definition clean_end :: "run_end \<Rightarrow> bool" where
  "clean_end e = (case e of
       Over s None \<Rightarrow> rn_inbox s = \<lparr>ib_pending = [], ib_closed = True\<rparr> \<or> rn_stop_call s \<noteq> []
     | _ \<Rightarrow> True)"

lemma clean_end_simps [simp]: "clean_end (Again s)" "clean_end (Over s (Some e))"
  "clean_end (Over s None) = (rn_inbox s = \<lparr>ib_pending = [], ib_closed = True\<rparr> \<or> rn_stop_call s \<noteq> [])"
  by (simp_all add: clean_end_def)

abbreviation ends_clean :: "'a run_step \<Rightarrow> bool" where
  "ends_clean x \<equiv> goes clean_end (\<lambda>_. True) x"

lemma clean_seq: "ends_clean x \<Longrightarrow> (\<And>a. ends_clean (f a)) \<Longrightarrow> ends_clean (and_go x f)"
  by (auto intro: goes_mono)

lemma clean_case: "ends_clean x \<Longrightarrow> (\<And>a. clean_end (f a)) \<Longrightarrow> clean_end (case x of Inl e \<Rightarrow> e | Inr a \<Rightarrow> f a)"
  by (cases x) simp_all

lemma clean_append: "ends_clean (append_msg c msg s)"
  by (simp add: append_msg_def split: option.split)

lemma clean_end_with: "ends_clean (end_with e s)"
  by (simp add: end_with_def split: option.split)

lemma clean_trip [simp]: "clean_end (trip_guardrail c why s)"
  by (simp add: trip_guardrail_def split: sum.split)

lemma clean_words: "ends_clean (guard_words c g s)"
  by (rule guard_words_goes) simp_all

lemma clean_guard: "ends_clean (guard_output c m ps s)"
  by (rule guard_output_goes) simp_all

lemma clean_fold: "(\<And>x s. ends_clean (f x s)) \<Longrightarrow> ends_clean (fold_go f xs s)"
  by (induction xs arbitrary: s) (simp_all add: clean_seq del: goes_and)

lemma clean_inject: "ends_clean (inject_submissions c m subs s)" "ends_clean (inject_spawned c rs s)"
  by (auto simp: inject_submissions_def inject_spawned_def inject_one_def admit_user_def simp del: goes_and
      intro!: clean_fold clean_seq clean_words clean_append)

lemma clean_report: "ends_clean (report_usage u s)"
  by (rule report_goes) simp_all

lemma clean_finish: "clean_end (finish_run c m s)"
proof -
  define drained where "drained = (\<lambda>(resumed, s :: run_state). resumed \<or> rn_inbox s = \<lparr>ib_pending = [], ib_closed = True\<rparr>)"
  have drain: "goes clean_end drained (drain_inbox c m s)" for s
    using clean_inject by (auto simp: drain_inbox_def take_inbox_def drained_def)
  have "goes clean_end drained (await_children c m ws s)" for ws
  proof (induction ws arbitrary: s)
    case (Cons w ws)
    have "ends_clean (await_spawned c m w s)"
      by (auto simp: await_spawned_def simp del: goes_and intro!: clean_seq clean_inject split: sum.split prod.split)
    then show ?case unfolding await_children.simps goes_and
      by (rule goes_mono) (use Cons.IH in \<open>auto simp: drained_def\<close>)
  qed (simp add: drain)
  then have "goes clean_end drained (resume_at_finish c m s)" by (simp add: resume_at_finish_def)
  then show ?thesis by (cases "resume_at_finish c m s") (auto simp: finish_run_def drained_def)
qed

lemma clean_truncation: "ends_clean (handle_truncation c ps s)"
  by (simp add: handle_truncation_def Let_def clean_append clean_seq del: goes_and)

lemma clean_after: "clean_end (after_truncation c m e s)"
proof -
  have "ends_clean (append_continuation c s)" for s by (simp add: append_continuation_def clean_append)
  then show ?thesis using clean_finish by (auto simp: after_truncation_def intro!: clean_case)
qed

lemma clean_settle: "ends_clean (settle_answer c m u ps s)"
proof -
  have "ends_clean (guard_truncated c m u ps s)" for s
    by (auto simp: guard_truncated_def simp del: goes_and intro!: clean_seq clean_guard split: option.split)
  then show ?thesis
    by (auto simp: settle_answer_def simp del: goes_and intro!: clean_seq clean_report clean_truncation clean_after)
qed

lemma clean_stop: "ends_clean (stop_after_call c m x u s)"
proof -
  have "clean_end (commit_stopped c m p u s)" for p
    by (simp add: commit_stopped_def Let_def append_msg_def split: sum.split run_end.split option.split prod.split)
  then show ?thesis by (simp add: stop_after_call_def)
qed

lemma clean_limits: "\<not> lc_force_final c \<Longrightarrow> ends_clean (check_limits c m s)"
  by (auto simp: check_limits_def Let_def finish_at_limit_def clean_finish simp del: goes_and
      intro!: clean_seq clean_append split: option.split)

lemma clean_compaction: "ends_clean (run_compaction us k s)"
  by (rule run_compaction_goes) simp_all

lemma clean_branch: "ends_clean (compact_branch c m s)"
proof -
  have "ends_clean (compact_if_needed c m s)"
    by (auto simp: compact_if_needed_def Let_def clean_compaction simp del: goes_and intro!: clean_seq)
  then show ?thesis by (auto simp: compact_branch_def simp del: goes_and intro!: clean_seq)
qed

lemma clean_recover: "clean_end (recover_overflow c m e cl s)"
  by (auto simp: recover_overflow_def Let_def intro!: clean_case clean_compaction)

lemma clean_call: "ends_clean (call_model c m s)"
proof -
  have "clean_end (commit_interrupted c ps s)" for ps s
    by (auto simp: commit_interrupted_def Let_def intro!: clean_case clean_append)
  moreover have "ends_clean (finish_parallel_guard c m s)"
    by (rule parallel_guard_goes) simp_all
  ultimately show ?thesis
    by (auto simp: call_model_def Let_def clean_recover simp del: goes_and
        intro!: clean_seq clean_stop clean_report clean_settle split: model_answer.split)
qed

lemma clean_schema: "ends_clean (schema_turn c m ps s)"
  by (auto simp: schema_turn_def Let_def simp del: goes_and intro!: clean_seq clean_stop clean_settle
      split: option.split model_answer.split)

lemma clean_tools: "clean_end (use_tools c m calls s)"
proof -
  have persist: "ends_clean (persist_results c rs s)" for rs s by (simp add: persist_results_def clean_append)
  have hand: "ends_clean (apply_handoff c m rs s)" for rs s
    by (simp add: apply_handoff_def clean_append split: list.split)
  have skip: "clean_end (skip_repeated c m calls s)" for s
    by (auto simp: skip_repeated_def intro!: clean_case persist split: prod.split)
  have "ends_clean (and_go (persist_results c rs s) (\<lambda>s. and_go (end_with (mo_turn_hook m) s) (\<lambda>s.
      let stop = stop_tool_call c calls rs in
      if stop \<noteq> [] then Inl (Over (s\<lparr>rn_stop_call := stop\<rparr>) None)
      else and_go (end_with (mo_outcome m) s) (\<lambda>s.
        apply_handoff c m rs (s\<lparr>rn_guards := record_results (lc_max_errors c) rs (rn_guards s)\<rparr>)))))" for rs s
    by (auto simp: Let_def simp del: goes_and intro!: clean_seq persist clean_end_with hand)
  then have "clean_end (run_tools c m calls s)" for s
    using persist by (auto simp: run_tools_def Let_def simp del: goes_and intro!: clean_case split: prod.split option.split)
      (auto split: sum.split)
  with skip show ?thesis by (simp add: use_tools_def Let_def split: prod.split option.split)
qed

lemma clean_take: "clean_end (take_answer c m ps s)"
proof -
  have "clean_end (text_answer c m q s)" for q s
    by (auto simp: text_answer_def clean_finish intro!: clean_case clean_append clean_end_with split: option.split)
  then show ?thesis
    by (auto simp: take_answer_def clean_finish clean_tools simp del: goes_and
        intro!: clean_case clean_seq clean_append clean_guard split: option.split)
qed

lemma iteration_clean:
  assumes "\<not> lc_force_final c"
  shows "clean_end (iteration c m s)"
proof -
  have "ends_clean (inject_at_safe_point c m s)" for s
    by (auto simp: inject_at_safe_point_def simp del: goes_and intro!: clean_seq clean_inject split: prod.split)
  then show ?thesis
    by (auto simp: iteration_def Let_def clean_take simp del: goes_and
        intro!: clean_case clean_seq clean_end_with clean_limits [OF assms] clean_branch clean_call clean_schema split: option.split)
qed

text \<open>
  C25: When a run that forces no final answer ends without an error, and not at a stop request or a tool that ends the
  run, its inbox is empty and closed: no message it accepted is still waiting, and a later one is refused.
\<close>

theorem finished_run_took_all:
  assumes "run_loop c moments s0 = RunEnded s None" "\<forall>m \<in> set moments. mo_stop m = None" "\<not> lc_force_final c" "rn_stop_call s = []"
  shows "ib_pending (rn_inbox s) = [] \<and> submit (rn_inbox s) sub = rn_inbox s"
  using assms
proof (induction c moments s0 rule: run_loop.induct)
  case (2 c m ms s0)
  show ?case
  proof (cases "iteration c m s0")
    case (Again s')
    then show ?thesis using 2 by simp
  next
    case (Over s' e)
    then have "s' = s" "e = None" using 2(2,3) by (auto simp: close_run_def Let_def split: option.splits prod.splits if_splits)
    then show ?thesis using iteration_clean [of c m s0] Over 2(4,5) by (auto simp: submit_def)
  qed
qed simp

section \<open>Stopped runs\<close>


section \<open>Divergences\<close>

text \<open>
  The safe point takes all its messages from the inbox before it admits the first, so the messages behind one whose
  guardrail fails are on neither the branch nor the list of undelivered messages.
\<close>

theorem failed_admission_loses_messages:
  assumes "take_inbox False (rn_inbox s) = (sub # subs, b)" "mo_admit m (sb_text sub) = ([], VerdictFails e)"
  shows "inject_at_safe_point c m s = Inl (Over (s\<lparr>rn_inbox := b\<rparr>) (Some (RunFailed e)))"
  using assms by (simp add: inject_at_safe_point_def inject_submissions_def inject_one_def admit_user_def guard_words_def charge_calls_def)

text \<open>An interrupting message starts a new user turn, but the repairs of the old one stay counted.\<close>

theorem repairs_survive_interrupt:
  assumes "writes_succeed c" "rn_inbox s = \<lparr>ib_pending = [\<lparr>sb_id = i, sb_mode = SubmitInterrupt, sb_text = t\<rparr>], ib_closed = False\<rparr>"
    "mo_admit m t = ([], VerdictPass)" "mo_spawned m = []"
  shows "\<exists>s'. inject_at_safe_point c m s = Inr s' \<and> turns_used s' = 0 \<and> rn_repairs s' = rn_repairs s"
  using assms
  by (simp add: inject_at_safe_point_def take_inbox_def inject_submissions_def inject_one_def admit_user_def guard_words_def charge_calls_def
      inject_spawned_def append_msg_writes [OF assms(1)] restart_turn_def turns_used_def)

text \<open>
  A forced final answer that the output limit cut off before any text ends the run cleanly with nothing recorded, not
  with the error of the step limit.
\<close>

theorem cut_final_answer_ends_cleanly:
  assumes "lc_force_final c" "budget_stop s = None" "mo_request m = None" "mo_stop m = None" "mo_final m = Answered None"
    "cu_delta (mo_final_usage m) = Some d" "cu_truncated (mo_final_usage m)" "ud_cache_hit d"
  shows "\<exists>s'. finish_at_limit c m limit s = Over s' None \<and> rn_msgs s' = rn_msgs s"
proof -
  have "\<exists>s'. report_usage (mo_final_usage m) s = Inr s' \<and> rn_msgs s' = rn_msgs s"
    using assms(6,8) by (auto simp: report_usage_def charge_budget_def charged_delta_def end_with_def split: option.split)
  then obtain s' where "report_usage (mo_final_usage m) s = Inr s'" "rn_msgs s' = rn_msgs s" by blast
  then show ?thesis using assms
    by (simp add: finish_at_limit_def final_call_def stop_after_call_def answered_parts_def final_answer_def truncated_call_def
        handle_truncation_def)
qed

section \<open>A concrete run\<close>

text \<open>One tool call, its result and a text answer; then a run that keeps calling the same tool.\<close>

definition plain_config :: loop_config where
  "plain_config = \<lparr>lc_max_iter = 3, lc_wrap_up_at = 0, lc_wrap_up_note = (\<lambda>n m. []), lc_force_final = False,
     lc_auto_continue = 0, lc_max_handoffs = 1, lc_max_errors = 0, lc_max_repeats = 1, lc_stop_tools = [],
     lc_output_tool = False, lc_answer_error = (\<lambda>ps. None), lc_needs_schema = (\<lambda>ps. False), lc_prefill = True,
     lc_handoff_group = False, lc_compaction = False, lc_max_input = 0, lc_write = (\<lambda>ms msg. None)\<rparr>"

definition quiet_usage :: call_usage where
  "quiet_usage = \<lparr>cu_delta = None, cu_account = [], cu_model = ''model'', cu_pricing = \<lparr>pr_currency = [], pr_input = 0,
     pr_output = 0, pr_cached = 0, pr_cache_write = 0, pr_per_request = 0, pr_batch_discount = 0, pr_batch_cached = 0, pr_as_of = [],
     pr_source = [], pr_free = True, pr_modal = []\<rparr>, cu_truncated = False, cu_approved = None\<rparr>"

definition plain_moment :: "turn_part list \<Rightarrow> moment" where
  "plain_moment ps = \<lparr>mo_canceled = False, mo_early = [], mo_late = [], mo_spawned = [], mo_awaited = [],
     mo_admit = (\<lambda>t. ([], VerdictPass)), mo_agent = [], mo_setup = None, mo_size = 0, mo_compact_now = False,
     mo_compaction = KeepBranch, mo_summaries = [], mo_recovery = KeepBranch, mo_retry_summaries = [], mo_request = None, mo_answer = Answered (Some ps), mo_usage = quiet_usage, mo_parallel = None,
     mo_schema = Answered None, mo_schema_usage = quiet_usage, mo_final = Answered None, mo_final_usage = quiet_usage,
     mo_guard = (\<lambda>t. ([], VerdictPass)), mo_tools = rm_env, mo_turn_hook = None, mo_outcome = None, mo_suspended = False,
     mo_dead = False, mo_stop = None, mo_stop_call = False, mo_stop_tools = False, mo_panic = (\<lambda>p. None)\<rparr>"

definition ask :: submission where
  "ask = \<lparr>sb_id = [], sb_mode = SubmitQueue, sb_text = ''clean up''\<rparr>"

definition call_part :: "string \<Rightarrow> turn_part" where
  "call_part i = TurnToolCall i ''rm'' (Some [(''path'', JStr ''/var'')]) []"

definition two_turns :: "moment list" where
  "two_turns = [plain_moment [call_part ''c1''], plain_moment [TurnText ''gone'']]"

definition asked :: run_state where
  "asked = (new_run [] rm_run)\<lparr>rn_msgs := [RunUser [] ''clean up'']\<rparr>"

lemma asked_start: "start_run plain_config (plain_moment []) [ask] [] rm_run = Inr asked"
  by (simp add: start_run_def inject_submissions_def inject_one_def admit_user_def guard_words_def charge_calls_def append_msg_def
      plain_config_def plain_moment_def ask_def asked_def new_run_def)

lemma plain_facts [simp]: "writes_succeed plain_config" "moment_ok (plain_moment ps)" "quiet_moment (plain_moment ps)"
    "transcript_ok []"
  by (simp_all add: writes_succeed_def plain_config_def moment_ok_def keeps_pairs_def plain_moment_def quiet_moment_def
      transcript_ok_def open_ids_def)

text \<open>The turn that repeats the call is answered without running it; the guard then ends the run.\<close>

definition repeating :: "moment list" where
  "repeating = replicate 44 (plain_moment [call_part ''c1''])"



definition later :: submission where
  "later = \<lparr>sb_id = ''sub_2'', sb_mode = SubmitQueue, sb_text = ''then report''\<rparr>"

lemma two_turns_result: "\<exists>s. run_loop plain_config two_turns asked = RunEnded s None \<and> length (rn_msgs s) = 4 \<and> rn_stop_call s = []"
proof -
  have "case run_loop plain_config two_turns asked of
      RunEnded s e \<Rightarrow> e = None \<and> length (rn_msgs s) = 4 \<and> rn_stop_call s = [] | _ \<Rightarrow> False"
    by code_simp
  then show ?thesis by (auto split: run_result.splits)
qed


theorem run_within_limits_witness:
  "int (turns_used (state_of (run_loop plain_config repeating asked))) \<le> 3"
proof -
  have "\<forall>m \<in> set repeating. moment_ok m" "0 < lc_max_iter plain_config" by (simp_all add: repeating_def plain_config_def)
  from run_within_limits [OF plain_facts(1) this(1) plain_facts(4) asked_start refl this(2)]
  show ?thesis by (simp add: plain_config_def)
qed

theorem undisturbed_run_ends_witness:
  "\<exists>s e. run_loop plain_config repeating asked = RunEnded s e"
  by (rule undisturbed_run_ends [OF _ _ asked_start]) (simp_all add: plain_config_def repeating_def)

theorem failures_counted_witness:
  "lg_tripped (foldl (guard_turn 0 0) no_guards ([([], [(no_result ''c1'')\<lparr>tr_err := ''x''\<rparr>])] @ [([], [(no_result ''c2'')\<lparr>tr_err := ''y''\<rparr>])]))
     = Some (RunToolErrors 2)"
  by (rule failures_counted [where limit = 2]) (simp_all add: all_refused_def all_failed_def no_result_def)


theorem finished_run_took_all_witness:
  "\<exists>s. run_loop plain_config two_turns asked = RunEnded s None \<and> submit (rn_inbox s) later = rn_inbox s"
proof -
  obtain s where s: "run_loop plain_config two_turns asked = RunEnded s None" "rn_stop_call s = []" using two_turns_result by auto
  have "\<forall>m \<in> set two_turns. mo_stop m = None" "\<not> lc_force_final plain_config"
    by (simp_all add: two_turns_def plain_moment_def plain_config_def)
  from finished_run_took_all [OF s(1) this s(2), of later] show ?thesis using s(1) by blast
qed


end
