(* ===== verification/Cache_Contract.thy ===== *)
theory Cache_Contract
  imports Prelude
begin

text \<open>
  The interface of a cache (\<open>agent/types/cache.go\<close>), as its clients rely on it. A read may fail. An implementation may
  forget any entry at any time, but what a read finds is the value of the last write of its key.
\<close>

locale cache_contract =
  fixes get :: "int \<Rightarrow> string \<Rightarrow> 'c \<Rightarrow> (string + 'v option) \<times> 'c"
    and set :: "int \<Rightarrow> string \<Rightarrow> 'v \<Rightarrow> int \<Rightarrow> 'c \<Rightarrow> 'c"
    and ok :: "'c \<Rightarrow> bool"
    and held :: "'c \<Rightarrow> string \<rightharpoonup> 'v"
  assumes get_law: "ok c \<Longrightarrow> get now k c = (r, c') \<Longrightarrow> ok c' \<and> held c' \<subseteq>\<^sub>m held c \<and> (\<forall>v. r = Inr (Some v) \<longrightarrow> held c k = Some v)"
    and set_law: "ok c \<Longrightarrow> ok (set now k v ttl c) \<and> held (set now k v ttl c) \<subseteq>\<^sub>m (held c)(k \<mapsto> v)"
begin

text \<open>A predicate on the entries that every write establishes holds of everything read.\<close>

lemma get_keeps: "ok c \<Longrightarrow> (\<And>j v. held c j = Some v \<Longrightarrow> P j v) \<Longrightarrow> get now k c = (r, c') \<Longrightarrow> held c' j = Some v \<Longrightarrow> P j v"
  using get_law by (metis domI map_le_def)

lemma get_finds: "ok c \<Longrightarrow> (\<And>j v. held c j = Some v \<Longrightarrow> P j v) \<Longrightarrow> get now k c = (Inr (Some v), c') \<Longrightarrow> P k v"
  using get_law by blast

lemma set_keeps:
  assumes "ok c" "\<And>j w. held c j = Some w \<Longrightarrow> P j w" "P k v" "held (set now k v ttl c) j = Some w"
  shows "P j w"
proof -
  have "((held c)(k \<mapsto> v)) j = Some w"
    using set_law [OF assms(1), of now k v ttl] assms(4) by (metis domI map_le_def)
  then show ?thesis using assms(2,3) by (auto split: if_splits)
qed

end

end
