(* ===== verification/Lru_Cache.thy ===== *)
theory Lru_Cache
  imports Cache_Contract
begin

text \<open>
  The in-memory cache (\<open>agent/cache/memcache/cache.go\<close>): a map from keys to elements of a recency list, with
  optional expiry. A list element is identified by a number, as the code's pointers are. The clock is an argument.
\<close>

section \<open>The cache\<close>

record 'v cache_entry =
  ce_key :: string
  ce_value :: 'v
  ce_expires :: "int option"

record 'v lru_cache =
  ca_entries :: "(string, nat) gomap"
  ca_lru :: "(nat \<times> 'v cache_entry) list"
  ca_max :: nat
  ca_ttl :: int
  ca_fresh :: nat

text \<open>\<open>WithMaxSize\<close> ignores a size that is not positive.\<close>

definition new_cache :: "int option \<Rightarrow> int \<Rightarrow> 'v lru_cache" where
  "new_cache limit ttl =
     \<lparr>ca_entries = [], ca_lru = [], ca_max = (case limit of Some n \<Rightarrow> if 0 < n then nat n else 1024 | None \<Rightarrow> 1024),
      ca_ttl = ttl, ca_fresh = 0\<rparr>"

text \<open>\<open>container/list\<close>: elements are removed and moved by identity.\<close>

definition list_remove :: "nat \<Rightarrow> (nat \<times> 'v cache_entry) list \<Rightarrow> (nat \<times> 'v cache_entry) list" where
  "list_remove i xs = filter (\<lambda>x. fst x \<noteq> i) xs"

definition move_front :: "nat \<Rightarrow> (nat \<times> 'v cache_entry) list \<Rightarrow> (nat \<times> 'v cache_entry) list" where
  "move_front i xs = filter (\<lambda>x. fst x = i) xs @ list_remove i xs"

definition element :: "nat \<Rightarrow> 'v lru_cache \<Rightarrow> 'v cache_entry option" where
  "element i c = map_of (ca_lru c) i"

definition remove_elem :: "nat \<Rightarrow> 'v cache_entry \<Rightarrow> 'v lru_cache \<Rightarrow> 'v lru_cache" where
  "remove_elem i e c = c\<lparr>ca_lru := list_remove i (ca_lru c), ca_entries := AList.delete (ce_key e) (ca_entries c)\<rparr>"

definition expired :: "int \<Rightarrow> 'v cache_entry \<Rightarrow> bool" where
  "expired now e = (case ce_expires e of Some t \<Rightarrow> t < now | None \<Rightarrow> False)"

definition cache_get :: "int \<Rightarrow> string \<Rightarrow> 'v lru_cache \<Rightarrow> 'v option \<times> 'v lru_cache" where
  "cache_get now k c =
     (case map_of (ca_entries c) k of
        None \<Rightarrow> (None, c)
      | Some i \<Rightarrow>
          (case element i c of
             None \<Rightarrow> (None, c)
           | Some e \<Rightarrow>
               if expired now e then (None, remove_elem i e c)
               else (Some (ce_value e), c\<lparr>ca_lru := move_front i (ca_lru c)\<rparr>)))"

text \<open>The eviction loop removes from the back until the size fits.\<close>

function evict :: "'v lru_cache \<Rightarrow> 'v lru_cache" where
  "evict c =
     (if length (ca_lru c) \<le> ca_max c then c
      else (case last (ca_lru c) of (i, e) \<Rightarrow> evict (remove_elem i e c)))"
  by pat_completeness auto

lemma list_remove_last: "xs \<noteq> [] \<Longrightarrow> length (list_remove (fst (last xs)) xs) < length xs"
  unfolding list_remove_def by (rule length_filter_less [of "last xs"]) simp_all

termination evict
proof (relation "measure (\<lambda>c. length (ca_lru c))")
  fix c :: "'a lru_cache" and i e
  assume "\<not> length (ca_lru c) \<le> ca_max c" "(i, e) = last (ca_lru c)"
  then have "ca_lru c \<noteq> []" "fst (last (ca_lru c)) = i" by (auto simp: fst_def split: prod.split)
  then show "(remove_elem i e c, c) \<in> measure (\<lambda>c. length (ca_lru c))"
    using list_remove_last [of "ca_lru c"] by (simp add: remove_elem_def)
qed simp

declare evict.simps [simp del]

definition set_entry :: "nat \<Rightarrow> 'v \<Rightarrow> int option \<Rightarrow> 'v lru_cache \<Rightarrow> 'v lru_cache" where
  "set_entry i v exp c =
     c\<lparr>ca_lru := map (\<lambda>(j, e). (j, if j = i then e\<lparr>ce_value := v, ce_expires := exp\<rparr> else e)) (move_front i (ca_lru c))\<rparr>"

definition cache_set :: "int \<Rightarrow> string \<Rightarrow> 'v \<Rightarrow> int \<Rightarrow> 'v lru_cache \<Rightarrow> 'v lru_cache" where
  "cache_set now k v ttl c =
     (let ttl = (if ttl = 0 then ca_ttl c else ttl);
          exp = (if 0 < ttl then Some (now + ttl) else None)
      in case map_of (ca_entries c) k of
           Some i \<Rightarrow> set_entry i v exp c
         | None \<Rightarrow>
             evict (c\<lparr>ca_lru := (ca_fresh c, \<lparr>ce_key = k, ce_value = v, ce_expires = exp\<rparr>) # ca_lru c,
                      ca_entries := AList.update k (ca_fresh c) (ca_entries c), ca_fresh := Suc (ca_fresh c)\<rparr>))"

definition cache_delete :: "string \<Rightarrow> 'v lru_cache \<Rightarrow> 'v lru_cache" where
  "cache_delete k c =
     (case map_of (ca_entries c) k of
        None \<Rightarrow> c
      | Some i \<Rightarrow> (case element i c of None \<Rightarrow> c | Some e \<Rightarrow> remove_elem i e c))"

section \<open>The invariant\<close>

text \<open>Elements and keys are distinct, the map points exactly at the elements, and the size fits.\<close>

definition linked :: "'v lru_cache \<Rightarrow> bool" where
  "linked c =
     (distinct (map fst (ca_lru c)) \<and> distinct (map (ce_key \<circ> snd) (ca_lru c)) \<and> (\<forall>x \<in> set (ca_lru c). fst x < ca_fresh c) \<and>
      (\<forall>k i. map_of (ca_entries c) k = Some i \<longleftrightarrow> (\<exists>e. (i, e) \<in> set (ca_lru c) \<and> ce_key e = k)))"

definition cache_ok :: "'v lru_cache \<Rightarrow> bool" where
  "cache_ok c = (linked c \<and> length (ca_lru c) \<le> ca_max c \<and> 0 < ca_max c)"

text \<open>What a client sees: keys with their values and expiry, the most recently used first.\<close>

definition contents :: "'v lru_cache \<Rightarrow> (string \<times> 'v \<times> int option) list" where
  "contents c = map (\<lambda>(i, e). (ce_key e, ce_value e, ce_expires e)) (ca_lru c)"

lemma new_cache_ok: "cache_ok (new_cache limit ttl)" "contents (new_cache limit ttl) = []"
  by (auto simp: cache_ok_def linked_def new_cache_def contents_def split: option.split)

lemma linked_element: "linked c \<Longrightarrow> (i, e) \<in> set (ca_lru c) \<Longrightarrow> element i c = Some e"
  by (simp add: linked_def element_def)

lemma linked_entry:
  assumes "linked c" "map_of (ca_entries c) k = Some i"
  obtains e where "(i, e) \<in> set (ca_lru c)" "ce_key e = k" "element i c = Some e"
  using assms linked_element [OF assms(1)] by (auto simp: linked_def)

lemma linked_unique: "linked c \<Longrightarrow> (i, e) \<in> set (ca_lru c) \<Longrightarrow> (j, e') \<in> set (ca_lru c) \<Longrightarrow> ce_key e = ce_key e' \<Longrightarrow> i = j \<and> e = e'"
  unfolding linked_def by (metis (no_types, lifting) comp_apply distinct_map fst_conv inj_on_def snd_conv)

lemma linked_same: "linked c \<Longrightarrow> (i, e) \<in> set (ca_lru c) \<Longrightarrow> (i, e') \<in> set (ca_lru c) \<Longrightarrow> e = e'"
  unfolding linked_def by (metis map_of_is_SomeI option.inject)

lemma linked_miss: "linked c \<Longrightarrow> map_of (ca_entries c) k = None \<Longrightarrow> (i, e) \<in> set (ca_lru c) \<Longrightarrow> ce_key e \<noteq> k"
  unfolding linked_def by (metis option.distinct(1))

section \<open>The operations on the contents\<close>

lemma keys_contents: "map fst (contents c) = map (ce_key \<circ> snd) (ca_lru c)"
  by (simp add: contents_def case_prod_unfold)

lemma distinct_contents: "linked c \<Longrightarrow> distinct (map fst (contents c))"
  by (simp add: keys_contents linked_def)

lemma lookup_contents:
  assumes "linked c"
  shows "map_of (contents c) k = (case map_of (ca_entries c) k of None \<Rightarrow> None
    | Some i \<Rightarrow> map_option (\<lambda>e. (ce_value e, ce_expires e)) (element i c))"
proof (cases "map_of (ca_entries c) k")
  case None
  then have "k \<notin> fst ` set (contents c)" using linked_miss [OF assms None] by (force simp: contents_def)
  then have "map_of (contents c) k = None" by (simp add: map_of_eq_None_iff)
  then show ?thesis using None by simp
next
  case (Some i)
  then obtain e where e: "(i, e) \<in> set (ca_lru c)" "ce_key e = k" "element i c = Some e" using linked_entry [OF assms] by blast
  then have "(k, ce_value e, ce_expires e) \<in> set (contents c)" by (force simp: contents_def)
  then show ?thesis using Some e(3) distinct_contents [OF assms] by simp
qed

lemma same_element:
  assumes "linked c" "(i, e) \<in> set (ca_lru c)" "x \<in> set (ca_lru c)"
  shows "(fst x = i) = (ce_key (snd x) = ce_key e)"
  using linked_unique [OF assms(1), of "fst x" "snd x" i e] linked_same [OF assms(1), of i e "snd x"] assms(2,3)
  by (metis prod.collapse)

lemma list_remove_key:
  assumes "linked c" "(i, e) \<in> set (ca_lru c)"
  shows "list_remove i (ca_lru c) = filter (\<lambda>x. ce_key (snd x) \<noteq> ce_key e) (ca_lru c)"
  unfolding list_remove_def by (rule filter_cong) (use same_element [OF assms] in auto)

lemma contents_filter: "contents (c\<lparr>ca_lru := filter (\<lambda>x. P (ce_key (snd x))) (ca_lru c)\<rparr>) = filter (\<lambda>x. P (fst x)) (contents c)"
  by (simp add: contents_def filter_map o_def case_prod_unfold)

lemma remove_contents:
  assumes "linked c" "(i, e) \<in> set (ca_lru c)"
  shows "contents (remove_elem i e c) = filter (\<lambda>x. fst x \<noteq> ce_key e) (contents c)" "linked (remove_elem i e c)"
proof -
  show "contents (remove_elem i e c) = filter (\<lambda>x. fst x \<noteq> ce_key e) (contents c)"
    using contents_filter [where c = c and P = "\<lambda>k. k \<noteq> ce_key e"] by (simp add: remove_elem_def list_remove_key [OF assms] contents_def)
  have "(\<exists>e'. (j, e') \<in> set (ca_lru c) \<and> j \<noteq> i \<and> ce_key e' = k) = (k \<noteq> ce_key e \<and> map_of (ca_entries c) k = Some j)" for j k
    using assms same_element [OF assms] unfolding linked_def by (metis fst_conv snd_conv)
  then show "linked (remove_elem i e c)" using assms(1)
    by (auto simp: linked_def remove_elem_def list_remove_def distinct_map inj_on_def)
qed

lemma only_element:
  assumes "distinct (map fst xs)" "(i, e) \<in> set xs"
  shows "filter (\<lambda>x. fst x = i) xs = [(i, e)]"
proof -
  obtain ys zs where xs: "xs = ys @ (i, e) # zs" using assms(2) by (meson split_list)
  then have "i \<notin> fst ` set ys" "i \<notin> fst ` set zs" using assms(1) by auto
  then have "filter (\<lambda>x. fst x = i) ys = []" "filter (\<lambda>x. fst x = i) zs = []" by (auto simp: filter_empty_conv image_iff)
  then show ?thesis by (simp add: xs)
qed

lemma move_front_front:
  assumes "linked c" "(i, e) \<in> set (ca_lru c)"
  shows "move_front i (ca_lru c) = (i, e) # list_remove i (ca_lru c)"
  using only_element [of "ca_lru c" i e] assms by (simp add: move_front_def linked_def)

text \<open>A moved element may get a new value.\<close>

lemma front_linked:
  assumes "linked c" "(i, e) \<in> set (ca_lru c)" "ce_key e' = ce_key e"
  shows "linked (c\<lparr>ca_lru := (i, e') # list_remove i (ca_lru c)\<rparr>)"
    "contents (c\<lparr>ca_lru := (i, e') # list_remove i (ca_lru c)\<rparr>) =
       (ce_key e, ce_value e', ce_expires e') # filter (\<lambda>x. fst x \<noteq> ce_key e) (contents c)"
proof -
  have "(j, x) \<in> set (ca_lru c) \<and> j \<noteq> i \<longleftrightarrow> (j, x) \<in> set (ca_lru c) \<and> ce_key x \<noteq> ce_key e" for j x
    using same_element [OF assms(1,2), of "(j, x)"] by auto
  then have "(\<exists>x. (j = i \<and> x = e' \<or> (j, x) \<in> set (ca_lru c) \<and> j \<noteq> i) \<and> ce_key x = k) = (\<exists>x. (j, x) \<in> set (ca_lru c) \<and> ce_key x = k)" for j k
    using assms(2,3) linked_same [OF assms(1,2)] by (metis)
  moreover have "ce_key e \<notin> (ce_key \<circ> snd) ` set (list_remove i (ca_lru c))" by (auto simp: list_remove_key [OF assms(1,2)])
  ultimately show "linked (c\<lparr>ca_lru := (i, e') # list_remove i (ca_lru c)\<rparr>)" using assms
    by (auto simp: linked_def list_remove_def distinct_map inj_on_def)
  show "contents (c\<lparr>ca_lru := (i, e') # list_remove i (ca_lru c)\<rparr>) =
       (ce_key e, ce_value e', ce_expires e') # filter (\<lambda>x. fst x \<noteq> ce_key e) (contents c)"
    using contents_filter [where c = c and P = "\<lambda>k. k \<noteq> ce_key e"] assms(3) by (simp add: contents_def list_remove_key [OF assms(1,2)])
qed

lemma evict_ok:
  assumes "linked c"
  shows "linked (evict c) \<and> contents (evict c) = take (ca_max c) (contents c) \<and> ca_max (evict c) = ca_max c \<and>
    ca_ttl (evict c) = ca_ttl c \<and> length (ca_lru (evict c)) \<le> ca_max c"
  using assms
proof (induction c rule: evict.induct)
  case (1 c)
  show ?case
  proof (cases "length (ca_lru c) \<le> ca_max c")
    case True
    then show ?thesis using 1(2) by (simp add: evict.simps [of c] contents_def)
  next
    case False
    obtain i e where l: "last (ca_lru c) = (i, e)" by (cases "last (ca_lru c)")
    have ne: "ca_lru c \<noteq> []" using False by auto
    then have mem: "(i, e) \<in> set (ca_lru c)" using l by (metis last_in_set)
    obtain xs where xs: "ca_lru c = xs @ [(i, e)]" using ne l by (metis append_butlast_last_id)
    have "filter (\<lambda>x. fst x \<noteq> i) xs = xs" using 1(2) by (auto simp: filter_id_conv linked_def xs)
    then have rest: "list_remove i (ca_lru c) = xs" by (simp add: list_remove_def xs)
    have c': "contents (remove_elem i e c) = butlast (contents c)" "ca_max (remove_elem i e c) = ca_max c"
      "ca_ttl (remove_elem i e c) = ca_ttl c" "length (ca_lru (remove_elem i e c)) = length (ca_lru c) - 1"
      using rest by (simp_all add: contents_def remove_elem_def xs)
    have len: "ca_max c < length (contents c)" using False by (simp add: contents_def)
    have "evict c = evict (remove_elem i e c)" using False l by (simp add: evict.simps [of c])
    moreover have "take (ca_max c) (butlast (contents c)) = take (ca_max c) (contents c)"
      using len by (simp add: take_butlast)
    ultimately show ?thesis using 1(1) [OF False l [symmetric] remove_contents(2) [OF 1(2) mem]] c' by simp
  qed
qed

section \<open>The specification\<close>

text \<open>The cache as a bounded list, the most recently used key first.\<close>

type_synonym 'v recency = "(string \<times> 'v \<times> int option) list"

definition without_key :: "string \<Rightarrow> 'v recency \<Rightarrow> 'v recency" where
  "without_key k xs = filter (\<lambda>x. fst x \<noteq> k) xs"

definition spec_get :: "int \<Rightarrow> string \<Rightarrow> 'v recency \<Rightarrow> 'v option \<times> 'v recency" where
  "spec_get now k xs =
     (case map_of xs k of
        None \<Rightarrow> (None, xs)
      | Some (v, exp) \<Rightarrow>
          if (case exp of Some t \<Rightarrow> t < now | None \<Rightarrow> False) then (None, without_key k xs)
          else (Some v, (k, v, exp) # without_key k xs))"

definition spec_set :: "nat \<Rightarrow> string \<Rightarrow> 'v \<Rightarrow> int option \<Rightarrow> 'v recency \<Rightarrow> 'v recency" where
  "spec_set n k v exp xs = take n ((k, v, exp) # without_key k xs)"

definition expiry :: "int \<Rightarrow> int \<Rightarrow> int \<Rightarrow> int option" where
  "expiry dflt now ttl = (let ttl = (if ttl = 0 then dflt else ttl) in if 0 < ttl then Some (now + ttl) else None)"

lemma without_short: "length (contents c) \<le> n \<Longrightarrow> (k, y) \<in> set (contents c) \<Longrightarrow> Suc (length (without_key k (contents c))) \<le> n"
  using length_filter_less [of "(k, y)" "contents c" "\<lambda>x. fst x \<noteq> k"] by (simp add: without_key_def)

lemma missing_key:
  assumes "linked c" "map_of (ca_entries c) k = None"
  shows "without_key k (contents c) = contents c" "\<forall>x \<in> set (ca_lru c). ce_key (snd x) \<noteq> k"
proof -
  show other: "\<forall>x \<in> set (ca_lru c). ce_key (snd x) \<noteq> k" using linked_miss [OF assms] by (metis prod.collapse)
  show "without_key k (contents c) = contents c"
    unfolding without_key_def by (rule filter_True) (use other in \<open>auto simp: contents_def\<close>)
qed

lemma get_refines:
  assumes "cache_ok c" "cache_get now k c = (r, c')"
  shows "cache_ok c' \<and> spec_get now k (contents c) = (r, contents c') \<and> ca_max c' = ca_max c \<and> ca_ttl c' = ca_ttl c"
proof (cases "map_of (ca_entries c) k")
  case None
  then show ?thesis using assms lookup_contents [of c k] by (simp add: cache_get_def spec_get_def cache_ok_def)
next
  case (Some i)
  have l: "linked c" using assms(1) by (simp add: cache_ok_def)
  from linked_entry [OF l Some] obtain e where e: "(i, e) \<in> set (ca_lru c)" "ce_key e = k" "element i c = Some e" .
  have look: "map_of (contents c) k = Some (ce_value e, ce_expires e)" using lookup_contents [OF l, of k] Some e(3) by simp
  have shorter: "Suc (length (list_remove i (ca_lru c))) \<le> length (ca_lru c)"
    using length_filter_less [OF e(1), of "\<lambda>x. fst x \<noteq> i"] by (simp add: list_remove_def)
  show ?thesis
  proof (cases "expired now e")
    case True
    then have "c' = remove_elem i e c" "r = None" using assms(2) Some e(3) by (simp_all add: cache_get_def)
    then show ?thesis using remove_contents [OF l e(1)] True assms(1) shorter
      by (simp add: spec_get_def look expired_def cache_ok_def without_key_def e(2) remove_elem_def)
  next
    case False
    then have c': "c' = c\<lparr>ca_lru := (i, e) # list_remove i (ca_lru c)\<rparr>" "r = Some (ce_value e)"
      using assms(2) Some e(3) move_front_front [OF l e(1)] by (simp_all add: cache_get_def)
    then show ?thesis using front_linked [OF l e(1) refl] False assms(1) shorter
      by (simp add: spec_get_def look expired_def cache_ok_def without_key_def e(2))
  qed
qed

lemma set_refines:
  assumes "cache_ok c"
  shows "cache_ok (cache_set now k v ttl c) \<and>
    contents (cache_set now k v ttl c) = spec_set (ca_max c) k v (expiry (ca_ttl c) now ttl) (contents c) \<and>
    ca_max (cache_set now k v ttl c) = ca_max c \<and> ca_ttl (cache_set now k v ttl c) = ca_ttl c"
proof (cases "map_of (ca_entries c) k")
  case (Some i)
  have l: "linked c" using assms by (simp add: cache_ok_def)
  from linked_entry [OF l Some] obtain e where e: "(i, e) \<in> set (ca_lru c)" "ce_key e = k" "element i c = Some e" .
  define e' where "e' = e\<lparr>ce_value := v, ce_expires := expiry (ca_ttl c) now ttl\<rparr>"
  have "map (\<lambda>(j, x). (j, if j = i then x\<lparr>ce_value := v, ce_expires := exp\<rparr> else x)) (list_remove i (ca_lru c)) =
      list_remove i (ca_lru c)" for exp
    by (rule map_idI) (auto simp: list_remove_def)
  then have "cache_set now k v ttl c = c\<lparr>ca_lru := (i, e') # list_remove i (ca_lru c)\<rparr>"
    using Some move_front_front [OF l e(1)] by (simp add: cache_set_def Let_def set_entry_def expiry_def e'_def)
  moreover have "Suc (length (list_remove i (ca_lru c))) \<le> length (ca_lru c)"
    using length_filter_less [OF e(1), of "\<lambda>x. fst x \<noteq> i"] by (simp add: list_remove_def)
  moreover have "Suc (length (without_key k (contents c))) \<le> ca_max c"
    using without_short [of c "ca_max c" k "(ce_value e, ce_expires e)"] e assms by (force simp: cache_ok_def contents_def)
  ultimately show ?thesis using front_linked [OF l e(1), of e'] assms
    by (simp add: e'_def cache_ok_def spec_set_def without_key_def e(2))
next
  case None
  have l: "linked c" using assms by (simp add: cache_ok_def)
  define c1 where "c1 = c\<lparr>ca_lru := (ca_fresh c, \<lparr>ce_key = k, ce_value = v, ce_expires = expiry (ca_ttl c) now ttl\<rparr>) # ca_lru c,
    ca_entries := AList.update k (ca_fresh c) (ca_entries c), ca_fresh := Suc (ca_fresh c)\<rparr>"
  have "linked c1" using l missing_key(2) [OF l None]
    by (auto simp: linked_def c1_def less_SucI split: if_splits)
  moreover have "contents c1 = (k, v, expiry (ca_ttl c) now ttl) # contents c" by (simp add: contents_def c1_def)
  moreover have "without_key k (contents c) = contents c" by (rule missing_key(1) [OF l None])
  moreover have "cache_set now k v ttl c = evict c1" using None by (simp add: cache_set_def Let_def expiry_def c1_def)
  ultimately show ?thesis using evict_ok [of c1] assms by (simp add: c1_def cache_ok_def spec_set_def)
qed

lemma delete_refines:
  assumes "cache_ok c"
  shows "cache_ok (cache_delete k c) \<and> contents (cache_delete k c) = without_key k (contents c) \<and>
    ca_max (cache_delete k c) = ca_max c \<and> ca_ttl (cache_delete k c) = ca_ttl c"
proof (cases "map_of (ca_entries c) k")
  case None
  then have "without_key k (contents c) = contents c"
    using assms missing_key(1) [of c k] by (simp add: cache_ok_def)
  then show ?thesis using None assms by (simp add: cache_delete_def)
next
  case (Some i)
  have l: "linked c" using assms by (simp add: cache_ok_def)
  from linked_entry [OF l Some] obtain e where e: "(i, e) \<in> set (ca_lru c)" "ce_key e = k" "element i c = Some e" .
  then have "cache_delete k c = remove_elem i e c" using Some by (simp add: cache_delete_def)
  then show ?thesis using remove_contents [OF l e(1)] assms e(2)
    by (simp add: cache_ok_def without_key_def remove_elem_def list_remove_def le_trans [OF length_filter_le])
qed

section \<open>Sequences of operations\<close>

datatype 'v cache_op = Cache_Get int string | Cache_Set int string 'v int | Cache_Delete string

fun cache_step :: "'v cache_op \<Rightarrow> 'v lru_cache \<Rightarrow> 'v option \<times> 'v lru_cache" where
  "cache_step (Cache_Get now k) c = cache_get now k c"
| "cache_step (Cache_Set now k v ttl) c = (None, cache_set now k v ttl c)"
| "cache_step (Cache_Delete k) c = (None, cache_delete k c)"

fun cache_run :: "'v cache_op list \<Rightarrow> 'v lru_cache \<Rightarrow> 'v option list \<times> 'v lru_cache" where
  "cache_run [] c = ([], c)"
| "cache_run (x # xs) c = (case cache_step x c of (r, c') \<Rightarrow> case cache_run xs c' of (rs, c'') \<Rightarrow> (r # rs, c''))"

fun spec_step :: "nat \<Rightarrow> int \<Rightarrow> 'v cache_op \<Rightarrow> 'v recency \<Rightarrow> 'v option \<times> 'v recency" where
  "spec_step n dflt (Cache_Get now k) xs = spec_get now k xs"
| "spec_step n dflt (Cache_Set now k v ttl) xs = (None, spec_set n k v (expiry dflt now ttl) xs)"
| "spec_step n dflt (Cache_Delete k) xs = (None, without_key k xs)"

fun spec_run :: "nat \<Rightarrow> int \<Rightarrow> 'v cache_op list \<Rightarrow> 'v recency \<Rightarrow> 'v option list \<times> 'v recency" where
  "spec_run n dflt [] xs = ([], xs)"
| "spec_run n dflt (x # ops) xs =
     (case spec_step n dflt x xs of (r, ys) \<Rightarrow> case spec_run n dflt ops ys of (rs, zs) \<Rightarrow> (r # rs, zs))"

lemma step_refines:
  assumes "cache_ok c" "cache_step x c = (r, c')"
  shows "cache_ok c' \<and> spec_step (ca_max c) (ca_ttl c) x (contents c) = (r, contents c') \<and> ca_max c' = ca_max c \<and> ca_ttl c' = ca_ttl c"
  using assms get_refines [of c] set_refines [of c] delete_refines [of c] by (cases x) auto

lemma run_refines:
  assumes "cache_ok c" "cache_run xs c = (rs, c')"
  shows "cache_ok c' \<and> spec_run (ca_max c) (ca_ttl c) xs (contents c) = (rs, contents c')"
  using assms
proof (induction xs arbitrary: c rs)
  case (Cons x xs)
  obtain r c1 rs1 where s: "cache_step x c = (r, c1)" "cache_run xs c1 = (rs1, c')" "rs = r # rs1"
    using Cons.prems(2) by (auto split: prod.splits)
  show ?case using step_refines [OF Cons.prems(1) s(1)] Cons.IH [OF _ s(2)] s(3) by auto
qed simp

lemma run_max:
  assumes "cache_ok c" "cache_run xs c = (rs, c')"
  shows "ca_max c' = ca_max c"
  using assms
proof (induction xs arbitrary: c rs)
  case (Cons x xs)
  obtain r c1 rs1 where s: "cache_step x c = (r, c1)" "cache_run xs c1 = (rs1, c')" "rs = r # rs1"
    using Cons.prems(2) by (auto split: prod.splits)
  show ?case using step_refines [OF Cons.prems(1) s(1)] Cons.IH [OF _ s(2)] by simp
qed simp

section \<open>What stays readable\<close>

fun op_key :: "'v cache_op \<Rightarrow> string" where
  "op_key (Cache_Get now k) = k"
| "op_key (Cache_Set now k v ttl) = k"
| "op_key (Cache_Delete k) = k"

text \<open>Operations that leave the value of a key alone: on that key only reads before its expiry.\<close>

fun spares :: "string \<Rightarrow> int option \<Rightarrow> 'v cache_op \<Rightarrow> bool" where
  "spares k exp (Cache_Get now j) = (j \<noteq> k \<or> (case exp of Some t \<Rightarrow> now \<le> t | None \<Rightarrow> True))"
| "spares k exp x = (op_key x \<noteq> k)"

text \<open>The key is on the list, and only keys of a given set are more recent.\<close>

definition recent :: "string \<Rightarrow> 'v \<times> int option \<Rightarrow> string set \<Rightarrow> 'v recency \<Rightarrow> bool" where
  "recent k y K xs = (distinct (map fst xs) \<and> (\<exists>ys zs. xs = ys @ (k, y) # zs \<and> fst ` set ys \<subseteq> K))"

lemma recent_lookup: "recent k y K xs \<Longrightarrow> map_of xs k = Some y"
  by (auto simp: recent_def)

lemma without_distinct: "distinct (map fst xs) \<Longrightarrow> distinct (map fst (without_key j xs))"
  by (simp add: without_key_def distinct_map_filter)

lemma recent_without:
  assumes "recent k y K xs" "j \<noteq> k"
  shows "recent k y K (without_key j xs)"
proof -
  obtain ys zs where xs: "xs = ys @ (k, y) # zs" "fst ` set ys \<subseteq> K" "distinct (map fst xs)"
    using assms(1) by (auto simp: recent_def)
  then have "without_key j xs = without_key j ys @ (k, y) # without_key j zs" "fst ` set (without_key j ys) \<subseteq> K"
    using assms(2) by (auto simp: without_key_def)
  then show ?thesis using without_distinct [OF xs(3)] unfolding recent_def by blast
qed

lemma recent_cons:
  assumes "recent k y K xs" "j \<noteq> k"
  shows "recent k y (insert j K) ((j, z) # without_key j xs)"
proof -
  obtain ys zs where "without_key j xs = ys @ (k, y) # zs" "fst ` set ys \<subseteq> K" "distinct (map fst (without_key j xs))"
    using recent_without [OF assms] by (auto simp: recent_def)
  moreover from this have "(j, z) # without_key j xs = ((j, z) # ys) @ (k, y) # zs" by simp
  moreover have "j \<notin> fst ` set (without_key j xs)" by (auto simp: without_key_def)
  ultimately show ?thesis unfolding recent_def by (intro conjI exI [of _ "(j, z) # ys"] exI [of _ zs]) auto
qed

lemma recent_mono: "recent k y K xs \<Longrightarrow> K \<subseteq> L \<Longrightarrow> recent k y L xs"
  unfolding recent_def by blast

lemma recent_take:
  assumes "recent k y K xs" "finite K" "k \<notin> K" "card K < n"
  shows "recent k y K (take n xs)"
proof -
  obtain ys zs where xs: "xs = ys @ (k, y) # zs" "fst ` set ys \<subseteq> K" "distinct (map fst xs)"
    using assms(1) by (auto simp: recent_def)
  have "length ys = card (fst ` set ys)" using xs(1,3) by (simp add: distinct_card [of "map fst ys", simplified])
  also have "\<dots> \<le> card K" using xs(2) assms(2) by (rule card_mono [rotated])
  finally have "take n xs = ys @ (k, y) # take (n - Suc (length ys)) zs" using assms(4) by (simp add: xs(1) take_Cons' Suc_diff_Suc)
  moreover have "distinct (map fst (take n xs))" using xs(3) by (simp flip: take_map)
  ultimately show ?thesis using xs(2) unfolding recent_def by blast
qed

lemma recent_front: "distinct (map fst xs) \<Longrightarrow> recent k y K ((k, y) # without_key k xs)"
  unfolding recent_def
  by (intro conjI exI [of _ "[]"] exI [of _ "without_key k xs"]) (auto simp: without_key_def distinct_map_filter)

lemma spared_key_recent:
  assumes "recent k (v, exp) K xs" "spares k exp x" "spec_step n dflt x xs = (r, xs')"
    and "finite K" "k \<notin> K" "card (insert (op_key x) K - {k}) < n"
  shows "recent k (v, exp) (insert (op_key x) K - {k}) xs' \<and> (op_key x = k \<longrightarrow> r = Some v)"
proof (cases "op_key x = k")
  case True
  then obtain now where x: "x = Cache_Get now k" "case exp of Some t \<Rightarrow> now \<le> t | None \<Rightarrow> True" using assms(2) by (cases x) auto
  then have "r = Some v" "xs' = (k, v, exp) # without_key k xs"
    using assms(3) by (auto simp: spec_get_def recent_lookup [OF assms(1)] split: option.splits)
  then show ?thesis using recent_front [of xs] assms(1) by (auto simp: recent_def)
next
  case False
  define L where "L = insert (op_key x) K"
  have L: "insert (op_key x) K - {k} = L" "finite L" "k \<notin> L" using False assms(4,5) by (auto simp: L_def)
  have "recent k (v, exp) L xs'"
  proof (cases x)
    case (Cache_Get now j)
    then show ?thesis using assms(3) False recent_mono [OF assms(1)] recent_without [OF assms(1), of j] recent_cons [OF assms(1), of j]
      by (auto simp: spec_get_def L_def subset_insertI split: option.splits if_splits intro: recent_mono [of _ _ K])
  next
    case (Cache_Set now j w ttl)
    then have jk: "j \<noteq> k" "L = insert j K" using False by (simp_all add: L_def)
    have "recent k (v, exp) L (take n ((j, w, expiry dflt now ttl) # without_key j xs))"
      by (rule recent_take) (use recent_cons [OF assms(1) jk(1)] jk(2) L assms(6) in \<open>simp_all flip: L_def\<close>)
    then show ?thesis using assms(3) Cache_Set by (simp add: spec_set_def)
  next
    case (Cache_Delete j)
    then show ?thesis using assms(3) False recent_without [OF assms(1), of j]
      by (auto simp: L_def intro: recent_mono [of _ _ K])
  qed
  then show ?thesis using False by (simp add: L)
qed

text \<open>The keys used besides one key.\<close>

definition other_keys :: "string \<Rightarrow> 'v cache_op list \<Rightarrow> string set" where
  "other_keys k ops = op_key ` set ops - {k}"

lemma spared_key_survives:
  assumes "recent k (v, exp) K xs" "\<forall>x \<in> set ops. spares k exp x" "spec_run n dflt ops xs = (rs, xs')"
    and "finite K" "k \<notin> K" "card (K \<union> other_keys k ops) < n"
  shows "recent k (v, exp) (K \<union> other_keys k ops) xs'"
  using assms
proof (induction ops arbitrary: xs K rs)
  case Nil
  then show ?case by (simp add: other_keys_def)
next
  case (Cons x ops)
  obtain r xs1 rs1 where s: "spec_step n dflt x xs = (r, xs1)" "spec_run n dflt ops xs1 = (rs1, xs')"
    using Cons.prems(3) by (auto split: prod.splits)
  define L where "L = insert (op_key x) K - {k}"
  have L: "finite L" "k \<notin> L" "L \<union> other_keys k ops = K \<union> other_keys k (x # ops)"
    using Cons.prems(4,5) by (auto simp: L_def other_keys_def)
  have "card L \<le> card (L \<union> other_keys k ops)" by (rule card_mono) (use L(1) in \<open>auto simp: other_keys_def\<close>)
  then have few: "card (insert (op_key x) K - {k}) < n" using Cons.prems(6) L(3) by (simp add: L_def)
  have "recent k (v, exp) L xs1" unfolding L_def
    by (rule spared_key_recent [OF Cons.prems(1) _ s(1) Cons.prems(4,5) few, THEN conjunct1]) (use Cons.prems(2) in simp)
  then show ?case using Cons.IH [OF _ _ s(2) L(1,2)] Cons.prems(2,6) L(3) by simp
qed

lemma contents_lookup: "cache_ok c \<Longrightarrow> map_of (contents c) k = Some (v, exp) \<Longrightarrow> \<not> (case exp of Some t \<Rightarrow> t < now | None \<Rightarrow> False) \<Longrightarrow>
    fst (cache_get now k c) = Some v"
  using get_refines [of c now k] by (cases "cache_get now k c") (auto simp: spec_get_def)

section \<open>The interface\<close>

definition mem_read :: "int \<Rightarrow> string \<Rightarrow> 'v lru_cache \<Rightarrow> (string + 'v option) \<times> 'v lru_cache" where
  "mem_read now k c = (case cache_get now k c of (r, c') \<Rightarrow> (Inr r, c'))"

definition mem_held :: "'v lru_cache \<Rightarrow> string \<rightharpoonup> 'v" where
  "mem_held c k = map_option fst (map_of (contents c) k)"

lemma lookup_without: "map_of (without_key k xs) j = (if j = k then None else map_of xs j)"
  by (induction xs) (auto simp: without_key_def)

lemma lookup_take: "map_of (take n xs) k = Some y \<Longrightarrow> map_of xs k = Some y"
  by (metis append_take_drop_id map_add_Some_iff map_of_append)

lemma spec_get_lookup:
  assumes "spec_get now k xs = (q, ys)"
  shows "map_of ys j = Some y \<Longrightarrow> map_of xs j = Some y" "q = Some v \<Longrightarrow> \<exists>exp. map_of xs k = Some (v, exp)"
  using assms by (auto simp: spec_get_def lookup_without split: option.splits prod.splits if_splits)

interpretation lru: cache_contract mem_read cache_set cache_ok mem_held
proof
  fix c :: "'v lru_cache" and now k r c'
  assume ok: "cache_ok c" and "mem_read now k c = (r, c')"
  then obtain q where q: "cache_get now k c = (q, c')" "r = Inr q" by (auto simp: mem_read_def split: prod.splits)
  show "cache_ok c' \<and> mem_held c' \<subseteq>\<^sub>m mem_held c \<and> (\<forall>v. r = Inr (Some v) \<longrightarrow> mem_held c k = Some v)"
    using get_refines [OF ok q(1)] spec_get_lookup [of now k "contents c" q "contents c'"] q(2)
    by (fastforce simp: mem_held_def map_le_def)
next
  fix c :: "'v lru_cache" and now k v ttl
  assume ok: "cache_ok c"
  have "((mem_held c)(k \<mapsto> v)) j = Some w" if held: "mem_held (cache_set now k v ttl c) j = Some w" for j w
  proof -
    obtain exp where "map_of (take (ca_max c) ((k, v, expiry (ca_ttl c) now ttl) # without_key k (contents c))) j = Some (w, exp)"
      using held set_refines [OF ok, of now k v ttl] by (auto simp: mem_held_def spec_set_def)
    from lookup_take [OF this] show ?thesis by (auto simp: mem_held_def lookup_without split: if_splits)
  qed
  then have "mem_held (cache_set now k v ttl c) \<subseteq>\<^sub>m (mem_held c)(k \<mapsto> v)" unfolding map_le_def by (metis domD)
  then show "cache_ok (cache_set now k v ttl c) \<and> mem_held (cache_set now k v ttl c) \<subseteq>\<^sub>m (mem_held c)(k \<mapsto> v)"
    using set_refines [OF ok] by blast
qed

end
