(* ===== verification/Lru_Properties.thy ===== *)
theory Lru_Properties
  imports Lru_Cache
begin

text \<open>
  What the in-memory cache promises (\<open>agent/cache/memcache/cache.go\<close>): it is a bounded recency list, and a key
  survives as long as fewer other keys than its capacity are used.
\<close>

section \<open>Capacity and recency\<close>

text \<open>
  C36: Over any sequence of operations the cache answers exactly as a bounded list of entries, the most recently used
  first, on which a read removes an expired entry or moves the key to the front and a write puts it in front and cuts
  the list to the capacity. Its map and its list name the same elements throughout.
\<close>

theorem cache_is_recency_list:
  "case cache_run ops (new_cache limit ttl) of (rs, c) \<Rightarrow>
     spec_run (ca_max c) ttl ops [] = (rs, contents c) \<and> cache_ok c \<and>
     ca_max c = (case limit of Some n \<Rightarrow> if 0 < n then nat n else 1024 | None \<Rightarrow> 1024)"
proof -
  obtain rs c where r: "cache_run ops (new_cache limit ttl) = (rs, c)" by fastforce
  then show ?thesis
    using run_refines [OF new_cache_ok(1) r] run_max [OF new_cache_ok(1) r]
    by (simp add: new_cache_ok(2)) (simp add: new_cache_def)
qed

lemma spec_get_shape: "spec_get now k xs = (r, ys) \<Longrightarrow>
    map_of xs k = None \<and> ys = xs \<or> ys = without_key k xs \<or> (\<exists>w. ys = (k, w) # without_key k xs)"
  by (auto simp: spec_get_def split: option.splits prod.splits if_splits)

lemma used_key_recent:
  assumes "cache_ok c" "cache_step x c = (r, c1)" "map_of (contents c1) (op_key x) = Some y"
  shows "recent (op_key x) y {} (contents c1)"
proof -
  have s: "spec_step (ca_max c) (ca_ttl c) x (contents c) = (r, contents c1)" using step_refines [OF assms(1,2)] by blast
  have d: "distinct (map fst (contents c))" by (rule distinct_contents) (use assms(1) in \<open>simp add: cache_ok_def\<close>)
  show ?thesis
  proof (cases x)
    case (Cache_Get now k)
    then have "map_of (contents c) k = None \<and> contents c1 = contents c \<or> contents c1 = without_key k (contents c) \<or>
        (\<exists>w. contents c1 = (k, w) # without_key k (contents c))"
      using s by (intro spec_get_shape) simp
    then show ?thesis using assms(3) recent_front [OF d, of k _ "{}"] by (auto simp: Cache_Get lookup_without)
  next
    case (Cache_Set now k v ttl)
    define w where "w = (v, expiry (ca_ttl c) now ttl)"
    have "recent k w {} (contents c1)"
      using s recent_take [OF recent_front [OF d, of k w "{}"], of "ca_max c"] assms(1)
      by (simp add: Cache_Set spec_set_def w_def cache_ok_def)
    then show ?thesis using recent_lookup [of k w "{}" "contents c1"] assms(3) by (simp add: Cache_Set)
  next
    case (Cache_Delete k)
    then have "contents c1 = without_key k (contents c)" using s by simp
    then show ?thesis using assms(3) by (simp add: Cache_Delete lookup_without)
  qed
qed

text \<open>
  C35: A key that was just written or read and is in the cache stays readable until its time to live ends, while
  fewer other keys than the capacity are used after it, in any order, and it is only read itself. Reading it counts as
  a use: what was in the cache before does not matter.
\<close>

theorem recent_keys_survive:
  assumes "cache_ok c" "cache_step x c = (r, c1)" "map_of (contents c1) (op_key x) = Some (v, exp)"
    and "cache_run ops c1 = (rs, c')" "\<forall>y \<in> set ops. spares (op_key x) exp y" "card (other_keys (op_key x) ops) < ca_max c"
    and "case exp of Some t \<Rightarrow> later \<le> t | None \<Rightarrow> True"
  shows "fst (cache_get later (op_key x) c') = Some v"
proof -
  have c1: "cache_ok c1" "ca_max c1 = ca_max c" using step_refines [OF assms(1,2)] by simp_all
  have c': "cache_ok c'" "spec_run (ca_max c) (ca_ttl c1) ops (contents c1) = (rs, contents c')"
    using run_refines [OF c1(1) assms(4)] c1(2) by simp_all
  have "recent (op_key x) (v, exp) ({} \<union> other_keys (op_key x) ops) (contents c')"
    by (rule spared_key_survives [OF used_key_recent [OF assms(1-3)] assms(5) c'(2)]) (use assms(6) in simp_all)
  from recent_lookup [OF this] show ?thesis
    using c'(1) assms(7) by (intro contents_lookup) (auto split: option.splits)
qed

text \<open>A cache of two entries, full: the older key is read, and outlives the write of a third.\<close>

theorem recent_keys_survive_witness:
  "let c = snd (cache_run [Cache_Set 0 ''a'' (7 :: nat) 10, Cache_Set 1 ''b'' 8 0] (new_cache (Some 2) 0));
       c1 = snd (cache_get 2 ''a'' c)
   in fst (cache_get 10 ''a'' (cache_set 3 ''c'' 9 0 c1)) = Some 7"
proof -
  define c where "c = snd (cache_run [Cache_Set 0 ''a'' (7 :: nat) 10, Cache_Set 1 ''b'' 8 0] (new_cache (Some 2) 0))"
  define c1 where "c1 = snd (cache_get 2 ''a'' c)"
  have "cache_run [Cache_Set 0 ''a'' (7 :: nat) 10, Cache_Set 1 ''b'' 8 0] (new_cache (Some 2) 0) = ([None, None], c)"
    unfolding c_def by code_simp
  from run_refines [OF new_cache_ok(1) this] have ok: "cache_ok c" by blast
  have "ca_max c = 2" "cache_step (Cache_Get 2 ''a'') c = (Some 7, c1)" "map_of (contents c1) ''a'' = Some (7, Some 10)"
    unfolding c1_def c_def by code_simp+
  moreover have "other_keys ''a'' [Cache_Set 3 ''c'' (9 :: nat) 0] = {''c''}" by (auto simp: other_keys_def)
  ultimately have "fst (cache_get 10 ''a'' (cache_set 3 ''c'' 9 0 c1)) = Some 7"
    using recent_keys_survive [OF ok, of "Cache_Get 2 ''a''" "Some 7" c1 7 "Some 10" "[Cache_Set 3 ''c'' 9 0]"] by simp
  then show ?thesis unfolding Let_def c1_def c_def .
qed

end
