(* ===== verification/Tool_Cache.thy ===== *)
theory Tool_Cache
  imports Lru_Cache Go_Strings
begin

text \<open>
  The tool cache (\<open>agent/toolcache/toolcache.go\<close>, its policy in \<open>agent/types/cachepolicy.go\<close>): a tool whose results
  are remembered in a cache, with concurrent identical calls collapsed onto one execution. Every caller is a program
  counter between two steps that the code makes under its lock or on the cache; any interleaving of the steps is a run.
  The hash of a key, the copy of a citation's metadata and what the tool returns are arguments. Logs and metrics are
  left out.
\<close>

section \<open>The policy\<close>

record cache_policy =
  cp_enabled :: bool
  cp_ttl :: int
  cp_scope :: string
  cp_key_args :: "string list"
  cp_ignore_args :: "string list"
  cp_vary :: "string list"
  cp_errors :: bool
  cp_stale_on_error :: bool
  cp_max_stale :: int
  cp_max_entries :: int

datatype policy_problem =
  No_Ttl | No_Max_Stale | Sum_Overflows | Negative_Max_Stale | In_Both_Lists string | Unknown_Scope string

text \<open>Durations are \<open>int64\<close>: the third check keeps the sum of the two from overflowing.\<close>

definition validate_policy :: "cache_policy \<Rightarrow> policy_problem option" where
  "validate_policy p =
     (if \<not> cp_enabled p then None
      else if cp_ttl p \<le> 0 then Some No_Ttl
      else if cp_stale_on_error p \<and> cp_max_stale p \<le> 0 then Some No_Max_Stale
      else if 2 ^ 63 - 1 - cp_ttl p < cp_max_stale p then Some Sum_Overflows
      else if cp_max_stale p < 0 then Some Negative_Max_Stale
      else
        (case filter (\<lambda>k. k \<in> set (cp_ignore_args p)) (cp_key_args p) of
           k # _ \<Rightarrow> Some (In_Both_Lists k)
         | [] \<Rightarrow>
             if cp_scope p \<in> {'''', ''global'', ''session'', ''agent'', ''user''} then None
             else Some (Unknown_Scope (cp_scope p))))"

definition effective_scope :: "cache_policy \<Rightarrow> string" where
  "effective_scope p = (if cp_scope p = '''' then ''session'' else cp_scope p)"

definition key_arguments :: "cache_policy \<Rightarrow> string list \<Rightarrow> string list" where
  "key_arguments p args = sort (filter (\<lambda>k. k \<notin> set (cp_ignore_args p)) (if cp_key_args p = [] then args else cp_key_args p))"

section \<open>Wrapping a tool\<close>

datatype wrap_problem =
  Marked_Inside | Bad_Policy policy_problem | No_Cache | Own_Bound | No_Scope_Key string

datatype wrapping = Wrap_Refused wrap_problem | Wrap_Passes | Wrapped cache_policy string

definition wrap_prefix :: "string \<Rightarrow> string \<Rightarrow> string \<Rightarrow> string" where
  "wrap_prefix scope key name = scope @ '':'' @ key @ '':'' @ name"

text \<open>The policy is the tool's own unless the configuration overrides it. The prefix is what the namespace of the keys hashes.\<close>

definition wrap_tool ::
    "string \<Rightarrow> bool \<Rightarrow> cache_policy \<Rightarrow> cache_policy option \<Rightarrow> bool \<Rightarrow> (string, string) gomap \<Rightarrow> wrapping" where
  "wrap_tool name marked declared override cache scope_keys =
     (if marked then Wrap_Refused Marked_Inside
      else
        (let p = (case override of Some q \<Rightarrow> q | None \<Rightarrow> declared)
         in if \<not> cp_enabled p then Wrap_Passes
            else
              (case validate_policy p of
                 Some e \<Rightarrow> Wrap_Refused (Bad_Policy e)
               | None \<Rightarrow>
                   if \<not> cache then Wrap_Refused No_Cache
                   else if cp_max_entries p \<noteq> 0 then Wrap_Refused Own_Bound
                   else if effective_scope p = ''global'' then Wrapped p name
                   else
                     (case map_of scope_keys (effective_scope p) of
                        None \<Rightarrow> Wrap_Refused (No_Scope_Key (effective_scope p))
                      | Some k \<Rightarrow>
                          if k = '''' then Wrap_Refused (No_Scope_Key (effective_scope p))
                          else Wrapped p (wrap_prefix (effective_scope p) k name)))))"

section \<open>The identity of a call\<close>

text \<open>The selected arguments and knobs; a name that is missing adds nothing.\<close>

definition select_named :: "string list \<Rightarrow> (string, 'a) gomap \<Rightarrow> (string \<times> 'a) list" where
  "select_named names m = map (\<lambda>n. (n, the (map_of m n))) (sort (remdups (filter (\<lambda>n. map_of m n \<noteq> None) names)))"

definition call_identity ::
    "cache_policy \<Rightarrow> (string, 'a) gomap \<Rightarrow> (string, 'a) gomap \<Rightarrow> (string \<times> 'a) list \<times> (string \<times> 'a) list" where
  "call_identity p args knobs =
     (select_named (key_arguments p (map fst args)) args, select_named (cp_vary p) knobs)"

section \<open>Results and entries\<close>

record ('p, 'q) tool_output =
  to_parts :: "'p list"
  to_is_error :: bool
  to_citations :: "'q list"

datatype exec_error = Context_Error string | Plain_Error string

fun error_text :: "exec_error \<Rightarrow> string" where
  "error_text (Context_Error s) = s"
| "error_text (Plain_Error s) = s"

definition is_context_err :: "exec_error option \<Rightarrow> bool" where
  "is_context_err e = (case e of Some (Context_Error _) \<Rightarrow> True | _ \<Rightarrow> False)"

type_synonym ('p, 'q) tool_reply = "('p, 'q) tool_output \<times> exec_error option"

definition no_output :: "('p, 'q) tool_output" where
  "no_output = \<lparr>to_parts = [], to_is_error = False, to_citations = []\<rparr>"

record ('p, 'q) cached_entry =
  en_result :: "('p, 'q) tool_output"
  en_stored :: int
  en_expires :: int
  en_err :: string

definition entry_fresh :: "int \<Rightarrow> ('p, 'q) cached_entry \<Rightarrow> bool" where
  "entry_fresh now e = (now < en_expires e)"

definition entry_servable :: "int \<Rightarrow> cache_policy \<Rightarrow> ('p, 'q) cached_entry \<Rightarrow> bool" where
  "entry_servable now p e =
     (if entry_fresh now e then True
      else if \<not> cp_stale_on_error p \<or> cp_max_stale p \<le> 0 then False
      else now < en_expires e + cp_max_stale p)"

fun copy_all :: "('q \<Rightarrow> string + 'q) \<Rightarrow> 'q list \<Rightarrow> string + 'q list" where
  "copy_all copy [] = Inr []"
| "copy_all copy (q # qs) =
     (case copy q of
        Inl e \<Rightarrow> Inl e
      | Inr q' \<Rightarrow> (case copy_all copy qs of Inl e \<Rightarrow> Inl e | Inr qs' \<Rightarrow> Inr (q' # qs')))"

text \<open>Metadata that cannot be encoded makes the copy fail; what was encoded decodes again.\<close>

definition clone_result :: "('q \<Rightarrow> string + 'q) \<Rightarrow> ('p, 'q) tool_output \<Rightarrow> string + ('p, 'q) tool_output" where
  "clone_result copy r =
     (case copy_all copy (to_citations r) of Inl e \<Rightarrow> Inl (''toolcache: citation metadata: '' @ e) | Inr qs \<Rightarrow> Inr (r\<lparr>to_citations := qs\<rparr>))"

definition detached_result :: "('q \<Rightarrow> string + 'q) \<Rightarrow> ('p, 'q) tool_reply \<Rightarrow> ('p, 'q) tool_reply" where
  "detached_result copy r =
     (case clone_result copy (fst r) of Inl e \<Rightarrow> (no_output, Some (Plain_Error e)) | Inr c \<Rightarrow> (c, snd r))"

definition replay_entry :: "('q \<Rightarrow> string + 'q) \<Rightarrow> ('p, 'q) cached_entry \<Rightarrow> ('p, 'q) tool_reply" where
  "replay_entry copy e =
     detached_result copy (en_result e, if en_err e = '''' then None else Some (Plain_Error (en_err e)))"

text \<open>What the wrapped tool does: it returns, a tool without rich results returns text, or it panics.\<close>

datatype ('p, 'q) execution =
  Rich_Returns "('p, 'q) tool_output" "exec_error option" | Text_Returns 'p "exec_error option" | Tool_Panics string

fun executed :: "('p, 'q) execution \<Rightarrow> ('p, 'q) tool_reply" where
  "executed (Rich_Returns r e) = (r, e)"
| "executed (Text_Returns t e) = (\<lparr>to_parts = [t], to_is_error = (e \<noteq> None), to_citations = []\<rparr>, e)"
| "executed (Tool_Panics s) = (no_output, Some (Plain_Error (''toolcache: tool panic: '' @ s)))"

definition failed_reply :: "('p, 'q) tool_reply \<Rightarrow> bool" where
  "failed_reply r = (snd r \<noteq> None \<or> to_is_error (fst r))"

section \<open>Callers\<close>

text \<open>
  The points between the steps of a caller, with its key, the expired entry it keeps in hand, and the number of the
  flight it leads or waits for.
\<close>

datatype ('p, 'q) caller =
  Reading string
| Refreshing string "('p, 'q) cached_entry option"
| Waiting string "('p, 'q) cached_entry option" nat
| Checking string "('p, 'q) cached_entry option" nat
| Executing string "('p, 'q) cached_entry option" nat
| Storing string "('p, 'q) cached_entry option" nat "('p, 'q) tool_reply"
| Deregistering string "('p, 'q) cached_entry option" nat "('p, 'q) tool_reply"
| Closing string "('p, 'q) cached_entry option" nat "('p, 'q) tool_reply"
| Answered string "('p, 'q) tool_reply"

text \<open>A flight holds its reply once it is closed. The keys of the flights and the list of executions are histories that no step reads.\<close>

record ('c, 'p, 'q) tool_cache =
  tc_store :: 'c
  tc_inflight :: "(string, nat) gomap"
  tc_flights :: "('p, 'q) tool_reply option list"
  tc_callers :: "('p, 'q) caller list"
  tc_flight_keys :: "string list"
  tc_history :: "(string \<times> ('p, 'q) tool_reply) list"

record ('c, 'p, 'q) cached_tool =
  ct_policy :: cache_policy
  ct_copy :: "'q \<Rightarrow> string + 'q"
  ct_get :: "int \<Rightarrow> string \<Rightarrow> 'c \<Rightarrow> (string + ('p, 'q) cached_entry option) \<times> 'c"
  ct_set :: "int \<Rightarrow> string \<Rightarrow> ('p, 'q) cached_entry \<Rightarrow> int \<Rightarrow> 'c \<Rightarrow> 'c"

text \<open>What a step sees: the clock, whether the caller's context has ended, the wake-up it takes when both are ready, and what the tool does.\<close>

record ('p, 'q) sight =
  si_now :: int
  si_ended :: "string option"
  si_flight_first :: bool
  si_execution :: "('p, 'q) execution"

definition new_tool_cache :: "'c \<Rightarrow> ('c, 'p, 'q) tool_cache" where
  "new_tool_cache store = \<lparr>tc_store = store, tc_inflight = [], tc_flights = [], tc_callers = [], tc_flight_keys = [], tc_history = []\<rparr>"

text \<open>The end of a call: a failed refresh may fall back on the expired entry in hand.\<close>

definition finish_call ::
    "('c, 'p, 'q) cached_tool \<Rightarrow> ('p, 'q) sight \<Rightarrow> ('p, 'q) cached_entry option \<Rightarrow> ('p, 'q) tool_reply \<Rightarrow> ('p, 'q) tool_reply" where
  "finish_call t m stale r =
     (case stale of
        None \<Rightarrow> r
      | Some e \<Rightarrow>
          if failed_reply r \<and> si_ended m = None \<and> en_err e = '''' \<and> \<not> to_is_error (en_result e) \<and>
             entry_servable (si_now m) (ct_policy t) e
          then replay_entry (ct_copy t) e
          else r)"

definition store_reply ::
    "('c, 'p, 'q) cached_tool \<Rightarrow> int \<Rightarrow> string \<Rightarrow> ('p, 'q) tool_reply \<Rightarrow> 'c \<Rightarrow> 'c" where
  "store_reply t now key r c =
     (let p = ct_policy t
      in if failed_reply r \<and> (\<not> cp_errors p \<or> cp_stale_on_error p) then c
         else
           (case clone_result (ct_copy t) (fst r) of
              Inl _ \<Rightarrow> c
            | Inr res \<Rightarrow>
                ct_set t now key
                  \<lparr>en_result = res, en_stored = now, en_expires = now + cp_ttl p,
                   en_err = (case snd r of None \<Rightarrow> '''' | Some e \<Rightarrow> error_text e)\<rparr>
                  (cp_ttl p + (if cp_stale_on_error p then cp_max_stale p else 0)) c))"

definition goto ::
    "nat \<Rightarrow> ('p, 'q) caller \<Rightarrow> ('c, 'p, 'q) tool_cache \<Rightarrow> ('c, 'p, 'q) tool_cache" where
  "goto i pc s = s\<lparr>tc_callers := (tc_callers s)[i := pc]\<rparr>"

text \<open>The first lookup.\<close>

definition read_step ::
    "('c, 'p, 'q) cached_tool \<Rightarrow> ('p, 'q) sight \<Rightarrow> nat \<Rightarrow> string \<Rightarrow> ('c, 'p, 'q) tool_cache \<Rightarrow> ('c, 'p, 'q) tool_cache" where
  "read_step t m i key s =
     (case ct_get t (si_now m) key (tc_store s) of (r, c) \<Rightarrow>
        goto i
          (case r of
             Inr (Some e) \<Rightarrow>
               if entry_fresh (si_now m) e then Answered key (replay_entry (ct_copy t) e) else Refreshing key (Some e)
           | _ \<Rightarrow> Refreshing key None)
          (s\<lparr>tc_store := c\<rparr>))"

text \<open>Under the lock: join the flight of the key, or lead a new one.\<close>

definition join_step ::
    "nat \<Rightarrow> string \<Rightarrow> ('p, 'q) cached_entry option \<Rightarrow> ('c, 'p, 'q) tool_cache \<Rightarrow> ('c, 'p, 'q) tool_cache" where
  "join_step i key stale s =
     (case map_of (tc_inflight s) key of
        Some f \<Rightarrow> goto i (Waiting key stale f) s
      | None \<Rightarrow>
          (let f = length (tc_flights s)
           in goto i (Checking key stale f)
                (s\<lparr>tc_inflight := AList.update key f (tc_inflight s), tc_flights := tc_flights s @ [None],
                  tc_flight_keys := tc_flight_keys s @ [key]\<rparr>)))"

text \<open>A follower waits for the flight or the end of its own context. The end of the leader's context is not adopted.\<close>

definition wait_step ::
    "('c, 'p, 'q) cached_tool \<Rightarrow> ('p, 'q) sight \<Rightarrow> nat \<Rightarrow> string \<Rightarrow> ('p, 'q) cached_entry option \<Rightarrow> nat \<Rightarrow>
     ('c, 'p, 'q) tool_cache \<Rightarrow> ('c, 'p, 'q) tool_cache" where
  "wait_step t m i key stale f s =
     (case (tc_flights s ! f, si_ended m) of
        (None, None) \<Rightarrow> s
      | (None, Some e) \<Rightarrow> goto i (Answered key (finish_call t m stale (no_output, Some (Context_Error e)))) s
      | (Some r, ended) \<Rightarrow>
          if ended \<noteq> None \<and> \<not> si_flight_first m
          then goto i (Answered key (finish_call t m stale (no_output, Some (Context_Error (the ended))))) s
          else if is_context_err (snd r) \<and> ended = None then goto i (Refreshing key stale) s
          else goto i (Answered key (finish_call t m stale (detached_result (ct_copy t) r))) s)"

text \<open>The leader looks again, since an earlier leader may have stored the entry meanwhile.\<close>

definition check_step ::
    "('c, 'p, 'q) cached_tool \<Rightarrow> ('p, 'q) sight \<Rightarrow> nat \<Rightarrow> string \<Rightarrow> ('p, 'q) cached_entry option \<Rightarrow> nat \<Rightarrow>
     ('c, 'p, 'q) tool_cache \<Rightarrow> ('c, 'p, 'q) tool_cache" where
  "check_step t m i key stale f s =
     (case ct_get t (si_now m) key (tc_store s) of (r, c) \<Rightarrow>
        goto i
          (case r of
             Inr (Some e) \<Rightarrow>
               if entry_fresh (si_now m) e then Deregistering key stale f (replay_entry (ct_copy t) e)
               else Executing key stale f
           | _ \<Rightarrow> Executing key stale f)
          (s\<lparr>tc_store := c\<rparr>))"

definition execute_step ::
    "('c, 'p, 'q) cached_tool \<Rightarrow> ('p, 'q) sight \<Rightarrow> nat \<Rightarrow> string \<Rightarrow> ('p, 'q) cached_entry option \<Rightarrow> nat \<Rightarrow>
     ('c, 'p, 'q) tool_cache \<Rightarrow> ('c, 'p, 'q) tool_cache" where
  "execute_step t m i key stale f s =
     (let r = executed (si_execution m)
      in goto i (Storing key stale f (detached_result (ct_copy t) r)) (s\<lparr>tc_history := (key, r) # tc_history s\<rparr>))"

fun caller_step ::
    "('c, 'p, 'q) cached_tool \<Rightarrow> ('p, 'q) sight \<Rightarrow> nat \<Rightarrow> ('p, 'q) caller \<Rightarrow> ('c, 'p, 'q) tool_cache \<Rightarrow> ('c, 'p, 'q) tool_cache" where
  "caller_step t m i (Reading key) s = read_step t m i key s"
| "caller_step t m i (Refreshing key stale) s = join_step i key stale s"
| "caller_step t m i (Waiting key stale f) s = wait_step t m i key stale f s"
| "caller_step t m i (Checking key stale f) s = check_step t m i key stale f s"
| "caller_step t m i (Executing key stale f) s = execute_step t m i key stale f s"
| "caller_step t m i (Storing key stale f r) s =
     goto i (Deregistering key stale f r) (s\<lparr>tc_store := store_reply t (si_now m) key r (tc_store s)\<rparr>)"
| "caller_step t m i (Deregistering key stale f r) s =
     goto i (Closing key stale f r) (s\<lparr>tc_inflight := AList.delete key (tc_inflight s)\<rparr>)"
| "caller_step t m i (Closing key stale f r) s =
     goto i (Answered key (finish_call t m stale (detached_result (ct_copy t) r))) (s\<lparr>tc_flights := (tc_flights s)[f := Some r]\<rparr>)"
| "caller_step t m i (Answered key r) s = s"

text \<open>A call arrives with its key, or with the error of encoding it; its context may have ended before.\<close>

datatype ('p, 'q) cache_event = Arrives "string option" "exec_error + string" | Advances nat "('p, 'q) sight"

definition arrival :: "string option \<Rightarrow> exec_error + string \<Rightarrow> ('p, 'q) caller" where
  "arrival ended key =
     (case ended of
        Some e \<Rightarrow> Answered '''' (no_output, Some (Context_Error e))
      | None \<Rightarrow> (case key of Inl e \<Rightarrow> Answered '''' (no_output, Some e) | Inr k \<Rightarrow> Reading k))"

fun cache_event_step ::
    "('c, 'p, 'q) cached_tool \<Rightarrow> ('p, 'q) cache_event \<Rightarrow> ('c, 'p, 'q) tool_cache \<Rightarrow> ('c, 'p, 'q) tool_cache" where
  "cache_event_step t (Arrives ended key) s = s\<lparr>tc_callers := tc_callers s @ [arrival ended key]\<rparr>"
| "cache_event_step t (Advances i m) s =
     (if i < length (tc_callers s) then caller_step t m i (tc_callers s ! i) s else s)"

definition run_tool_cache ::
    "('c, 'p, 'q) cached_tool \<Rightarrow> ('p, 'q) cache_event list \<Rightarrow> ('c, 'p, 'q) tool_cache \<Rightarrow> ('c, 'p, 'q) tool_cache" where
  "run_tool_cache t es s = fold (cache_event_step t) es s"

end
