(* ===== verification/Tool_Flights.thy ===== *)
theory Tool_Flights
  imports Tool_Cache
begin

text \<open>
  The flights of the tool cache (\<open>agent/toolcache/toolcache.go\<close>), whatever the tool does and however the steps of its
  callers interleave: one execution of a key at a time, no caller left waiting, and every execution that somebody leads
  is finished. Nothing here depends on what the cache answers.
\<close>

section \<open>Flights\<close>

fun leads :: "('p, 'q) caller \<Rightarrow> (string \<times> nat) option" where
  "leads (Checking k st f) = Some (k, f)"
| "leads (Executing k st f) = Some (k, f)"
| "leads (Storing k st f r) = Some (k, f)"
| "leads (Deregistering k st f r) = Some (k, f)"
| "leads pc = None"

fun works :: "('p, 'q) caller \<Rightarrow> nat option" where
  "works (Closing k st f r) = Some f"
| "works pc = map_option snd (leads pc)"

fun awaits :: "('p, 'q) caller \<Rightarrow> nat option" where
  "awaits (Waiting k st f) = Some f"
| "awaits pc = None"

text \<open>A view of all callers at once.\<close>

definition seen :: "(('p, 'q) caller \<Rightarrow> 'x option) \<Rightarrow> ('p, 'q) caller list \<Rightarrow> nat \<Rightarrow> 'x option" where
  "seen v cs i = (if i < length cs then v (cs ! i) else None)"

lemma seen_update [simp]: "i < length cs \<Longrightarrow> seen v (cs[i := pc]) = (seen v cs)(i := v pc)"
  by (auto simp: seen_def fun_eq_iff)

lemma seen_snoc [simp]: "seen v (cs @ [pc]) = (seen v cs)(length cs := v pc)"
  by (auto simp: seen_def fun_eq_iff nth_append)

lemma seen_at: "i < length cs \<Longrightarrow> seen v cs i = v (cs ! i)"
  by (simp add: seen_def)

text \<open>
  The registered flights are exactly those of the leaders, every open flight has one caller working on it, and
  followers wait for flights that exist.
\<close>

definition flights_ok :: "(string, nat) gomap \<Rightarrow> 'x option list \<Rightarrow> (nat \<Rightarrow> (string \<times> nat) option) \<Rightarrow> (nat \<Rightarrow> nat option) \<Rightarrow> (nat \<Rightarrow> nat option) \<Rightarrow> bool" where
  "flights_ok inflight flights L W A =
     ((\<forall>k f. map_of inflight k = Some f \<longleftrightarrow> (\<exists>i. L i = Some (k, f))) \<and>
      (\<forall>i k f. L i = Some (k, f) \<longrightarrow> W i = Some f) \<and>
      (\<forall>i f. W i = Some f \<longrightarrow> f < length flights \<and> flights ! f = None) \<and>
      (\<forall>i j f. W i = Some f \<longrightarrow> W j = Some f \<longrightarrow> i = j) \<and>
      (\<forall>f < length flights. flights ! f = None \<longrightarrow> (\<exists>i. W i = Some f)) \<and>
      (\<forall>i f. A i = Some f \<longrightarrow> f < length flights))"

definition cache_flights :: "('c, 'p, 'q) tool_cache \<Rightarrow> bool" where
  "cache_flights s =
     flights_ok (tc_inflight s) (tc_flights s) (seen leads (tc_callers s)) (seen works (tc_callers s)) (seen awaits (tc_callers s))"

lemma leads_works: "leads pc = Some (k, f) \<Longrightarrow> works pc = Some f"
  by (cases pc) simp_all

lemma goto_simps [simp]:
  "tc_callers (goto i pc s) = (tc_callers s)[i := pc]" "tc_flights (goto i pc s) = tc_flights s"
  "tc_inflight (goto i pc s) = tc_inflight s" "tc_store (goto i pc s) = tc_store s"
  "tc_flight_keys (goto i pc s) = tc_flight_keys s" "tc_history (goto i pc s) = tc_history s"
  by (simp_all add: goto_def)

lemma flights_okI:
  assumes "\<And>k f. map_of m k = Some f \<longleftrightarrow> (\<exists>i. L i = Some (k, f))" "\<And>i k f. L i = Some (k, f) \<Longrightarrow> W i = Some f"
    and "\<And>i f. W i = Some f \<Longrightarrow> f < length fs \<and> fs ! f = None" "\<And>i j f. W i = Some f \<Longrightarrow> W j = Some f \<Longrightarrow> i = j"
    and "\<And>f. f < length fs \<Longrightarrow> fs ! f = None \<Longrightarrow> \<exists>i. W i = Some f" "\<And>i f. A i = Some f \<Longrightarrow> f < length fs"
  shows "flights_ok m fs L W A"
  using assms unfolding flights_ok_def by blast

lemma flights_okD:
  assumes "flights_ok m fs L W A"
  shows "map_of m k = Some f \<longleftrightarrow> (\<exists>i. L i = Some (k, f))" "L i = Some (k, f) \<Longrightarrow> W i = Some f"
    "W i = Some f \<Longrightarrow> f < length fs" "W i = Some f \<Longrightarrow> fs ! f = None" "W i = Some f \<Longrightarrow> W j = Some f \<Longrightarrow> i = j"
    "f < length fs \<Longrightarrow> fs ! f = None \<Longrightarrow> \<exists>i. W i = Some f" "A i = Some f \<Longrightarrow> f < length fs"
  using assms unfolding flights_ok_def by blast+

lemma ex_new: "L i = None \<Longrightarrow> (\<exists>j. (L(i := z)) j = Some x) = (z = Some x \<or> (\<exists>j. L j = Some x))"
  by (metis fun_upd_apply option.distinct(1))

lemma ex_gone: "(\<exists>j. (L(i := None)) j = Some x) = (\<exists>j. j \<noteq> i \<and> L j = Some x)"
  by (metis fun_upd_apply option.distinct(1))

lemma register_flights:
  assumes ok: "flights_ok m fs L W A" and w: "W i = None" and k: "map_of m k = None"
  shows "flights_ok (AList.update k (length fs) m) (fs @ [None]) (L(i := Some (k, length fs))) (W(i := Some (length fs))) (A(i := None))"
proof (rule flights_okI)
  note d = flights_okD [OF ok]
  have l: "L i = None" using d(2) [of i] w by (metis option.distinct(1) not_None_eq surj_pair)
  have free: "L j \<noteq> Some (k, f)" for j f using d(1) k by (metis option.distinct(1))
  fix k' f j j'
  show "map_of (AList.update k (length fs) m) k' = Some f \<longleftrightarrow> (\<exists>j. (L(i := Some (k, length fs))) j = Some (k', f))"
    unfolding ex_new [where L = L and i = i, OF l] using d(1) [of k' f] free by (cases "k' = k") auto
  show "(L(i := Some (k, length fs))) j = Some (k', f) \<Longrightarrow> (W(i := Some (length fs))) j = Some f"
    using d(2) by (auto split: if_splits)
  show "(W(i := Some (length fs))) j = Some f \<Longrightarrow> f < length (fs @ [None]) \<and> (fs @ [None]) ! f = None"
    using d(3,4) [of j f] by (auto simp: nth_append split: if_splits)
  show "(W(i := Some (length fs))) j = Some f \<Longrightarrow> (W(i := Some (length fs))) j' = Some f \<Longrightarrow> j = j'"
    using d(3) [of j f] d(3) [of j' f] d(5) [of j f j'] by (auto split: if_splits)
  show "f < length (fs @ [None]) \<Longrightarrow> (fs @ [None]) ! f = None \<Longrightarrow> \<exists>j. (W(i := Some (length fs))) j = Some f"
    unfolding ex_new [where L = W and i = i, OF w] using d(6) [of f] by (cases "f = length fs") (auto simp: nth_append)
  show "(A(i := None)) j = Some f \<Longrightarrow> f < length (fs @ [None])" using d(7) [of j f] by (auto split: if_splits)
qed

lemma deregister_flights:
  assumes ok: "flights_ok m fs L W A" and l: "L i = Some (k, f)"
  shows "flights_ok (AList.delete k m) fs (L(i := None)) (W(i := Some f)) (A(i := None))"
proof (rule flights_okI)
  note d = flights_okD [OF ok]
  have w: "W(i := Some f) = W" using d(2) [OF l] by (rule fun_upd_idem)
  have only: "L j = Some (k, g) \<Longrightarrow> j = i" for j g using d(1) [of k] d(2,5) l by (metis option.inject)
  fix k' g j j'
  show "map_of (AList.delete k m) k' = Some g \<longleftrightarrow> (\<exists>j. (L(i := None)) j = Some (k', g))"
  proof (cases "k' = k")
    case True
    then show ?thesis unfolding ex_gone using only by auto
  next
    case False
    then have "j \<noteq> i" if "L j = Some (k', g)" for j using that l by auto
    then show ?thesis unfolding ex_gone using d(1) [of k' g] False by auto
  qed
  show "(L(i := None)) j = Some (k', g) \<Longrightarrow> (W(i := Some f)) j = Some g" using d(2) by (auto split: if_splits)
  show "(W(i := Some f)) j = Some g \<Longrightarrow> g < length fs \<and> fs ! g = None" using d(3,4) [of j g] by (simp add: w)
  show "(W(i := Some f)) j = Some g \<Longrightarrow> (W(i := Some f)) j' = Some g \<Longrightarrow> j = j'" using d(5) [of j g j'] by (simp add: w)
  show "g < length fs \<Longrightarrow> fs ! g = None \<Longrightarrow> \<exists>j. (W(i := Some f)) j = Some g" using d(6) [of g] by (simp add: w)
  show "(A(i := None)) j = Some g \<Longrightarrow> g < length fs" using d(7) [of j g] by (auto split: if_splits)
qed

lemma close_flights:
  assumes ok: "flights_ok m fs L W A" and l: "L i = None" and w: "W i = Some f"
  shows "flights_ok m (fs[f := Some r]) (L(i := None)) (W(i := None)) (A(i := None))"
proof (rule flights_okI)
  note d = flights_okD [OF ok]
  have l': "L(i := None) = L" using l by (rule fun_upd_idem)
  have other: "(W(i := None)) j = Some g \<longleftrightarrow> W j = Some g \<and> g \<noteq> f" for j g using d(5) [of j f i] w
    by (cases "j = i") (auto simp del: not_None_eq)
  fix k g j j'
  show "map_of m k = Some g \<longleftrightarrow> (\<exists>j. (L(i := None)) j = Some (k, g))" using d(1) by (simp add: l')
  show "(L(i := None)) j = Some (k, g) \<Longrightarrow> (W(i := None)) j = Some g" using d(2) l by (auto split: if_splits)
  show "(W(i := None)) j = Some g \<Longrightarrow> g < length (fs[f := Some r]) \<and> fs[f := Some r] ! g = None"
    unfolding other using d(3,4) [of j g] by simp
  show "(W(i := None)) j = Some g \<Longrightarrow> (W(i := None)) j' = Some g \<Longrightarrow> j = j'" 
    unfolding other using d(5) [of j g j'] by blast
  show "g < length (fs[f := Some r]) \<Longrightarrow> fs[f := Some r] ! g = None \<Longrightarrow> \<exists>j. (W(i := None)) j = Some g"
    unfolding other using d(6) [of g] by (cases "g = f") auto
  show "(A(i := None)) j = Some g \<Longrightarrow> g < length (fs[f := Some r])" using d(7) [of j g] by (auto split: if_splits)
qed

lemma quiet_flights:
  assumes ok: "flights_ok m fs L W A" and a: "\<And>f. a = Some f \<Longrightarrow> f < length fs" and "l = L i" "w = W i"
  shows "flights_ok m fs (L(i := l)) (W(i := w)) (A(i := a))"
proof -
  have "L(i := l) = L" "W(i := w) = W" using assms(3,4) by (simp_all add: fun_upd_idem)
  moreover have "(A(i := a)) j = Some f \<Longrightarrow> f < length fs" for j f using flights_okD(7) [OF ok, of j f] a by (auto split: if_splits)
  ultimately show ?thesis using ok unfolding flights_ok_def by simp
qed

text \<open>Every step of a run keeps the flights in order.\<close>

lemma cache_flights_goto:
  assumes "flights_ok (tc_inflight s) (tc_flights s) ((seen leads (tc_callers s))(i := leads pc)) ((seen works (tc_callers s))(i := works pc))
      ((seen awaits (tc_callers s))(i := awaits pc))" "i < length (tc_callers s)"
  shows "cache_flights (goto i pc s)"
  using assms by (simp add: cache_flights_def)

lemma quiet_goto:
  assumes "cache_flights s" "i < length (tc_callers s)"
    and "leads pc = leads (tc_callers s ! i)" "works pc = works (tc_callers s ! i)"
    and "\<And>f. awaits pc = Some f \<Longrightarrow> f < length (tc_flights s)"
    and "tc_callers s' = tc_callers s" "tc_inflight s' = tc_inflight s" "tc_flights s' = tc_flights s"
  shows "cache_flights (goto i pc s')"
  by (rule cache_flights_goto)
    (use assms in \<open>auto simp: cache_flights_def seen_at intro!: quiet_flights\<close>)

lemma caller_step_flights:
  assumes ok: "cache_flights s" and i: "i < length (tc_callers s)"
  shows "cache_flights (caller_step t m i (tc_callers s ! i) s)"
proof -
  note quiet = quiet_goto [OF ok i]
  show ?thesis
  proof (cases "tc_callers s ! i")
    case (Refreshing k st)
    show ?thesis
    proof (cases "map_of (tc_inflight s) k")
      case None
      show ?thesis
        using register_flights [OF ok [unfolded cache_flights_def] _ None, of i] i Refreshing
        by (simp add: join_step_def None Let_def cache_flights_def goto_def seen_at)
    next
      case (Some f)
      then have "f < length (tc_flights s)" using ok unfolding cache_flights_def flights_ok_def by metis
      then show ?thesis using Some Refreshing by (auto simp: join_step_def intro!: quiet)
    qed
  next
    case (Waiting k st f)
    then have "seen awaits (tc_callers s) i = Some f" using i by (simp add: seen_at)
    then have "f < length (tc_flights s)" by (rule flights_okD(7) [OF ok [unfolded cache_flights_def]])
    then show ?thesis using Waiting ok
      by (auto simp: wait_step_def split: option.splits intro!: quiet)
  next
    case (Deregistering k st f r)
    then show ?thesis using deregister_flights [OF ok [unfolded cache_flights_def], of i k f] i
      by (simp add: cache_flights_def goto_def seen_at)
  next
    case (Closing k st f r)
    then show ?thesis using close_flights [OF ok [unfolded cache_flights_def], of i f] i
      by (simp add: cache_flights_def goto_def seen_at)
  qed (use i ok in \<open>auto simp: read_step_def check_step_def execute_step_def Let_def intro!: quiet split: prod.splits sum.splits option.splits\<close>)
qed

lemma arrival_idle [simp]:
  "leads (arrival ended key) = None" "works (arrival ended key) = None" "awaits (arrival ended key) = None"
  by (simp_all add: arrival_def split: option.split sum.split)

lemma event_flights: "cache_flights s \<Longrightarrow> cache_flights (cache_event_step t x s)"
proof (cases x)
  case (Arrives ended key)
  assume ok: "cache_flights s"
  have "seen leads (tc_callers s) (length (tc_callers s)) = None" "seen works (tc_callers s) (length (tc_callers s)) = None"
    by (simp_all add: seen_def)
  then show ?thesis
    using quiet_flights [OF ok [unfolded cache_flights_def], of None None "length (tc_callers s)" None]
    by (simp add: Arrives cache_flights_def)
next
  case (Advances i m)
  assume "cache_flights s"
  then show ?thesis by (simp add: Advances caller_step_flights)
qed

lemma new_flights: "cache_flights (new_tool_cache c)"
  by (simp add: cache_flights_def flights_ok_def new_tool_cache_def seen_def)

lemma run_flights: "cache_flights s \<Longrightarrow> cache_flights (run_tool_cache t es s)"
  unfolding run_tool_cache_def by (induction es arbitrary: s) (simp_all add: event_flights)

definition executing :: "string \<Rightarrow> ('p, 'q) caller \<Rightarrow> bool" where
  "executing k pc = (case pc of Executing j st f \<Rightarrow> j = k | _ \<Rightarrow> False)"

text \<open>A follower's flight is closed, or somebody works on it.\<close>

definition attended :: "('c, 'p, 'q) tool_cache \<Rightarrow> ('p, 'q) caller \<Rightarrow> bool" where
  "attended s pc =
     (case awaits pc of None \<Rightarrow> True | Some f \<Rightarrow> tc_flights s ! f \<noteq> None \<or> (\<exists>w \<in> set (tc_callers s). works w = Some f))"

text \<open>
  C37: However the steps of any callers interleave, at most one of them executes the tool for a key at any time, and
  every caller that waits for another's execution waits for one that is finished or still being worked on.
\<close>

theorem one_execution_per_key:
  "let s = run_tool_cache t es (new_tool_cache c)
   in length (filter (executing k) (tc_callers s)) \<le> 1 \<and> list_all (attended s) (tc_callers s)"
proof -
  define s where "s = run_tool_cache t es (new_tool_cache c)"
  have ok: "flights_ok (tc_inflight s) (tc_flights s) (seen leads (tc_callers s)) (seen works (tc_callers s)) (seen awaits (tc_callers s))"
    using run_flights [OF new_flights] by (simp add: s_def flip: cache_flights_def)
  note d = flights_okD [OF ok]
  have lead: "i < length (tc_callers s) \<Longrightarrow> executing k (tc_callers s ! i) \<Longrightarrow> \<exists>f. seen leads (tc_callers s) i = Some (k, f)" for i
    by (cases "tc_callers s ! i") (simp_all add: executing_def seen_at)
  have "i = j" if ij: "i < length (tc_callers s)" "j < length (tc_callers s)" "executing k (tc_callers s ! i)" "executing k (tc_callers s ! j)" for i j
  proof -
    obtain f g where f: "seen leads (tc_callers s) i = Some (k, f)" and g: "seen leads (tc_callers s) j = Some (k, g)"
      using lead [OF ij(1,3)] lead [OF ij(2,4)] by blast
    then have "map_of (tc_inflight s) k = Some f" "map_of (tc_inflight s) k = Some g" using d(1) by blast+
    then show ?thesis using d(5) [OF d(2) [OF f], of j] d(2) [OF g] by simp
  qed
  then have "length (filter (executing k) (tc_callers s)) \<le> 1" by (rule single_filter)
  moreover have "attended s pc" if pc: "pc \<in> set (tc_callers s)" for pc
  proof (cases "awaits pc")
    case (Some f)
    obtain i where "i < length (tc_callers s)" "tc_callers s ! i = pc" using pc by (metis in_set_conv_nth)
    then have "f < length (tc_flights s)" using Some by (intro d(7) [of i]) (simp add: seen_at)
    have "\<exists>w \<in> set (tc_callers s). works w = Some f" if "seen works (tc_callers s) j = Some f" for j
      using that by (auto simp: seen_def split: if_splits)
    then show ?thesis using d(6) [OF \<open>f < length (tc_flights s)\<close>] Some unfolding attended_def by fastforce
  qed (simp add: attended_def)
  ultimately show ?thesis by (simp add: Let_def list_all_iff flip: s_def)
qed

section \<open>Progress\<close>

text \<open>The steps a working caller has left, and the steps of a caller in a run.\<close>

fun steps_left :: "('p, 'q) caller \<Rightarrow> nat" where
  "steps_left (Checking k st f) = 5"
| "steps_left (Executing k st f) = 4"
| "steps_left (Storing k st f r) = 3"
| "steps_left (Deregistering k st f r) = 2"
| "steps_left (Closing k st f r) = 1"
| "steps_left pc = 0"

definition steps_of :: "nat \<Rightarrow> ('p, 'q) cache_event list \<Rightarrow> nat" where
  "steps_of i es = length (filter (\<lambda>e. case e of Advances j m \<Rightarrow> j = i | Arrives _ _ \<Rightarrow> False) es)"

definition is_answered :: "('p, 'q) caller \<Rightarrow> bool" where
  "is_answered pc = (case pc of Answered k r \<Rightarrow> True | _ \<Rightarrow> False)"

text \<open>A flight's worker either still works on it, with one step fewer for each it made, or has closed it and is answered.\<close>

definition landing :: "nat \<Rightarrow> nat \<Rightarrow> nat \<Rightarrow> ('c, 'p, 'q) tool_cache \<Rightarrow> bool" where
  "landing i f n s =
     (i < length (tc_callers s) \<and> f < length (tc_flights s) \<and>
      (if is_answered (tc_callers s ! i) then tc_flights s ! f \<noteq> None
       else works (tc_callers s ! i) = Some f \<and> steps_left (tc_callers s ! i) \<le> n))"

lemma worker_steps: "works pc = Some f \<Longrightarrow> 0 < steps_left pc"
  by (cases pc) simp_all

lemma other_callers: "j \<noteq> i \<Longrightarrow> tc_callers (caller_step t m i pc s) ! j = tc_callers s ! j"
  by (cases pc) (auto simp: read_step_def join_step_def wait_step_def check_step_def execute_step_def Let_def split: prod.splits option.splits)

lemma step_sizes: "length (tc_callers (caller_step t m i pc s)) = length (tc_callers s)"
    "length (tc_flights s) \<le> length (tc_flights (caller_step t m i pc s))"
  by (cases pc; auto simp: read_step_def join_step_def wait_step_def check_step_def execute_step_def Let_def split: prod.splits option.splits)+

lemma closed_update: "f < length fs \<Longrightarrow> fs ! f \<noteq> None \<Longrightarrow> fs[g := Some r] ! f \<noteq> None"
  by (cases "g = f") simp_all

lemma closed_stays: "f < length (tc_flights s) \<Longrightarrow> tc_flights s ! f \<noteq> None \<Longrightarrow> tc_flights (caller_step t m i pc s) ! f \<noteq> None"
proof (cases pc)
  case (Closing k st g r)
  assume "f < length (tc_flights s)" "tc_flights s ! f \<noteq> None"
  then show ?thesis using closed_update [of f "tc_flights s" g r] by (simp add: Closing del: not_None_eq)
qed (auto simp: read_step_def join_step_def wait_step_def check_step_def execute_step_def Let_def nth_append
      split: prod.splits option.splits)

lemma own_step:
  assumes "works (tc_callers s ! i) = Some f" "i < length (tc_callers s)" "f < length (tc_flights s)" "steps_left (tc_callers s ! i) \<le> Suc n"
  shows "landing i f n (caller_step t m i (tc_callers s ! i) s)"
  using assms
  by (cases "tc_callers s ! i")
    (auto simp: landing_def is_answered_def check_step_def execute_step_def Let_def split: prod.splits sum.splits option.splits)

lemma event_landing:
  assumes "landing i f (if (case e of Advances j m \<Rightarrow> j = i | Arrives _ _ \<Rightarrow> False) then Suc n else n) s"
  shows "landing i f n (cache_event_step t e s)"
proof (cases e)
  case (Arrives ended key)
  then show ?thesis using assms by (simp add: landing_def nth_append)
next
  case (Advances j m)
  have l: "i < length (tc_callers s)" using assms by (simp add: landing_def)
  define s' where "s' = caller_step t m j (tc_callers s ! j) s"
  consider "\<not> j < length (tc_callers s)" | "j < length (tc_callers s)" "tc_callers s' ! i = tc_callers s ! i" "j \<noteq> i \<or> is_answered (tc_callers s ! i)"
    | "j = i" "\<not> is_answered (tc_callers s ! i)"
  proof -
    have "tc_callers s' ! i = tc_callers s ! i" if "j \<noteq> i \<or> is_answered (tc_callers s ! i)"
      using that other_callers [of i j t m "tc_callers s ! j" s]
      by (cases "j = i") (auto simp: s'_def is_answered_def split: caller.splits)
    then show ?thesis using that by blast
  qed
  then show ?thesis
  proof cases
    case 1
    then show ?thesis using assms l by (auto simp: Advances landing_def split: if_splits)
  next
    case 2
    have "i < length (tc_callers s')" "f < length (tc_flights s')"
      using assms step_sizes [where t = t and m = m and i = j and s = s and pc = "tc_callers s ! j"] by (auto simp: landing_def s'_def)
    then show ?thesis using assms 2 closed_stays [of f s t m j "tc_callers s ! j"]
      by (simp add: landing_def Advances flip: s'_def split: if_splits)
  next
    case 3
    then show ?thesis using assms own_step [of s i f n t m] l by (simp add: Advances landing_def)
  qed
qed

lemma run_landing: "landing i f (n + steps_of i es) s \<Longrightarrow> landing i f n (run_tool_cache t es s)"
proof (induction es arbitrary: s)
  case (Cons e es)
  then have "landing i f (n + steps_of i es) (cache_event_step t e s)"
    by (intro event_landing) (simp add: steps_of_def split: if_splits)
  then show ?case using Cons.IH by (simp add: run_tool_cache_def)
qed (simp add: steps_of_def run_tool_cache_def)

text \<open>
  Whoever leads the execution of a key finishes it within five steps of its own, whatever the tool does and however
  the steps of others interleave: it is answered, and its flight is closed, so the callers that wait for it go on.
\<close>

theorem every_flight_lands:
  assumes "s = run_tool_cache t before (new_tool_cache c)" "i < length (tc_callers s)" "works (tc_callers s ! i) = Some f"
    and "5 \<le> steps_of i es"
  shows "is_answered (tc_callers (run_tool_cache t es s) ! i) \<and> tc_flights (run_tool_cache t es s) ! f \<noteq> None"
proof -
  have "cache_flights s" unfolding assms(1) by (rule run_flights [OF new_flights])
  then have "f < length (tc_flights s)"
    using flights_okD(3) [of _ _ _ _ _ i f] assms(2,3) by (fastforce simp: cache_flights_def seen_at)
  moreover have "steps_left (tc_callers s ! i) \<le> 5" "\<not> is_answered (tc_callers s ! i)"
    using assms(3) by (cases "tc_callers s ! i"; simp add: is_answered_def)+
  ultimately have "landing i f (0 + steps_of i es) s" using assms(2-4) by (simp add: landing_def)
  from run_landing [OF this, of t] show ?thesis
    using worker_steps [of "tc_callers (run_tool_cache t es s) ! i" f] by (auto simp: landing_def split: if_splits)
qed

end
