(* ===== verification/Tool_Cache_Properties.thy ===== *)
theory Tool_Cache_Properties
  imports Tool_Flights
begin

text \<open>
  Where the answers of the tool cache come from (\<open>agent/toolcache/toolcache.go\<close>). The invariant is proved over any
  cache that keeps the contract, and used for the in-memory one. The last section shows what happens to the end of a
  caller's context when the policy caches failures.
\<close>

section \<open>Where answers come from\<close>

definition copy_of :: "('q \<Rightarrow> string + 'q) \<Rightarrow> ('p, 'q) tool_output \<Rightarrow> ('p, 'q) tool_output \<Rightarrow> bool" where
  "copy_of copy = (\<lambda>r r'. clone_result copy r = Inr r')\<^sup>*\<^sup>*"

text \<open>What an error says; a success says nothing.\<close>

definition told :: "exec_error option \<Rightarrow> string" where
  "told e = (case e of None \<Rightarrow> '''' | Some x \<Rightarrow> error_text x)"

text \<open>A result with its error text is a copy of what an execution for the key returned, or an error without a result.\<close>

definition came_from ::
    "('q \<Rightarrow> string + 'q) \<Rightarrow> (string \<times> ('p, 'q) tool_reply) list \<Rightarrow> string \<Rightarrow> ('p, 'q) tool_output \<Rightarrow> string \<Rightarrow> bool" where
  "came_from copy h k res txt =
     ((res = no_output \<and> txt \<noteq> '''') \<or> (\<exists>r e. (k, r, e) \<in> set h \<and> copy_of copy r res \<and> told e = txt))"

definition reply_justified ::
    "('q \<Rightarrow> string + 'q) \<Rightarrow> (string \<times> ('p, 'q) tool_reply) list \<Rightarrow> string \<Rightarrow> ('p, 'q) tool_reply \<Rightarrow> bool" where
  "reply_justified copy h k r = ((fst r = no_output \<and> snd r \<noteq> None) \<or> came_from copy h k (fst r) (told (snd r)))"

text \<open>
  An entry comes from an execution for its key, expires one time to live after it was stored, and is a failure only
  when the policy caches failures and does not serve stale entries.
\<close>

definition entry_justified ::
    "cache_policy \<Rightarrow> ('q \<Rightarrow> string + 'q) \<Rightarrow> (string \<times> ('p, 'q) tool_reply) list \<Rightarrow> string \<Rightarrow> ('p, 'q) cached_entry \<Rightarrow> bool" where
  "entry_justified p copy h k e =
     (came_from copy h k (en_result e) (en_err e) \<and> en_expires e = en_stored e + cp_ttl p \<and>
      (cp_errors p \<and> \<not> cp_stale_on_error p \<or> en_err e = '''' \<and> \<not> to_is_error (en_result e)))"

lemma came_from_cons: "came_from copy h k res txt \<Longrightarrow> came_from copy (x # h) k res txt"
  by (auto simp: came_from_def)

lemma entry_justified_cons: "entry_justified p copy h k e \<Longrightarrow> entry_justified p copy (x # h) k e"
  by (auto simp: entry_justified_def came_from_cons)

lemma reply_justified_cons: "reply_justified copy h k r \<Longrightarrow> reply_justified copy (x # h) k r"
  by (auto simp: reply_justified_def came_from_cons)

lemma detached_from:
  assumes "came_from copy h k (fst r) (told (snd r))"
  shows "came_from copy h k (fst (detached_result copy r)) (told (snd (detached_result copy r)))"
proof (cases "clone_result copy (fst r)")
  case (Inl e)
  then obtain d where "e = ''toolcache: citation metadata: '' @ d" by (auto simp: clone_result_def split: sum.splits)
  then show ?thesis by (simp add: detached_result_def Inl came_from_def told_def)
next
  case (Inr c)
  have "copy_of copy q (fst r) \<Longrightarrow> copy_of copy q c" for q
    unfolding copy_of_def by (erule rtranclp.rtrancl_into_rtrancl) (rule Inr)
  moreover have "fst r = no_output \<Longrightarrow> c = no_output" using Inr by (auto simp: clone_result_def no_output_def)
  ultimately show ?thesis using assms by (auto simp: detached_result_def Inr came_from_def)
qed

lemma replay_from: "entry_justified p copy h k e \<Longrightarrow>
    came_from copy h k (fst (replay_entry copy e)) (told (snd (replay_entry copy e)))"
  unfolding replay_entry_def by (rule detached_from) (auto simp: entry_justified_def told_def)

lemma replay_parts: "entry_justified p copy h k e \<Longrightarrow> replay_entry copy e = (res, err) \<Longrightarrow> came_from copy h k res (told err)"
  using replay_from [of p copy h k e] by simp

lemma replay_justified: "entry_justified p copy h k e \<Longrightarrow> reply_justified copy h k (replay_entry copy e)"
  unfolding reply_justified_def using replay_from by blast

lemma executed_from: "came_from copy ((k, r) # h) k (fst (detached_result copy r)) (told (snd (detached_result copy r)))"
  by (rule detached_from, cases r) (auto simp: came_from_def copy_of_def)

lemma finish_justified:
  assumes "reply_justified copy h k r" "\<And>e. st = Some e \<Longrightarrow> entry_justified p copy h k e" "ct_copy t = copy"
  shows "reply_justified copy h k (finish_call t m st r)"
  using assms(1) replay_from [OF assms(2)] by (auto simp: finish_call_def reply_justified_def assms(3) split: option.split)

text \<open>What a caller at a point of its call holds.\<close>

fun caller_key :: "('p, 'q) caller \<Rightarrow> string" where
  "caller_key (Reading k) = k"
| "caller_key (Refreshing k st) = k"
| "caller_key (Waiting k st f) = k"
| "caller_key (Checking k st f) = k"
| "caller_key (Executing k st f) = k"
| "caller_key (Storing k st f r) = k"
| "caller_key (Deregistering k st f r) = k"
| "caller_key (Closing k st f r) = k"
| "caller_key (Answered k r) = k"

fun in_hand :: "('p, 'q) caller \<Rightarrow> ('p, 'q) cached_entry option" where
  "in_hand (Refreshing k st) = st"
| "in_hand (Waiting k st f) = st"
| "in_hand (Checking k st f) = st"
| "in_hand (Executing k st f) = st"
| "in_hand (Storing k st f r) = st"
| "in_hand (Deregistering k st f r) = st"
| "in_hand (Closing k st f r) = st"
| "in_hand pc = None"

fun to_publish :: "('p, 'q) caller \<Rightarrow> ('p, 'q) tool_reply option" where
  "to_publish (Storing k st f r) = Some r"
| "to_publish (Deregistering k st f r) = Some r"
| "to_publish (Closing k st f r) = Some r"
| "to_publish pc = None"

fun answer_of :: "('p, 'q) caller \<Rightarrow> ('p, 'q) tool_reply option" where
  "answer_of (Answered k r) = Some r"
| "answer_of pc = None"

definition flight_of :: "('p, 'q) caller \<Rightarrow> nat option" where
  "flight_of pc = (case awaits pc of Some f \<Rightarrow> Some f | None \<Rightarrow> works pc)"

definition caller_justified ::
    "cache_policy \<Rightarrow> ('q \<Rightarrow> string + 'q) \<Rightarrow> (string \<times> ('p, 'q) tool_reply) list \<Rightarrow> string list \<Rightarrow> ('p, 'q) caller \<Rightarrow> bool" where
  "caller_justified p copy h keys pc =
     ((\<forall>e. in_hand pc = Some e \<longrightarrow> entry_justified p copy h (caller_key pc) e) \<and>
      (\<forall>r. to_publish pc = Some r \<longrightarrow> came_from copy h (caller_key pc) (fst r) (told (snd r))) \<and>
      (\<forall>r. answer_of pc = Some r \<longrightarrow> reply_justified copy h (caller_key pc) r) \<and>
      (\<forall>f. flight_of pc = Some f \<longrightarrow> f < length keys \<and> keys ! f = caller_key pc))"

definition flights_justified ::
    "('q \<Rightarrow> string + 'q) \<Rightarrow> (string \<times> ('p, 'q) tool_reply) list \<Rightarrow> string list \<Rightarrow> ('p, 'q) tool_reply option list \<Rightarrow> (string, nat) gomap \<Rightarrow> bool" where
  "flights_justified copy h keys fs m =
     (length fs = length keys \<and>
      (\<forall>f r. f < length fs \<longrightarrow> fs ! f = Some r \<longrightarrow> came_from copy h (keys ! f) (fst r) (told (snd r))) \<and>
      (\<forall>k f. map_of m k = Some f \<longrightarrow> f < length keys \<and> keys ! f = k))"

lemma answered_justified: "entry_justified p copy h k e \<Longrightarrow> caller_justified p copy h keys (Answered k (replay_entry copy e))"
  using replay_justified [of p copy h k e] by (simp add: caller_justified_def flight_of_def)

lemma caller_justified_cons: "caller_justified p copy h keys pc \<Longrightarrow> caller_justified p copy (x # h) keys pc"
  by (auto simp: caller_justified_def entry_justified_cons came_from_cons reply_justified_cons)

lemma flights_justified_cons: "flights_justified copy h keys fs m \<Longrightarrow> flights_justified copy (x # h) keys fs m"
  by (auto simp: flights_justified_def came_from_cons)

lemma caller_justified_snoc: "caller_justified p copy h keys pc \<Longrightarrow> caller_justified p copy h (keys @ [k]) pc"
  by (auto simp: caller_justified_def nth_append less_SucI)

lemma arrival_justified: "caller_justified p copy h keys (arrival ended key)"
  by (auto simp: caller_justified_def arrival_def flight_of_def reply_justified_def split: option.split sum.split)

section \<open>A tool over any cache\<close>

locale tool_over_cache = cache_contract get set ok held
  for get :: "int \<Rightarrow> string \<Rightarrow> 'c \<Rightarrow> (string + ('p, 'q) cached_entry option) \<times> 'c"
    and set :: "int \<Rightarrow> string \<Rightarrow> ('p, 'q) cached_entry \<Rightarrow> int \<Rightarrow> 'c \<Rightarrow> 'c"
    and ok :: "'c \<Rightarrow> bool" and held :: "'c \<Rightarrow> string \<rightharpoonup> ('p, 'q) cached_entry" +
  fixes p :: cache_policy and copy :: "'q \<Rightarrow> string + 'q" and t :: "('c, 'p, 'q) cached_tool"
  assumes tool: "t = \<lparr>ct_policy = p, ct_copy = copy, ct_get = get, ct_set = set\<rparr>"
begin

definition store_justified :: "(string \<times> ('p, 'q) tool_reply) list \<Rightarrow> 'c \<Rightarrow> bool" where
  "store_justified h c = (ok c \<and> (\<forall>k e. held c k = Some e \<longrightarrow> entry_justified p copy h k e))"

definition justified :: "('c, 'p, 'q) tool_cache \<Rightarrow> bool" where
  "justified s =
     (store_justified (tc_history s) (tc_store s) \<and>
      flights_justified copy (tc_history s) (tc_flight_keys s) (tc_flights s) (tc_inflight s) \<and>
      (\<forall>i < length (tc_callers s). caller_justified p copy (tc_history s) (tc_flight_keys s) (tc_callers s ! i)))"

lemma tool_simps [simp]: "ct_policy t = p" "ct_copy t = copy" "ct_get t = get" "ct_set t = set"
  by (simp_all add: tool)

lemma read_justified:
  assumes "store_justified h c" "get now k c = (r, c')"
  shows "store_justified h c'" "r = Inr (Some e) \<Longrightarrow> entry_justified p copy h k e"
proof -
  show "store_justified h c'"
    using assms get_keeps [of c "entry_justified p copy h"] get_law unfolding store_justified_def by blast
  show "r = Inr (Some e) \<Longrightarrow> entry_justified p copy h k e"
    using assms get_finds [of c "entry_justified p copy h"] unfolding store_justified_def by blast
qed

lemma write_justified:
  assumes "store_justified h c" "came_from copy h k (fst r) (told (snd r))"
  shows "store_justified h (store_reply t now k r c)"
proof (cases "failed_reply r \<and> (\<not> cp_errors p \<or> cp_stale_on_error p)")
  case False
  show ?thesis
  proof (cases "clone_result copy (fst r)")
    case (Inr res)
    define e where "e = \<lparr>en_result = res, en_stored = now, en_expires = now + cp_ttl p,
      en_err = (case snd r of None \<Rightarrow> '''' | Some e \<Rightarrow> error_text e)\<rparr>"
    have "to_is_error res = to_is_error (fst r)" using Inr by (auto simp: clone_result_def split: sum.splits)
    then have "entry_justified p copy h k e"
      using False detached_from [OF assms(2)] by (auto simp: e_def entry_justified_def detached_result_def Inr failed_reply_def told_def)
    moreover have "store_reply t now k r c = set now k e (cp_ttl p + (if cp_stale_on_error p then cp_max_stale p else 0)) c"
      using False Inr by (auto simp: store_reply_def e_def)
    ultimately show ?thesis
      using assms(1) set_keeps [of c "entry_justified p copy h"] set_law unfolding store_justified_def by metis
  qed (use assms False in \<open>simp add: store_reply_def\<close>)
qed (use assms in \<open>simp add: store_reply_def\<close>)

lemma goto_justified:
  assumes "store_justified (tc_history s) (tc_store s)"
    and "flights_justified copy (tc_history s) (tc_flight_keys s) (tc_flights s) (tc_inflight s)"
    and "\<And>j. j < length (tc_callers s) \<Longrightarrow> j \<noteq> i \<Longrightarrow> caller_justified p copy (tc_history s) (tc_flight_keys s) (tc_callers s ! j)"
    and "caller_justified p copy (tc_history s) (tc_flight_keys s) pc"
  shows "justified (goto i pc s)"
proof -
  have "caller_justified p copy (tc_history s) (tc_flight_keys s) ((tc_callers s)[i := pc] ! j)" if "j < length (tc_callers s)" for j
    using assms(3,4) that by (cases "j = i") simp_all
  then show ?thesis using assms(1,2) by (simp add: justified_def)
qed

text \<open>A step that leaves the flights and the history alone.\<close>

lemma goto_same:
  assumes "justified s" "store_justified (tc_history s) c" "caller_justified p copy (tc_history s) (tc_flight_keys s) pc"
  shows "justified (goto i pc (s\<lparr>tc_store := c\<rparr>))"
  by (rule goto_justified) (use assms in \<open>simp_all add: justified_def\<close>)

lemma goto_only:
  assumes "justified s" "caller_justified p copy (tc_history s) (tc_flight_keys s) pc"
  shows "justified (goto i pc s)"
  by (rule goto_justified) (use assms in \<open>simp_all add: justified_def\<close>)

lemma lookup_step:
  assumes "justified s" "get now k (tc_store s) = (r, c)" "\<And>e. r = Inr (Some e) \<Longrightarrow> entry_justified p copy (tc_history s) k e \<Longrightarrow>
      caller_justified p copy (tc_history s) (tc_flight_keys s) pc"
    and "(\<nexists>e. r = Inr (Some e)) \<Longrightarrow> caller_justified p copy (tc_history s) (tc_flight_keys s) pc"
  shows "justified (goto i pc (s\<lparr>tc_store := c\<rparr>))"
proof (rule goto_same [OF assms(1)])
  have s: "store_justified (tc_history s) (tc_store s)" using assms(1) by (simp add: justified_def)
  show "store_justified (tc_history s) c" by (rule read_justified(1) [OF s assms(2)])
  show "caller_justified p copy (tc_history s) (tc_flight_keys s) pc"
    using read_justified(2) [OF s assms(2)] assms(3,4) by blast
qed

lemma finish_answer:
  assumes "reply_justified copy h k r" "\<And>e. st = Some e \<Longrightarrow> entry_justified p copy h k e"
  shows "caller_justified p copy h keys (Answered k (finish_call t m st r))"
  using finish_justified [OF assms, where t = t] by (simp add: caller_justified_def flight_of_def)

lemma caller_step_justified:
  assumes ok: "justified s" and i: "i < length (tc_callers s)"
  shows "justified (caller_step t m i (tc_callers s ! i) s)"
proof -
  have me: "caller_justified p copy (tc_history s) (tc_flight_keys s) (tc_callers s ! i)" using ok i by (simp add: justified_def)
  have fl: "flights_justified copy (tc_history s) (tc_flight_keys s) (tc_flights s) (tc_inflight s)"
    and st: "store_justified (tc_history s) (tc_store s)" using ok by (simp_all add: justified_def)
  show ?thesis
  proof (cases "tc_callers s ! i")
    case (Reading k)
    obtain r c where g: "get (si_now m) k (tc_store s) = (r, c)" by fastforce
    show ?thesis unfolding Reading caller_step.simps read_step_def tool_simps g prod.case
      by (rule lookup_step [OF ok g])
        (auto simp: answered_justified, auto simp: caller_justified_def flight_of_def split: sum.split option.split)
  next
    case (Refreshing k st)
    show ?thesis
    proof (cases "map_of (tc_inflight s) k")
      case None
      then show ?thesis unfolding Refreshing caller_step.simps join_step_def Let_def None option.case
        by (intro goto_justified)
          (use ok fl me Refreshing in \<open>auto simp: justified_def flights_justified_def nth_append less_Suc_eq caller_justified_def flight_of_def\<close>)
    next
      case (Some f)
      then show ?thesis unfolding Refreshing caller_step.simps join_step_def Some option.case
        by (intro goto_only [OF ok]) (use fl me Refreshing Some in \<open>auto simp: flights_justified_def caller_justified_def flight_of_def\<close>)
    qed
  next
    case (Checking k st f)
    obtain r c where g: "get (si_now m) k (tc_store s) = (r, c)" by fastforce
    show ?thesis unfolding Checking caller_step.simps check_step_def tool_simps g prod.case
      by (rule lookup_step [OF ok g])
        (use me Checking in \<open>auto simp: caller_justified_def flight_of_def intro: replay_parts split: sum.split option.split\<close>)
  next
    case (Waiting k st f)
    have stale: "st = Some e \<Longrightarrow> entry_justified p copy (tc_history s) k e" for e using me Waiting by (simp add: caller_justified_def)
    have own: "caller_justified p copy (tc_history s) (tc_flight_keys s) (Answered k (finish_call t m st (no_output, Some (Context_Error e))))" for e
      by (rule finish_answer [OF _ stale]) (simp add: reply_justified_def)
    have "came_from copy (tc_history s) k (fst r) (told (snd r))" if "tc_flights s ! f = Some r" for r
      using that fl me Waiting by (auto simp: flights_justified_def caller_justified_def flight_of_def)
    then have shared: "caller_justified p copy (tc_history s) (tc_flight_keys s) (Answered k (finish_call t m st (detached_result copy r)))"
      if "tc_flights s ! f = Some r" for r
      using that by (intro finish_answer [OF _ stale]) (simp add: reply_justified_def detached_from)
    have retry: "caller_justified p copy (tc_history s) (tc_flight_keys s) (Refreshing k st)"
      using stale by (simp add: caller_justified_def flight_of_def)
    show ?thesis unfolding Waiting caller_step.simps wait_step_def
      using ok own shared retry by (auto intro!: goto_only split: option.split)
  next
    case (Executing k st f)
    show ?thesis unfolding Executing caller_step.simps execute_step_def Let_def tool_simps
    proof (rule goto_justified, simp_all)
      show "store_justified ((k, executed (si_execution m)) # tc_history s) (tc_store s)"
        using st by (simp add: store_justified_def entry_justified_cons)
      show "flights_justified copy ((k, executed (si_execution m)) # tc_history s) (tc_flight_keys s) (tc_flights s) (tc_inflight s)"
        using fl by (rule flights_justified_cons)
      show "caller_justified p copy ((k, executed (si_execution m)) # tc_history s) (tc_flight_keys s) (tc_callers s ! j)"
        if "j < length (tc_callers s)" for j using ok that by (simp add: justified_def caller_justified_cons)
      show "caller_justified p copy ((k, executed (si_execution m)) # tc_history s) (tc_flight_keys s)
          (Storing k st f (detached_result copy (executed (si_execution m))))"
        using me executed_from unfolding Executing by (simp add: caller_justified_def flight_of_def entry_justified_cons)
    qed
  next
    case (Storing k st f r)
    show ?thesis unfolding Storing caller_step.simps
      by (rule goto_same [OF ok write_justified [OF st]])
        (use me Storing in \<open>auto simp: caller_justified_def flight_of_def\<close>)
  next
    case (Deregistering k st f r)
    show ?thesis unfolding Deregistering caller_step.simps
      by (rule goto_justified)
        (use ok me Deregistering in \<open>auto simp: justified_def flights_justified_def caller_justified_def flight_of_def\<close>)
  next
    case (Closing k st f r)
    have r: "came_from copy (tc_history s) k (fst r) (told (snd r))" and f: "f < length (tc_flight_keys s)" "tc_flight_keys s ! f = k"
      using me Closing by (auto simp: caller_justified_def flight_of_def)
    show ?thesis unfolding Closing caller_step.simps tool_simps
    proof (rule goto_justified, simp_all)
      show "flights_justified copy (tc_history s) (tc_flight_keys s) ((tc_flights s)[f := Some r]) (tc_inflight s)"
        using fl r f by (auto simp: flights_justified_def nth_list_update split: if_splits)
      show "caller_justified p copy (tc_history s) (tc_flight_keys s) (Answered k (finish_call t m st (detached_result copy r)))"
        using me Closing r by (intro finish_answer) (auto simp: reply_justified_def detached_from caller_justified_def)
    qed (use ok st in \<open>simp_all add: justified_def\<close>)
  next
    case (Answered k r)
    then show ?thesis using ok by simp
  qed
qed

lemma event_justified: "justified s \<Longrightarrow> justified (cache_event_step t x s)"
proof (cases x)
  case (Arrives ended key)
  assume ok: "justified s"
  have "caller_justified p copy (tc_history s) (tc_flight_keys s) ((tc_callers s @ [arrival ended key]) ! j)"
    if "j < Suc (length (tc_callers s))" for j
    using ok that arrival_justified by (auto simp: justified_def nth_append less_Suc_eq)
  then show ?thesis using ok by (simp add: Arrives justified_def)
next
  case (Advances i m)
  assume "justified s"
  then show ?thesis by (simp add: Advances caller_step_justified)
qed

lemma run_justified: "justified s \<Longrightarrow> justified (run_tool_cache t es s)"
  unfolding run_tool_cache_def by (induction es arbitrary: s) (simp_all add: event_justified)

lemma new_justified: "ok c \<Longrightarrow> held c = Map.empty \<Longrightarrow> justified (new_tool_cache c)"
  by (simp add: justified_def new_tool_cache_def store_justified_def flights_justified_def)

end

section \<open>A tool over the in-memory cache\<close>

definition lru_tool :: "cache_policy \<Rightarrow> ('q \<Rightarrow> string + 'q) \<Rightarrow> (('p, 'q) cached_entry lru_cache, 'p, 'q) cached_tool" where
  "lru_tool p copy = \<lparr>ct_policy = p, ct_copy = copy, ct_get = mem_read, ct_set = cache_set\<rparr>"

interpretation lt: tool_over_cache mem_read cache_set cache_ok mem_held p copy "lru_tool p copy"
  for p :: cache_policy and copy :: "'q \<Rightarrow> string + 'q"
  by unfold_locales (simp add: lru_tool_def)

definition answer_ok :: "('q \<Rightarrow> string + 'q) \<Rightarrow> (string \<times> ('p, 'q) tool_reply) list \<Rightarrow> ('p, 'q) caller \<Rightarrow> bool" where
  "answer_ok copy h pc = (case pc of Answered k r \<Rightarrow> reply_justified copy h k r | _ \<Rightarrow> True)"

text \<open>
  C38: Over the in-memory cache, however callers interleave, every answer is an error without a result or a copy of what
  an execution for the caller's own key returned, with the same error. Every entry of the cache stems from an execution
  for its key, expires one time to live after it was stored, and is a failure only when the policy caches failures and
  does not serve stale entries.
\<close>

theorem answers_come_from_executions:
  "let s = run_tool_cache (lru_tool p copy) es (new_tool_cache (new_cache limit ttl))
   in list_all (answer_ok copy (tc_history s)) (tc_callers s) \<and>
      (\<forall>k. case mem_held (tc_store s) k of None \<Rightarrow> True | Some e \<Rightarrow> entry_justified p copy (tc_history s) k e)"
proof -
  define s where "s = run_tool_cache (lru_tool p copy) es (new_tool_cache (new_cache limit ttl))"
  have "lt.justified p copy s" unfolding s_def
    by (intro lt.run_justified lt.new_justified) (simp_all add: new_cache_ok mem_held_def fun_eq_iff)
  then have j: "lt.store_justified p copy (tc_history s) (tc_store s)"
      "\<And>i. i < length (tc_callers s) \<Longrightarrow> caller_justified p copy (tc_history s) (tc_flight_keys s) (tc_callers s ! i)"
    by (simp_all add: lt.justified_def)
  have "list_all (answer_ok copy (tc_history s)) (tc_callers s)"
    unfolding list_all_length
  proof (intro allI impI)
    fix i assume "i < length (tc_callers s)"
    from j(2) [OF this] show "answer_ok copy (tc_history s) (tc_callers s ! i)"
      by (cases "tc_callers s ! i") (simp_all add: answer_ok_def caller_justified_def)
  qed
  moreover have "\<forall>k. case mem_held (tc_store s) k of None \<Rightarrow> True | Some e \<Rightarrow> entry_justified p copy (tc_history s) k e"
    using j(1) by (auto simp: lt.store_justified_def split: option.split)
  ultimately show ?thesis by (simp add: Let_def flip: s_def)
qed

section \<open>Which calls share a key\<close>

lemma select_named_lookup: "map_of (select_named names m) n = (if n \<in> set names then map_of m n else None)"
  by (auto simp: select_named_def map_of_map_restrict restrict_map_def)

text \<open>Calls of one identity agree on every argument the policy counts and on every knob the result varies on.\<close>

lemma same_identity:
  assumes "call_identity p args knobs = call_identity p args' knobs'"
  shows "n \<in> set (cp_vary p) \<Longrightarrow> map_of knobs n = map_of knobs' n"
    "n \<notin> set (cp_ignore_args p) \<Longrightarrow> cp_key_args p = [] \<or> n \<in> set (cp_key_args p) \<Longrightarrow> map_of args n = map_of args' n"
proof -
  have eq: "select_named (key_arguments p (map fst args)) args = select_named (key_arguments p (map fst args')) args'"
    "select_named (cp_vary p) knobs = select_named (cp_vary p) knobs'" using assms by (simp_all add: call_identity_def)
  show "n \<in> set (cp_vary p) \<Longrightarrow> map_of knobs n = map_of knobs' n"
    using eq(2) select_named_lookup [of "cp_vary p" knobs n] select_named_lookup [of "cp_vary p" knobs' n] by simp
  have keys: "map_of m n = map_of (select_named (key_arguments p (map fst m)) m) n"
    if "n \<notin> set (cp_ignore_args p)" "cp_key_args p = [] \<or> n \<in> set (cp_key_args p)" for m :: "(string, 'a) gomap"
    using that by (auto simp: select_named_lookup key_arguments_def map_of_eq_None_iff)
  show "n \<notin> set (cp_ignore_args p) \<Longrightarrow> cp_key_args p = [] \<or> n \<in> set (cp_key_args p) \<Longrightarrow> map_of args n = map_of args' n"
    using keys [of args] keys [of args'] eq(1) by simp
qed

section \<open>A cancellation that is remembered\<close>

definition demo_policy :: cache_policy where
  "demo_policy = \<lparr>cp_enabled = True, cp_ttl = 60, cp_scope = '''', cp_key_args = [], cp_ignore_args = [], cp_vary = [],
     cp_errors = True, cp_stale_on_error = False, cp_max_stale = 0, cp_max_entries = 0\<rparr>"

definition cancelled_sight :: "(nat, nat) sight" where
  "cancelled_sight = \<lparr>si_now = 1, si_ended = Some ''context canceled'', si_flight_first = True,
     si_execution = Rich_Returns no_output (Some (Context_Error ''context canceled''))\<rparr>"

definition live_sight :: "(nat, nat) sight" where
  "live_sight = \<lparr>si_now = 2, si_ended = None, si_flight_first = True,
     si_execution = Rich_Returns \<lparr>to_parts = [7], to_is_error = False, to_citations = []\<rparr> None\<rparr>"

text \<open>
  With \<open>CacheErrors\<close> the end of one caller's context is stored like a failure of the tool: a later caller, whose
  context is live, is answered with the other's cancellation and the tool is not run for it.
\<close>

theorem cancellation_is_cached:
  "let s = run_tool_cache (lru_tool demo_policy Inr)
       ([Arrives None (Inr ''k'')] @ replicate 7 (Advances 0 cancelled_sight) @ [Arrives None (Inr ''k''), Advances 1 live_sight])
       (new_tool_cache (new_cache None 0))
   in validate_policy demo_policy = None \<and>
      tc_callers s ! 1 = Answered ''k'' (no_output, Some (Plain_Error ''context canceled'')) \<and> length (tc_history s) = 1"
  by code_simp

end
