(* ===== verification/Failover.thy ===== *)
theory Failover
  imports Float64
begin

text \<open>
  The decorators that try again: a provider with retries (\<open>agent/provider/retry/retry.go\<close>) and a chain of providers
  (\<open>agent/provider/fallback/fallback.go\<close>, its conditions in \<open>conditions.go\<close>). What a provider does is an argument: a call
  fails, or its stream yields a list of deltas and closes. So are the tests of an error, the power function of the
  backoff, and when the caller's context ends.
\<close>

section \<open>Streams\<close>

text \<open>Usage, routes, conversions and the end marker are notices; anything else that is not an error is content.\<close>

datatype ('d, 'e) stream_delta = Content 'd | Notice 'd | Stream_Error 'e

fun is_content_delta :: "('d, 'e) stream_delta \<Rightarrow> bool" where
  "is_content_delta (Content d) = True"
| "is_content_delta (Notice d) = False"
| "is_content_delta (Stream_Error e) = False"

section \<open>Retries\<close>

record retry_config =
  rc_attempts :: int
  rc_base :: int
  rc_max :: int
  rc_mult :: rat
  rc_no_jitter :: bool
  rc_max_after :: int

definition default_retry :: retry_config where
  "default_retry = \<lparr>rc_attempts = 3, rc_base = 500000000, rc_max = 10000000000, rc_mult = 2, rc_no_jitter = False, rc_max_after = 60000000000\<rparr>"

text \<open>Zero fields take the defaults; a negative one is refused.\<close>

definition new_retry :: "bool \<Rightarrow> retry_config \<Rightarrow> retry_config option" where
  "new_retry inner c =
     (if \<not> inner \<or> rc_attempts c < 0 \<or> rc_base c < 0 \<or> rc_max c < 0 \<or> rc_mult c < 0 \<or> rc_max_after c < 0 then None
      else Some
        (c\<lparr>rc_attempts := if rc_attempts c = 0 then 3 else rc_attempts c,
           rc_mult := if rc_mult c = 0 then 2 else rc_mult c,
           rc_base := if rc_base c = 0 then 500000000 else rc_base c,
           rc_max := if rc_max c = 0 then 10000000000 else rc_max c,
           rc_max_after := if rc_max_after c = 0 then 60000000000 else rc_max_after c\<rparr>))"

text \<open>
  The wait before the next attempt, in nanoseconds, from the power of the multiplier, the jitter and the delay the
  provider asked for.
\<close>

definition retry_delay :: "retry_config \<Rightarrow> rat \<Rightarrow> rat \<Rightarrow> int \<Rightarrow> int" where
  "retry_delay c pow u asked =
     (let d = int_of_float (fmul (float_of_int (rc_base c)) pow);
          d = (if rc_max c < d \<or> d < 0 then rc_max c else d);
          d = (if rc_no_jitter c then d else int_of_float (fmul (float_of_int d) u));
          cap = (if rc_max_after c \<le> 0 then 60000000000 else rc_max_after c)
      in if d < min asked cap then min asked cap else d)"

text \<open>
  What an attempt meets: its call, whether the context has ended when the loop looks, after how many deltas the end of
  the context stops the reading of its lead and the caller's stream, and whether it ends during the wait.
\<close>

record ('d, 'e) attempt_world =
  aw_call :: "'e + ('d, 'e) stream_delta list"
  aw_ended :: bool
  aw_lead_cut :: "nat option"
  aw_out_cut :: "nat option"
  aw_wait_ended :: bool

datatype ('d, 'e) retried =
  Streamed "('d, 'e) stream_delta list" | Call_Failed 'e | Context_Ended | Retries_Exhausted int "'e option"

text \<open>Reads up to the first content, error, end of the stream or end of the context. The third component is what is left.\<close>

fun drain_lead ::
    "nat option \<Rightarrow> ('d, 'e) stream_delta list \<Rightarrow> ('d, 'e) stream_delta list \<times> 'e option \<times> ('d, 'e) stream_delta list \<times> bool" where
  "drain_lead (Some 0) ds = ([], None, ds, False)"
| "drain_lead stop [] = ([], None, [], False)"
| "drain_lead stop (Stream_Error e # ds) = ([], Some e, ds, False)"
| "drain_lead stop (Content d # ds) = ([Content d], None, ds, True)"
| "drain_lead stop (Notice d # ds) =
     (case drain_lead (map_option (\<lambda>n. n - 1) stop) ds of (b, e, r, had) \<Rightarrow> (Notice d # b, e, r, had))"

definition replay_stream ::
    "nat option \<Rightarrow> ('d, 'e) stream_delta list \<Rightarrow> 'e option \<Rightarrow> ('d, 'e) stream_delta list \<Rightarrow> ('d, 'e) stream_delta list" where
  "replay_stream stop b e r =
     (let out = b @ (case e of None \<Rightarrow> [] | Some x \<Rightarrow> [Stream_Error x]) @ r
      in case stop of None \<Rightarrow> out | Some n \<Rightarrow> take n out)"

text \<open>No wait follows the last attempt. The answer is whether to go on.\<close>

definition backoff :: "int \<Rightarrow> int \<Rightarrow> ('d, 'e) attempt_world \<Rightarrow> bool" where
  "backoff tries attempt w = (if tries - 1 \<le> attempt then True else \<not> aw_wait_ended w)"

function retry_loop ::
    "int \<Rightarrow> ('e \<Rightarrow> bool) \<Rightarrow> (int \<Rightarrow> ('d, 'e) attempt_world) \<Rightarrow> int \<Rightarrow> 'e option \<Rightarrow> ('d, 'e) retried" where
  "retry_loop tries again meets attempt prev =
     (if tries \<le> attempt then Retries_Exhausted tries prev
      else
        (let w = meets attempt
         in case aw_call w of
              Inl e \<Rightarrow>
                if aw_ended w \<or> \<not> again e then Call_Failed e
                else if \<not> backoff tries attempt w then Context_Ended
                else retry_loop tries again meets (attempt + 1) (Some e)
            | Inr ds \<Rightarrow>
                (case drain_lead (aw_lead_cut w) ds of (b, err, rest, had) \<Rightarrow>
                   (case err of
                      None \<Rightarrow> Streamed (replay_stream (aw_out_cut w) b None rest)
                    | Some e \<Rightarrow>
                        if had \<or> aw_ended w \<or> \<not> again e then Streamed (replay_stream (aw_out_cut w) b (Some e) rest)
                        else if \<not> backoff tries attempt w then Context_Ended
                        else retry_loop tries again meets (attempt + 1) (Some e)))))"
  by pat_completeness auto

termination by (relation "measure (\<lambda>(tries, again, meets, attempt, prev). nat (tries - attempt))") auto

declare retry_loop.simps [simp del]

definition retry_stream :: "retry_config \<Rightarrow> ('e \<Rightarrow> bool) \<Rightarrow> (int \<Rightarrow> ('d, 'e) attempt_world) \<Rightarrow> ('d, 'e) retried" where
  "retry_stream c again meets = retry_loop (rc_attempts c) again meets 0 None"

section \<open>Fallback chains\<close>

text \<open>
  A member, with whether the context has ended when an error of it is judged (one answer for all of its errors), and after
  how many deltas its end stops the relay of the member.
\<close>

record ('d, 'e) chain_member =
  cm_call :: "'e + ('d, 'e) stream_delta list"
  cm_ended :: bool
  cm_cut :: "nat option"

datatype ('d, 'e) chain_delta = Passed "('d, 'e) stream_delta" | Chain_Failed "'e list"

text \<open>
  Relays one member's stream: what was sent, and how it ended. An error before any content moves on when the rule says
  so; later errors pass through.
\<close>

datatype 'e relay_end = Relay_Closed | Relay_Cancelled | Relay_Falls 'e

fun relay_member ::
    "('e \<Rightarrow> bool) \<Rightarrow> bool \<Rightarrow> nat option \<Rightarrow> bool \<Rightarrow> ('d, 'e) stream_delta list \<Rightarrow> ('d, 'e) stream_delta list \<times> 'e relay_end \<times> bool" where
  "relay_member falls ended stop fwd [] = ([], if stop = Some 0 then Relay_Cancelled else Relay_Closed, fwd)"
| "relay_member falls ended stop fwd (d # ds) =
     (if stop = Some 0 then ([], Relay_Cancelled, fwd)
      else
        (case d of
           Stream_Error e \<Rightarrow>
             if \<not> fwd \<and> \<not> ended \<and> falls e then ([], Relay_Falls e, fwd)
             else (case relay_member falls ended (map_option (\<lambda>n. n - 1) stop) fwd ds of (out, r) \<Rightarrow> (d # out, r))
         | _ \<Rightarrow>
             (case relay_member falls ended (map_option (\<lambda>n. n - 1) stop) (fwd \<or> is_content_delta d) ds of
                (out, r) \<Rightarrow> (d # out, r))))"

text \<open>The next member whose call succeeds.\<close>

fun next_member ::
    "('e \<Rightarrow> bool) \<Rightarrow> ('d, 'e) chain_member list \<Rightarrow> 'e list \<Rightarrow>
     (('d, 'e) chain_member \<times> ('d, 'e) stream_delta list) option \<times> ('d, 'e) chain_member list \<times> 'e list" where
  "next_member falls [] errs = (None, [], errs)"
| "next_member falls (m # ms) errs =
     (case cm_call m of
        Inr ds \<Rightarrow> (Some (m, ds), ms, errs)
      | Inl e \<Rightarrow> if cm_ended m \<or> \<not> falls e then (None, ms, errs @ [e]) else next_member falls ms (errs @ [e]))"

lemma next_member_length: "next_member falls ms errs = (Some x, ms', errs') \<Longrightarrow> length ms' < length ms"
  by (induction ms arbitrary: errs) (auto split: sum.splits if_splits dest: less_SucI)

text \<open>The second argument is whether the caller still listens when the error of the whole chain is sent.\<close>

function relay_chain ::
    "('e \<Rightarrow> bool) \<Rightarrow> bool \<Rightarrow> bool \<Rightarrow> ('d, 'e) chain_member \<Rightarrow> ('d, 'e) stream_delta list \<Rightarrow> ('d, 'e) chain_member list \<Rightarrow> 'e list \<Rightarrow>
     ('d, 'e) chain_delta list" where
  "relay_chain falls told fwd m ds ms errs =
     (case relay_member falls (cm_ended m) (cm_cut m) fwd ds of (out, r, fwd') \<Rightarrow>
        map Passed out @
        (case r of
           Relay_Closed \<Rightarrow> []
         | Relay_Cancelled \<Rightarrow> []
         | Relay_Falls e \<Rightarrow>
             (case next_member falls ms (errs @ [e]) of
                (Some (m', ds'), ms', errs') \<Rightarrow> relay_chain falls told fwd' m' ds' ms' errs'
              | (None, ms', errs') \<Rightarrow> if told then [Chain_Failed errs'] else [])))"
  by pat_completeness auto

termination
  by (relation "measure (\<lambda>(falls, told, fwd, m, ds, ms, errs). length ms)") (auto dest!: next_member_length [OF sym])

declare relay_chain.simps [simp del]

definition stream_over ::
    "('e \<Rightarrow> bool) \<Rightarrow> bool \<Rightarrow> ('d, 'e) chain_member list \<Rightarrow> 'e list + ('d, 'e) chain_delta list" where
  "stream_over falls told ms =
     (case next_member falls ms [] of
        (Some (m, ds), ms', errs) \<Rightarrow> Inr (relay_chain falls told False m ds ms' errs)
      | (None, ms', errs) \<Rightarrow> Inl errs)"

section \<open>What moves on to the next member\<close>

text \<open>The classifications of an error (\<open>agent/types/errors.go\<close>) are arguments.\<close>

record 'e error_tests =
  et_cancelled :: "'e \<Rightarrow> bool"
  et_bad_config :: "'e \<Rightarrow> bool"
  et_budget_exceeded :: "'e \<Rightarrow> bool"
  et_budget_busy :: "'e \<Rightarrow> bool"
  et_invalid_request :: "'e \<Rightarrow> bool"
  et_conditions :: "(string, 'e \<Rightarrow> bool) gomap"

definition default_fallback_on :: "'e error_tests \<Rightarrow> 'e \<Rightarrow> bool" where
  "default_fallback_on t e =
     (\<not> (et_cancelled t e \<or> et_bad_config t e \<or> et_budget_exceeded t e \<or> et_budget_busy t e \<or> et_invalid_request t e))"

definition on_any :: string where "on_any = ''any''"

datatype rule_problem = Not_Alone "string list" | Unknown_Condition string

definition other_conditions :: "string list \<Rightarrow> string list" where
  "other_conditions cs = fold (\<lambda>c out. if c \<noteq> on_any \<and> c \<notin> set out then out @ [c] else out) cs []"

fun condition_tests :: "'e error_tests \<Rightarrow> string list \<Rightarrow> string list \<Rightarrow> rule_problem + ('e \<Rightarrow> bool) list" where
  "condition_tests t seen [] = Inr []"
| "condition_tests t seen (c # cs) =
     (case map_of (et_conditions t) c of
        None \<Rightarrow> Inl (Unknown_Condition c)
      | Some f \<Rightarrow>
          if c \<in> set seen then condition_tests t seen cs
          else (case condition_tests t (c # seen) cs of Inl e \<Rightarrow> Inl e | Inr fs \<Rightarrow> Inr (f # fs)))"

definition fallback_rule :: "'e error_tests \<Rightarrow> string list \<Rightarrow> rule_problem + ('e \<Rightarrow> bool)" where
  "fallback_rule t cs =
     (if cs = [] then Inr (default_fallback_on t)
      else if on_any \<in> set cs then
        (if other_conditions cs \<noteq> [] then Inl (Not_Alone (other_conditions cs)) else Inr (default_fallback_on t))
      else
        (case condition_tests t [] cs of
           Inl e \<Rightarrow> Inl e
         | Inr fs \<Rightarrow> Inr (\<lambda>e. default_fallback_on t e \<and> list_ex (\<lambda>f. f e) fs)))"

end
