(* ===== verification/Failover_Properties.thy ===== *)
theory Failover_Properties
  imports Failover
begin

text \<open>
  What retries and fallback chains promise (\<open>agent/provider/retry/retry.go\<close>, \<open>fallback/fallback.go\<close>): the caller never
  sees content of two attempts, attempts end as configured, and a named rule only narrows the default.
\<close>

section \<open>Errors before content\<close>

fun early_error :: "('d, 'e) stream_delta list \<Rightarrow> 'e option" where
  "early_error [] = None"
| "early_error (Content d # ds) = None"
| "early_error (Stream_Error e # ds) = Some e"
| "early_error (Notice d # ds) = early_error ds"

definition call_error :: "'e + ('d, 'e) stream_delta list \<Rightarrow> 'e option" where
  "call_error r = (case r of Inl e \<Rightarrow> Some e | Inr ds \<Rightarrow> early_error ds)"

definition passed_over :: "('e \<Rightarrow> bool) \<Rightarrow> 'e + ('d, 'e) stream_delta list \<Rightarrow> bool" where
  "passed_over again r = (case call_error r of None \<Rightarrow> False | Some e \<Rightarrow> again e)"

lemma drain_lead_parts:
  assumes "drain_lead stop ds = (b, err, rest, had)"
  shows "ds = b @ (case err of None \<Rightarrow> [] | Some e \<Rightarrow> [Stream_Error e]) @ rest"
    "err = Some e \<Longrightarrow> early_error ds = Some e" "had \<Longrightarrow> err = None" "stop = None \<Longrightarrow> err = early_error ds"
  using assms by (induction stop ds arbitrary: b err rest had rule: drain_lead.induct) (auto split: prod.splits)

lemma replay_prefix: "\<exists>zs. b @ (case e of None \<Rightarrow> [] | Some x \<Rightarrow> [Stream_Error x]) @ r = replay_stream stop b e r @ zs"
proof (cases stop)
  case (Some n)
  define out where "out = b @ (case e of None \<Rightarrow> [] | Some x \<Rightarrow> [Stream_Error x]) @ r"
  have "out = take n out @ drop n out" by simp
  then show ?thesis by (metis Some option.simps(5) out_def replay_stream_def)
qed (simp add: replay_stream_def Let_def)

section \<open>Retries\<close>

lemma retry_loop_serves:
  assumes "retry_loop tries again meets attempt prev = Streamed out"
  shows "\<exists>n ds zs. attempt \<le> n \<and> n < tries \<and> aw_call (meets n) = Inr ds \<and> ds = out @ zs \<and>
    (\<forall>j. attempt \<le> j \<and> j < n \<longrightarrow> passed_over again (aw_call (meets j)))"
  using assms
proof (induction tries again meets attempt prev rule: retry_loop.induct)
  case (1 tries again meets attempt prev)
  define w where "w = meets attempt"
  have lt: "attempt < tries" using "1.prems" by (auto simp: retry_loop.simps split: if_splits)
  have later: ?case if ih: "\<exists>n ds zs. attempt + 1 \<le> n \<and> n < tries \<and> aw_call (meets n) = Inr ds \<and> ds = out @ zs \<and>
      (\<forall>j. attempt + 1 \<le> j \<and> j < n \<longrightarrow> passed_over again (aw_call (meets j)))" and p: "passed_over again (aw_call w)"
  proof -
    obtain n ds zs where n: "attempt + 1 \<le> n" "n < tries" "aw_call (meets n) = Inr ds" "ds = out @ zs"
        "\<forall>j. attempt + 1 \<le> j \<and> j < n \<longrightarrow> passed_over again (aw_call (meets j))" using ih by blast
    have "passed_over again (aw_call (meets j))" if "attempt \<le> j" "j < n" for j
      using that n(5) p by (cases "j = attempt") (auto simp: w_def)
    then show ?thesis using n by (intro exI [of _ n] exI [of _ ds] exI [of _ zs]) auto
  qed
  show ?case
  proof (cases "aw_call w")
    case (Inl e)
    have again: "\<not> aw_ended w" "again e" "backoff tries attempt w" and rest: "retry_loop tries again meets (attempt + 1) (Some e) = Streamed out"
      using "1.prems" lt Inl by (auto simp: retry_loop.simps [of tries again meets attempt] Let_def simp flip: w_def split: if_splits)
    show ?thesis
      by (rule later) (use "1.IH"(1) lt Inl again rest in \<open>auto simp: w_def passed_over_def call_error_def\<close>)
  next
    case (Inr ds)
    obtain b err r had where d: "drain_lead (aw_lead_cut w) ds = (b, err, r, had)" by (metis prod_cases4)
    note parts = drain_lead_parts [OF d]
    show ?thesis
    proof (cases "\<exists>e. err = Some e \<and> \<not> had \<and> \<not> aw_ended w \<and> again e")
      case False
      then have "out = replay_stream (aw_out_cut w) b err r"
        using "1.prems" lt Inr d by (auto simp: retry_loop.simps [of tries again meets attempt] Let_def simp flip: w_def split: if_splits option.splits)
      then obtain zs where "ds = out @ zs" using parts(1) replay_prefix [of b err r "aw_out_cut w"] by metis
      then show ?thesis using lt Inr by (intro exI [of _ attempt] exI [of _ ds] exI [of _ zs]) (auto simp: w_def)
    next
      case True
      then obtain e where e: "err = Some e" "\<not> had" "\<not> aw_ended w" "again e" by blast
      have again: "backoff tries attempt w" and rest: "retry_loop tries again meets (attempt + 1) (Some e) = Streamed out"
        using "1.prems" lt Inr d e by (auto simp: retry_loop.simps [of tries again meets attempt] Let_def simp flip: w_def split: if_splits)
      show ?thesis
        by (rule later) (use "1.IH"(2) lt Inr d e again rest parts(2) in \<open>auto simp: w_def passed_over_def call_error_def\<close>)
    qed
  qed
qed

text \<open>
  Whatever providers do and whenever the caller's context ends, a stream handed to the caller is a beginning of the
  stream of one attempt, no more than the configured number were made, and every attempt before it failed, before any
  content, with an error worth another attempt.
\<close>

theorem retry_serves_one_attempt:
  assumes "retry_stream c again meets = Streamed out"
  shows "\<exists>n ds zs. 0 \<le> n \<and> n < rc_attempts c \<and> aw_call (meets n) = Inr ds \<and> ds = out @ zs \<and>
    (\<forall>j. 0 \<le> j \<and> j < n \<longrightarrow> passed_over again (aw_call (meets j)))"
  using retry_loop_serves assms unfolding retry_stream_def by blast

text \<open>An attempt during which the context does not end.\<close>

definition calm_attempt :: "('d, 'e) attempt_world \<Rightarrow> bool" where
  "calm_attempt w = (\<not> aw_ended w \<and> aw_lead_cut w = None \<and> aw_out_cut w = None \<and> \<not> aw_wait_ended w)"

lemma calm_attempt_stream:
  assumes "calm_attempt w" "aw_call w = Inr ds"
  shows "\<exists>b err rest had. drain_lead (aw_lead_cut w) ds = (b, err, rest, had) \<and> err = early_error ds \<and> (had \<longrightarrow> err = None) \<and>
    replay_stream (aw_out_cut w) b err rest = ds"
proof -
  obtain b err rest had where d: "drain_lead (aw_lead_cut w) ds = (b, err, rest, had)" by (metis prod_cases4)
  show ?thesis
    using drain_lead_parts [OF d] d assms(1) by (intro exI [of _ b] exI [of _ err] exI [of _ rest] exI [of _ had])
      (simp add: calm_attempt_def replay_stream_def Let_def)
qed

text \<open>
  A calm caller gets exactly the answer of the first attempt that is not worth another one, its whole stream or the
  error of its call, and when there is none, the error of the last attempt after all of them.
\<close>

lemma calm_retry_loop:
  assumes "\<forall>n. calm_attempt (meets n)"
  shows "retry_loop tries again meets attempt prev =
    (case find (\<lambda>n. \<not> passed_over again (aw_call (meets n))) [attempt..tries - 1] of
       None \<Rightarrow> Retries_Exhausted tries (if attempt < tries then call_error (aw_call (meets (tries - 1))) else prev)
     | Some n \<Rightarrow> (case aw_call (meets n) of Inl e \<Rightarrow> Call_Failed e | Inr ds \<Rightarrow> Streamed ds))"
  using assms
proof (induction tries again meets attempt prev rule: retry_loop.induct)
  case (1 tries again meets attempt prev)
  show ?case
  proof (cases "attempt < tries")
    case True
    have calm: "calm_attempt (meets attempt)" using "1.prems" by simp
    then have go: "\<not> aw_ended (meets attempt)" "backoff tries attempt (meets attempt)"
      by (simp_all add: calm_attempt_def backoff_def)
    have l: "[attempt..tries - 1] = attempt # [attempt + 1..tries - 1]" using True by (simp add: upto_rec1)
    have final: "meets (tries - 1) = meets attempt" if late: "\<not> attempt + 1 < tries"
    proof -
      have "tries - 1 = attempt" using True late by simp
      then show ?thesis by simp
    qed
    show ?thesis
    proof (cases "aw_call (meets attempt)")
      case (Inl e)
      then show ?thesis
        using True go "1.IH"(1) [OF _ refl Inl] "1.prems" final
        by (subst retry_loop.simps) (auto simp: l passed_over_def call_error_def split: option.split)
    next
      case (Inr ds)
      from calm_attempt_stream [OF calm Inr] obtain b err rest had where d:
        "drain_lead (aw_lead_cut (meets attempt)) ds = (b, err, rest, had)" "err = early_error ds" "had \<longrightarrow> err = None"
        "replay_stream (aw_out_cut (meets attempt)) b err rest = ds" by blast
      show ?thesis
        using True go "1.IH"(2) [OF _ refl Inr d(1) [symmetric]] "1.prems" final d Inr
        by (subst retry_loop.simps) (auto simp: l passed_over_def call_error_def split: option.split)
    qed
  next
    case False
    then show ?thesis by (simp add: retry_loop.simps)
  qed
qed

section \<open>Chains\<close>

text \<open>
  An error that does not fall is sent on and does not count as content, so a later error of the same stream may still
  move on to the next member.
\<close>

fun sent_before_fall :: "('e \<Rightarrow> bool) \<Rightarrow> ('d, 'e) stream_delta \<Rightarrow> bool" where
  "sent_before_fall falls (Notice d) = True"
| "sent_before_fall falls (Content d) = False"
| "sent_before_fall falls (Stream_Error e) = (\<not> falls e)"

fun falling_error :: "('e \<Rightarrow> bool) \<Rightarrow> ('d, 'e) stream_delta list \<Rightarrow> 'e option" where
  "falling_error falls [] = None"
| "falling_error falls (Content d # ds) = None"
| "falling_error falls (Notice d # ds) = falling_error falls ds"
| "falling_error falls (Stream_Error e # ds) = (if falls e then Some e else falling_error falls ds)"

text \<open>What a member that failed before content has sent, and its error.\<close>

definition lead_out :: "('e \<Rightarrow> bool) \<Rightarrow> ('d, 'e) chain_member \<Rightarrow> ('d, 'e) stream_delta list" where
  "lead_out falls m = (case cm_call m of Inl e \<Rightarrow> [] | Inr ds \<Rightarrow> takeWhile (sent_before_fall falls) ds)"

definition member_error :: "('e \<Rightarrow> bool) \<Rightarrow> ('d, 'e) chain_member \<Rightarrow> 'e option" where
  "member_error falls m = (case cm_call m of Inl e \<Rightarrow> Some e | Inr ds \<Rightarrow> falling_error falls ds)"

definition member_errors :: "('e \<Rightarrow> bool) \<Rightarrow> ('d, 'e) chain_member list \<Rightarrow> 'e list" where
  "member_errors falls ms = map (\<lambda>m. the (member_error falls m)) ms"

definition failed_early :: "('e \<Rightarrow> bool) \<Rightarrow> ('d, 'e) chain_member \<Rightarrow> bool" where
  "failed_early falls m = (member_error falls m \<noteq> None)"

definition falls_over :: "('e \<Rightarrow> bool) \<Rightarrow> ('d, 'e) chain_member \<Rightarrow> bool" where
  "falls_over falls m = (case member_error falls m of None \<Rightarrow> False | Some e \<Rightarrow> falls e)"

lemmas member_defs = failed_early_def falls_over_def member_error_def lead_out_def member_errors_def

lemma relay_member_out: "relay_member falls ended stop fwd ds = (out, r, fwd') \<Longrightarrow> \<exists>k. out = take k ds"
proof (induction ds arbitrary: stop fwd out r fwd')
  case (Cons d ds)
  show ?case
  proof (cases out)
    case (Cons d' out')
    then obtain stop' fwd2 where "relay_member falls ended stop' fwd2 ds = (out', r, fwd')" "d' = d"
      using Cons.prems by (auto split: if_splits stream_delta.splits prod.splits)
    then show ?thesis using Cons.IH Cons by (metis take_Suc_Cons)
  qed (auto intro: exI [of _ 0])
qed simp

lemma relay_member_forwarded: "relay_member falls ended stop True ds = (out, r, fwd') \<Longrightarrow> r \<noteq> Relay_Falls e"
  by (induction ds arbitrary: stop out) (auto split: if_splits stream_delta.splits prod.splits)

lemma relay_member_falls:
  assumes "relay_member falls ended stop False ds = (out, Relay_Falls e, fwd')"
  shows "out = takeWhile (sent_before_fall falls) ds \<and> falling_error falls ds = Some e \<and> falls e \<and> \<not> fwd' \<and> \<not> ended"
  using assms
proof (induction ds arbitrary: stop out)
  case (Cons d ds)
  then show ?case
    by (cases d) (fastforce split: if_splits prod.splits dest: relay_member_forwarded)+
qed (simp split: if_splits)

lemma next_member_found:
  assumes "next_member falls ms errs = (Some (m, ds), ms', errs')"
  shows "\<exists>ms1. ms = ms1 @ m # ms' \<and> cm_call m = Inr ds \<and> list_all (falls_over falls) ms1 \<and>
    concat (map (lead_out falls) ms1) = [] \<and> errs' = errs @ member_errors falls ms1"
  using assms
proof (induction ms arbitrary: errs)
  case (Cons x ms)
  show ?case
  proof (cases "cm_call x")
    case (Inl e)
    then have "next_member falls ms (errs @ [e]) = (Some (m, ds), ms', errs')" "falls e"
      using Cons.prems by (auto split: if_splits)
    from Cons.IH [OF this(1)] obtain ms1 where "ms = ms1 @ m # ms'" "cm_call m = Inr ds"
        "list_all (falls_over falls) ms1" "concat (map (lead_out falls) ms1) = []"
        "errs' = (errs @ [e]) @ member_errors falls ms1" by blast
    moreover have "falls_over falls x" "lead_out falls x = []" "the (member_error falls x) = e"
      using Inl \<open>falls e\<close> by (simp_all add: member_defs)
    ultimately show ?thesis by (intro exI [of _ "x # ms1"]) (simp add: member_errors_def)
  next
    case (Inr ds')
    then show ?thesis using Cons.prems by (intro exI [of _ "[]"]) (simp add: member_errors_def)
  qed
qed simp

lemma falls_over_failed: "list_all (falls_over falls) ms \<Longrightarrow> list_all (failed_early falls) ms"
  by (auto simp: list_all_iff member_defs split: option.splits)

lemma next_member_none:
  assumes "next_member falls ms errs = (None, ms', errs')"
  shows "\<exists>ms1. ms = ms1 @ ms' \<and> list_all (failed_early falls) ms1 \<and> concat (map (lead_out falls) ms1) = [] \<and>
    errs' = errs @ member_errors falls ms1"
  using assms
proof (induction ms arbitrary: errs)
  case (Cons x ms)
  show ?case
  proof (cases "cm_call x")
    case (Inl e)
    have x: "failed_early falls x" "lead_out falls x = []" "the (member_error falls x) = e" using Inl by (simp_all add: member_defs)
    show ?thesis
    proof (cases "cm_ended x \<or> \<not> falls e")
      case True
      then show ?thesis using Cons.prems Inl x by (intro exI [of _ "[x]"]) (simp add: member_errors_def)
    next
      case False
      then have "next_member falls ms (errs @ [e]) = (None, ms', errs')" using Cons.prems Inl by simp
      from Cons.IH [OF this] obtain ms1 where "ms = ms1 @ ms'" "list_all (failed_early falls) ms1"
          "concat (map (lead_out falls) ms1) = []" "errs' = (errs @ [e]) @ member_errors falls ms1" by blast
      then show ?thesis using x by (intro exI [of _ "x # ms1"]) (simp add: member_errors_def)
    qed
  next
    case (Inr ds')
    then show ?thesis using Cons.prems by simp
  qed
qed (simp add: member_errors_def)

text \<open>
  What a chain sends: what the members that failed before content had sent, then a part of the stream of the next
  member, or one error that lists the errors of all that were tried, when the caller still listens.
\<close>

definition chain_sent :: "('e \<Rightarrow> bool) \<Rightarrow> bool \<Rightarrow> ('d, 'e) chain_member list \<Rightarrow> 'e list \<Rightarrow> ('d, 'e) chain_delta list \<Rightarrow> bool" where
  "chain_sent falls told ms errs out =
     (\<exists>ms1 ms2 tail. ms = ms1 @ ms2 \<and> list_all (failed_early falls) ms1 \<and>
        out = map Passed (concat (map (lead_out falls) ms1)) @ tail \<and>
        (tail = (if told then [Chain_Failed (errs @ member_errors falls ms1)] else []) \<or>
         (\<exists>m ms3 ds k. ms2 = m # ms3 \<and> cm_call m = Inr ds \<and> tail = map Passed (take k ds) \<and> list_all (falls_over falls) ms1)))"

lemma member_errors_append: "member_errors falls (xs @ ys) = member_errors falls xs @ member_errors falls ys"
  by (simp add: member_errors_def)

lemma chain_sent_later:
  assumes "chain_sent falls told ms (errs @ member_errors falls pre) out" "list_all (falls_over falls) pre"
  shows "chain_sent falls told (pre @ ms) errs (map Passed (concat (map (lead_out falls) pre)) @ out)"
proof -
  obtain ms1 ms2 tail where s: "ms = ms1 @ ms2" "list_all (failed_early falls) ms1" "out = map Passed (concat (map (lead_out falls) ms1)) @ tail"
      "tail = (if told then [Chain_Failed (errs @ member_errors falls (pre @ ms1))] else []) \<or>
       (\<exists>m ms3 ds k. ms2 = m # ms3 \<and> cm_call m = Inr ds \<and> tail = map Passed (take k ds) \<and> list_all (falls_over falls) ms1)"
    using assms(1) unfolding chain_sent_def member_errors_append append_assoc by blast
  then show ?thesis using assms(2) falls_over_failed [OF assms(2)] unfolding chain_sent_def
    by (intro exI [of _ "pre @ ms1"] exI [of _ ms2] exI [of _ tail]) auto
qed

lemma relay_chain_sent:
  assumes "cm_call m = Inr ds"
  shows "chain_sent falls told (m # ms) errs (relay_chain falls told False m ds ms errs)"
  using assms
proof (induction falls told "False" m ds ms errs rule: relay_chain.induct)
  case (1 falls told m ds ms errs)
  obtain o1 r fwd' where r: "relay_member falls (cm_ended m) (cm_cut m) False ds = (o1, r, fwd')" by (metis prod_cases3)
  show ?case
  proof (cases "\<exists>e. r = Relay_Falls e")
    case False
    then have "relay_chain falls told False m ds ms errs = map Passed o1"
      using r by (simp add: relay_chain.simps [of falls told False m] split: relay_end.splits)
    moreover obtain k where "o1 = take k ds" using relay_member_out [OF r] by blast
    ultimately show ?thesis using "1.prems"(1) unfolding chain_sent_def
      by (intro exI [of _ "[]"] exI [of _ "m # ms"] exI [of _ "map Passed o1"]) auto
  next
    case True
    then obtain e where e: "r = Relay_Falls e" by blast
    note f = relay_member_falls [OF r [unfolded e]]
    have fwd: "fwd' = False" using f by simp
    have m: "falls_over falls m" "lead_out falls m = o1" "member_errors falls [m] = [e]"
      using f "1.prems"(1) by (simp_all add: member_defs)
    show ?thesis
    proof (cases "next_member falls ms (errs @ [e])")
      case (fields found ms' errs')
      show ?thesis
      proof (cases found)
        case None
        from next_member_none [OF fields [unfolded None]] obtain ms1 where n: "ms = ms1 @ ms'" "list_all (failed_early falls) ms1"
            "concat (map (lead_out falls) ms1) = []" "errs' = (errs @ [e]) @ member_errors falls ms1" by blast
        have "relay_chain falls told False m ds ms errs = map Passed o1 @ (if told then [Chain_Failed errs'] else [])"
          using r e fields None by (simp add: relay_chain.simps [of falls told False m])
        then show ?thesis using n m falls_over_failed [of falls "[m]"] unfolding chain_sent_def
          by (intro exI [of _ "m # ms1"] exI [of _ ms'] exI [of _ "if told then [Chain_Failed errs'] else []"]) (simp add: member_errors_def)
      next
        case (Some x)
        obtain m' ds' where x: "x = (m', ds')" by (cases x)
        from next_member_found [OF fields [unfolded Some x]] obtain ms1 where n: "ms = ms1 @ m' # ms'" "cm_call m' = Inr ds'"
            "list_all (falls_over falls) ms1" "concat (map (lead_out falls) ms1) = []" "errs' = (errs @ [e]) @ member_errors falls ms1" by blast
        have "chain_sent falls told (m' # ms') errs' (relay_chain falls told False m' ds' ms' errs')"
          by (rule "1.hyps" [OF r [unfolded fwd, symmetric] refl e fields [symmetric] Some x [symmetric] refl n(2)])
        moreover have "relay_chain falls told False m ds ms errs = map Passed o1 @ relay_chain falls told False m' ds' ms' errs'"
          using r e fields Some x f by (simp add: relay_chain.simps [of falls told False m])
        ultimately show ?thesis
          using chain_sent_later [of falls told "m' # ms'" errs "m # ms1"] n m by (simp add: member_errors_def)
      qed
    qed
  qed
qed

text \<open>
  C31: Whatever the members do and whenever the caller's context ends, a chain sends content of one member only: first
  what the members before it sent before they failed, none of it content, then a part of its stream, or else one error
  that lists the errors of every member that was tried, in order (lost only on a caller that no longer listens). A chain
  without a stream fails with that list.
\<close>

theorem chain_single_source:
  "case stream_over falls told ms of
     Inr out \<Rightarrow> chain_sent falls told ms [] out
   | Inl errs \<Rightarrow> (\<exists>ms1 ms2. ms = ms1 @ ms2 \<and> list_all (failed_early falls) ms1 \<and> errs = member_errors falls ms1)"
proof (cases "next_member falls ms []")
  case (fields found ms' errs')
  show ?thesis
  proof (cases found)
    case None
    then show ?thesis using next_member_none [OF fields [unfolded None]] fields by (auto simp: stream_over_def)
  next
    case (Some x)
    obtain m ds where x: "x = (m, ds)" by (cases x)
    from next_member_found [OF fields [unfolded Some x]] obtain ms1 where n: "ms = ms1 @ m # ms'" "cm_call m = Inr ds"
        "list_all (falls_over falls) ms1" "concat (map (lead_out falls) ms1) = []" "errs' = member_errors falls ms1" by auto
    have "chain_sent falls told (ms1 @ m # ms') [] (relay_chain falls told False m ds ms' errs')"
      using chain_sent_later [OF _ n(3), of told "m # ms'" "[]"] relay_chain_sent [OF n(2)] n(4,5) by simp
    then show ?thesis using fields Some x n(1) by (simp add: stream_over_def)
  qed
qed

section \<open>Named rules\<close>

lemma condition_tests_any:
  assumes "condition_tests t seen cs = Inr fs"
  shows "(\<exists>f \<in> set fs. f e) \<or> (\<exists>c \<in> set seen. \<exists>f. map_of (et_conditions t) c = Some f \<and> f e) \<longleftrightarrow>
    (\<exists>c \<in> set seen \<union> set cs. \<exists>f. map_of (et_conditions t) c = Some f \<and> f e)"
  using assms
proof (induction t seen cs arbitrary: fs rule: condition_tests.induct)
  case (2 t seen c cs)
  obtain f where f: "map_of (et_conditions t) c = Some f" using "2.prems" by (auto split: option.splits)
  show ?case
  proof (cases "c \<in> set seen")
    case True
    then show ?thesis using "2.IH"(1) [OF f True] "2.prems" f by (simp add: insert_absorb)
  next
    case False
    then obtain gs where "condition_tests t (c # seen) cs = Inr gs" "fs = f # gs"
      using "2.prems" f by (auto split: sum.splits)
    then show ?thesis using "2.IH"(2) [OF f False] f by auto
  qed
qed auto

text \<open>
  A rule accepts an error exactly when the default does and, unless it names nothing or everything, one of its conditions
  holds of it; the order and the repetition of conditions do not matter.
\<close>

theorem rule_narrows_default:
  assumes "fallback_rule t cs = Inr f"
  shows "f e \<longleftrightarrow> default_fallback_on t e \<and>
    (cs = [] \<or> on_any \<in> set cs \<or> (\<exists>c \<in> set cs. \<exists>g. map_of (et_conditions t) c = Some g \<and> g e))"
proof (cases "cs = [] \<or> on_any \<in> set cs")
  case True
  then show ?thesis using assms by (auto simp: fallback_rule_def split: if_splits)
next
  case False
  then obtain fs where "condition_tests t [] cs = Inr fs" "f = (\<lambda>e. default_fallback_on t e \<and> list_ex (\<lambda>f. f e) fs)"
    using assms by (auto simp: fallback_rule_def split: sum.splits)
  then show ?thesis using condition_tests_any [of t "[]" cs fs e] False by (auto simp: list_ex_iff)
qed

section \<open>Waits\<close>

text \<open>
  A wait is at least what the provider asked for, up to the cap, and at most the larger of that cap and the longest
  backoff; it is never negative.
\<close>

theorem retry_delay_bounds:
  assumes "0 \<le> rc_max c" "rc_max c < 2 ^ 53" "0 \<le> u" "u \<le> 1" "0 \<le> asked"
  defines "cap \<equiv> (if rc_max_after c \<le> 0 then 60000000000 else rc_max_after c)"
  shows "min asked cap \<le> retry_delay c pow u asked \<and> retry_delay c pow u asked \<le> max (rc_max c) (min asked cap) \<and> 0 \<le> retry_delay c pow u asked"
proof -
  define d where "d = int_of_float (fmul (float_of_int (rc_base c)) pow)"
  define d1 where "d1 = (if rc_max c < d \<or> d < 0 then rc_max c else d)"
  define d2 where "d2 = (if rc_no_jitter c then d1 else int_of_float (fmul (float_of_int d1) u))"
  have d1: "0 \<le> d1" "d1 \<le> rc_max c" "d1 < 2 ^ 53" using assms(1,2) by (auto simp: d1_def)
  have x: "is_float64 (of_int d1)" by (rule is_float64_of_int) (use d1 in simp)
  have f: "float_of_int d1 = of_int d1" using rnd64_exact [OF x] by (simp add: float_of_int_def)
  have "fmul (of_int d1) u \<le> fmul (of_int d1) 1" by (rule fmul_mono) (use assms(3,4) d1 in simp_all)
  then have "fmul (of_int d1) u \<le> of_int d1" using rnd64_exact [OF x] by (simp add: fmul_def)
  moreover have "0 \<le> fmul (of_int d1) u" using assms(3) d1 by (simp add: fmul_def rnd64_nonneg)
  ultimately have x: "0 \<le> fmul (of_int d1) u" "\<lfloor>fmul (of_int d1) u\<rfloor> \<le> d1" using floor_mono [of "fmul (of_int d1) u" "of_int d1"] by simp_all
  define n where "n = \<lfloor>fmul (of_int d1) u\<rfloor>"
  have n: "0 \<le> n" "n \<le> d1" using x by (simp_all add: n_def)
  have "int_of_float (fmul (of_int d1) u) = n"
    using n x(1) d1(3) by (simp add: int_of_float_def Let_def max_int64_def flip: n_def)
  then have "0 \<le> d2" "d2 \<le> d1" using d1 n unfolding d2_def f by auto
  moreover have "retry_delay c pow u asked = (if d2 < min asked cap then min asked cap else d2)"
    unfolding retry_delay_def Let_def d2_def d1_def d_def cap_def by (rule refl)
  ultimately show ?thesis using d1 assms(5) by auto
qed

end
