(* ===== verification/Run_Guard.thy ===== *)
theory Run_Guard
  imports Prelude
begin

text \<open>
  Which runs hold which branches (\<open>agent/runguard.go\<close>). Trees, branches and streams are named by strings. The two-level
  maps of the code are maps from pairs, so that an empty inner map is an absent one, and maps to nothing are sets. Every operation runs under one
  lock, so a history of the guard is a sequence of operations; the last section shows what the operations guarantee.
\<close>

section \<open>The guard\<close>

record run_claim =
  rl_tree :: string
  rl_stream :: "string option"
  rl_branches :: "string list"
  rl_released :: bool

record run_guard =
  rg_branches :: "(string \<times> string) list"
  rg_trees :: "string list"
  rg_streams :: "(string \<times> string, string) gomap"
  rg_closed :: "string list"
  rg_claims :: "run_claim list"
  rg_tree_claims :: "(string \<times> bool) list"

definition new_guard :: run_guard where
  "new_guard = \<lparr>rg_branches = [], rg_trees = [], rg_streams = [], rg_closed = [], rg_claims = [], rg_tree_claims = []\<rparr>"

text \<open>Adds a branch to a claim; none when another run holds it.\<close>

definition add_locked :: "run_claim \<Rightarrow> string \<Rightarrow> run_guard \<Rightarrow> (run_claim \<times> run_guard) option" where
  "add_locked c b g =
     (if (rl_tree c, b) \<in> set (rg_branches g) then None
      else Some
        (c\<lparr>rl_branches := rl_branches c @ [b]\<rparr>,
         g\<lparr>rg_branches := (rl_tree c, b) # rg_branches g,
           rg_streams := (case rl_stream c of None \<Rightarrow> rg_streams g | Some s \<Rightarrow> AList.update (rl_tree c, b) s (rg_streams g))\<rparr>))"

definition new_run_claim :: "string \<Rightarrow> string \<Rightarrow> string option \<Rightarrow> run_guard \<Rightarrow> bool \<times> run_guard" where
  "new_run_claim t b s g =
     (if t \<in> set (rg_trees g) then (False, g)
      else
        (case add_locked \<lparr>rl_tree = t, rl_stream = s, rl_branches = [], rl_released = False\<rparr> b g of
           None \<Rightarrow> (False, g)
         | Some (c, g') \<Rightarrow> (True, g'\<lparr>rg_claims := rg_claims g' @ [c]\<rparr>)))"

definition claim_add :: "nat \<Rightarrow> string \<Rightarrow> run_guard \<Rightarrow> bool \<times> run_guard" where
  "claim_add i b g =
     (let c = rg_claims g ! i
      in if b \<in> set (rl_branches c) then (True, g)
         else
           (case add_locked c b g of
              None \<Rightarrow> (False, g)
            | Some (c', g') \<Rightarrow> (True, g'\<lparr>rg_claims := (rg_claims g')[i := c']\<rparr>)))"

text \<open>Frees every branch of a claim, the first time it is called.\<close>

definition claim_release :: "nat \<Rightarrow> run_guard \<Rightarrow> run_guard" where
  "claim_release i g =
     (let c = rg_claims g ! i
      in if rl_released c then g
         else
           g\<lparr>rg_branches := filter (\<lambda>x. \<not> (fst x = rl_tree c \<and> snd x \<in> set (rl_branches c))) (rg_branches g),
             rg_streams :=
               (case rl_stream c of
                  None \<Rightarrow> rg_streams g
                | Some s \<Rightarrow> filter (\<lambda>x. \<not> (fst (fst x) = rl_tree c \<and> snd (fst x) \<in> set (rl_branches c))) (rg_streams g)),
             rg_closed := (case rl_stream c of None \<Rightarrow> rg_closed g | Some s \<Rightarrow> s # rg_closed g),
             rg_claims := (rg_claims g)[i := c\<lparr>rl_released := True\<rparr>]\<rparr>)"

definition claim_tree :: "string \<Rightarrow> run_guard \<Rightarrow> bool \<times> run_guard" where
  "claim_tree t g =
     (if t \<in> set (rg_trees g) \<or> list_ex (\<lambda>x. fst x = t) (rg_branches g) then (False, g)
      else (True, g\<lparr>rg_trees := t # rg_trees g, rg_tree_claims := rg_tree_claims g @ [(t, False)]\<rparr>))"

definition release_tree :: "nat \<Rightarrow> run_guard \<Rightarrow> run_guard" where
  "release_tree i g =
     (case rg_tree_claims g ! i of (t, released) \<Rightarrow>
        if released then g
        else g\<lparr>rg_trees := removeAll t (rg_trees g), rg_tree_claims := (rg_tree_claims g)[i := (t, True)]\<rparr>)"

text \<open>The stream of the run that holds a branch, and whether it is held.\<close>

definition holder :: "string \<Rightarrow> string \<Rightarrow> run_guard \<Rightarrow> string option \<times> bool" where
  "holder t b g =
     (if t \<in> set (rg_trees g) then (None, True)
      else if (t, b) \<notin> set (rg_branches g) then (None, False)
      else (map_of (rg_streams g) (t, b), True))"

section \<open>Histories\<close>

datatype guard_op =
  Claim_Run string string "string option" | Add_Branch nat string | Release_Run nat | Claim_Whole string | Release_Whole nat

text \<open>A run adds branches while it runs, so only to a claim it has not released.\<close>

definition op_allowed :: "guard_op \<Rightarrow> run_guard \<Rightarrow> bool" where
  "op_allowed x g =
     (case x of
        Add_Branch i b \<Rightarrow> i < length (rg_claims g) \<and> \<not> rl_released (rg_claims g ! i)
      | Release_Run i \<Rightarrow> i < length (rg_claims g)
      | Release_Whole i \<Rightarrow> i < length (rg_tree_claims g)
      | _ \<Rightarrow> True)"

fun guard_step :: "guard_op \<Rightarrow> run_guard \<Rightarrow> run_guard" where
  "guard_step (Claim_Run t b s) g = snd (new_run_claim t b s g)"
| "guard_step (Add_Branch i b) g = snd (claim_add i b g)"
| "guard_step (Release_Run i) g = claim_release i g"
| "guard_step (Claim_Whole t) g = snd (claim_tree t g)"
| "guard_step (Release_Whole i) g = release_tree i g"

fun guard_run :: "guard_op list \<Rightarrow> run_guard \<Rightarrow> run_guard" where
  "guard_run [] g = g"
| "guard_run (x # xs) g = guard_run xs (if op_allowed x g then guard_step x g else g)"

section \<open>The invariant\<close>

text \<open>The tree and branches a claim holds until it is released.\<close>

definition held_by :: "run_claim \<Rightarrow> (string \<times> string) set" where
  "held_by c = (if rl_released c then {} else Pair (rl_tree c) ` set (rl_branches c))"

definition owned :: "run_guard \<Rightarrow> nat \<Rightarrow> (string \<times> string) set" where
  "owned g i = (if i < length (rg_claims g) then held_by (rg_claims g ! i) else {})"

text \<open>
  The held branches are those of the unreleased claims, no two claims share one, and a held branch maps to the stream
  of its run.
\<close>

definition owners_ok ::
    "(string \<times> string) set \<Rightarrow> (string \<times> string \<rightharpoonup> string) \<Rightarrow> (nat \<Rightarrow> (string \<times> string) set) \<Rightarrow> (nat \<Rightarrow> string option) \<Rightarrow> bool" where
  "owners_ok B S own st =
     (B = (\<Union>i. own i) \<and> (\<forall>i j. i \<noteq> j \<longrightarrow> own i \<inter> own j = {}) \<and> (\<forall>i. \<forall>x \<in> own i. S x = st i) \<and> (\<forall>x. x \<notin> B \<longrightarrow> S x = None))"

definition stream_at :: "run_guard \<Rightarrow> nat \<Rightarrow> string option" where
  "stream_at g i = (if i < length (rg_claims g) then rl_stream (rg_claims g ! i) else None)"

text \<open>A claim of a whole tree excludes every branch of it, and there is one at a time.\<close>

definition trees_ok :: "run_guard \<Rightarrow> bool" where
  "trees_ok g =
     ((\<forall>t \<in> set (rg_trees g). \<forall>b. (t, b) \<notin> set (rg_branches g)) \<and> (\<forall>t \<in> set (rg_trees g). (t, False) \<in> set (rg_tree_claims g)) \<and>
      (\<forall>i < length (rg_tree_claims g). \<not> snd (rg_tree_claims g ! i) \<longrightarrow> fst (rg_tree_claims g ! i) \<in> set (rg_trees g)) \<and>
      (\<forall>i < length (rg_tree_claims g). \<forall>j < length (rg_tree_claims g). \<not> snd (rg_tree_claims g ! i) \<longrightarrow> \<not> snd (rg_tree_claims g ! j) \<longrightarrow>
         fst (rg_tree_claims g ! i) = fst (rg_tree_claims g ! j) \<longrightarrow> i = j))"

definition guard_ok :: "run_guard \<Rightarrow> bool" where
  "guard_ok g =
     (owners_ok (set (rg_branches g)) (map_of (rg_streams g)) (owned g) (stream_at g) \<and> trees_ok g \<and>
      (\<forall>i < length (rg_claims g). rl_branches (rg_claims g ! i) \<noteq> []))"

lemma owners_okD:
  assumes "owners_ok B S own st"
  shows "x \<in> own i \<Longrightarrow> x \<in> B" "x \<in> B \<Longrightarrow> \<exists>i. x \<in> own i" "x \<in> own i \<Longrightarrow> x \<in> own j \<Longrightarrow> i = j" "x \<in> own i \<Longrightarrow> S x = st i"
    "x \<notin> B \<Longrightarrow> S x = None"
  using assms unfolding owners_ok_def by blast+

lemma owners_okI:
  assumes "\<And>x i. x \<in> own i \<Longrightarrow> x \<in> B" "\<And>x. x \<in> B \<Longrightarrow> \<exists>i. x \<in> own i" "\<And>x i j. x \<in> own i \<Longrightarrow> x \<in> own j \<Longrightarrow> i = j"
    and "\<And>x i. x \<in> own i \<Longrightarrow> S x = st i" "\<And>x. x \<notin> B \<Longrightarrow> S x = None"
  shows "owners_ok B S own st"
  unfolding owners_ok_def
proof (intro conjI allI ballI impI)
  show "B = (\<Union>i. own i)" using assms(1,2) by auto
  show "own i \<inter> own j = {}" if "i \<noteq> j" for i j using assms(3) that by auto
qed (use assms(4,5) in simp_all)

lemma owners_add:
  assumes ok: "owners_ok B S own st" and x: "x \<notin> B" and own': "own' = own(i := insert x (own i))" and st': "st' = st(i := s)"
    and same: "own i \<noteq> {} \<Longrightarrow> s = st i" and S': "S' = (case s of None \<Rightarrow> S | Some v \<Rightarrow> S(x \<mapsto> v))"
  shows "owners_ok (insert x B) S' own' st'"
proof (rule owners_okI)
  note d = owners_okD [OF ok]
  have mem: "y \<in> own' j \<longleftrightarrow> y \<in> own j \<or> y = x \<and> j = i" for y j by (auto simp: own')
  have free: "x \<notin> own j" for j using d(1) x by blast
  have S: "S' y = (if y = x then s else S y)" for y using d(5) [OF x] by (cases s) (simp_all add: S')
  fix y j k
  show "y \<in> own' j \<Longrightarrow> y \<in> insert x B" using d(1) [of y j] by (auto simp: mem)
  show "y \<in> insert x B \<Longrightarrow> \<exists>j. y \<in> own' j" using d(2) [of y] by (auto simp: mem)
  show "y \<in> own' j \<Longrightarrow> y \<in> own' k \<Longrightarrow> j = k" using d(3) [of y j k] free by (auto simp: mem)
  show "y \<in> own' j \<Longrightarrow> S' y = st' j" using d(4) [of y j] free same by (auto simp: mem S st')
  show "y \<notin> insert x B \<Longrightarrow> S' y = None" using d(5) by (simp add: S)
qed

lemma owners_release:
  assumes ok: "owners_ok B S own st" and B': "\<And>x. x \<in> B' \<longleftrightarrow> x \<in> B \<and> x \<notin> own i" and own': "own' = own(i := {})"
    and S': "\<And>x. S' x = (if x \<in> own i then None else S x)"
  shows "owners_ok B' S' own' st"
proof (rule owners_okI)
  note d = owners_okD [OF ok]
  have mem: "y \<in> own' j \<longleftrightarrow> y \<in> own j \<and> y \<notin> own i" for y j
    using d(3) [of y j i] by (cases "j = i") (auto simp: own')
  fix y j k
  show "y \<in> own' j \<Longrightarrow> y \<in> B'" using d(1) [of y j] by (auto simp: mem B')
  show "y \<in> B' \<Longrightarrow> \<exists>j. y \<in> own' j" using d(2) [of y] by (auto simp: mem B')
  show "y \<in> own' j \<Longrightarrow> y \<in> own' k \<Longrightarrow> j = k" using d(3) [of y j k] by (auto simp: mem)
  show "y \<in> own' j \<Longrightarrow> S' y = st j" using d(4) [of y j] by (auto simp: mem S')
  show "y \<notin> B' \<Longrightarrow> S' y = None" using d(5) [of y] by (auto simp: B' S')
qed

lemma held_by_add: "\<not> rl_released c \<Longrightarrow> held_by (c\<lparr>rl_branches := rl_branches c @ [b]\<rparr>) = insert (rl_tree c, b) (held_by c)"
  by (auto simp: held_by_def)

lemma owned_update: "i < length (rg_claims g) \<Longrightarrow> rg_claims g' = (rg_claims g)[i := c] \<Longrightarrow> owned g' = (owned g)(i := held_by c)"
  by (auto simp: owned_def fun_eq_iff)

lemma owned_snoc: "rg_claims g' = rg_claims g @ [c] \<Longrightarrow> owned g' = (owned g)(length (rg_claims g) := held_by c)"
  by (auto simp: owned_def fun_eq_iff nth_append)

lemma stream_at_snoc: "rg_claims g' = rg_claims g @ [c] \<Longrightarrow> stream_at g' = (stream_at g)(length (rg_claims g) := rl_stream c)"
  by (auto simp: stream_at_def fun_eq_iff nth_append)

lemma stream_at_update: "i < length (rg_claims g) \<Longrightarrow> rl_stream c = rl_stream (rg_claims g ! i) \<Longrightarrow> rg_claims g' = (rg_claims g)[i := c] \<Longrightarrow>
    stream_at g' = stream_at g"
  by (auto simp: stream_at_def fun_eq_iff nth_list_update)

lemma trees_add_branch:
  assumes "trees_ok g" "t \<notin> set (rg_trees g)" "rg_trees g' = rg_trees g" "rg_tree_claims g' = rg_tree_claims g"
    and "set (rg_branches g') = insert (t, b) (set (rg_branches g))"
  shows "trees_ok g'"
  using assms(1,2) unfolding trees_ok_def assms(3-5) by auto

lemma guard_okD:
  assumes "guard_ok g"
  shows "owners_ok (set (rg_branches g)) (map_of (rg_streams g)) (owned g) (stream_at g)" "trees_ok g"
    "i < length (rg_claims g) \<Longrightarrow> rl_branches (rg_claims g ! i) \<noteq> []"
  using assms by (simp_all add: guard_ok_def)

text \<open>The common part of a new claim and a new branch of one.\<close>

lemma add_locked_keeps:
  assumes ok: "guard_ok g" and free: "(rl_tree c, b) \<notin> set (rg_branches g)" "rl_tree c \<notin> set (rg_trees g)"
    and own: "owned g' = (owned g)(i := insert (rl_tree c, b) (owned g i))" and st: "stream_at g' = (stream_at g)(i := rl_stream c)"
    and same: "owned g i \<noteq> {} \<Longrightarrow> rl_stream c = stream_at g i"
    and g': "rg_branches g' = (rl_tree c, b) # rg_branches g" "rg_trees g' = rg_trees g" "rg_tree_claims g' = rg_tree_claims g"
      "rg_streams g' = (case rl_stream c of None \<Rightarrow> rg_streams g | Some s \<Rightarrow> AList.update (rl_tree c, b) s (rg_streams g))"
    and claims: "\<And>i. i < length (rg_claims g') \<Longrightarrow> rl_branches (rg_claims g' ! i) \<noteq> []"
  shows "guard_ok g'"
proof -
  have streams: "map_of (rg_streams g') =
      (case rl_stream c of None \<Rightarrow> map_of (rg_streams g) | Some s \<Rightarrow> (map_of (rg_streams g))((rl_tree c, b) \<mapsto> s))"
    by (cases "rl_stream c") (auto simp: g'(4) fun_eq_iff)
  have "owners_ok (insert (rl_tree c, b) (set (rg_branches g))) (map_of (rg_streams g')) (owned g') (stream_at g')"
    by (rule owners_add [OF guard_okD(1) [OF ok] free(1) own st same streams])
  moreover have "trees_ok g'" by (rule trees_add_branch [OF guard_okD(2) [OF ok] free(2) g'(2,3)]) (simp add: g'(1))
  ultimately show ?thesis using claims by (simp add: guard_ok_def g'(1))
qed

lemma new_run_claim_ok:
  assumes ok: "guard_ok g"
  shows "guard_ok (snd (new_run_claim t b s g))"
proof (cases "t \<notin> set (rg_trees g) \<and> (t, b) \<notin> set (rg_branches g)")
  case True
  define c where "c = \<lparr>rl_tree = t, rl_stream = s, rl_branches = [b], rl_released = False\<rparr>"
  define g' where "g' = snd (new_run_claim t b s g)"
  have g': "rg_claims g' = rg_claims g @ [c]" "rg_branches g' = (t, b) # rg_branches g" "rg_trees g' = rg_trees g"
    "rg_tree_claims g' = rg_tree_claims g"
    "rg_streams g' = (case s of None \<Rightarrow> rg_streams g | Some v \<Rightarrow> AList.update (t, b) v (rg_streams g))"
    using True by (simp_all add: g'_def new_run_claim_def add_locked_def c_def split: option.split)
  have none: "owned g (length (rg_claims g)) = {}" by (simp add: owned_def)
  have "guard_ok g'"
  proof (rule add_locked_keeps [OF ok, where c = c and b = b and i = "length (rg_claims g)"])
    show "owned g' = (owned g)(length (rg_claims g) := insert (rl_tree c, b) (owned g (length (rg_claims g))))"
      unfolding owned_snoc [OF g'(1)] none by (simp add: c_def held_by_def)
    show "stream_at g' = (stream_at g)(length (rg_claims g) := rl_stream c)" by (rule stream_at_snoc [OF g'(1)])
    fix i assume "i < length (rg_claims g')"
    then show "rl_branches (rg_claims g' ! i) \<noteq> []"
      using guard_okD(3) [OF ok, of i] by (auto simp: g'(1) nth_append c_def less_Suc_eq)
  qed (use True none g' in \<open>simp_all add: c_def split: option.split\<close>)
  then show ?thesis by (simp add: g'_def)
next
  case False
  then have "snd (new_run_claim t b s g) = g" by (auto simp: new_run_claim_def add_locked_def)
  then show ?thesis using ok by simp
qed

lemma live_claim_owns:
  assumes "guard_ok g" "i < length (rg_claims g)" "\<not> rl_released (rg_claims g ! i)"
  shows "\<exists>b. (rl_tree (rg_claims g ! i), b) \<in> owned g i" "rl_tree (rg_claims g ! i) \<notin> set (rg_trees g)"
proof -
  have "hd (rl_branches (rg_claims g ! i)) \<in> set (rl_branches (rg_claims g ! i))" using guard_okD(3) [OF assms(1,2)] by simp
  then show o: "\<exists>b. (rl_tree (rg_claims g ! i), b) \<in> owned g i" using assms(2,3) by (auto simp: owned_def held_by_def)
  then show "rl_tree (rg_claims g ! i) \<notin> set (rg_trees g)"
    using owners_okD(1) [OF guard_okD(1) [OF assms(1)]] guard_okD(2) [OF assms(1)] unfolding trees_ok_def by blast
qed

lemma claim_add_ok:
  assumes ok: "guard_ok g" and i: "i < length (rg_claims g)" "\<not> rl_released (rg_claims g ! i)"
  shows "guard_ok (snd (claim_add i b g))"
proof -
  define c where "c = rg_claims g ! i"
  define g' where "g' = snd (claim_add i b g)"
  show ?thesis
  proof (cases "b \<notin> set (rl_branches c) \<and> (rl_tree c, b) \<notin> set (rg_branches g)")
    case True
    have g': "rg_claims g' = (rg_claims g)[i := c\<lparr>rl_branches := rl_branches c @ [b]\<rparr>]"
      "rg_branches g' = (rl_tree c, b) # rg_branches g" "rg_trees g' = rg_trees g" "rg_tree_claims g' = rg_tree_claims g"
      "rg_streams g' = (case rl_stream c of None \<Rightarrow> rg_streams g | Some v \<Rightarrow> AList.update (rl_tree c, b) v (rg_streams g))"
      using True by (simp_all add: g'_def claim_add_def add_locked_def Let_def flip: c_def split: option.split)
    have "stream_at g' = stream_at g" by (rule stream_at_update [OF i(1) _ g'(1)]) (simp add: c_def)
    moreover have "stream_at g i = rl_stream c" using i(1) by (simp add: stream_at_def c_def)
    ultimately have st: "stream_at g' = (stream_at g)(i := rl_stream c)" "rl_stream c = stream_at g i" by auto
    have "guard_ok g'"
    proof (rule add_locked_keeps [OF ok, where c = c and b = b and i = i])
      show "owned g' = (owned g)(i := insert (rl_tree c, b) (owned g i))"
        using i by (subst owned_update [OF i(1) g'(1)]) (simp add: held_by_add c_def owned_def)
      show "rl_tree c \<notin> set (rg_trees g)" using live_claim_owns(2) [OF ok i] by (simp add: c_def)
      fix j assume "j < length (rg_claims g')"
      then show "rl_branches (rg_claims g' ! j) \<noteq> []"
        using guard_okD(3) [OF ok, of j] by (cases "j = i") (auto simp: g'(1) c_def)
    qed (use True g' st in simp_all)
    then show ?thesis by (simp add: g'_def)
  next
    case False
    then have "snd (claim_add i b g) = g" by (auto simp: claim_add_def add_locked_def Let_def c_def)
    then show ?thesis using ok by simp
  qed
qed

lemma map_of_keep: "map_of (filter (\<lambda>x. P (fst x)) m) k = (if P k then map_of m k else None)"
  by (induction m) auto

lemma claim_release_ok:
  assumes ok: "guard_ok g" and i: "i < length (rg_claims g)"
  shows "guard_ok (claim_release i g)"
proof (cases "rl_released (rg_claims g ! i)")
  case False
  define c where "c = rg_claims g ! i"
  define g' where "g' = claim_release i g"
  define Q where "Q = (\<lambda>x. \<not> (fst x = rl_tree c \<and> snd x \<in> set (rl_branches c)))"
  have g': "rg_claims g' = (rg_claims g)[i := c\<lparr>rl_released := True\<rparr>]" "rg_branches g' = filter Q (rg_branches g)"
    "rg_streams g' = (case rl_stream c of None \<Rightarrow> rg_streams g | Some v \<Rightarrow> filter (\<lambda>x. Q (fst x)) (rg_streams g))"
    "rg_trees g' = rg_trees g" "rg_tree_claims g' = rg_tree_claims g"
    using False by (simp_all add: g'_def claim_release_def Let_def Q_def flip: c_def split: option.split)
  have Q: "Q x \<longleftrightarrow> x \<notin> owned g i" for x
    using i False by (cases x) (auto simp: Q_def owned_def held_by_def simp flip: c_def)
  have own: "owned g' = (owned g)(i := {})" by (subst owned_update [OF i g'(1)]) (simp add: held_by_def)
  have st: "stream_at g' = stream_at g" by (rule stream_at_update [OF i _ g'(1)]) (simp add: c_def)
  have "map_of (rg_streams g) x = None" if "rl_stream c = None" "x \<in> owned g i" for x
    using owners_okD(4) [OF guard_okD(1) [OF ok] that(2)] that(1) i by (simp add: stream_at_def c_def)
  then have streams: "map_of (rg_streams g') x = (if x \<in> owned g i then None else map_of (rg_streams g) x)" for x
    using map_of_keep [of Q "rg_streams g" x] by (cases "rl_stream c") (simp_all add: g'(3) Q)
  have branches: "x \<in> set (rg_branches g') \<longleftrightarrow> x \<in> set (rg_branches g) \<and> x \<notin> owned g i" for x by (simp add: g'(2) Q)
  have "owners_ok (set (rg_branches g')) (map_of (rg_streams g')) (owned g') (stream_at g)"
    by (rule owners_release [OF guard_okD(1) [OF ok] branches own streams])
  moreover have "trees_ok g'" using guard_okD(2) [OF ok] by (auto simp: trees_ok_def branches g'(4,5))
  moreover have "rl_branches (rg_claims g' ! j) \<noteq> []" if "j < length (rg_claims g')" for j
    using guard_okD(3) [OF ok, of j] that by (cases "j = i") (auto simp: g'(1) c_def)
  ultimately show ?thesis by (simp add: guard_ok_def st flip: g'_def)
qed (use ok in \<open>simp add: claim_release_def Let_def\<close>)

lemma claim_tree_ok:
  assumes ok: "guard_ok g"
  shows "guard_ok (snd (claim_tree t g))"
proof (cases "t \<in> set (rg_trees g) \<or> list_ex (\<lambda>x. fst x = t) (rg_branches g)")
  case False
  define g' where "g' = snd (claim_tree t g)"
  have g': "rg_trees g' = t # rg_trees g" "rg_tree_claims g' = rg_tree_claims g @ [(t, False)]" "rg_branches g' = rg_branches g"
    "rg_streams g' = rg_streams g" "rg_claims g' = rg_claims g"
    using False by (simp_all add: g'_def claim_tree_def)
  have "fst (rg_tree_claims g ! i) \<noteq> t" if "i < length (rg_tree_claims g)" "\<not> snd (rg_tree_claims g ! i)" for i
    using guard_okD(2) [OF ok] False that unfolding trees_ok_def by metis
  moreover have "(t, b) \<notin> set (rg_branches g)" for b using False by (auto simp: list_ex_iff)
  ultimately have "trees_ok g'"
    using guard_okD(2) [OF ok] unfolding trees_ok_def g' by (auto simp: nth_append less_Suc_eq)
  moreover have "owned g' = owned g" "stream_at g' = stream_at g" by (auto simp: owned_def stream_at_def g' fun_eq_iff)
  ultimately show ?thesis using ok by (simp add: guard_ok_def g' flip: g'_def)
qed (use ok in \<open>simp add: claim_tree_def\<close>)

lemma release_tree_ok:
  assumes ok: "guard_ok g" and i: "i < length (rg_tree_claims g)"
  shows "guard_ok (release_tree i g)"
proof (cases "snd (rg_tree_claims g ! i)")
  case False
  define t where "t = fst (rg_tree_claims g ! i)"
  have c: "rg_tree_claims g ! i = (t, False)" using False by (simp add: t_def prod_eq_iff)
  define g' where "g' = release_tree i g"
  have g': "rg_trees g' = removeAll t (rg_trees g)" "rg_tree_claims g' = (rg_tree_claims g)[i := (t, True)]" "rg_branches g' = rg_branches g"
    "rg_streams g' = rg_streams g" "rg_claims g' = rg_claims g"
    by (simp_all add: g'_def release_tree_def c)
  have tr: "trees_ok g" by (rule guard_okD(2) [OF ok])
  have only: "fst (rg_tree_claims g ! j) \<noteq> t" if "j < length (rg_tree_claims g)" "\<not> snd (rg_tree_claims g ! j)" "j \<noteq> i" for j
    using tr that i c unfolding trees_ok_def by (metis fst_conv snd_conv)
  have "trees_ok g'" unfolding trees_ok_def g'
  proof (intro conjI allI ballI impI)
    fix j k b t'
    show "t' \<in> set (removeAll t (rg_trees g)) \<Longrightarrow> (t', b) \<notin> set (rg_branches g)" using tr by (auto simp: trees_ok_def)
    show "(t', False) \<in> set ((rg_tree_claims g)[i := (t, True)])" if "t' \<in> set (removeAll t (rg_trees g))"
    proof -
      have "(t', False) \<in> set (rg_tree_claims g)" "t' \<noteq> t" using that tr by (auto simp: trees_ok_def)
      then obtain l where "l < length (rg_tree_claims g)" "rg_tree_claims g ! l = (t', False)" "l \<noteq> i" using c by (metis fst_conv in_set_conv_nth)
      then show ?thesis by (metis length_list_update nth_list_update_neq nth_mem)
    qed
    assume j: "j < length ((rg_tree_claims g)[i := (t, True)])" "\<not> snd ((rg_tree_claims g)[i := (t, True)] ! j)"
    then have "j \<noteq> i" using i by auto
    then show "fst ((rg_tree_claims g)[i := (t, True)] ! j) \<in> set (removeAll t (rg_trees g))"
      using j only [of j] tr by (simp add: trees_ok_def)
    assume "k < length ((rg_tree_claims g)[i := (t, True)])" "\<not> snd ((rg_tree_claims g)[i := (t, True)] ! k)"
      "fst ((rg_tree_claims g)[i := (t, True)] ! j) = fst ((rg_tree_claims g)[i := (t, True)] ! k)"
    moreover from this have "k \<noteq> i" using i by auto
    ultimately show "j = k" using j \<open>j \<noteq> i\<close> tr unfolding trees_ok_def by simp
  qed
  moreover have "owned g' = owned g" "stream_at g' = stream_at g" by (auto simp: owned_def stream_at_def g' fun_eq_iff)
  ultimately show ?thesis using ok by (simp add: guard_ok_def g' flip: g'_def)
next
  case True
  then have "release_tree i g = g" by (cases "rg_tree_claims g ! i") (simp add: release_tree_def)
  then show ?thesis using ok by simp
qed

lemma guard_run_ok: "guard_ok g \<Longrightarrow> guard_ok (guard_run xs g)"
proof (induction xs arbitrary: g)
  case (Cons x xs)
  have "guard_ok (if op_allowed x g then guard_step x g else g)"
    using Cons.prems by (cases x)
      (auto simp: op_allowed_def new_run_claim_ok claim_add_ok claim_release_ok claim_tree_ok release_tree_ok)
  then show ?case using Cons.IH by simp
qed simp

lemma new_guard_ok: "guard_ok new_guard"
  by (simp add: guard_ok_def owners_ok_def trees_ok_def new_guard_def owned_def)

section \<open>One run to a branch\<close>

text \<open>
  A branch, seen from its claims: nobody, one claim of its whole tree, or one run, whose stream the guard gives out.
\<close>

definition sole_holder :: "run_guard \<Rightarrow> string \<Rightarrow> string \<Rightarrow> bool" where
  "sole_holder g t b =
     (let runs = filter (\<lambda>c. (t, b) \<in> held_by c) (rg_claims g);
          whole = filter (\<lambda>x. fst x = t \<and> \<not> snd x) (rg_tree_claims g)
      in case runs of
           [] \<Rightarrow> length whole \<le> 1 \<and> holder t b g = (None, whole \<noteq> [])
         | [c] \<Rightarrow> whole = [] \<and> holder t b g = (rl_stream c, True)
         | _ \<Rightarrow> False)"

lemma filter_single_cases: "length (filter P xs) \<le> 1 \<Longrightarrow> filter P xs = [] \<or> (\<exists>x. filter P xs = [x])"
  by (cases "filter P xs") (auto simp: Suc_le_eq)

lemma guard_sole:
  assumes ok: "guard_ok g"
  shows "sole_holder g t b"
proof -
  note d = owners_okD [OF guard_okD(1) [OF ok]] and tr = guard_okD(2) [OF ok, unfolded trees_ok_def]
  define runs where "runs = filter (\<lambda>c. (t, b) \<in> held_by c) (rg_claims g)"
  define whole where "whole = filter (\<lambda>x. fst x = t \<and> \<not> snd x) (rg_tree_claims g)"
  have runs: "length runs \<le> 1" unfolding runs_def
    by (rule single_filter) (use d(3) in \<open>auto simp: owned_def\<close>)
  have one: "length whole \<le> 1" unfolding whole_def by (rule single_filter) (use tr in metis)
  have "t \<in> set (rg_trees g)" if "whole \<noteq> []"
  proof -
    have "hd whole \<in> set whole" using that by simp
    then obtain i where "i < length (rg_tree_claims g)" "rg_tree_claims g ! i = hd whole" "fst (hd whole) = t" "\<not> snd (hd whole)"
      unfolding whole_def by (auto simp: in_set_conv_nth)
    then show ?thesis using tr by metis
  qed
  moreover have "whole \<noteq> []" if "t \<in> set (rg_trees g)"
  proof -
    have "(t, False) \<in> set (rg_tree_claims g)" using tr that by blast
    then show ?thesis by (force simp: whole_def filter_empty_conv)
  qed
  ultimately have w: "whole \<noteq> [] \<longleftrightarrow> t \<in> set (rg_trees g)" by blast
  have "sole_holder g t b = (case runs of [] \<Rightarrow> length whole \<le> 1 \<and> holder t b g = (None, whole \<noteq> [])
      | [c] \<Rightarrow> whole = [] \<and> holder t b g = (rl_stream c, True) | _ \<Rightarrow> False)"
    unfolding sole_holder_def Let_def runs_def whole_def by (rule refl)
  moreover have "(case runs of [] \<Rightarrow> length whole \<le> 1 \<and> holder t b g = (None, whole \<noteq> [])
      | [c] \<Rightarrow> whole = [] \<and> holder t b g = (rl_stream c, True) | _ \<Rightarrow> False)"
  proof (cases runs)
    case Nil
    then have "(t, b) \<notin> held_by c" if "c \<in> set (rg_claims g)" for c using that by (simp add: runs_def filter_empty_conv)
    then have "(t, b) \<notin> set (rg_branches g)" using d(2) [of "(t, b)"] by (auto simp: owned_def split: if_splits)
    then show ?thesis using Nil one w by (simp add: holder_def)
  next
    case (Cons c cs)
    then have cs: "runs = [c]" using runs by simp
    have "c \<in> set runs" by (simp add: cs)
    then have "c \<in> set (rg_claims g)" "(t, b) \<in> held_by c" by (simp_all add: runs_def)
    then obtain i where i: "i < length (rg_claims g)" "rg_claims g ! i = c" "(t, b) \<in> owned g i"
      by (auto simp: in_set_conv_nth owned_def)
    have "(t, b) \<in> set (rg_branches g)" by (rule d(1) [OF i(3)])
    moreover have "map_of (rg_streams g) (t, b) = rl_stream c" using d(4) [OF i(3)] i(1,2) by (simp add: stream_at_def)
    moreover have "t \<notin> set (rg_trees g)" using tr \<open>(t, b) \<in> set (rg_branches g)\<close> by blast
    ultimately show ?thesis using w by (simp add: cs holder_def)
  qed
  ultimately show ?thesis by simp
qed

text \<open>
  C30: In any order of claims, added branches and releases, a branch is held by at most one run, or by one claim of its
  whole tree and then by no run, and the guard reports exactly that, with the stream of the run that holds it.
\<close>

theorem one_run_per_branch: "sole_holder (guard_run xs new_guard) t b"
  by (rule guard_sole [OF guard_run_ok [OF new_guard_ok]])

end
