(* ===== verification/Spec2Isabelle.thy ===== *)
theory Spec2Isabelle
  imports Tree_Properties Store_Properties Compact_Properties Approval_Properties Budget_Properties
    Semver_Properties Interrupts_Properties Perm_Properties Router_Properties
    Assemble_Properties Tool_Properties Run_Properties Lru_Properties
    Tool_Cache_Properties Failover_Properties Run_Guard
begin

text \<open>
  A verification library for the agent runtime of this repository (the Go packages under \<open>src/agent\<close>).

  \<^bold>\<open>The program.\<close> An agent is a loop over a conversation. The conversation is a tree of messages with branches
  (\<open>agent/tree\<close>); every change of the tree is written to a write-ahead log and a store, and read back after a crash
  (\<open>agent/store\<close>). The loop (\<open>agent/agent.go\<close>) takes submitted messages from an inbox, compacts the branch when it grew
  too long, calls a model through a router that chooses and fails over between profiles (\<open>agent/provider/router\<close>),
  assembles the streamed answer (\<open>agent/types/assemble.go\<close>), and runs the tool calls of the answer. A tool call passes
  the argument check, a gate, approval rules and people (\<open>agent/types/gate.go\<close>, \<open>grant.go\<close>, \<open>agent/approval_policy.go\<close>,
  \<open>agent/definition/rule.go\<close>). What models and tools cost is kept in a ledger (\<open>agent/types/budget.go\<close>).

  \<^bold>\<open>Foundations.\<close>
  \<^item> \<open>Prelude\<close>: outcomes of loops that may not stop (\<open>outcome_simps\<close>), Go maps as association lists with one entry per
    key (\<open>gomap_simps\<close>), which the proofs see through \<open>map_of\<close>.
  \<^item> \<open>Go_Strings\<close>: the functions of \<open>strings\<close> and \<open>strconv\<close> the program uses, on byte strings (\<open>gostr_simps\<close>). Case and
    space are those of ASCII.
  \<^item> \<open>Float64\<close>: \<open>float64\<close> as rationals with an explicit rounding to 53 bits (\<open>float_mono\<close> collects the monotonicity
    of the rounded operations). Infinities, NaN and fused multiply-add do not occur in the model.

  \<^bold>\<open>The conversation tree.\<close>
  \<^item> \<open>Conversation\<close> holds messages, nodes and checkpoints (\<open>types/message.go\<close>, \<open>types/node.go\<close>). \<open>Backend\<close> holds the
    operations a transaction carries and the two interfaces a tree writes through: \<open>locale durable_store\<close>
    (\<open>types.Store\<close>) and \<open>locale write_ahead_log\<close> (\<open>types.WAL\<close>).
  \<^item> \<open>Conv_Tree\<close> is \<open>tree.go\<close>: one definition per operation (\<open>add_child\<close>, \<open>fork_branch\<close>, \<open>archive\<close>, \<open>rewind\<close>, ...), each
    with its log and store writes. \<open>Tree_Invariant\<close> proves that each keeps the tree well-formed; \<open>Tree_Views\<close> models
    flattening and differences; \<open>Tree_Subtree\<close> shows that \<open>collectSubtree\<close> ends and finds exactly the descendants;
    \<open>Compaction\<close> and \<open>Compact_Branch\<close> model \<open>compact.go\<close>.
  \<^item> \<open>Mem_Store\<close>, \<open>Mem_Wal\<close> and \<open>Recovery\<close> model the in-memory store and log and \<open>RecoverWAL\<close>; they interpret the
    two locales (\<open>ms\<close>, \<open>mw\<close>).
  \<^item> \<open>Tree_Sync\<close> states the abstract content of a store and proves, in \<open>locale tree_backend\<close>, that every mutation writes
    exactly its own change; \<open>Tree_Load\<close> and \<open>Tree_Durability\<close> (interpretation \<open>mb\<close>) draw the consequences for whole
    sessions. The properties are in \<open>Tree_Properties\<close>, \<open>Store_Properties\<close> and \<open>Compact_Properties\<close>.

  \<^bold>\<open>Decisions about tool calls.\<close>
  \<^item> \<open>Grants\<close> and \<open>Gates\<close> model standing approvals and gate outcomes; outcomes are ordered by severity
    (\<open>instantiation gate_outcome :: linorder\<close>), and composing gates takes the maximum.
  \<^item> \<open>Approval\<close> models the approval policy, whose state is also the fold of the records on the branch. \<open>Semver\<close>
    models versions and ranges, \<open>Perm_Rules\<close> the permission rules and the gate built from them. \<open>Interrupts\<close> models the
    router that carries questions to people and their replies back, channels included.

  \<^bold>\<open>Money.\<close> \<open>Pricing\<close> models rate cards and usage, \<open>Budget\<close> the ledger with reservations, children carved from a
  parent, receipts and tool quotas. \<open>Budget_Ledger\<close> sums what is held; \<open>Budget_Ceilings\<close> shows by one predicate
  (\<open>fits\<close>) that each dimension stays under its ceiling. Amounts are rationals rounded as the code rounds; token counts
  are integers whose ceilings are capped at 2^61, below the width of \<open>int64\<close>, and the properties name that bound.

  \<^bold>\<open>Models.\<close> \<open>Route_State\<close> and \<open>Router\<close> model a session of the model router: locks, pins, the plan of a request and
  the relay of its attempts. \<open>Route_Plan\<close> and \<open>Relay\<close> hold the lemmas on the two halves. \<open>Assemble\<close> models the part
  assembler and the aggregator. \<open>Failover\<close> models the decorators that try again: retries with their waits
  (\<open>provider/retry/retry.go\<close>) and fallback chains with their named rules (\<open>provider/fallback\<close>);
  \<open>Failover_Properties\<close> shows that neither mixes the content of two attempts.

  \<^bold>\<open>Runs.\<close>
  \<^item> \<open>Tool_Args\<close> and \<open>Tool_Call\<close> model one call of a tool (\<open>executeOneTool\<close>) from its start to its answer, and the calls
    of a turn in model order.
  \<^item> \<open>Run_State\<close> and \<open>Run_Loop\<close> model the loop \<open>run\<close>, one function for each stage of an iteration in the order of the
    code. \<open>Run_Invariant\<close> carries a contract of each stage (\<open>goes\<close>) up to the loop: the transcript pairs calls with
    results, and every counter stays within its limit. \<open>Run_Ends\<close> gives the measure by which undisturbed runs end.
  \<^item> \<open>Run_Guard\<close> models the claims of runs on branches and of whole trees (\<open>runguard.go\<close>) and shows that a branch has
    one holder, for any sequence of claims, added branches and releases in which no run adds a branch to a claim it has
    released.

  \<^bold>\<open>Caches.\<close> \<open>Cache_Contract\<close> states the interface of a cache (\<open>types/cache.go\<close>) as \<open>locale cache_contract\<close>;
  \<open>Lru_Cache\<close> models the in-memory cache (\<open>cache/memcache/cache.go\<close>), refines it to a bounded recency list and interprets
  the locale (\<open>lru\<close>). \<open>Lru_Properties\<close> has its properties.
  \<open>Tool_Cache\<close> models the cache of tool results over that interface (\<open>toolcache/toolcache.go\<close>), its concurrent callers
  as program counters between the steps the code makes under its lock. \<open>Tool_Flights\<close> shows that a key is executed once
  at a time and that nobody waits forever; \<open>Tool_Cache_Properties\<close> traces answers to executions in
  \<open>locale tool_over_cache\<close>, an extension of the interface interpreted on the in-memory cache (\<open>lt\<close>).

  \<^bold>\<open>What is an argument.\<close> Code and moments outside the model are arguments of its definitions: new identifiers, the
  clock, what a provider streams, what tools, hooks, people, child agents and guardrails answer, whether a write fails,
  what a selection policy returns, the decoding of JSON tool arguments, glob matching and the host of a URL. Properties
  quantify over them. Go's choice between ready channels is resolved in the order the model's events come in, and the
  room in a channel is an argument of the relay. The run loop has the moments of its safe points (what was submitted,
  whether a stop was requested, where a panic strikes) as the list it consumes, one moment for each iteration, and its
  configuration is fixed for a run. The calls of a turn run one after the other; counters are natural numbers.

  \<^bold>\<open>Bounds and fuel.\<close> Walks along parents and breadth-first collection have the number of nodes plus one as fuel, and
  on a well-formed tree that is shown to be enough (\<open>Tree_Invariant\<close>, \<open>Tree_Subtree\<close>). On other trees the result is an
  outcome that says the loop does not stop. The run loop recurses over its moments; \<open>undisturbed_run_ends\<close> shows that
  eleven moments for each turn are enough.

  \<^bold>\<open>Not modelled.\<close> Adapters of vendors, the model catalog, media conversion and MCP translate to formats and services
  outside the repository. JSON and YAML codecs rest on reflection. File and database stores, journals of durable
  runners, the terminal, metrics and privacy filters are input and output around the modelled core. Retrieval
  (\<open>src/rag\<close>) and evaluation (\<open>src/eval\<close>) are subsystems of their own. The set-up of a run, of a child agent and of
  hooks is left out: their results reach the loop as arguments. Tools of one turn run in parallel in the code when the
  configuration asks for it; the model has one order, and properties on the order of events hold for that order.
\<close>

end
